(* ===== verification/Prelude.thy ===== *)
theory Prelude
  imports Main "HOL-Library.Word"
begin

text \<open>
  Shared vocabulary of the development: the machine types, the result type of code that can
  throw or trap, the list operations that model \<open>memcpy\<close> into the middle of a buffer, the
  little-endian memory image of an integer, and the lemmas on them that the component theories
  use. Nothing in this theory models a function of the program; it is what the language and its
  standard library provide.
\<close>

unbundle bit_operations_syntax

named_theorems ba_defs \<open>definitions of the byte buffer operations\<close>
named_theorems codec_simps \<open>equations of the encoders and decoders\<close>

type_synonym byte = "8 word"
type_synonym bytes = "byte list"

text \<open>
  What can go wrong while the code runs: \<open>std::out_of_range\<close> is thrown and can be caught;
  \<open>Null_deref\<close>, \<open>Div_by_zero\<close> and \<open>Bad_index\<close> are traps (undefined behaviour of C++ that the
  model refuses to give a value), as is \<open>Bad_shift\<close>, a shift by the width of the operand or more;
  \<open>Length_error\<close> is the \<open>std::length_error\<close> of a \<open>resize\<close> to a negative length;
  \<open>Assert_failed\<close> the abort of \<open>CHAT_ASSERT\<close>; \<open>Diverges\<close> marks an input on which a loop never ends.
\<close>

datatype error =
    Out_of_range string
  | Null_deref
  | Div_by_zero
  | Bad_index
  | Bad_shift
  | Length_error
  | Assert_failed
  | Diverges

type_synonym ('a, 's) action = "'s \<Rightarrow> error + 'a \<times> 's"

definition bind_action :: "('a, 's) action \<Rightarrow> ('a \<Rightarrow> ('b, 's) action) \<Rightarrow> ('b, 's) action" where
  "bind_action m f s = (case m s of Inl e \<Rightarrow> Inl e | Inr (x, s') \<Rightarrow> f x s')"

definition return_action :: "'a \<Rightarrow> ('a, 's) action" where
  "return_action x s = Inr (x, s)"

definition throw_action :: "error \<Rightarrow> ('a, 's) action" where
  "throw_action e s = Inl e"

lemma bind_action_Inr: "m s = Inr (x, s') \<Longrightarrow> bind_action m f s = f x s'"
  by (simp add: bind_action_def)

lemma bind_action_Inl: "m s = Inl e \<Longrightarrow> bind_action m f s = Inl e"
  by (simp add: bind_action_def)

lemma bind_action_eq_Inr:
  "bind_action m f s = Inr r \<longleftrightarrow> (\<exists>x s'. m s = Inr (x, s') \<and> f x s' = Inr r)"
  by (auto simp: bind_action_def split: sum.splits)

lemma return_action_apply [simp]: "return_action x s = Inr (x, s)"
  by (simp add: return_action_def)

lemma throw_action_apply [simp]: "throw_action e s = Inl e"
  by (simp add: throw_action_def)

lemma bind_action_assoc:
  "bind_action (bind_action m f) g = bind_action m (\<lambda>x. bind_action (f x) g)"
  by (rule ext) (auto simp: bind_action_def split: sum.splits)

lemma bind_action_cong [fundef_cong]:
  assumes "s = t" and "m t = n t" and "\<And>x u. n t = Inr (x, u) \<Longrightarrow> f x u = g x u"
  shows "bind_action m f s = bind_action n g t"
  using assms by (auto simp: bind_action_def split: sum.splits)

text \<open>\<open>m; n\<close>, where \<open>m\<close> is a statement whose value is not used.\<close>

definition then_action :: "('a, 's) action \<Rightarrow> ('b, 's) action \<Rightarrow> ('b, 's) action" where
  "then_action m n = bind_action m (\<lambda>_. n)"

text \<open>Reading and changing the state.\<close>

definition gets_action :: "('s \<Rightarrow> 'a) \<Rightarrow> ('a, 's) action" where
  "gets_action f s = Inr (f s, s)"

definition modify_action :: "('s \<Rightarrow> 's) \<Rightarrow> (unit, 's) action" where
  "modify_action f s = Inr ((), f s)"

text \<open>
  The errors that are C++ exceptions, so that a \<open>catch(...)\<close> sees them; the others are traps.
\<close>

fun is_exception :: "error \<Rightarrow> bool" where
  "is_exception (Out_of_range _) = True"
| "is_exception Length_error = True"
| "is_exception _ = False"

text \<open>
  \<open>try { return m; } catch(...) { }\<close>: \<open>None\<close> after an exception. What the interrupted action had done
  to the state is forgotten; this is for callers that drop the state then.
\<close>

definition try_action :: "('a, 's) action \<Rightarrow> ('a option, 's) action" where
  "try_action m s =
     (case m s of
        Inl e \<Rightarrow> if is_exception e then Inr (None, s) else Inl e
      | Inr (x, s') \<Rightarrow> Inr (Some x, s'))"

lemma map_sum_eq_Inr: "map_sum f g x = Inr y \<longleftrightarrow> (\<exists>z. x = Inr z \<and> y = g z)"
  by (cases x) auto

subsection \<open>What an action keeps\<close>

text \<open>A property of the state that holds after every normal return when it holds before.\<close>

definition keeps :: "('s \<Rightarrow> bool) \<Rightarrow> ('a, 's) action \<Rightarrow> bool" where
  "keeps P m \<longleftrightarrow> (\<forall>s x s'. P s \<longrightarrow> m s = Inr (x, s') \<longrightarrow> P s')"

named_theorems keeps_intros \<open>rules that show what an action keeps\<close>

lemma keepsD: "keeps P m \<Longrightarrow> m s = Inr (x, s') \<Longrightarrow> P s \<Longrightarrow> P s'"
  by (auto simp: keeps_def)

lemma keeps_return [keeps_intros]: "keeps P (return_action x)"
  by (simp add: keeps_def)

lemma keeps_throw [keeps_intros]: "keeps P (throw_action e)"
  by (simp add: keeps_def)

lemma keeps_gets [keeps_intros]: "keeps P (gets_action f)"
  by (simp add: keeps_def gets_action_def)

lemma keeps_modify [keeps_intros]: "(\<And>s. P s \<Longrightarrow> P (f s)) \<Longrightarrow> keeps P (modify_action f)"
  by (simp add: keeps_def modify_action_def)

lemma keeps_bind [keeps_intros]: "keeps P m \<Longrightarrow> (\<And>x. keeps P (f x)) \<Longrightarrow> keeps P (bind_action m f)"
  unfolding keeps_def bind_action_eq_Inr by blast

lemma keeps_then [keeps_intros]: "keeps P m \<Longrightarrow> keeps P n \<Longrightarrow> keeps P (then_action m n)"
  by (simp add: then_action_def keeps_bind)

lemma keeps_if [keeps_intros]: "(b \<Longrightarrow> keeps P m) \<Longrightarrow> (\<not> b \<Longrightarrow> keeps P n) \<Longrightarrow> keeps P (if b then m else n)"
  by simp

lemma keeps_apply: "(\<And>s. keeps P (m s)) \<Longrightarrow> keeps P (\<lambda>s. m s s)"
  by (auto simp: keeps_def)

text \<open>\<open>std::to_string\<close> of an unsigned number.\<close>

fun dec :: "nat \<Rightarrow> string" where
  "dec n = (if n < 10 then [char_of (48 + n)] else dec (n div 10) @ [char_of (48 + n mod 10)])"

declare dec.simps [simp del]

text \<open>The bytes of a string literal.\<close>

definition str :: "string \<Rightarrow> bytes" where
  "str s = map of_char s"

subsection \<open>Unsigned 64-bit subtraction on natural numbers\<close>

text \<open>
  \<open>size_t\<close> values are natural numbers below \<open>2 ^ 64\<close>. Sums of buffer sizes cannot reach that
  bound, but the code also subtracts, and there the wrap-around is written out.
\<close>

definition size_sub :: "nat \<Rightarrow> nat \<Rightarrow> nat" where
  "size_sub a b = (if b \<le> a then a - b else 2 ^ 64 + a - b)"

lemma size_sub_le [simp]: "b \<le> a \<Longrightarrow> size_sub a b = a - b"
  by (simp add: size_sub_def)

subsection \<open>Overwriting a segment of a list\<close>

text \<open>\<open>blit p bs xs\<close> is \<open>memcpy(xs + p, bs, |bs|)\<close>: the bytes at \<open>p\<close> are replaced.\<close>

definition blit :: "nat \<Rightarrow> 'a list \<Rightarrow> 'a list \<Rightarrow> 'a list" where
  "blit p bs xs = take p xs @ bs @ drop (p + length bs) xs"

lemma length_blit [simp]: "p + length bs \<le> length xs \<Longrightarrow> length (blit p bs xs) = length xs"
  by (simp add: blit_def)

lemma blit_Nil [simp]: "blit p [] xs = xs"
  by (simp add: blit_def)

lemma blit_append:
  assumes "p + length a + length b \<le> length xs"
  shows "blit (p + length a) b (blit p a xs) = blit p (a @ b) xs"
  using assms by (simp add: blit_def add.commute add.left_commute)

lemma blit_append2:
  "p + length bs \<le> length xs \<Longrightarrow> blit p bs (xs @ ys) = blit p bs xs @ ys"
  by (simp add: blit_def)

lemma blit_append1:
  "length xs \<le> p \<Longrightarrow> blit p bs (xs @ ys) = xs @ blit (p - length xs) bs ys"
  by (simp add: blit_def)

lemma take_blit: "p + length bs \<le> length xs \<Longrightarrow> take p (blit p bs xs) = take p xs"
  by (simp add: blit_def)

lemma take_drop_blit:
  "p + length bs \<le> length xs \<Longrightarrow> take (length bs) (drop p (blit p bs xs)) = bs"
  by (simp add: blit_def)

lemma drop_blit:
  "p + length bs \<le> length xs \<Longrightarrow> drop (p + length bs) (blit p bs xs) = drop (p + length bs) xs"
  by (simp add: blit_def)

lemma take_blit_ge:
  assumes "p \<le> n" and "n \<le> length xs" and "p + length bs \<le> length xs"
  shows "take (max n (p + length bs)) (blit p bs xs) = take p xs @ bs @ drop (p + length bs) (take n xs)"
  using assms by (auto simp: blit_def max_def drop_take take_all_iff)

subsection \<open>A chain of equally sized blocks\<close>

definition blocks_of :: "nat \<Rightarrow> 'a list list \<Rightarrow> bool" where
  "blocks_of b xss \<longleftrightarrow> (\<forall>xs \<in> set xss. length xs = b)"

lemma blocks_of_simps [simp]:
  "blocks_of b []"
  "blocks_of b (xs # xss) \<longleftrightarrow> length xs = b \<and> blocks_of b xss"
  "blocks_of b (xss @ yss) \<longleftrightarrow> blocks_of b xss \<and> blocks_of b yss"
  by (auto simp: blocks_of_def)

lemma blocks_of_nth: "blocks_of b xss \<Longrightarrow> c < length xss \<Longrightarrow> length (xss ! c) = b"
  by (simp add: blocks_of_def)

lemma blocks_of_update: "blocks_of b xss \<Longrightarrow> length xs = b \<Longrightarrow> blocks_of b (xss[c := xs])"
  by (auto simp: blocks_of_def dest: set_update_subset_insert [THEN subsetD])

lemma length_concat_blocks: "blocks_of b xss \<Longrightarrow> length (concat xss) = b * length xss"
  by (induction xss) auto

lemma blocks_of_replicate [simp]: "length xs = b \<Longrightarrow> blocks_of b (replicate n xs)"
  by (simp add: blocks_of_def)

lemma drop_concat_blocks:
  "blocks_of b xss \<Longrightarrow> c < length xss \<Longrightarrow> p \<le> b \<Longrightarrow>
     drop (c * b + p) (concat xss) = drop p (xss ! c) @ concat (drop (Suc c) xss)"
proof (induction xss arbitrary: c)
  case Nil
  then show ?case by simp
next
  case (Cons xs xss)
  then show ?case by (cases c) (simp_all add: add.assoc)
qed

lemma blit_concat_blocks:
  "blocks_of b xss \<Longrightarrow> c < length xss \<Longrightarrow> p + length bs \<le> b \<Longrightarrow>
     concat (xss[c := blit p bs (xss ! c)]) = blit (c * b + p) bs (concat xss)"
proof (induction xss arbitrary: c)
  case Nil
  then show ?case by simp
next
  case (Cons xs xss)
  then show ?case
    by (cases c) (simp_all add: blit_append2 blit_append1 add.assoc)
qed

subsection \<open>The memory image of an integer\<close>

text \<open>
  The \<open>n\<close> bytes of an object of integer type on a little-endian host, lowest address first, and
  the integer read back from such an image.
\<close>

fun mem_image :: "nat \<Rightarrow> 'a::len word \<Rightarrow> bytes" where
  "mem_image 0 w = []"
| "mem_image (Suc n) w = ucast w # mem_image n (drop_bit 8 w)"

fun mem_value :: "bytes \<Rightarrow> 'a::len word" where
  "mem_value [] = 0"
| "mem_value (b # bs) = ucast b OR push_bit 8 (mem_value bs)"

lemma length_mem_image [simp]: "length (mem_image n w) = n"
  by (induction n w rule: mem_image.induct) simp_all

lemma mem_value_image: "mem_value (mem_image n w) = take_bit (8 * n) (w :: 'a::len word)"
proof (induction n w rule: mem_image.induct)
  case (1 w)
  then show ?case by simp
next
  case (2 n w)
  show ?case
    by (rule bit_word_eqI)
      (auto simp: "2.IH" bit_or_iff bit_push_bit_iff bit_take_bit_iff bit_drop_bit_eq
        bit_ucast_iff)
qed

lemma mem_value_image_full:
  "LENGTH('a) \<le> 8 * n \<Longrightarrow> mem_value (mem_image n w) = (w :: 'a::len word)"
  by (simp add: mem_value_image take_bit_word_eq_self)

end
