(* ===== verification/LoadBalance.thy ===== *)
theory LoadBalance
  imports Prelude "HOL-Library.AList" "HOL-Library.Multiset"
begin

text \<open>
  \<^verbatim>\<open>src/chat/streams/load_balance.cc\<close>: the connection statistics, the round-robin and the weighted
  balancer, and the balancer driven by service discovery. Items are shared between a balancer's
  table and its list of candidates, so they live in a store indexed by address. An
  \<open>unordered_map\<close> is an association list with distinct keys, in an iteration order the theorems do
  not depend on. \<open>rand()\<close> is an argument; the floating-point product of \<open>FairLoadBalanceItem\<close> is a
  parameter, of which only the clamp the code applies to it is used.
\<close>

section \<open>Statistics\<close>

record HolderStats =
  st_usedTime :: "32 word"
  st_total :: "32 word"
  st_doing :: "32 word"
  st_timeouts :: "32 word"
  st_oks :: "32 word"
  st_errs :: "32 word"

definition HolderStats_clear :: "HolderStats \<Rightarrow> HolderStats" where
  "HolderStats_clear s = s\<lparr>st_usedTime := 0, st_total := 0, st_doing := 0, st_timeouts := 0,
                           st_oks := 0, st_errs := 0\<rparr>"

definition HolderStats_new :: HolderStats where
  "HolderStats_new = \<lparr>st_usedTime = 0, st_total = 0, st_doing = 0, st_timeouts = 0, st_oks = 0, st_errs = 0\<rparr>"

definition stats_add :: "HolderStats \<Rightarrow> HolderStats \<Rightarrow> HolderStats" where
  "stats_add a b =
     \<lparr>st_usedTime = st_usedTime a + st_usedTime b, st_total = st_total a + st_total b,
      st_doing = st_doing a + st_doing b, st_timeouts = st_timeouts a + st_timeouts b,
      st_oks = st_oks a + st_oks b, st_errs = st_errs a + st_errs b\<rparr>"

record HolderStatsSet =
  m_lastUpdateTime :: "32 word"
  m_stats :: "HolderStats list"

definition HolderStatsSet_new :: "32 word \<Rightarrow> HolderStatsSet" where
  "HolderStatsSet_new sz = \<lparr>m_lastUpdateTime = 0, m_stats = replicate (unat sz) HolderStats_new\<rparr>"

definition HolderStatsSet_getTotal :: "HolderStatsSet \<Rightarrow> HolderStats" where
  "HolderStatsSet_getTotal hs = foldl stats_add HolderStats_new (m_stats hs)"

text \<open>The loop of \<open>HolderStatsSet::init\<close>, from \<open>t\<close> and \<open>i\<close> on; \<open>t\<close> is a \<open>uint32_t\<close>.\<close>

function clear_loop :: "32 word \<Rightarrow> 32 word \<Rightarrow> nat \<Rightarrow> HolderStats list \<Rightarrow> HolderStats list" where
  "clear_loop now t i stats =
     (if t \<le> now \<and> i < length stats
      then clear_loop now (t + 1) (Suc i)
             (stats[unat t mod length stats := HolderStats_clear (stats ! (unat t mod length stats))])
      else stats)"
  by pat_completeness auto
termination
  by (relation "measure (\<lambda>(now, t, i, stats). length stats - i)") auto

declare clear_loop.simps [simp del]

definition HolderStatsSet_init :: "32 word \<Rightarrow> HolderStatsSet \<Rightarrow> HolderStatsSet" where
  "HolderStatsSet_init now hs =
     (if m_lastUpdateTime hs < now
      then \<lparr>m_lastUpdateTime = now, m_stats = clear_loop now (m_lastUpdateTime hs + 1) 0 (m_stats hs)\<rparr>
      else hs)"

text \<open>\<open>HolderStatsSet::get\<close> returns a reference to a slot: its index.\<close>

definition HolderStatsSet_get :: "32 word \<Rightarrow> HolderStatsSet \<Rightarrow> error + nat \<times> HolderStatsSet" where
  "HolderStatsSet_get now hs =
     (let hs' = HolderStatsSet_init now hs in
      if m_stats hs' = [] then Inl Div_by_zero
      else Inr (unat now mod length (m_stats hs'), hs'))"

section \<open>Items\<close>

text \<open>The stream of an item: null, or a stream that is or is not connected.\<close>

record LoadBalanceItem =
  li_id :: "64 word"
  li_stream :: "bool option"
  li_weight :: int
  li_fair :: bool
  li_stats :: HolderStatsSet

type_synonym item_store = "nat \<Rightarrow> LoadBalanceItem"

definition LoadBalanceItem_isValid :: "LoadBalanceItem \<Rightarrow> bool" where
  "LoadBalanceItem_isValid it = (li_stream it = Some True)"

text \<open>\<open>fw it\<close> is \<open>m_weight * m_stats.getWeight()\<close>, truncated to \<open>int32_t\<close>.\<close>

definition getWeight :: "(LoadBalanceItem \<Rightarrow> int) \<Rightarrow> LoadBalanceItem \<Rightarrow> error + int" where
  "getWeight fw it =
     (if li_fair it
      then case li_stream it of
             None \<Rightarrow> Inl Null_deref
           | Some connected \<Rightarrow> Inr (if connected then (if fw it > 1 then fw it else 1) else 1)
      else Inr (li_weight it))"

section \<open>Balancers\<close>

datatype lb_type = ROUNDROBIN | WEIGHT | FAIR

text \<open>The two subclasses of \<open>LoadBalance\<close>; \<open>m_weights\<close> is used by \<open>WeightLoadBalance\<close> only.\<close>

datatype lb_class = RoundRobinLoadBalance | WeightLoadBalance

record LoadBalance =
  lb_class :: lb_class
  m_datas :: "(64 word \<times> nat) list"
  m_items :: "nat list"
  m_weights :: "int list"
  m_lastInitTime :: "64 word"

definition valid_items :: "item_store \<Rightarrow> (64 word \<times> nat) list \<Rightarrow> nat list" where
  "valid_items h datas = filter (\<lambda>p. LoadBalanceItem_isValid (h p)) (map snd datas)"

fun weights_loop :: "(LoadBalanceItem \<Rightarrow> int) \<Rightarrow> item_store \<Rightarrow> int \<Rightarrow> nat list \<Rightarrow> error + int list" where
  "weights_loop fw h acc [] = Inr []"
| "weights_loop fw h acc (p # ps) =
     (case getWeight fw (h p) of
        Inl e \<Rightarrow> Inl e
      | Inr w \<Rightarrow> map_sum id ((#) (acc + w)) (weights_loop fw h (acc + w) ps))"

definition initNolock :: "(LoadBalanceItem \<Rightarrow> int) \<Rightarrow> item_store \<Rightarrow> LoadBalance \<Rightarrow> error + LoadBalance" where
  "initNolock fw h lb =
     (let items = valid_items h (m_datas lb) in
      case lb_class lb of
        RoundRobinLoadBalance \<Rightarrow> Inr (lb\<lparr>m_items := items\<rparr>)
      | WeightLoadBalance \<Rightarrow>
          map_sum id (\<lambda>ws. lb\<lparr>m_items := items, m_weights := ws\<rparr>) (weights_loop fw h 0 items))"

definition LoadBalance_getById :: "64 word \<Rightarrow> LoadBalance \<Rightarrow> nat option" where
  "LoadBalance_getById i lb = map_of (m_datas lb) i"

definition LoadBalance_add ::
    "(LoadBalanceItem \<Rightarrow> int) \<Rightarrow> item_store \<Rightarrow> nat \<Rightarrow> LoadBalance \<Rightarrow> error + LoadBalance" where
  "LoadBalance_add fw h v lb =
     initNolock fw h (lb\<lparr>m_datas := AList.update (li_id (h v)) v (m_datas lb)\<rparr>)"

definition LoadBalance_del ::
    "(LoadBalanceItem \<Rightarrow> int) \<Rightarrow> item_store \<Rightarrow> nat \<Rightarrow> LoadBalance \<Rightarrow> error + LoadBalance" where
  "LoadBalance_del fw h v lb =
     initNolock fw h (lb\<lparr>m_datas := AList.delete (li_id (h v)) (m_datas lb)\<rparr>)"

text \<open>\<open>dels\<close> is an in-out parameter: the items found are stored there.\<close>

fun update_dels ::
    "(64 word \<times> nat option) list \<Rightarrow> (64 word \<times> nat) list \<Rightarrow> (64 word \<times> nat option) list \<times> (64 word \<times> nat) list" where
  "update_dels [] datas = ([], datas)"
| "update_dels ((i, old) # dels) datas =
     (case map_of datas i of
        None \<Rightarrow> let (dels', datas') = update_dels dels datas in ((i, old) # dels', datas')
      | Some p \<Rightarrow> let (dels', datas') = update_dels dels (AList.delete i datas) in ((i, Some p) # dels', datas'))"

definition LoadBalance_update ::
    "(LoadBalanceItem \<Rightarrow> int) \<Rightarrow> item_store \<Rightarrow> (64 word \<times> nat) list \<Rightarrow> (64 word \<times> nat option) list \<Rightarrow>
       LoadBalance \<Rightarrow> error + (64 word \<times> nat option) list \<times> LoadBalance" where
  "LoadBalance_update fw h adds dels lb =
     (let (dels', datas) = update_dels dels (m_datas lb) in
      map_sum id (Pair dels') (initNolock fw h
        (lb\<lparr>m_datas := foldl (\<lambda>m (k, v). AList.update k v m) datas adds\<rparr>)))"

definition LoadBalance_set ::
    "(LoadBalanceItem \<Rightarrow> int) \<Rightarrow> item_store \<Rightarrow> nat list \<Rightarrow> LoadBalance \<Rightarrow> error + LoadBalance" where
  "LoadBalance_set fw h vs lb =
     initNolock fw h (lb\<lparr>m_datas := foldl (\<lambda>m p. AList.update (li_id (h p)) p m) [] vs\<rparr>)"

definition LoadBalance_checkInit ::
    "(LoadBalanceItem \<Rightarrow> int) \<Rightarrow> item_store \<Rightarrow> 64 word \<Rightarrow> LoadBalance \<Rightarrow> error + LoadBalance" where
  "LoadBalance_checkInit fw h ts lb =
     (if ts - m_lastInitTime lb > 500
      then map_sum id (\<lambda>lb'. lb'\<lparr>m_lastInitTime := ts\<rparr>) (initNolock fw h lb)
      else Inr lb)"

text \<open>The loop shared by the two \<open>get\<close> functions: the first valid item from \<open>start\<close> on, cyclically.\<close>

definition probe :: "item_store \<Rightarrow> nat list \<Rightarrow> nat \<Rightarrow> nat option" where
  "probe h items start =
     find (\<lambda>p. LoadBalanceItem_isValid (h p))
       (map (\<lambda>i. items ! ((start + i) mod length items)) [0..<length items])"

text \<open>\<open>(v == -1 ? rand() : v)\<close>.\<close>

definition choice :: "64 word \<Rightarrow> 64 word \<Rightarrow> 64 word" where
  "choice rnd v = (if v = - 1 then rnd else v)"

definition RoundRobin_get :: "item_store \<Rightarrow> 64 word \<Rightarrow> 64 word \<Rightarrow> LoadBalance \<Rightarrow> nat option" where
  "RoundRobin_get h rnd v lb =
     (if m_items lb = [] then None
      else let r = (unat (choice rnd v) mod length (m_items lb)) mod 2 ^ 32
           in probe h (m_items lb) r)"

text \<open>\<open>std::upper_bound\<close> on a sorted range: the first element greater than the value, both unsigned.\<close>

fun upper_bound :: "int list \<Rightarrow> 64 word \<Rightarrow> nat" where
  "upper_bound [] dis = 0"
| "upper_bound (w # ws) dis = (if dis < word_of_int w then 0 else Suc (upper_bound ws dis))"

definition getIdx :: "64 word \<Rightarrow> 64 word \<Rightarrow> LoadBalance \<Rightarrow> error + nat option" where
  "getIdx rnd v lb =
     (if m_weights lb = [] then Inr None
      else let tot = word_of_int (last (m_weights lb)) :: 64 word in
        if tot = 0 then Inl Div_by_zero
        else let it = upper_bound (m_weights lb) (choice rnd v mod tot) in
          if it < length (m_weights lb) then Inr (Some it) else Inl Assert_failed)"

definition Weight_get :: "item_store \<Rightarrow> 64 word \<Rightarrow> 64 word \<Rightarrow> LoadBalance \<Rightarrow> error + nat option" where
  "Weight_get h rnd v lb =
     (case getIdx rnd v lb of
        Inl e \<Rightarrow> Inl e
      | Inr None \<Rightarrow> Inr None
      | Inr (Some idx) \<Rightarrow> Inr (probe h (m_items lb) idx))"

definition LoadBalance_get :: "item_store \<Rightarrow> 64 word \<Rightarrow> 64 word \<Rightarrow> LoadBalance \<Rightarrow> error + nat option" where
  "LoadBalance_get h rnd v lb =
     (case lb_class lb of
        RoundRobinLoadBalance \<Rightarrow> Inr (RoundRobin_get h rnd v lb)
      | WeightLoadBalance \<Rightarrow> Weight_get h rnd v lb)"

section \<open>Choosing an item\<close>

lemma probe_rotate:
  "map (\<lambda>i. items ! ((start + i) mod length items)) [0..<length items] = rotate start items"
  by (rule nth_equalityI) (simp_all add: nth_rotate)

lemma probe_None: "probe h items start = None \<longleftrightarrow> (\<forall>p \<in> set items. \<not> LoadBalanceItem_isValid (h p))"
  unfolding probe_def probe_rotate by (auto simp: find_None_iff)

lemma probe_Some: "probe h items start = Some p \<Longrightarrow> p \<in> set items \<and> LoadBalanceItem_isValid (h p)"
  unfolding probe_def probe_rotate find_Some_iff by (metis nth_mem set_rotate)

lemma probe_first:
  assumes "items \<noteq> []" and "LoadBalanceItem_isValid (h (items ! (start mod length items)))"
  shows "probe h items start = Some (items ! (start mod length items))"
proof -
  have "rotate start items = items ! (start mod length items) # tl (rotate start items)"
    using assms(1) by (metis hd_Cons_tl hd_rotate_conv_nth rotate_is_Nil_conv)
  with assms(2) show ?thesis unfolding probe_def probe_rotate by (metis find.simps(2))
qed

lemma mset_rotate1: "mset (rotate1 xs) = mset xs"
  by (cases xs) simp_all

lemma mset_rotate: "mset (rotate k xs) = mset xs"
  by (induction k) (simp_all add: mset_rotate1)

section \<open>Weights\<close>

fun prefix_sums :: "int \<Rightarrow> int list \<Rightarrow> int list" where
  "prefix_sums acc [] = []"
| "prefix_sums acc (w # ws) = (acc + w) # prefix_sums (acc + w) ws"

lemma length_prefix_sums [simp]: "length (prefix_sums acc ws) = length ws"
  by (induction ws arbitrary: acc) simp_all

lemma prefix_sums_Nil: "prefix_sums acc ws = [] \<longleftrightarrow> ws = []"
  by (cases ws) simp_all

lemma uint_small: "0 \<le> x \<Longrightarrow> x < 2 ^ 63 \<Longrightarrow> uint (word_of_int x :: 64 word) = x"
  by (simp add: uint_word_of_int)

lemma last_prefix_sums: "ws \<noteq> [] \<Longrightarrow> last (prefix_sums acc ws) = acc + sum_list ws"
proof (induction ws arbitrary: acc)
  case (Cons w ws)
  then show ?case by (cases "ws = []") (simp_all add: prefix_sums_Nil)
qed simp

lemma weights_loop_ok:
  "\<forall>p \<in> set ps. getWeight fw (h p) = Inr (w p) \<Longrightarrow>
     weights_loop fw h acc ps = Inr (prefix_sums acc (map w ps))"
  by (induction ps arbitrary: acc) simp_all

text \<open>The position of a number below the total among the prefix sums of positive weights.\<close>

lemma upper_bound_sums:
  assumes "\<forall>w \<in> set ws. 0 < w" and "0 \<le> acc" and "acc + sum_list ws < 2 ^ 63" and "acc \<le> int d"
    and "int d < acc + sum_list ws"
  shows "upper_bound (prefix_sums acc ws) (of_nat d) < length ws \<and>
         (upper_bound (prefix_sums acc ws) (of_nat d) = i \<longleftrightarrow>
            i < length ws \<and> acc + sum_list (take i ws) \<le> int d \<and> int d < acc + sum_list (take (Suc i) ws))"
  using assms
proof (induction ws arbitrary: acc i)
  case Nil
  then show ?case by simp
next
  case (Cons w ws)
  have pos: "0 < w" "0 \<le> sum_list ws" using Cons.prems(1) by (auto intro!: sum_list_nonneg simp: less_imp_le)
  have d: "d < 2 ^ 64" using Cons.prems(3,5) by simp
  have cmp: "(of_nat d :: 64 word) < word_of_int (acc + w) \<longleftrightarrow> int d < acc + w"
  proof -
    have "0 \<le> acc + w" "acc + w < 2 ^ 63" using pos Cons.prems(2,3) by simp_all
    then have "uint (word_of_int (acc + w) :: 64 word) = acc + w" by (rule uint_small)
    moreover have "unat (of_nat d :: 64 word) = d" using d by (simp add: unat_of_nat)
    then have "uint (of_nat d :: 64 word) = int d" by (metis of_nat_unat)
    ultimately show ?thesis by (simp add: word_less_def)
  qed
  have ge: "0 \<le> sum_list (take k ws)" for k
    using Cons.prems(1) by (intro sum_list_nonneg) (auto dest!: in_set_takeD simp: less_imp_le)
  show ?case
  proof (cases "int d < acc + w")
    case True
    have "acc + sum_list (take i (w # ws)) \<le> int d \<longleftrightarrow> i = 0"
      using True Cons.prems(4) ge [of "i - 1"] by (cases i) auto
    with True Cons.prems(4) cmp show ?thesis by (cases i) auto
  next
    case False
    note IH = Cons.IH [of "acc + w" "i - 1"]
    have "\<not> int d < acc + sum_list (take (Suc 0) (w # ws))" using False by simp
    with IH False cmp Cons.prems pos show ?thesis by (cases i) (auto simp: add.assoc)
  qed
qed

lemma card_int_range:
  assumes "0 \<le> a" and "a \<le> b"
  shows "card {d :: nat. a \<le> int d \<and> int d < b} = nat (b - a)"
proof -
  have "{d :: nat. a \<le> int d \<and> int d < b} = {nat a..<nat b}" using assms by auto
  then show ?thesis using assms by (simp add: nat_diff_distrib)
qed

lemma of_nat_not_max: "n < 2 ^ 64 - 1 \<Longrightarrow> (of_nat n :: 64 word) \<noteq> - 1"
proof
  assume n: "n < 2 ^ 64 - 1" and "(of_nat n :: 64 word) = - 1"
  then have "of_nat (n + 1) = (0 :: 64 word)" by simp
  then have "2 ^ 64 dvd n + 1" unfolding word_of_nat_eq_0_iff by simp
  with n show False by (auto dest: dvd_imp_le)
qed

lemma getIdx_sums:
  assumes "m_weights lb = prefix_sums 0 ws" and "ws \<noteq> []" and "\<forall>w \<in> set ws. 0 < w"
    and "sum_list ws < 2 ^ 63" and "int d < sum_list ws"
  shows "getIdx rnd (of_nat d) lb = Inr (Some (upper_bound (prefix_sums 0 ws) (of_nat d))) \<and>
         upper_bound (prefix_sums 0 ws) (of_nat d) < length ws"
proof -
  have pos: "0 \<le> sum_list ws" using assms(5) by simp
  have d: "d < 2 ^ 63" using assms(4,5) by simp
  have ud: "unat (of_nat d :: 64 word) = d" using d by (simp add: unat_of_nat)
  have ne: "(of_nat d :: 64 word) \<noteq> - 1" using d by (intro of_nat_not_max) simp
  let ?tot = "word_of_int (sum_list ws) :: 64 word"
  have ut: "uint ?tot = sum_list ws" using pos assms(4) by (rule uint_small)
  have lt: "(of_nat d :: 64 word) < ?tot"
    using assms(5) ut ud unfolding word_less_def by (metis of_nat_unat)
  then have "?tot \<noteq> 0" "of_nat d mod ?tot = of_nat d"
    by (auto simp: word_gt_0 [symmetric] mod_word_less)
  moreover have "upper_bound (prefix_sums 0 ws) (of_nat d) < length ws"
    using upper_bound_sums [OF assms(3), of 0 d] assms(4,5) by simp
  ultimately show ?thesis
    using assms(1,2) ne by (simp add: getIdx_def choice_def last_prefix_sums prefix_sums_Nil)
qed

lemma valid_weight:
  "p \<in> set (valid_items h datas) \<Longrightarrow> li_fair (h p) \<Longrightarrow> \<exists>w. getWeight fw (h p) = Inr w \<and> 1 \<le> w"
  by (auto simp: valid_items_def LoadBalanceItem_isValid_def getWeight_def)

lemma valid_weight_total: "p \<in> set (valid_items h datas) \<Longrightarrow> \<exists>w. getWeight fw (h p) = Inr w"
  by (auto simp: valid_items_def LoadBalanceItem_isValid_def getWeight_def)

lemma initNolock_ok:
  obtains lb' where "initNolock fw h lb = Inr lb'" "lb_class lb' = lb_class lb" "m_datas lb' = m_datas lb"
    "m_items lb' = valid_items h (m_datas lb)"
    "lb_class lb = WeightLoadBalance \<Longrightarrow>
       m_weights lb' = prefix_sums 0 (map (\<lambda>p. projr (getWeight fw (h p))) (m_items lb'))"
proof -
  let ?items = "valid_items h (m_datas lb)"
  have "weights_loop fw h 0 ?items = Inr (prefix_sums 0 (map (\<lambda>p. projr (getWeight fw (h p))) ?items))"
    using valid_weight_total [of _ h "m_datas lb" fw] by (intro weights_loop_ok) fastforce
  then show ?thesis
    by (cases "lb_class lb") (auto simp: initNolock_def Let_def intro: that)
qed

section \<open>The window of the statistics\<close>

lemma clear_new: "HolderStats_clear s = HolderStats_new"
  by (cases s) (simp add: HolderStats_clear_def HolderStats_new_def)

lemma clear_loop_ok:
  assumes "i \<le> length stats" and "j < length stats" and "unat now < 2 ^ 32 - 1"
    and "unat t \<le> Suc (unat now)"
  shows "length (clear_loop now t i stats) = length stats \<and>
         clear_loop now t i stats ! j =
           (if \<exists>u. unat t \<le> u \<and> u < unat t + (length stats - i) \<and> u \<le> unat now \<and> u mod length stats = j
            then HolderStats_new else stats ! j)"
  using assms
proof (induction "length stats - i" arbitrary: t i stats)
  case 0
  then show ?case by (auto simp: clear_loop.simps [of now t i stats])
next
  case (Suc m)
  let ?n = "length stats" and ?T = "unat t"
  have i: "i < ?n" using Suc.hyps(2) by simp
  show ?case
  proof (cases "t \<le> now")
    case False
    then have "\<not> ?T \<le> unat now" by (simp add: word_le_nat_alt)
    with False show ?thesis by (auto simp: clear_loop.simps [of now t i stats])
  next
    case True
    let ?st = "stats[?T mod ?n := HolderStats_clear (stats ! (?T mod ?n))]"
    have T: "?T \<le> unat now" using True by (simp add: word_le_nat_alt)
    then have "?T + 1 < 2 ^ 32" using Suc.prems(3) by linarith
    then have T1: "unat (t + 1) = Suc ?T" by (simp add: unat_word_ariths)
    have step: "clear_loop now t i stats = clear_loop now (t + 1) (Suc i) ?st"
      using True i by (subst clear_loop.simps) simp
    have IH: "length (clear_loop now (t + 1) (Suc i) ?st) = length ?st \<and>
         clear_loop now (t + 1) (Suc i) ?st ! j =
           (if \<exists>u. unat (t + 1) \<le> u \<and> u < unat (t + 1) + (length ?st - Suc i) \<and> u \<le> unat now \<and> u mod length ?st = j
            then HolderStats_new else ?st ! j)"
      using Suc.hyps(2) Suc.prems i T T1 by (intro Suc.hyps(1)) simp_all
    have eq: "(\<exists>u. ?T \<le> u \<and> u < ?T + (?n - i) \<and> u \<le> unat now \<and> u mod ?n = j) \<longleftrightarrow>
        ?T mod ?n = j \<or> (\<exists>u. Suc ?T \<le> u \<and> u < Suc ?T + (?n - Suc i) \<and> u \<le> unat now \<and> u mod ?n = j)"
    proof
      assume "\<exists>u. ?T \<le> u \<and> u < ?T + (?n - i) \<and> u \<le> unat now \<and> u mod ?n = j"
      then obtain u where u: "?T \<le> u" "u < ?T + (?n - i)" "u \<le> unat now" "u mod ?n = j" by blast
      then have "u = ?T \<or> Suc ?T \<le> u \<and> u < Suc ?T + (?n - Suc i)" using i by linarith
      with u(3,4) show "?T mod ?n = j \<or> (\<exists>u. Suc ?T \<le> u \<and> u < Suc ?T + (?n - Suc i) \<and> u \<le> unat now \<and> u mod ?n = j)"
        by blast
    next
      assume "?T mod ?n = j \<or> (\<exists>u. Suc ?T \<le> u \<and> u < Suc ?T + (?n - Suc i) \<and> u \<le> unat now \<and> u mod ?n = j)"
      then show "\<exists>u. ?T \<le> u \<and> u < ?T + (?n - i) \<and> u \<le> unat now \<and> u mod ?n = j"
      proof
        assume "?T mod ?n = j"
        then show ?thesis using T i by (intro exI [of _ ?T]) simp
      next
        assume "\<exists>u. Suc ?T \<le> u \<and> u < Suc ?T + (?n - Suc i) \<and> u \<le> unat now \<and> u mod ?n = j"
        then obtain u where "Suc ?T \<le> u" "u < Suc ?T + (?n - Suc i)" "u \<le> unat now" "u mod ?n = j" by blast
        then show ?thesis using i by (intro exI [of _ u]) linarith
      qed
    qed
    show ?thesis
      unfolding step using IH Suc.prems(2) by (auto simp: T1 eq clear_new nth_list_update)
  qed
qed

text \<open>
  The abstract view: the statistics of a second. The slots hold the last \<open>n\<close> seconds up to
  \<open>m_lastUpdateTime\<close>; any other second has no statistics.
\<close>

definition window :: "HolderStatsSet \<Rightarrow> nat \<Rightarrow> HolderStats" where
  "window hs s =
     (let n = length (m_stats hs); l = unat (m_lastUpdateTime hs)
      in if s \<le> l \<and> l < s + n then m_stats hs ! (s mod n) else HolderStats_new)"

lemma window_slots:
  assumes "0 < n" and "l < (now :: nat)" and "s \<le> now" and "now < s + n"
  shows "(\<exists>u. Suc l \<le> u \<and> u < Suc l + n \<and> u \<le> now \<and> u mod n = s mod n) \<longleftrightarrow> l < s"
proof
  assume "\<exists>u. Suc l \<le> u \<and> u < Suc l + n \<and> u \<le> now \<and> u mod n = s mod n"
  then obtain u where u: "l < u" "u \<le> now" "u mod n = s mod n" by (auto simp: Suc_le_eq)
  show "l < s"
  proof (rule ccontr)
    assume "\<not> l < s"
    then have "s < u" "u - s < n" using u assms by linarith+
    moreover have "n dvd u - s" using u(3) \<open>s < u\<close> by (metis mod_eq_dvd_iff_nat less_imp_le)
    ultimately show False by (auto dest: dvd_imp_le)
  qed
next
  assume l: "l < s"
  define u where "u = Suc l + (s - Suc l) mod n"
  have "u mod n = (Suc l + (s - Suc l)) mod n" unfolding u_def by (rule mod_add_right_eq)
  moreover have "u \<le> s" using l mod_less_eq_dividend [of "s - Suc l" n] unfolding u_def by linarith
  moreover have "(s - Suc l) mod n < n" using assms(1) by simp
  ultimately show "\<exists>u. Suc l \<le> u \<and> u < Suc l + n \<and> u \<le> now \<and> u mod n = s mod n"
    using l assms(3) by (intro exI [of _ u]) (auto simp: u_def)
qed

text \<open>C31. \<open>HolderStatsSet::init\<close> implements a sliding window. Seen as a function from seconds to
  statistics, moving to a later second \<open>now\<close> keeps what was recorded for the last \<open>n\<close> seconds,
  gives every second since the last update empty statistics, forgets older seconds, and the slot
  \<open>get\<close> returns is that of \<open>now\<close>. (\<open>now\<close> is below the largest 32-bit value, where the loop's counter
  would wrap around.)\<close>

theorem stats_window_refines:
  assumes "m_stats hs \<noteq> []" and "n = length (m_stats hs)" and "unat now < 2 ^ 32 - 1"
    and "m_lastUpdateTime hs < now"
  shows "(\<forall>s. window (HolderStatsSet_init now hs) s =
              (if s \<le> unat now \<and> unat now < s + n then window hs s else HolderStats_new)) \<and>
         (\<exists>k hs'. HolderStatsSet_get now hs = Inr (k, hs') \<and> k < n \<and>
            m_stats hs' ! k = window hs' (unat now) \<and> hs' = HolderStatsSet_init now hs)"
proof -
  let ?l = "unat (m_lastUpdateTime hs)" and ?N = "unat now"
  let ?st = "clear_loop now (m_lastUpdateTime hs + 1) 0 (m_stats hs)"
  have n: "0 < n" using assms(1,2) by simp
  have lN: "?l < ?N" using assms(4) by (simp add: word_less_nat_alt)
  then have l1: "unat (m_lastUpdateTime hs + 1) = Suc ?l" using assms(3) by (simp add: unat_word_ariths)
  have init: "HolderStatsSet_init now hs = \<lparr>m_lastUpdateTime = now, m_stats = ?st\<rparr>"
    using assms(4) by (simp add: HolderStatsSet_init_def)
  have loop: "length ?st = n" "\<And>j. j < n \<Longrightarrow> ?st ! j =
      (if \<exists>u. Suc ?l \<le> u \<and> u < Suc ?l + n \<and> u \<le> ?N \<and> u mod n = j then HolderStats_new else m_stats hs ! j)"
    using clear_loop_ok [of 0 "m_stats hs" _ now "m_lastUpdateTime hs + 1"] assms(2,3) lN l1 n by auto
  have "?st ! (s mod n) = window hs s" if "s \<le> ?N" "?N < s + n" for s
    using loop(2) [of "s mod n"] window_slots [OF n lN that] n that lN assms(2) by (auto simp: window_def Let_def)
  then have "window (HolderStatsSet_init now hs) s =
      (if s \<le> ?N \<and> ?N < s + n then window hs s else HolderStats_new)" for s
    by (auto simp: init window_def [of "\<lparr>m_lastUpdateTime = now, m_stats = ?st\<rparr>"] loop(1) Let_def)
  moreover have "?st \<noteq> []" using loop(1) n by auto
  then have "HolderStatsSet_get now hs = Inr (?N mod n, HolderStatsSet_init now hs)"
    by (simp add: HolderStatsSet_get_def init loop(1))
  moreover have "m_stats (HolderStatsSet_init now hs) ! (?N mod n) = window (HolderStatsSet_init now hs) ?N"
    using n by (simp add: init window_def loop(1))
  ultimately show ?thesis using n by simp
qed

theorem stats_window_refines_witness:
  "window (HolderStatsSet_init 12 \<lparr>m_lastUpdateTime = 10, m_stats = [HolderStats_new\<lparr>st_oks := 3\<rparr>,
       HolderStats_new\<lparr>st_oks := 4\<rparr>, HolderStats_new\<lparr>st_oks := 5\<rparr>]\<rparr>) 10 = HolderStats_new\<lparr>st_oks := 4\<rparr> \<and>
   window (HolderStatsSet_init 12 \<lparr>m_lastUpdateTime = 10, m_stats = [HolderStats_new\<lparr>st_oks := 3\<rparr>,
       HolderStats_new\<lparr>st_oks := 4\<rparr>, HolderStats_new\<lparr>st_oks := 5\<rparr>]\<rparr>) 11 = HolderStats_new"
  using stats_window_refines [of "\<lparr>m_lastUpdateTime = 10, m_stats = [HolderStats_new\<lparr>st_oks := 3\<rparr>,
       HolderStats_new\<lparr>st_oks := 4\<rparr>, HolderStats_new\<lparr>st_oks := 5\<rparr>]\<rparr>" 3 12]
  by (simp add: window_def)

section \<open>What the balancers guarantee\<close>

text \<open>\<open>RoundRobinLoadBalance::get\<close> returns an item exactly when one of its candidates is valid, and
  then a valid candidate; when all are valid, the keys of any \<open>n\<close> consecutive calls (\<open>n\<close> the number
  of candidates) reach every candidate exactly once.\<close>

theorem round_robin_even:
  assumes "m_items lb \<noteq> []" and "length (m_items lb) < 2 ^ 32"
  shows "(RoundRobin_get h rnd v lb = None \<longleftrightarrow> (\<forall>p \<in> set (m_items lb). \<not> LoadBalanceItem_isValid (h p))) \<and>
         (\<forall>p. RoundRobin_get h rnd v lb = Some p \<longrightarrow> p \<in> set (m_items lb) \<and> LoadBalanceItem_isValid (h p)) \<and>
         ((\<forall>p \<in> set (m_items lb). LoadBalanceItem_isValid (h p)) \<longrightarrow> k + length (m_items lb) < 2 ^ 64 \<longrightarrow>
            mset (map (\<lambda>i. RoundRobin_get h rnd (of_nat (k + i)) lb) [0..<length (m_items lb)])
              = mset (map Some (m_items lb)))"
proof (intro conjI impI)
  let ?items = "m_items lb" and ?n = "length (m_items lb)"
  have get: "\<exists>r. RoundRobin_get h rnd v lb = probe h ?items r" for v
    using assms(1) by (auto simp: RoundRobin_get_def Let_def)
  show "RoundRobin_get h rnd v lb = None \<longleftrightarrow> (\<forall>p \<in> set ?items. \<not> LoadBalanceItem_isValid (h p))"
    using get [of v] probe_None by metis
  show "\<forall>p. RoundRobin_get h rnd v lb = Some p \<longrightarrow> p \<in> set ?items \<and> LoadBalanceItem_isValid (h p)"
    using get [of v] probe_Some by metis
  assume all: "\<forall>p \<in> set ?items. LoadBalanceItem_isValid (h p)" and k: "k + ?n < 2 ^ 64"
  have "RoundRobin_get h rnd (of_nat (k + i)) lb = Some (rotate k ?items ! i)" if i: "i < ?n" for i
  proof -
    have u: "unat (of_nat (k + i) :: 64 word) = k + i" using k i unfolding unat_of_nat by (intro mod_less) simp
    have "(of_nat (k + i) :: 64 word) \<noteq> - 1" using k i by (intro of_nat_not_max) simp
    then have c: "unat (choice rnd (of_nat (k + i))) = k + i" using u by (simp add: choice_def)
    have lt: "(k + i) mod ?n < ?n" using i by (intro mod_less_divisor) linarith
    then have r: "(k + i) mod ?n mod 2 ^ 32 = (k + i) mod ?n" using assms(2) by (intro mod_less) linarith
    have "probe h ?items ((k + i) mod ?n) = Some (?items ! ((k + i) mod ?n))"
      using probe_first [of ?items h "(k + i) mod ?n"] assms(1) all lt by simp
    then show ?thesis
      using assms(1) i unfolding RoundRobin_get_def c r Let_def by (simp add: nth_rotate)
  qed
  then have "map (\<lambda>i. RoundRobin_get h rnd (of_nat (k + i)) lb) [0..<?n] = map Some (rotate k ?items)"
    by (intro nth_equalityI) simp_all
  then show "mset (map (\<lambda>i. RoundRobin_get h rnd (of_nat (k + i)) lb) [0..<?n]) = mset (map Some ?items)"
    by (simp add: mset_rotate)
qed

text \<open>A store with one stream up per address below 10, and a balancer over three of them.\<close>

definition demo_items :: item_store where
  "demo_items p = \<lparr>li_id = of_nat p, li_stream = Some (p < 10), li_weight = int p, li_fair = False,
                  li_stats = HolderStatsSet_new 5\<rparr>"

definition demo_lb :: "lb_class \<Rightarrow> LoadBalance" where
  "demo_lb c = \<lparr>lb_class = c, m_datas = [(2, 2), (5, 5), (3, 3)], m_items = [2, 5, 3], m_weights = [2, 7, 10],
               m_lastInitTime = 0\<rparr>"

theorem round_robin_even_witness:
  "mset (map (\<lambda>i. RoundRobin_get demo_items 0 (of_nat (100 + i)) (demo_lb RoundRobinLoadBalance))
      [0..<length (m_items (demo_lb RoundRobinLoadBalance))]) = {#Some 2, Some 5, Some 3#}"
proof -
  have "m_items (demo_lb RoundRobinLoadBalance) \<noteq> []" "length (m_items (demo_lb RoundRobinLoadBalance)) < 2 ^ 32"
    "100 + length (m_items (demo_lb RoundRobinLoadBalance)) < 2 ^ 64"
    "\<forall>p \<in> set (m_items (demo_lb RoundRobinLoadBalance)). LoadBalanceItem_isValid (demo_items p)"
    "mset (map Some (m_items (demo_lb RoundRobinLoadBalance))) = {#Some 2, Some 5, Some 3#}"
    by (simp_all add: demo_lb_def demo_items_def LoadBalanceItem_isValid_def)
  then show ?thesis using round_robin_even [of "demo_lb RoundRobinLoadBalance" demo_items 0 0 100] by metis
qed



end
