(* ===== verification/ServiceBalance.thy ===== *)
theory ServiceBalance
  imports LoadBalance
begin

text \<open>
  \<open>SDLoadBalance\<close> of \<^verbatim>\<open>src/chat/streams/load_balance.cc\<close>, the balancers per domain and service that follow
  the service discovery, and the registries of \<open>IServiceDiscovery\<close> in
  \<^verbatim>\<open>src/chat/streams/service_discovery.cc\<close>. Nested \<open>unordered_map\<close>s are nested association lists. The
  callback that opens a stream to a service is an argument: the stream it returns is null or is
  or is not connected.
\<close>

section \<open>Nested maps\<close>

type_synonym 'v nested = "(string \<times> (string \<times> 'v) list) list"

definition inner :: "'v nested \<Rightarrow> string \<Rightarrow> (string \<times> 'v) list" where
  "inner m d = (case map_of m d of None \<Rightarrow> [] | Some xs \<Rightarrow> xs)"

text \<open>\<open>m[d][s] = v\<close> and the lookup of \<open>m.find(d)\<close> followed by \<open>find(s)\<close>.\<close>

definition nested_put :: "string \<Rightarrow> string \<Rightarrow> 'v \<Rightarrow> 'v nested \<Rightarrow> 'v nested" where
  "nested_put d s v m = AList.update d (AList.update s v (inner m d)) m"

definition nested_get :: "'v nested \<Rightarrow> string \<Rightarrow> string \<Rightarrow> 'v option" where
  "nested_get m d s = (case map_of m d of None \<Rightarrow> None | Some xs \<Rightarrow> map_of xs s)"

lemma nested_get_put:
  "nested_get (nested_put d s v m) d' s' = (if d' = d \<and> s' = s then Some v else nested_get m d' s')"
  by (auto simp: nested_get_def nested_put_def inner_def update_conv' split: option.splits)

section \<open>The registries of the service discovery\<close>

record ServiceItemInfo =
  si_id :: "64 word"
  si_ip :: string
  si_port :: "16 word"
  si_data :: string
  si_type :: string

record IServiceDiscovery =
  sd_registerInfos :: "(string \<times> (string \<times> (string \<times> string) list) list) list"
  sd_queryInfos :: "unit nested"
  sd_params :: "(string \<times> string) list"

definition addParam :: "string \<Rightarrow> string \<Rightarrow> IServiceDiscovery \<Rightarrow> IServiceDiscovery" where
  "addParam key val sd = sd\<lparr>sd_params := AList.update key val (sd_params sd)\<rparr>"

definition getParam :: "string \<Rightarrow> string \<Rightarrow> IServiceDiscovery \<Rightarrow> string" where
  "getParam key def sd = (case map_of (sd_params sd) key of None \<Rightarrow> def | Some v \<Rightarrow> v)"

definition registerServer ::
    "string \<Rightarrow> string \<Rightarrow> string \<Rightarrow> string \<Rightarrow> IServiceDiscovery \<Rightarrow> IServiceDiscovery" where
  "registerServer domain service ip_and_port dat sd =
     sd\<lparr>sd_registerInfos :=
       nested_put domain service
         (AList.update ip_and_port dat
            (case nested_get (sd_registerInfos sd) domain service of None \<Rightarrow> [] | Some xs \<Rightarrow> xs))
         (sd_registerInfos sd)\<rparr>"

text \<open>A set of services is a map to \<open>()\<close>.\<close>

definition queryServer :: "string \<Rightarrow> string \<Rightarrow> IServiceDiscovery \<Rightarrow> IServiceDiscovery" where
  "queryServer domain service sd = sd\<lparr>sd_queryInfos := nested_put domain service () (sd_queryInfos sd)\<rparr>"

definition setQueryServer :: "(string \<times> string list) list \<Rightarrow> IServiceDiscovery \<Rightarrow> IServiceDiscovery" where
  "setQueryServer v sd =
     sd\<lparr>sd_queryInfos :=
       foldl (\<lambda>m (d, ss). AList.update d (foldl (\<lambda>xs s. AList.update s () xs) (inner m d) ss) m)
         (sd_queryInfos sd) v\<rparr>"

section \<open>The balancers of all services\<close>

record SDLoadBalance =
  sd_store :: item_store
  sd_fresh :: nat
  sd_datas :: "LoadBalance nested"
  sd_types :: "lb_type nested"
  sd_defaultType :: lb_type
  sd_type :: string
  sd_isRefresh :: bool

definition getType :: "string \<Rightarrow> string \<Rightarrow> SDLoadBalance \<Rightarrow> lb_type" where
  "getType domain service sd =
     (case map_of (sd_types sd) domain of
        None \<Rightarrow> sd_defaultType sd
      | Some m \<Rightarrow>
          (case map_of m service of
             None \<Rightarrow> (case map_of m ''all'' of Some t \<Rightarrow> t | None \<Rightarrow> sd_defaultType sd)
           | Some t \<Rightarrow> t))"

definition LoadBalance_new :: "lb_class \<Rightarrow> LoadBalance" where
  "LoadBalance_new c = \<lparr>lb_class = c, m_datas = [], m_items = [], m_weights = [], m_lastInitTime = 0\<rparr>"

definition createLoadBalance :: "lb_type \<Rightarrow> LoadBalance" where
  "createLoadBalance t =
     (case t of ROUNDROBIN \<Rightarrow> LoadBalance_new RoundRobinLoadBalance
      | WEIGHT \<Rightarrow> LoadBalance_new WeightLoadBalance
      | FAIR \<Rightarrow> LoadBalance_new WeightLoadBalance)"

definition createLoadBalanceItem :: "lb_type \<Rightarrow> LoadBalanceItem" where
  "createLoadBalanceItem t =
     \<lparr>li_id = 0, li_stream = None, li_weight = 0, li_fair = (t = FAIR), li_stats = HolderStatsSet_new 5\<rparr>"

definition SDLoadBalance_get :: "string \<Rightarrow> string \<Rightarrow> bool \<Rightarrow> SDLoadBalance \<Rightarrow> LoadBalance option \<times> SDLoadBalance" where
  "SDLoadBalance_get domain service auto_create sd =
     (case nested_get (sd_datas sd) domain service of
        Some lb \<Rightarrow> (Some lb, sd)
      | None \<Rightarrow>
          if \<not> auto_create then (None, sd)
          else let lb = createLoadBalance (getType domain service sd)
               in (Some lb, sd\<lparr>sd_datas := nested_put domain service lb (sd_datas sd)\<rparr>))"

text \<open>The loop that opens a stream for every added service and makes an item for it.\<close>

fun add_items ::
    "(ServiceItemInfo \<Rightarrow> bool option) \<Rightarrow> lb_type \<Rightarrow> (64 word \<times> ServiceItemInfo) list \<Rightarrow> SDLoadBalance \<Rightarrow>
       (64 word \<times> nat) list \<times> SDLoadBalance" where
  "add_items cb t [] sd = ([], sd)"
| "add_items cb t ((i, info) # vs) sd =
     (if si_type info \<noteq> sd_type sd then add_items cb t vs sd
      else case cb info of
        None \<Rightarrow> add_items cb t vs sd
      | Some connected \<Rightarrow>
          let p = sd_fresh sd;
              it = (createLoadBalanceItem t)\<lparr>li_id := i, li_stream := Some connected, li_weight := 10000\<rparr>;
              (adds, sd') = add_items cb t vs (sd\<lparr>sd_store := (sd_store sd)(p := it), sd_fresh := Suc p\<rparr>)
          in ((i, p) # adds, sd'))"

definition del_ids :: "string \<Rightarrow> (64 word \<times> ServiceItemInfo) list \<Rightarrow> (64 word \<times> ServiceItemInfo) list \<Rightarrow> (64 word \<times> nat option) list" where
  "del_ids ty old new =
     map (\<lambda>(i, _). (i, None)) (filter (\<lambda>(i, info). si_type info = ty \<and> map_of new i = None) old)"

definition add_values ::
    "string \<Rightarrow> (64 word \<times> ServiceItemInfo) list \<Rightarrow> (64 word \<times> ServiceItemInfo) list \<Rightarrow> (64 word \<times> ServiceItemInfo) list" where
  "add_values ty old new = filter (\<lambda>(i, info). si_type info = ty \<and> map_of old i = None) new"

text \<open>\<open>onServiceChange\<close>; the result names the items whose streams are closed.\<close>

definition onServiceChange ::
    "(LoadBalanceItem \<Rightarrow> int) \<Rightarrow> (string \<Rightarrow> string \<Rightarrow> ServiceItemInfo \<Rightarrow> bool option) \<Rightarrow> string \<Rightarrow> string \<Rightarrow>
       (64 word \<times> ServiceItemInfo) list \<Rightarrow> (64 word \<times> ServiceItemInfo) list \<Rightarrow> SDLoadBalance \<Rightarrow>
       error + nat list \<times> SDLoadBalance" where
  "onServiceChange fw cb domain service old new sd =
     (let dels = del_ids (sd_type sd) old new;
          (adds, sd1) = add_items (cb domain service) (getType domain service sd)
                          (add_values (sd_type sd) old new) sd
      in if adds = [] \<and> dels = [] then Inr ([], sd1)
         else case SDLoadBalance_get domain service True sd1 of
           (None, _) \<Rightarrow> Inl Null_deref
         | (Some lb, sd2) \<Rightarrow>
             (case LoadBalance_update fw (sd_store sd2) adds dels lb of
                Inl e \<Rightarrow> Inl e
              | Inr (dels', lb') \<Rightarrow>
                  Inr (List.map_filter snd dels',
                       sd2\<lparr>sd_datas := nested_put domain service lb' (sd_datas sd2)\<rparr>)))"

definition initConf :: "(string \<times> (string \<times> string) list) list \<Rightarrow> SDLoadBalance \<Rightarrow> (string \<times> string list) list \<times> SDLoadBalance" where
  "initConf confs sd =
     (let type_of = (\<lambda>s. if s = ''round_robin'' then ROUNDROBIN else if s = ''weight'' then WEIGHT else FAIR)
      in (map (\<lambda>(d, xs). (d, map fst xs)) (filter (\<lambda>(d, xs). xs \<noteq> []) confs),
          sd\<lparr>sd_types := map (\<lambda>(d, xs). (d, map (\<lambda>(s, t). (s, type_of t)) xs)) (filter (\<lambda>(d, xs). xs \<noteq> []) confs)\<rparr>))"

text \<open>\<open>refresh\<close>: every balancer of the copied table re-initialises itself when its turn has come.\<close>

fun refresh_inner ::
    "(LoadBalanceItem \<Rightarrow> int) \<Rightarrow> item_store \<Rightarrow> 64 word \<Rightarrow> (string \<times> LoadBalance) list \<Rightarrow> error + (string \<times> LoadBalance) list" where
  "refresh_inner fw h ts [] = Inr []"
| "refresh_inner fw h ts ((s, lb) # xs) =
     (case LoadBalance_checkInit fw h ts lb of
        Inl e \<Rightarrow> Inl e
      | Inr lb' \<Rightarrow> map_sum id ((#) (s, lb')) (refresh_inner fw h ts xs))"

fun refresh_loop ::
    "(LoadBalanceItem \<Rightarrow> int) \<Rightarrow> item_store \<Rightarrow> 64 word \<Rightarrow> LoadBalance nested \<Rightarrow> error + LoadBalance nested" where
  "refresh_loop fw h ts [] = Inr []"
| "refresh_loop fw h ts ((d, xs) # m) =
     (case refresh_inner fw h ts xs of
        Inl e \<Rightarrow> Inl e
      | Inr xs' \<Rightarrow> map_sum id ((#) (d, xs')) (refresh_loop fw h ts m))"

definition refresh :: "(LoadBalanceItem \<Rightarrow> int) \<Rightarrow> 64 word \<Rightarrow> SDLoadBalance \<Rightarrow> error + SDLoadBalance" where
  "refresh fw ts sd =
     (if sd_isRefresh sd then Inr sd
      else map_sum id (\<lambda>m. sd\<lparr>sd_datas := m\<rparr>) (refresh_loop fw (sd_store sd) ts (sd_datas sd)))"

text \<open>
  \<open>getConnAs\<close>: the index is a \<open>uint32_t\<close> and is converted to the \<open>uint64_t\<close> of \<open>get\<close>. The result is the
  item whose stream is returned.
\<close>

definition getConnAs :: "64 word \<Rightarrow> string \<Rightarrow> string \<Rightarrow> 32 word \<Rightarrow> SDLoadBalance \<Rightarrow> error + nat option" where
  "getConnAs rnd domain service idx sd =
     (case fst (SDLoadBalance_get domain service False sd) of
        None \<Rightarrow> Inr None
      | Some lb \<Rightarrow> LoadBalance_get (sd_store sd) rnd (ucast idx) lb)"

section \<open>Applying a change\<close>

definition new_item :: "lb_type \<Rightarrow> 64 word \<Rightarrow> bool \<Rightarrow> LoadBalanceItem" where
  "new_item t i connected =
     (createLoadBalanceItem t)\<lparr>li_id := i, li_stream := Some connected, li_weight := 10000\<rparr>"

definition added_ok ::
    "(ServiceItemInfo \<Rightarrow> bool option) \<Rightarrow> lb_type \<Rightarrow> (64 word \<times> ServiceItemInfo) list \<Rightarrow> (64 word \<times> nat) list \<Rightarrow> item_store \<Rightarrow> bool" where
  "added_ok cb t vs adds h \<longleftrightarrow>
     (\<forall>i. Option.bind (map_of vs i) cb = None \<longrightarrow> map_of adds i = None) \<and>
     (\<forall>i c. Option.bind (map_of vs i) cb = Some c \<longrightarrow>
        (\<exists>p. map_of adds i = Some p \<and> h p = new_item t i c))"

lemma added_ok_Cons:
  assumes "added_ok cb t vs adds h" and "map_of vs i = None"
  shows "cb info = None \<Longrightarrow> added_ok cb t ((i, info) # vs) adds h"
    and "cb info = Some c \<Longrightarrow> h p = new_item t i c \<Longrightarrow> added_ok cb t ((i, info) # vs) ((i, p) # adds) h"
  using assms by (auto simp: added_ok_def)

lemma add_items_ok:
  assumes "add_items cb t vs sd = (adds, sd')" and "\<forall>(i, info) \<in> set vs. si_type info = sd_type sd"
    and "distinct (map fst vs)"
  shows "sd_datas sd' = sd_datas sd \<and> sd_types sd' = sd_types sd \<and> sd_defaultType sd' = sd_defaultType sd \<and>
         (\<forall>p < sd_fresh sd. sd_store sd' p = sd_store sd p) \<and> fst ` set adds \<subseteq> fst ` set vs \<and>
         distinct (map fst adds) \<and> added_ok cb t vs adds (sd_store sd')"
  using assms
proof (induction cb t vs sd arbitrary: adds sd' rule: add_items.induct)
  case (1 cb t sd)
  then show ?case by (simp add: added_ok_def)
next
  case (2 cb t i info vs sd)
  have ty: "\<not> si_type info \<noteq> sd_type sd" using "2.prems"(2) by simp
  have i: "map_of vs i = None" "i \<notin> fst ` set vs" using "2.prems"(3) by (auto simp: map_of_eq_None_iff)
  show ?case
  proof (cases "cb info")
    case None
    have IH: "sd_datas sd' = sd_datas sd \<and> sd_types sd' = sd_types sd \<and> sd_defaultType sd' = sd_defaultType sd \<and>
         (\<forall>p < sd_fresh sd. sd_store sd' p = sd_store sd p) \<and> fst ` set adds \<subseteq> fst ` set vs \<and>
         distinct (map fst adds) \<and> added_ok cb t vs adds (sd_store sd')"
      using "2.IH"(2) [OF ty None] "2.prems" None ty by auto
    then show ?thesis using added_ok_Cons(1) [of cb t vs adds "sd_store sd'" i info] i None by auto
  next
    case (Some c)
    let ?p = "sd_fresh sd" and ?it = "new_item t i c"
    define sd1 where "sd1 = sd\<lparr>sd_store := (sd_store sd)(?p := ?it), sd_fresh := Suc ?p\<rparr>"
    obtain adds1 where rec: "add_items cb t vs sd1 = (adds1, sd')" and adds: "adds = (i, ?p) # adds1"
      using "2.prems"(1) Some ty by (auto simp: Let_def sd1_def new_item_def split: prod.splits)
    have IH: "sd_datas sd' = sd_datas sd1 \<and> sd_types sd' = sd_types sd1 \<and> sd_defaultType sd' = sd_defaultType sd1 \<and>
         (\<forall>p < sd_fresh sd1. sd_store sd' p = sd_store sd1 p) \<and> fst ` set adds1 \<subseteq> fst ` set vs \<and>
         distinct (map fst adds1) \<and> added_ok cb t vs adds1 (sd_store sd')"
      using "2.IH"(3) [OF ty Some refl refl, of adds1 sd'] rec "2.prems"(2,3) by (simp add: sd1_def new_item_def)
    then have "sd_store sd' ?p = ?it" by (simp add: sd1_def)
    with IH added_ok_Cons(2) [of cb t vs adds1 "sd_store sd'" i info c ?p] i Some show ?thesis
      by (auto simp: adds sd1_def)
  qed
qed

lemma update_dels_ok:
  assumes "update_dels dels datas = (dels', datas')" and "distinct (map fst dels)"
  shows "(\<forall>i. map_of datas' i = (if i \<in> fst ` set dels then None else map_of datas i)) \<and>
         dels' = map (\<lambda>(i, old). (i, case map_of datas i of None \<Rightarrow> old | Some p \<Rightarrow> Some p)) dels"
  using assms
proof (induction dels datas arbitrary: dels' datas' rule: update_dels.induct)
  case (2 i old dels datas)
  show ?case
  proof (cases "map_of datas i")
    case None
    with 2(1) [OF None] 2(3,4) show ?thesis by (auto split: prod.splits)
  next
    case (Some p)
    have "map (\<lambda>(i, old). (i, case map_of (AList.delete i' datas) i of None \<Rightarrow> old | Some p \<Rightarrow> Some p)) dels =
        map (\<lambda>(i, old). (i, case map_of datas i of None \<Rightarrow> old | Some p \<Rightarrow> Some p)) dels" if "i' = i" for i'
      using 2(4) that by (auto simp: delete_conv' image_iff)
    with 2(2) [OF Some] 2(3,4) Some show ?thesis
      by (auto simp: delete_conv' split: prod.splits)
  qed
qed simp

lemma foldl_update:
  "distinct (map fst adds) \<Longrightarrow>
     map_of (foldl (\<lambda>m (k, v). AList.update k v m) datas adds) i =
       (case map_of adds i of Some p \<Rightarrow> Some p | None \<Rightarrow> map_of datas i)"
proof (induction adds arbitrary: datas)
  case (Cons x adds)
  obtain k v where x: "x = (k, v)" by (cases x)
  have "map_of adds k = None" using Cons.prems by (auto simp: x map_of_eq_None_iff)
  with Cons show ?case by (auto simp: x update_conv' split: option.splits)
qed simp

lemma LoadBalance_update_ok:
  assumes "distinct (map fst adds)" and "distinct (map fst dels)"
  obtains lb' where
    "LoadBalance_update fw h adds dels lb =
       Inr (map (\<lambda>(i, old). (i, case map_of (m_datas lb) i of None \<Rightarrow> old | Some p \<Rightarrow> Some p)) dels, lb')"
    "\<forall>i. map_of (m_datas lb') i = (case map_of adds i of Some p \<Rightarrow> Some p
       | None \<Rightarrow> if i \<in> fst ` set dels then None else map_of (m_datas lb) i)"
    "m_items lb' = valid_items h (m_datas lb')"
proof -
  obtain dels' datas where u: "update_dels dels (m_datas lb) = (dels', datas)" by (meson surj_pair)
  let ?lb = "lb\<lparr>m_datas := foldl (\<lambda>m (k, v). AList.update k v m) datas adds\<rparr>"
  obtain lb' where "initNolock fw h ?lb = Inr lb'" "m_datas lb' = m_datas ?lb" "m_items lb' = valid_items h (m_datas ?lb)"
    using initNolock_ok [of fw h ?lb] by metis
  with u update_dels_ok [OF u assms(2)] foldl_update [OF assms(1), of datas] show ?thesis
    by (intro that [of lb']) (simp_all add: LoadBalance_update_def split: option.splits)
qed

lemma map_of_filter_key:
  "distinct (map fst xs) \<Longrightarrow>
     map_of (filter (\<lambda>(k, v). P k v) xs) k = (case map_of xs k of Some v \<Rightarrow> if P k v then Some v else None | None \<Rightarrow> None)"
  by (induction xs) (auto simp: map_of_eq_None_iff image_iff split: option.splits)

lemma del_ids_keys:
  assumes "distinct (map fst old)"
  shows "i \<in> fst ` set (del_ids ty old new) \<longleftrightarrow>
           (\<exists>info. map_of old i = Some info \<and> si_type info = ty \<and> map_of new i = None)"
    and "distinct (map fst (del_ids ty old new))"
proof -
  show "i \<in> fst ` set (del_ids ty old new) \<longleftrightarrow>
           (\<exists>info. map_of old i = Some info \<and> si_type info = ty \<and> map_of new i = None)"
    using assms by (force simp: del_ids_def image_iff dest: map_of_SomeD)
  have "map fst (del_ids ty old new) = map fst (filter (\<lambda>(i, info). si_type info = ty \<and> map_of new i = None) old)"
    by (simp add: del_ids_def split_beta comp_def)
  then show "distinct (map fst (del_ids ty old new))" using assms by (simp add: distinct_map_filter)
qed

text \<open>The item a balancer has for an id, if there is one.\<close>

definition lookup_item :: "string \<Rightarrow> string \<Rightarrow> SDLoadBalance \<Rightarrow> 64 word \<Rightarrow> nat option" where
  "lookup_item d s sd i =
     (case nested_get (sd_datas sd) d s of None \<Rightarrow> None | Some lb \<Rightarrow> LoadBalance_getById i lb)"

lemma SDLoadBalance_get_create:
  obtains lb sd' where "SDLoadBalance_get d s True sd = (Some lb, sd')" "sd_store sd' = sd_store sd"
    "\<And>d' s'. (d', s') \<noteq> (d, s) \<Longrightarrow> nested_get (sd_datas sd') d' s' = nested_get (sd_datas sd) d' s'"
    "\<And>i. map_of (m_datas lb) i = lookup_item d s sd i"
proof (cases "nested_get (sd_datas sd) d s")
  case None
  let ?lb = "createLoadBalance (getType d s sd)"
  have "m_datas ?lb = []" by (simp add: createLoadBalance_def LoadBalance_new_def split: lb_type.splits)
  with None show ?thesis
    by (intro that [of ?lb "sd\<lparr>sd_datas := nested_put d s ?lb (sd_datas sd)\<rparr>"])
      (auto simp: SDLoadBalance_get_def Let_def lookup_item_def nested_get_put)
next
  case (Some lb)
  then show ?thesis
    by (intro that [of lb sd]) (auto simp: SDLoadBalance_get_def lookup_item_def LoadBalance_getById_def)
qed

lemma onServiceChange_ok:
  assumes "distinct (map fst old)" and "distinct (map fst new)"
  obtains adds closed sd' where "onServiceChange fw cb d s old new sd = Inr (closed, sd')"
    "added_ok (cb d s) (getType d s sd) (add_values (sd_type sd) old new) adds (sd_store sd')"
    "\<And>i. lookup_item d s sd' i = (case map_of adds i of Some p \<Rightarrow> Some p
       | None \<Rightarrow> if i \<in> fst ` set (del_ids (sd_type sd) old new) then None else lookup_item d s sd i)"
    "\<And>i p. i \<in> fst ` set (del_ids (sd_type sd) old new) \<Longrightarrow> lookup_item d s sd i = Some p \<Longrightarrow> p \<in> set closed"
    "\<And>d' s'. (d', s') \<noteq> (d, s) \<Longrightarrow> nested_get (sd_datas sd') d' s' = nested_get (sd_datas sd) d' s'"
proof -
  let ?vs = "add_values (sd_type sd) old new" and ?dels = "del_ids (sd_type sd) old new"
  obtain adds sd1 where a: "add_items (cb d s) (getType d s sd) ?vs sd = (adds, sd1)" by (meson surj_pair)
  have vs: "\<forall>(i, info) \<in> set ?vs. si_type info = sd_type sd" "distinct (map fst ?vs)"
    using assms(2) by (auto simp: add_values_def distinct_map_filter)
  note 1 = add_items_ok [OF a vs]
  have dd: "distinct (map fst ?dels)" using assms(1) by (rule del_ids_keys(2))
  have da: "distinct (map fst adds)" using 1 by simp
  have look1: "lookup_item d s sd1 i = lookup_item d s sd i" for i using 1 by (simp add: lookup_item_def)
  show ?thesis
  proof (cases "adds = [] \<and> ?dels = []")
    case True
    show ?thesis
    proof (rule that [of "[]" sd1 adds])
      show "onServiceChange fw cb d s old new sd = Inr ([], sd1)"
        using True a by (simp add: onServiceChange_def Let_def)
    qed (use True 1 look1 in simp_all)
  next
    case False
    obtain lb sd2 where 2: "SDLoadBalance_get d s True sd1 = (Some lb, sd2)" "sd_store sd2 = sd_store sd1"
      "\<And>d' s'. (d', s') \<noteq> (d, s) \<Longrightarrow> nested_get (sd_datas sd2) d' s' = nested_get (sd_datas sd1) d' s'"
      "\<And>i. map_of (m_datas lb) i = lookup_item d s sd1 i" using SDLoadBalance_get_create [of d s sd1] by blast
    obtain lb' where 3: "LoadBalance_update fw (sd_store sd2) adds ?dels lb =
         Inr (map (\<lambda>(i, old). (i, case map_of (m_datas lb) i of None \<Rightarrow> old | Some p \<Rightarrow> Some p)) ?dels, lb')"
      "\<forall>i. map_of (m_datas lb') i = (case map_of adds i of Some p \<Rightarrow> Some p
         | None \<Rightarrow> if i \<in> fst ` set ?dels then None else map_of (m_datas lb) i)"
      "m_items lb' = valid_items (sd_store sd2) (m_datas lb')"
      using LoadBalance_update_ok [OF da dd, of fw "sd_store sd2" lb] .
    let ?closed = "List.map_filter snd (map (\<lambda>(i, old). (i, case map_of (m_datas lb) i of None \<Rightarrow> old | Some p \<Rightarrow> Some p)) ?dels)"
    let ?sd = "sd2\<lparr>sd_datas := nested_put d s lb' (sd_datas sd2)\<rparr>"
    show ?thesis
    proof (rule that [of ?closed ?sd adds])
      show "onServiceChange fw cb d s old new sd = Inr (?closed, ?sd)"
        using False a 2(1) 3(1) by (auto simp: onServiceChange_def Let_def)
      show "added_ok (cb d s) (getType d s sd) ?vs adds (sd_store ?sd)" using 1 2(2) by simp
      show "lookup_item d s ?sd i = (case map_of adds i of Some p \<Rightarrow> Some p
         | None \<Rightarrow> if i \<in> fst ` set ?dels then None else lookup_item d s sd i)" for i
        using 3(2) [rule_format, of i] 2(4) [of i] look1 [of i]
        by (simp add: lookup_item_def [of d s ?sd] nested_get_put LoadBalance_getById_def split: option.splits)
      show "p \<in> set ?closed" if "i \<in> fst ` set ?dels" "lookup_item d s sd i = Some p" for i p
        using that 2(4) look1 by (force simp: List.map_filter_def image_iff split: prod.splits)
      show "nested_get (sd_datas ?sd) d' s' = nested_get (sd_datas sd) d' s'" if "(d', s') \<noteq> (d, s)" for d' s'
        using that 2(3) [OF that] 1 by (auto simp: nested_get_put)
    qed
  qed
qed


definition demo_sd :: SDLoadBalance where
  "demo_sd = \<lparr>sd_store = (\<lambda>_. new_item FAIR 0 True), sd_fresh = 1, sd_datas = [], sd_types = [],
     sd_defaultType = FAIR, sd_type = ''grpc'', sd_isRefresh = False\<rparr>"


text \<open>The default index of \<open>getConnAs\<close> does not ask for a random connection: \<open>uint32_t idx = -1\<close>
  becomes the number \<open>2 ^ 32 - 1\<close> when it is passed on as \<open>uint64_t\<close>, which is not the marker
  \<open>(uint64_t)-1\<close>, so every such call picks the same connection whatever \<open>rand()\<close> returns.\<close>

theorem default_index_not_random:
  "getConnAs rnd domain service (- 1) sd = getConnAs rnd' domain service (- 1) sd"
proof -
  have "(ucast (- 1 :: 32 word) :: 64 word) = 0xFFFFFFFF"
    by (simp add: unsigned_minus_1_eq_mask mask_eq_exp_minus_1)
  then have "choice r (ucast (- 1 :: 32 word)) = 0xFFFFFFFF" for r by (simp add: choice_def)
  then show ?thesis
    by (simp add: getConnAs_def LoadBalance_get_def RoundRobin_get_def Weight_get_def getIdx_def Let_def
        split: option.splits lb_class.splits)
qed

end
