(* ===== verification/ByteArray.thy ===== *)
theory ByteArray
  imports Prelude
begin

text \<open>
  \<^verbatim>\<open>src/chat/bytearray.cc\<close> and \<^verbatim>\<open>src/chat/endian.h\<close>: the chained byte buffer that every codec of
  the server reads from and writes to. The state is the record \<open>ByteArray\<close>; the chain of nodes
  that starts at \<open>m_root\<close> is the list \<open>m_nodes\<close> of the nodes' memory blocks (so \<open>Node::size\<close> is
  the length of a block) and \<open>m_cur\<close> is the index of the current node, \<open>None\<close> for the null
  pointer. The second half of the theory states the abstract contract of the buffer, a byte
  sequence with a cursor, and proves that every operation implements it.
\<close>

section \<open>Byte order\<close>

datatype endian = CHAT_LITTLE_ENDIAN | CHAT_BIG_ENDIAN

text \<open>The target is x86-64, so \<open>BYTE_ORDER\<close> is little endian.\<close>

definition CHAT_BYTE_ORDER :: endian where
  "CHAT_BYTE_ORDER = CHAT_LITTLE_ENDIAN"

text \<open>\<open>bswap_16\<close>, \<open>bswap_32\<close> and \<open>bswap_64\<close>: the bytes of the object in reverse order.\<close>

definition byteswap :: "'a::len word \<Rightarrow> 'a word" where
  "byteswap value = mem_value (rev (mem_image (LENGTH('a) div 8) value))"

definition byteswapOnLittleEndian :: "'a::len word \<Rightarrow> 'a word" where
  "byteswapOnLittleEndian t = (if CHAT_BYTE_ORDER = CHAT_BIG_ENDIAN then t else byteswap t)"

definition byteswapOnBigEndian :: "'a::len word \<Rightarrow> 'a word" where
  "byteswapOnBigEndian t = (if CHAT_BYTE_ORDER = CHAT_BIG_ENDIAN then byteswap t else t)"

section \<open>The buffer\<close>

record ByteArray =
  m_baseSize :: nat
  m_position :: nat
  m_capacity :: nat
  m_size :: nat
  m_endian :: endian
  m_nodes :: "bytes list"
  m_cur :: "nat option"
  m_owner :: bool

type_synonym 'a ba = "('a, ByteArray) action"

text \<open>
  \<open>new char[s]\<close> leaves the block's contents indeterminate; the model fixes them to zero, and
  nothing below uses more of them than their number.
\<close>

definition Node_new :: "nat \<Rightarrow> bytes" where
  "Node_new s = replicate s 0"

definition ByteArray_new :: "nat \<Rightarrow> ByteArray" where
  "ByteArray_new base_size =
     \<lparr>m_baseSize = base_size, m_position = 0, m_capacity = base_size, m_size = 0,
      m_endian = CHAT_BIG_ENDIAN, m_nodes = [Node_new base_size], m_cur = Some 0,
      m_owner = True\<rparr>"

definition ByteArray_of :: "bytes \<Rightarrow> bool \<Rightarrow> ByteArray" where
  "ByteArray_of data owner =
     \<lparr>m_baseSize = length data, m_position = 0, m_capacity = length data, m_size = length data,
      m_endian = CHAT_BIG_ENDIAN, m_nodes = [data], m_cur = Some 0, m_owner = owner\<rparr>"

definition isLittleEndian :: "ByteArray \<Rightarrow> bool" where
  "isLittleEndian ba \<longleftrightarrow> m_endian ba = CHAT_LITTLE_ENDIAN"

definition setIsLittleEndian :: "bool \<Rightarrow> ByteArray \<Rightarrow> ByteArray" where
  "setIsLittleEndian val ba = ba\<lparr>m_endian := (if val then CHAT_LITTLE_ENDIAN else CHAT_BIG_ENDIAN)\<rparr>"

definition getPosition :: "ByteArray \<Rightarrow> nat" where
  "getPosition ba = m_position ba"

definition getReadSize :: "ByteArray \<Rightarrow> nat" where
  "getReadSize ba = size_sub (m_size ba) (m_position ba)"

definition getCapacity :: "ByteArray \<Rightarrow> nat" where
  "getCapacity ba = size_sub (m_capacity ba) (m_position ba)"

definition next_node :: "bytes list \<Rightarrow> nat \<Rightarrow> nat option" where
  "next_node nodes c = (if Suc c < length nodes then Some (Suc c) else None)"

text \<open>
  \<open>ceil(1.0 * size / m_baseSize)\<close> is exact for the sizes a block can have (below \<open>2 ^ 53\<close>).
\<close>

definition addCapacity :: "nat \<Rightarrow> ByteArray \<Rightarrow> ByteArray" where
  "addCapacity sz ba =
     (if sz = 0 then ba
      else let old_cap = getCapacity ba in
        if old_cap \<ge> sz then ba
        else let sz' = sz - old_cap;
                 count = (sz' + m_baseSize ba - 1) div m_baseSize ba;
                 ba' = ba\<lparr>m_nodes := m_nodes ba @ replicate count (Node_new (m_baseSize ba)),
                          m_capacity := m_capacity ba + count * m_baseSize ba\<rparr>
             in if old_cap = 0
                then ba'\<lparr>m_cur := (if count = 0 then None else Some (length (m_nodes ba)))\<rparr>
                else ba')"

subsection \<open>Writing\<close>

function write_loop :: "bytes \<Rightarrow> nat \<Rightarrow> nat \<Rightarrow> ByteArray \<Rightarrow> error + ByteArray" where
  "write_loop buf npos ncap ba =
     (if buf = [] then Inr ba
      else case m_cur ba of
        None \<Rightarrow> Inl Null_deref
      | Some c \<Rightarrow>
          if length (m_nodes ba) \<le> c then Inl Bad_index
          else let node = m_nodes ba ! c in
            if ncap \<ge> length buf then
              Inr (ba\<lparr>m_nodes := (m_nodes ba)[c := blit npos buf node],
                      m_cur := (if length node = npos + length buf
                                then next_node (m_nodes ba) c else Some c),
                      m_position := m_position ba + length buf\<rparr>)
            else
              case next_node (m_nodes ba) c of
                None \<Rightarrow> Inl Null_deref
              | Some c' \<Rightarrow>
                  write_loop (drop ncap buf) 0 (length (m_nodes ba ! c'))
                    (ba\<lparr>m_nodes := (m_nodes ba)[c := blit npos (take ncap buf) node],
                        m_cur := Some c', m_position := m_position ba + ncap\<rparr>))"
  by pat_completeness auto
termination
  by (relation "measure (\<lambda>(buf, npos, ncap, ba).
        case m_cur ba of None \<Rightarrow> 0 | Some c \<Rightarrow> length (m_nodes ba) - c)")
    (auto simp: next_node_def split: if_splits)

definition ByteArray_write :: "bytes \<Rightarrow> unit ba" where
  "ByteArray_write buf ba0 =
     (if buf = [] then Inr ((), ba0)
      else if m_baseSize ba0 = 0 then Inl Div_by_zero
      else let ba = addCapacity (length buf) ba0;
               npos = m_position ba mod m_baseSize ba
           in case m_cur ba of
                None \<Rightarrow> Inl Null_deref
              | Some c \<Rightarrow>
                  if length (m_nodes ba) \<le> c then Inl Bad_index
                  else case write_loop buf npos (size_sub (length (m_nodes ba ! c)) npos) ba of
                    Inl e \<Rightarrow> Inl e
                  | Inr ba' \<Rightarrow>
                      Inr ((), if m_position ba' > m_size ba'
                               then ba'\<lparr>m_size := m_position ba'\<rparr> else ba'))"

subsection \<open>Reading\<close>

function read_loop :: "nat \<Rightarrow> nat \<Rightarrow> nat \<Rightarrow> bytes ba" where
  "read_loop sz npos ncap ba =
     (if sz = 0 then Inr ([], ba)
      else case m_cur ba of
        None \<Rightarrow> Inl Null_deref
      | Some c \<Rightarrow>
          if length (m_nodes ba) \<le> c then Inl Bad_index
          else let node = m_nodes ba ! c in
            if ncap \<ge> sz then
              Inr (take sz (drop npos node),
                   ba\<lparr>m_cur := (if length node = npos + sz
                                then next_node (m_nodes ba) c else Some c),
                      m_position := m_position ba + sz\<rparr>)
            else
              case next_node (m_nodes ba) c of
                None \<Rightarrow> Inl Null_deref
              | Some c' \<Rightarrow>
                  (case read_loop (sz - ncap) 0 (length (m_nodes ba ! c'))
                          (ba\<lparr>m_cur := Some c', m_position := m_position ba + ncap\<rparr>) of
                     Inl e \<Rightarrow> Inl e
                   | Inr (rest, ba') \<Rightarrow> Inr (take ncap (drop npos node) @ rest, ba')))"
  by pat_completeness auto
termination
  by (relation "measure (\<lambda>(sz, npos, ncap, ba).
        case m_cur ba of None \<Rightarrow> 0 | Some c \<Rightarrow> length (m_nodes ba) - c)")
    (auto simp: next_node_def split: if_splits)

text \<open>\<open>m_cur->size\<close> is evaluated before the loop, also when nothing is to be read.\<close>

definition ByteArray_read :: "nat \<Rightarrow> bytes ba" where
  "ByteArray_read sz ba =
     (if sz > getReadSize ba then Inl (Out_of_range ''not enough len'')
      else if m_baseSize ba = 0 then Inl Div_by_zero
      else let npos = m_position ba mod m_baseSize ba in
        case m_cur ba of
          None \<Rightarrow> Inl Null_deref
        | Some c \<Rightarrow>
            if length (m_nodes ba) \<le> c then Inl Bad_index
            else read_loop sz npos (size_sub (length (m_nodes ba ! c)) npos) ba)"

text \<open>
  The \<open>const\<close> overload starts in the current node, whatever \<open>position\<close> is; it walks a local
  pointer and leaves the buffer as it is.
\<close>

definition ByteArray_read_at :: "nat \<Rightarrow> nat \<Rightarrow> ByteArray \<Rightarrow> error + bytes" where
  "ByteArray_read_at sz position ba =
     (if sz > size_sub (m_size ba) position then Inl (Out_of_range ''not enough len'')
      else if m_baseSize ba = 0 then Inl Div_by_zero
      else let npos = position mod m_baseSize ba in
        case m_cur ba of
          None \<Rightarrow> Inl Null_deref
        | Some c \<Rightarrow>
            if length (m_nodes ba) \<le> c then Inl Bad_index
            else map_sum id fst (read_loop sz npos (size_sub (length (m_nodes ba ! c)) npos) ba))"

subsection \<open>Moving the cursor, clearing, whole-buffer views\<close>

function seek_loop :: "bytes list \<Rightarrow> nat \<Rightarrow> nat option \<Rightarrow> error + nat option" where
  "seek_loop nodes v None = Inl Null_deref"
| "seek_loop nodes v (Some c) =
     (if length nodes \<le> c then Inl Bad_index
      else if v > length (nodes ! c)
      then seek_loop nodes (v - length (nodes ! c)) (next_node nodes c)
      else if v = length (nodes ! c) then Inr (next_node nodes c)
      else Inr (Some c))"
  by pat_completeness auto
termination
  by (relation "measure (\<lambda>(nodes, v, c). case c of None \<Rightarrow> 0 | Some c \<Rightarrow> length nodes - c)")
    (auto simp: next_node_def split: if_splits)

definition setPosition :: "nat \<Rightarrow> unit ba" where
  "setPosition v ba =
     (if v > m_capacity ba then Inl (Out_of_range ''set_position out of range'')
      else case seek_loop (m_nodes ba) v (Some 0) of
        Inl e \<Rightarrow> Inl e
      | Inr cur \<Rightarrow> Inr ((), ba\<lparr>m_position := v, m_size := max (m_size ba) v, m_cur := cur\<rparr>))"

definition ByteArray_clear :: "ByteArray \<Rightarrow> ByteArray" where
  "ByteArray_clear ba =
     ba\<lparr>m_position := 0, m_size := 0, m_capacity := m_baseSize ba,
        m_nodes := take 1 (m_nodes ba), m_cur := Some 0\<rparr>"

definition ByteArray_toString :: "ByteArray \<Rightarrow> error + bytes" where
  "ByteArray_toString ba =
     (if getReadSize ba = 0 then Inr []
      else ByteArray_read_at (getReadSize ba) (m_position ba) ba)"

section \<open>Invariant and abstract view\<close>

text \<open>
  The abstract buffer is a byte sequence (\<open>data\<close>) with a cursor; \<open>unread\<close> is what a reader still
  sees. The invariant says that the current node is the one the cursor falls into, and the null
  pointer when the cursor is at the very end of the allocated blocks.
\<close>

definition mem :: "ByteArray \<Rightarrow> bytes" where
  "mem ba = concat (m_nodes ba)"

definition data :: "ByteArray \<Rightarrow> bytes" where
  "data ba = take (m_size ba) (mem ba)"

definition unread :: "ByteArray \<Rightarrow> bytes" where
  "unread ba = drop (m_position ba) (data ba)"

definition cur_of :: "nat \<Rightarrow> nat \<Rightarrow> nat \<Rightarrow> nat option" where
  "cur_of b cap pos = (if pos < cap then Some (pos div b) else None)"

definition ba_wf :: "ByteArray \<Rightarrow> bool" where
  "ba_wf ba \<longleftrightarrow>
     0 < m_baseSize ba \<and> m_nodes ba \<noteq> [] \<and> blocks_of (m_baseSize ba) (m_nodes ba) \<and>
     m_capacity ba = m_baseSize ba * length (m_nodes ba) \<and>
     m_position ba \<le> m_size ba \<and> m_size ba \<le> m_capacity ba \<and>
     m_cur ba = cur_of (m_baseSize ba) (m_capacity ba) (m_position ba)"

lemmas ba_wf_unfold = ba_wf_def cur_of_def

lemma ba_wfD:
  assumes "ba_wf ba"
  shows "0 < m_baseSize ba" "m_nodes ba \<noteq> []" "blocks_of (m_baseSize ba) (m_nodes ba)"
    "m_capacity ba = m_baseSize ba * length (m_nodes ba)" "m_position ba \<le> m_size ba"
    "m_size ba \<le> m_capacity ba"
    "m_cur ba = cur_of (m_baseSize ba) (m_capacity ba) (m_position ba)"
    "length (mem ba) = m_capacity ba" "length (data ba) = m_size ba"
    "length (unread ba) = m_size ba - m_position ba"
  using assms by (auto simp: ba_wf_def mem_def data_def unread_def length_concat_blocks)

lemma ba_wf_new: "0 < b \<Longrightarrow> ba_wf (ByteArray_new b)"
  by (simp add: ba_wf_unfold ByteArray_new_def Node_new_def)

lemma ba_wf_of: "d \<noteq> [] \<Longrightarrow> ba_wf (ByteArray_of d own)"
  by (simp add: ba_wf_unfold ByteArray_of_def)

lemma data_of: "data (ByteArray_of d own) = d" "m_position (ByteArray_of d own) = 0"
  by (simp_all add: data_def mem_def ByteArray_of_def)

lemma data_new: "data (ByteArray_new b) = []" "m_position (ByteArray_new b) = 0"
  by (simp_all add: data_def ByteArray_new_def)

lemma ceil_div_ge: "0 < b \<Longrightarrow> n \<le> ((n + b - 1) div b) * (b::nat)"
  using div_mult_mod_eq [of "n + b - 1" b] mod_less_divisor [of b "n + b - 1"] by linarith

lemma addCapacity_frame [simp]:
  "m_baseSize (addCapacity n ba) = m_baseSize ba" "m_position (addCapacity n ba) = m_position ba"
  "m_size (addCapacity n ba) = m_size ba" "m_endian (addCapacity n ba) = m_endian ba"
  "m_owner (addCapacity n ba) = m_owner ba"
  by (simp_all add: addCapacity_def Let_def)

lemma addCapacity_wf:
  assumes wf: "ba_wf ba"
  shows "ba_wf (addCapacity n ba)" and "m_position ba + n \<le> m_capacity (addCapacity n ba)"
    and "\<exists>fresh. mem (addCapacity n ba) = mem ba @ fresh"
proof -
  note w = ba_wfD [OF wf]
  let ?b = "m_baseSize ba" and ?cap = "m_capacity ba - m_position ba"
  let ?count = "(n - ?cap + ?b - 1) div ?b"
  have cap [simp]: "getCapacity ba = ?cap"
    using w(5,6) by (simp add: getCapacity_def)
  have old: "addCapacity n ba = ba" if "n \<le> ?cap"
    using that by (simp add: addCapacity_def)
  have cnt: "n - ?cap \<le> ?count * ?b"
    using w(1) by (intro ceil_div_ge)
  have pos: "0 < ?count" if "?cap < n"
    using cnt that by (cases "?count = 0") auto
  have cur: "m_cur ba = Some (m_position ba div ?b)" if "0 < ?cap"
    using w(7) that by (simp add: cur_of_def)
  have at_end: "m_position ba div ?b = length (m_nodes ba)" if "?cap = 0"
  proof -
    from w(4,5,6) that have "m_position ba = ?b * length (m_nodes ba)" by linarith
    with w(1) show ?thesis by simp
  qed
  have new: "addCapacity n ba =
      ba\<lparr>m_nodes := m_nodes ba @ replicate ?count (Node_new ?b),
         m_capacity := m_capacity ba + ?count * ?b,
         m_cur := Some (m_position ba div ?b)\<rparr>" if "?cap < n"
    using that pos [OF that] cur at_end by (cases "?cap = 0") (auto simp: addCapacity_def Let_def)
  show "m_position ba + n \<le> m_capacity (addCapacity n ba)"
    using cnt w(5,6) by (cases "n \<le> ?cap") (simp_all add: old new not_le)
  show "ba_wf (addCapacity n ba)"
  proof (cases "n \<le> ?cap")
    case True
    then show ?thesis using wf by (simp add: old)
  next
    case False
    then have "m_position ba < m_capacity ba + ?count * ?b"
      using cnt w(5,6) by linarith
    then show ?thesis
      using False w by (simp add: new not_le ba_wf_unfold Node_new_def algebra_simps)
  qed
  show "\<exists>fresh. mem (addCapacity n ba) = mem ba @ fresh"
    by (cases "n \<le> ?cap") (auto simp: old new mem_def not_le)
qed

lemma cur_of_Some:
  "0 < b \<Longrightarrow> c < n \<Longrightarrow> npos < b \<Longrightarrow> cur_of b (b * n) (c * b + npos) = Some c"
proof -
  assume a: "0 < b" "c < n" "npos < b"
  then have "c * b + npos < Suc c * b" by simp
  also have "\<dots> \<le> n * b" using a(2) by (intro mult_le_mono1) simp
  finally show ?thesis using a by (simp add: cur_of_def mult.commute)
qed

lemma cur_of_next:
  assumes "0 < b" and "c < length xs"
  shows "cur_of b (b * length xs) (Suc c * b) = next_node xs c"
proof (cases "Suc c < length xs")
  case True
  then show ?thesis
    using cur_of_Some [OF assms(1) True, of 0] assms(1) by (simp add: next_node_def)
next
  case False
  with assms(2) have "length xs = Suc c" by simp
  then show ?thesis by (simp add: next_node_def cur_of_def)
qed

declare write_loop.simps [simp del] read_loop.simps [simp del]

lemma cur_of_step:
  assumes "0 < b" and "c < length xs" and "npos + k \<le> b"
  shows "cur_of b (b * length xs) (c * b + npos + k) =
           (if b = npos + k then next_node xs c else Some c)"
proof (cases "b = npos + k")
  case True
  then have "c * b + npos + k = Suc c * b" by simp
  then show ?thesis using True cur_of_next [OF assms(1,2)] by (simp only: if_True simp_thms)
next
  case False
  with assms(3) have "npos + k < b" by simp
  from cur_of_Some [OF assms(1,2) this] False show ?thesis by (simp add: add.assoc)
qed

lemma next_block:
  assumes "npos < b" and "c * b + npos + k \<le> b * n" and "b - npos < k"
  shows "Suc c < n"
proof -
  have "Suc c * b < n * b" using assms by (simp add: mult.commute)
  then show ?thesis by (simp only: mult_less_cancel2)
qed

lemma write_loop_last:
  "buf \<noteq> [] \<Longrightarrow> m_cur ba = Some c \<Longrightarrow> c < length (m_nodes ba) \<Longrightarrow> length buf \<le> ncap \<Longrightarrow>
     write_loop buf npos ncap ba =
       Inr (ba\<lparr>m_nodes := (m_nodes ba)[c := blit npos buf (m_nodes ba ! c)],
               m_cur := (if length (m_nodes ba ! c) = npos + length buf
                         then next_node (m_nodes ba) c else Some c),
               m_position := m_position ba + length buf\<rparr>)"
  by (simp add: write_loop.simps [of buf] Let_def)

lemma write_loop_next:
  "ncap < length buf \<Longrightarrow> m_cur ba = Some c \<Longrightarrow> Suc c < length (m_nodes ba) \<Longrightarrow>
     write_loop buf npos ncap ba =
       write_loop (drop ncap buf) 0 (length (m_nodes ba ! Suc c))
         (ba\<lparr>m_nodes := (m_nodes ba)[c := blit npos (take ncap buf) (m_nodes ba ! c)],
             m_cur := Some (Suc c), m_position := m_position ba + ncap\<rparr>)"
  by (auto simp: write_loop.simps [of buf npos] Let_def next_node_def)

lemma write_loop_ok:
  assumes "0 < b" and "blocks_of b (m_nodes ba)" and "m_cur ba = Some c"
    and "c < length (m_nodes ba)" and "npos < b" and "m_position ba = c * b + npos"
    and "m_position ba + length buf \<le> b * length (m_nodes ba)" and "buf \<noteq> []"
  shows "\<exists>nodes. write_loop buf npos (b - npos) ba =
            Inr (ba\<lparr>m_nodes := nodes,
                    m_cur := cur_of b (b * length (m_nodes ba)) (m_position ba + length buf),
                    m_position := m_position ba + length buf\<rparr>) \<and>
          blocks_of b nodes \<and> length nodes = length (m_nodes ba) \<and>
          concat nodes = blit (m_position ba) buf (concat (m_nodes ba))"
  using assms
proof (induction "length (m_nodes ba) - c" arbitrary: buf npos ba c rule: less_induct)
  case less
  note p = less.prems
  let ?ns = "m_nodes ba"
  have len: "length (?ns ! c) = b" using p(2,4) by (rule blocks_of_nth)
  show ?case
  proof (cases "length buf \<le> b - npos")
    case True
    then have fit: "npos + length buf \<le> b" using p(5) by simp
    show ?thesis
      using p(2,6,8) True fit len cur_of_step [OF p(1,4) fit]
        blit_concat_blocks [OF p(2,4) fit]
      by (intro exI [of _ "?ns[c := blit npos buf (?ns ! c)]"])
        (simp add: write_loop_last [OF _ p(3,4)] blocks_of_update)
  next
    case False
    define k where "k = b - npos"
    define ba' where "ba' = ba\<lparr>m_nodes := ?ns[c := blit npos (take k buf) (?ns ! c)],
        m_cur := Some (Suc c), m_position := m_position ba + k\<rparr>"
    have c': "Suc c < length ?ns"
      using p(5,6,7) False by (intro next_block [of npos b c "length buf"]) simp_all
    have k: "k < length buf" "npos + length (take k buf) = b"
      using False p(5) by (simp_all add: k_def)
    have step: "write_loop buf npos (b - npos) ba = write_loop (drop k buf) 0 (b - 0) ba'"
      using write_loop_next [OF k(1) p(3) c', of npos] blocks_of_nth [OF p(2) c']
      by (simp add: ba'_def k_def)
    have pos: "m_position ba' = Suc c * b + 0" using p(5,6) by (simp add: ba'_def k_def)
    have blk: "blocks_of b (m_nodes ba')"
      using p(2) len k by (simp add: ba'_def blocks_of_update)
    have mem': "concat (m_nodes ba') = blit (m_position ba) (take k buf) (concat ?ns)"
      using blit_concat_blocks [OF p(2,4), of npos "take k buf"] k(2) p(6) by (simp add: ba'_def)
    have len': "length (m_nodes ba') = length ?ns" and pos': "m_position ba' = m_position ba + k"
      by (simp_all add: ba'_def)
    have size: "m_position ba' + length (drop k buf) = m_position ba + length buf"
      using k by (simp add: pos')
    obtain nodes where IH: "write_loop (drop k buf) 0 (b - 0) ba' =
            Inr (ba'\<lparr>m_nodes := nodes,
                    m_cur := cur_of b (b * length ?ns) (m_position ba + length buf),
                    m_position := m_position ba + length buf\<rparr>)"
          "blocks_of b nodes" "length nodes = length ?ns"
          "concat nodes = blit (m_position ba') (drop k buf) (concat (m_nodes ba'))"
    proof -
      have dec: "length (m_nodes ba') - Suc c < length ?ns - c" using c' len' by linarith
      have more: "m_cur ba' = Some (Suc c)" "Suc c < length (m_nodes ba')" "drop k buf \<noteq> []"
        "m_position ba' + length (drop k buf) \<le> b * length (m_nodes ba')"
        using c' k(1) p(7) size len' by (simp_all add: ba'_def)
      show thesis
        using less.hyps [OF dec p(1) blk more(1,2) p(1) pos more(4,3)] unfolding size len'
        by (elim exE conjE) (rule that)
    qed
    have "concat nodes = blit (m_position ba) buf (concat ?ns)"
      using blit_append [of "m_position ba" "take k buf" "drop k buf" "concat ?ns"] k(1) p(2,7)
      by (simp add: IH(4) mem' pos' length_concat_blocks min_absorb2)
    with IH(1-3) show ?thesis
      by (intro exI [of _ nodes]) (simp add: step ba'_def)
  qed
qed

lemma read_loop_last:
  "0 < sz \<Longrightarrow> m_cur ba = Some c \<Longrightarrow> c < length (m_nodes ba) \<Longrightarrow> sz \<le> ncap \<Longrightarrow>
     read_loop sz npos ncap ba =
       Inr (take sz (drop npos (m_nodes ba ! c)),
            ba\<lparr>m_cur := (if length (m_nodes ba ! c) = npos + sz
                         then next_node (m_nodes ba) c else Some c),
               m_position := m_position ba + sz\<rparr>)"
  by (simp add: read_loop.simps [of sz] Let_def)

lemma read_loop_next:
  "ncap < sz \<Longrightarrow> m_cur ba = Some c \<Longrightarrow> Suc c < length (m_nodes ba) \<Longrightarrow>
     read_loop (sz - ncap) 0 (length (m_nodes ba ! Suc c))
       (ba\<lparr>m_cur := Some (Suc c), m_position := m_position ba + ncap\<rparr>) = Inr (rest, ba') \<Longrightarrow>
     read_loop sz npos ncap ba = Inr (take ncap (drop npos (m_nodes ba ! c)) @ rest, ba')"
  by (simp add: read_loop.simps [of sz npos] Let_def next_node_def)

lemma read_loop_ok:
  assumes "0 < b" and "blocks_of b (m_nodes ba)" and "m_cur ba = Some c"
    and "c < length (m_nodes ba)" and "npos < b" and "m_position ba = c * b + npos"
    and "m_position ba + sz \<le> b * length (m_nodes ba)" and "0 < sz"
  shows "read_loop sz npos (b - npos) ba =
           Inr (take sz (drop (m_position ba) (concat (m_nodes ba))),
                ba\<lparr>m_cur := cur_of b (b * length (m_nodes ba)) (m_position ba + sz),
                   m_position := m_position ba + sz\<rparr>)"
  using assms
proof (induction "length (m_nodes ba) - c" arbitrary: sz npos ba c rule: less_induct)
  case less
  note p = less.prems
  let ?ns = "m_nodes ba"
  have len: "length (?ns ! c) = b" using p(2,4) by (rule blocks_of_nth)
  have tail: "drop (m_position ba) (concat ?ns) = drop npos (?ns ! c) @ concat (drop (Suc c) ?ns)"
    using drop_concat_blocks [OF p(2,4), of npos] p(5,6) by simp
  show ?case
  proof (cases "sz \<le> b - npos")
    case True
    then have fit: "npos + sz \<le> b" using p(5) by simp
    show ?thesis
      using p(6,8) True len cur_of_step [OF p(1,4) fit]
      by (simp add: read_loop_last [OF _ p(3,4)] tail [unfolded p(6)])
  next
    case False
    define k where "k = b - npos"
    define ba' where "ba' = ba\<lparr>m_cur := Some (Suc c), m_position := m_position ba + k\<rparr>"
    have c': "Suc c < length ?ns"
      using p(5,6,7) False by (intro next_block [of npos b c sz]) simp_all
    have k: "k < sz" using False by (simp add: k_def)
    have ns': "m_nodes ba' = ?ns" and pos': "m_position ba' = Suc c * b"
      using p(5,6) by (simp_all add: ba'_def k_def)
    have tail': "drop (m_position ba') (concat ?ns) = concat (drop (Suc c) ?ns)"
      using drop_concat_blocks [OF p(2) c', of 0] c' by (simp add: pos' Cons_nth_drop_Suc [symmetric])
    have "read_loop (sz - k) 0 (b - 0) ba' =
           Inr (take (sz - k) (drop (m_position ba') (concat (m_nodes ba'))),
                ba'\<lparr>m_cur := cur_of b (b * length (m_nodes ba')) (m_position ba' + (sz - k)),
                   m_position := m_position ba' + (sz - k)\<rparr>)"
    proof -
      have "length (m_nodes ba') - Suc c < length ?ns - c" "m_cur ba' = Some (Suc c)"
        "m_position ba' + (sz - k) \<le> b * length (m_nodes ba')" "0 < sz - k"
        using p(7) c' k by (simp_all add: ns', simp_all add: ba'_def)
      then show ?thesis
        using p(1,2) c' pos' by (intro less.hyps [where c = "Suc c"]) (simp_all add: ns')
    qed
    then have "read_loop sz npos k ba =
        Inr (take k (drop npos (?ns ! c)) @ take (sz - k) (concat (drop (Suc c) ?ns)),
             ba'\<lparr>m_cur := cur_of b (b * length ?ns) (m_position ba' + (sz - k)),
                 m_position := m_position ba' + (sz - k)\<rparr>)"
      using blocks_of_nth [OF p(2) c'] unfolding ns' tail'
      by (intro read_loop_next [OF k p(3) c']) (simp add: ba'_def)
    then show ?thesis
      using k len by (simp add: tail ba'_def k_def)
  qed
qed

section \<open>The operations implement a byte sequence with a cursor\<close>

lemma cur_block:
  assumes "ba_wf ba" and "m_position ba < m_capacity ba"
  shows "m_cur ba = Some (m_position ba div m_baseSize ba)"
    "m_position ba div m_baseSize ba < length (m_nodes ba)"
    "m_position ba mod m_baseSize ba < m_baseSize ba"
    "m_position ba = m_position ba div m_baseSize ba * m_baseSize ba + m_position ba mod m_baseSize ba"
    "length (m_nodes ba ! (m_position ba div m_baseSize ba)) = m_baseSize ba"
proof -
  note w = ba_wfD [OF assms(1)]
  show *: "m_position ba div m_baseSize ba < length (m_nodes ba)"
    using assms(2) w(1,4) by (simp add: less_mult_imp_div_less mult.commute)
  show "length (m_nodes ba ! (m_position ba div m_baseSize ba)) = m_baseSize ba"
    using w(3) * by (rule blocks_of_nth)
qed (use assms ba_wfD [OF assms(1)] in \<open>simp_all add: cur_of_def\<close>)

definition spec_write :: "bytes \<Rightarrow> bytes \<times> nat \<Rightarrow> bytes \<times> nat" where
  "spec_write bs = (\<lambda>(d, p). (take p d @ bs @ drop (p + length bs) d, p + length bs))"

definition ba_abs :: "ByteArray \<Rightarrow> bytes \<times> nat" where
  "ba_abs ba = (data ba, m_position ba)"

lemma spec_write_append:
  "p \<le> length d \<Longrightarrow> spec_write b (spec_write a (d, p)) = spec_write (a @ b) (d, p)"
  by (simp add: spec_write_def add.commute add.left_commute)

lemma ba_abs_bound: "ba_wf ba \<Longrightarrow> snd (ba_abs ba) \<le> length (fst (ba_abs ba))"
  by (simp add: ba_abs_def ba_wfD)

lemma write_ok:
  assumes wf: "ba_wf ba"
  obtains ba' where "ByteArray_write bs ba = Inr ((), ba')" "ba_wf ba'"
    "ba_abs ba' = spec_write bs (ba_abs ba)" "m_endian ba' = m_endian ba"
proof (cases "bs = []")
  case True
  then show ?thesis
    using wf by (intro that [of ba]) (simp_all add: ByteArray_write_def spec_write_def ba_abs_def)
next
  case False
  define ba1 where "ba1 = addCapacity (length bs) ba"
  have wf1: "ba_wf ba1" and room: "m_position ba1 + length bs \<le> m_capacity ba1"
    using addCapacity_wf(1,2) [OF wf] by (simp_all add: ba1_def)
  obtain fresh where fresh: "mem ba1 = mem ba @ fresh"
    using addCapacity_wf(3) [OF wf] by (auto simp: ba1_def)
  note w = ba_wfD [OF wf] and w1 = ba_wfD [OF wf1]
  have "m_position ba1 < m_capacity ba1" using room False by (cases bs) simp_all
  note c = cur_block [OF wf1 this]
  let ?b = "m_baseSize ba1"
  obtain nodes where loop: "write_loop bs (m_position ba1 mod ?b) (?b - m_position ba1 mod ?b) ba1 =
            Inr (ba1\<lparr>m_nodes := nodes,
                    m_cur := cur_of ?b (?b * length (m_nodes ba1)) (m_position ba1 + length bs),
                    m_position := m_position ba1 + length bs\<rparr>)"
        and ns: "blocks_of ?b nodes" "length nodes = length (m_nodes ba1)"
          "concat nodes = blit (m_position ba1) bs (mem ba1)"
    using write_loop_ok [OF w1(1,3) c(1,2,3,4) _ False] room w1(4) by (auto simp: mem_def)
  define ba' where "ba' = ba1\<lparr>m_nodes := nodes,
      m_cur := cur_of ?b (?b * length (m_nodes ba1)) (m_position ba1 + length bs),
      m_position := m_position ba1 + length bs,
      m_size := max (m_size ba1) (m_position ba1 + length bs)\<rparr>"
  have res: "ByteArray_write bs ba = Inr ((), ba')"
    using False w(1) c(1,2,3,5) loop
    by (simp add: ByteArray_write_def ba1_def [symmetric] ba'_def Let_def max_def)
  have wf': "ba_wf ba'"
    using w1 room ns by (auto simp: ba_wf_def ba'_def)
  have fr: "m_position ba1 = m_position ba" "m_size ba1 = m_size ba" by (simp_all add: ba1_def)
  have "mem ba' = blit (m_position ba) bs (mem ba @ fresh)"
    by (simp add: mem_def ba'_def ns(3) [unfolded mem_def] fresh [unfolded mem_def] fr)
  moreover have "m_size ba' = max (m_size ba) (m_position ba + length bs)"
    by (simp add: ba'_def fr)
  ultimately have "data ba' =
      take (m_position ba) (data ba) @ bs @ drop (m_position ba + length bs) (data ba)"
    using take_blit_ge [of "m_position ba" "m_size ba" "mem ba @ fresh" bs] room w(5,6,8) w1(8)
    by (simp add: data_def fresh fr min_absorb1)
  then show ?thesis
    using res wf' by (intro that [of ba']) (simp_all add: ba_abs_def spec_write_def ba'_def ba1_def)
qed

lemma unread_abs: "unread ba = drop (snd (ba_abs ba)) (fst (ba_abs ba))"
  by (simp add: unread_def ba_abs_def)

lemma read_ok:
  assumes wf: "ba_wf ba" and n: "n \<le> length (unread ba)"
    and "0 < n \<or> m_position ba < m_capacity ba"
  shows "ByteArray_read n ba =
           Inr (take n (unread ba),
                ba\<lparr>m_position := m_position ba + n,
                   m_cur := cur_of (m_baseSize ba) (m_capacity ba) (m_position ba + n)\<rparr>)"
proof -
  note w = ba_wfD [OF wf]
  have room: "m_position ba + n \<le> m_size ba" using n w(5,10) by simp
  have "m_position ba < m_capacity ba" using assms(3) room w(6) by auto
  note c = cur_block [OF wf this]
  have "read_loop n (m_position ba mod m_baseSize ba) (m_baseSize ba - m_position ba mod m_baseSize ba) ba =
      Inr (take n (unread ba),
           ba\<lparr>m_position := m_position ba + n,
              m_cur := cur_of (m_baseSize ba) (m_capacity ba) (m_position ba + n)\<rparr>)"
  proof (cases "n = 0")
    case True
    then show ?thesis using w(7) by (simp add: read_loop.simps)
  next
    case False
    then show ?thesis
      using read_loop_ok [OF w(1,3) c(1,2,3,4), of n] room w(4,6)
      by (simp add: unread_def data_def mem_def take_drop take_take min_absorb1)
  qed
  then show ?thesis
    using c(1,2,3,5) room w(1,5) by (simp add: ByteArray_read_def getReadSize_def Let_def)
qed

lemma read_short:
  "ba_wf ba \<Longrightarrow> length (unread ba) < n \<Longrightarrow>
     ByteArray_read n ba = Inl (Out_of_range ''not enough len'')"
  by (simp add: ByteArray_read_def getReadSize_def ba_wfD)

lemma advance_wf:
  assumes "ba_wf ba" and "m_position ba + n \<le> m_size ba"
  shows "ba_wf (ba\<lparr>m_position := m_position ba + n,
            m_cur := cur_of (m_baseSize ba) (m_capacity ba) (m_position ba + n)\<rparr>)"
  using assms by (simp add: ba_wf_def)

declare seek_loop.simps [simp del]

lemma seek_loop_ok:
  assumes "0 < b" and "blocks_of b nodes" and "c < length nodes"
    and "c * b + v \<le> b * length nodes"
  shows "seek_loop nodes v (Some c) = Inr (cur_of b (b * length nodes) (c * b + v))"
  using assms
proof (induction "length nodes - c" arbitrary: v c rule: less_induct)
  case less
  note p = less.prems
  have len: "length (nodes ! c) = b" using p(2,3) by (rule blocks_of_nth)
  consider "b < v" | "v = b" | "v < b" by linarith
  then show ?case
  proof cases
    case 1
    have c': "Suc c < length nodes" using p(1,4) 1 by (intro next_block [of 0 b c v]) simp_all
    have "seek_loop nodes (v - b) (Some (Suc c)) =
        Inr (cur_of b (b * length nodes) (Suc c * b + (v - b)))"
      using p c' 1 by (intro less.hyps) simp_all
    with 1 c' p(3) len show ?thesis by (simp add: seek_loop.simps(2) [of nodes v] next_node_def)
  next
    case 2
    then show ?thesis
      using cur_of_next [OF p(1,3)] p(3) len by (simp add: seek_loop.simps add.commute)
  next
    case 3
    then show ?thesis using cur_of_Some [OF p(1,3) 3] p(3) len by (simp add: seek_loop.simps)
  qed
qed

lemma setPosition_ok:
  assumes wf: "ba_wf ba" and "v \<le> m_capacity ba"
  shows "setPosition v ba =
      Inr ((), ba\<lparr>m_position := v, m_size := max (m_size ba) v,
                 m_cur := cur_of (m_baseSize ba) (m_capacity ba) v\<rparr>)"
    and "ba_wf (ba\<lparr>m_position := v, m_size := max (m_size ba) v,
                 m_cur := cur_of (m_baseSize ba) (m_capacity ba) v\<rparr>)"
proof -
  note w = ba_wfD [OF wf]
  have "seek_loop (m_nodes ba) v (Some 0) = Inr (cur_of (m_baseSize ba) (m_capacity ba) v)"
    using seek_loop_ok [OF w(1,3), of 0 v] assms(2) w(2,4) by simp
  then show "setPosition v ba =
      Inr ((), ba\<lparr>m_position := v, m_size := max (m_size ba) v,
                 m_cur := cur_of (m_baseSize ba) (m_capacity ba) v\<rparr>)"
    using assms(2) by (simp add: setPosition_def)
  show "ba_wf (ba\<lparr>m_position := v, m_size := max (m_size ba) v,
                 m_cur := cur_of (m_baseSize ba) (m_capacity ba) v\<rparr>)"
    using w assms(2) by (simp add: ba_wf_def)
qed

lemma seek_back:
  assumes "ba_wf ba" and "v \<le> m_size ba"
  obtains ba' where "setPosition v ba = Inr ((), ba')" "ba_wf ba'" "ba_abs ba' = (data ba, v)"
    "m_endian ba' = m_endian ba" "m_capacity ba' = m_capacity ba \<and> m_baseSize ba' = m_baseSize ba"
proof -
  have v: "v \<le> m_capacity ba" using assms(2) ba_wfD(6) [OF assms(1)] by simp
  show ?thesis
    using assms(2)
    by (intro that [OF setPosition_ok [OF assms(1) v]]) (simp_all add: ba_abs_def data_def mem_def)
qed

lemma clear_ok:
  assumes "ba_wf ba"
  shows "ba_wf (ByteArray_clear ba)" and "ba_abs (ByteArray_clear ba) = ([], 0)"
proof -
  obtain n ns where "m_nodes ba = n # ns" using ba_wfD(2) [OF assms] by (cases "m_nodes ba") auto
  then show "ba_wf (ByteArray_clear ba)"
    using assms by (simp add: ba_wf_unfold ByteArray_clear_def)
  show "ba_abs (ByteArray_clear ba) = ([], 0)"
    by (simp add: ba_abs_def data_def ByteArray_clear_def)
qed

lemma read_at_ok:
  assumes wf: "ba_wf ba" and n: "0 < n" "n \<le> length (unread ba)"
  shows "ByteArray_read_at n (m_position ba) ba = Inr (take n (unread ba))"
proof -
  note w = ba_wfD [OF wf]
  have "m_position ba < m_capacity ba" using n w(6,10) by simp
  note c = cur_block [OF wf this]
  have "ByteArray_read_at n (m_position ba) ba = map_sum id fst (ByteArray_read n ba)"
    using n w(1,5,10) c(1,2)
    by (simp add: ByteArray_read_at_def ByteArray_read_def getReadSize_def Let_def)
  with read_ok [OF wf n(2)] n(1) show ?thesis by simp
qed

lemma toString_ok: "ba_wf ba \<Longrightarrow> ByteArray_toString ba = Inr (unread ba)"
  using read_at_ok [of ba "length (unread ba)"] ba_wfD(5,10) [of ba]
  by (cases "unread ba = []") (auto simp: ByteArray_toString_def getReadSize_def)

section \<open>Properties of the buffer\<close>

text \<open>C1. \<open>ByteArray::write\<close> never throws and never traps on a well-formed buffer: it grows the chain
  as needed, and its effect on the abstract buffer is to overwrite the bytes at the cursor and to
  append what goes past the end; the invariant and the byte order are kept.\<close>

theorem write_refines:
  assumes "ba_wf ba"
  shows "\<exists>ba'. ByteArray_write bs ba = Inr ((), ba') \<and> ba_wf ba' \<and>
           ba_abs ba' = spec_write bs (ba_abs ba) \<and> m_endian ba' = m_endian ba"
  using write_ok [OF assms, of bs] by blast

theorem write_refines_witness:
  "\<exists>ba'. ByteArray_write [1, 2, 3] (ByteArray_new 2) = Inr ((), ba') \<and> ba_wf ba' \<and>
     ba_abs ba' = ([1, 2, 3], 3)"
  using write_refines [of "ByteArray_new 2" "[1, 2, 3]"] ba_wf_new [of 2]
  by (auto simp: spec_write_def ba_abs_def data_new)



text \<open>A read of no bytes is not harmless: when the cursor stands at the end of the allocated
  blocks \<open>m_cur\<close> is null, and \<open>ByteArray::read\<close> dereferences it before it looks at the size.\<close>

theorem read_nothing_at_end:
  assumes "ba_wf ba" and "m_position ba = m_capacity ba"
  shows "ByteArray_read 0 ba = Inl Null_deref"
  using ba_wfD(1,7) [OF assms(1)] assms(2) by (simp add: ByteArray_read_def cur_of_def)

theorem read_nothing_at_end_witness:
  "ByteArray_read 0 ((ByteArray_of [7] True)\<lparr>m_position := 1, m_cur := None\<rparr>) = Inl Null_deref"
  by (rule read_nothing_at_end) (simp_all add: ba_wf_unfold ByteArray_of_def)

text \<open>\<open>ByteArray::setPosition\<close> on every branch: beyond the capacity it throws and changes nothing;
  up to the capacity it finds the node of the new cursor, keeps the invariant, keeps every stored
  byte, and only extends the size when the cursor passes it.\<close>

theorem setPosition_refines:
  assumes "ba_wf ba"
  shows "(m_capacity ba < v \<longrightarrow> setPosition v ba = Inl (Out_of_range ''set_position out of range'')) \<and>
         (v \<le> m_capacity ba \<longrightarrow>
            (\<exists>ba'. setPosition v ba = Inr ((), ba') \<and> ba_wf ba' \<and> getPosition ba' = v \<and>
                   mem ba' = mem ba \<and> m_size ba' = max (m_size ba) v))"
proof -
  have "\<exists>ba'. setPosition v ba = Inr ((), ba') \<and> ba_wf ba' \<and> getPosition ba' = v \<and>
          mem ba' = mem ba \<and> m_size ba' = max (m_size ba) v" if "v \<le> m_capacity ba"
    using setPosition_ok [OF assms that] by (simp add: getPosition_def mem_def)
  then show ?thesis by (simp add: setPosition_def)
qed

theorem setPosition_refines_witness:
  "(\<exists>ba'. setPosition 2 (ByteArray_new 4) = Inr ((), ba') \<and> ba_wf ba' \<and> getPosition ba' = 2) \<and>
   setPosition 5 (ByteArray_new 4) = Inl (Out_of_range ''set_position out of range'')"
  using setPosition_refines [of "ByteArray_new 4" 2] setPosition_refines [of "ByteArray_new 4" 5]
    ba_wf_new [of 4]
  by (auto simp: ByteArray_new_def)

text \<open>\<open>ByteArray::toString\<close> returns the unread bytes of any well-formed buffer and \<open>clear\<close> empties
  it, after which \<open>toString\<close> returns nothing.\<close>

theorem toString_refines:
  assumes "ba_wf ba"
  shows "ByteArray_toString ba = Inr (unread ba) \<and> ba_wf (ByteArray_clear ba) \<and>
         ByteArray_toString (ByteArray_clear ba) = Inr []"
  using toString_ok [OF assms] toString_ok [OF clear_ok(1) [OF assms]] clear_ok [OF assms]
  by (simp add: unread_abs)

theorem toString_refines_witness:
  "ByteArray_toString (ByteArray_of [7, 8] False) = Inr [7, 8]"
  using toString_refines [of "ByteArray_of [7, 8] False"] ba_wf_of [of "[7, 8]" False]
  by (simp add: unread_def data_of)

text \<open>The \<open>const\<close> overload \<open>read(buf, size, position)\<close> does not read at \<open>position\<close>: for a cursor
  in the first block and a position one block further it returns the bytes one block too early.\<close>

theorem read_at_wrong_block:
  assumes "ba_wf ba" and "m_position ba = 0" and "0 < n" and "n \<le> m_baseSize ba"
    and "m_baseSize ba + n \<le> m_size ba"
  shows "ByteArray_read_at n (m_baseSize ba) ba = Inr (take n (data ba))"
proof -
  note w = ba_wfD [OF assms(1)]
  have n: "n \<le> length (unread ba)" using assms(2,5) w(10) by simp
  have "\<not> m_size ba - m_baseSize ba < n" "\<not> m_size ba < n" using assms(5) by simp_all
  then have "ByteArray_read_at n (m_baseSize ba) ba = ByteArray_read_at n (m_position ba) ba"
    using assms(2-5) w(1) by (simp add: ByteArray_read_at_def)
  with read_at_ok [OF assms(1,3) n] assms(2) show ?thesis by (simp add: unread_def)
qed

theorem read_at_wrong_block_witness:
  "ByteArray_read_at 1 1 \<lparr>m_baseSize = 1, m_position = 0, m_capacity = 2, m_size = 2,
     m_endian = CHAT_BIG_ENDIAN, m_nodes = [[7], [8]], m_cur = Some 0, m_owner = True\<rparr> = Inr [7]"
  using read_at_wrong_block [of "\<lparr>m_baseSize = 1, m_position = 0, m_capacity = 2, m_size = 2,
     m_endian = CHAT_BIG_ENDIAN, m_nodes = [[7], [8]], m_cur = Some 0, m_owner = True\<rparr>" 1]
  by (simp add: ba_wf_unfold data_def mem_def)

end
