(* ===== verification/ByteCodec.thy ===== *)
theory ByteCodec
  imports ByteArray
begin

text \<open>
  The typed accessors of \<^verbatim>\<open>src/chat/bytearray.cc\<close>: fixed-width integers in the buffer's byte order,
  base-128 variable-length integers, zigzag-coded signed integers, floating-point bit patterns and
  the four string formats. Signed integers are the words that hold their two's complement, a
  \<open>float\<close> or \<open>double\<close> is its bit pattern, a \<open>std::string\<close> is its bytes.

  The locale \<open>byte_buffer\<close> is the contract of the buffer, interpreted on the operations of
  \<open>ByteArray\<close>; the locale \<open>byte_codec\<close> is the contract of a writer and a reader that belong
  together, and its round-trip lemma is interpreted on every pair of accessors.
\<close>

section \<open>The accessors\<close>

text \<open>\<open>write_swapped\<close> is the body shared by \<open>writeFint16\<close> to \<open>writeFuint64\<close>, \<open>read_swapped\<close> the
  macro \<open>XX\<close> that defines the readers.\<close>

definition write_swapped :: "'a::len word \<Rightarrow> unit ba" where
  "write_swapped value ba =
     (let value' = (if m_endian ba \<noteq> CHAT_BYTE_ORDER then byteswap value else value)
      in ByteArray_write (mem_image (LENGTH('a) div 8) value') ba)"

definition read_swapped :: "'a::len word ba" where
  "read_swapped ba =
     (case ByteArray_read (LENGTH('a) div 8) ba of
        Inl e \<Rightarrow> Inl e
      | Inr (bs, ba') \<Rightarrow>
          let v = mem_value bs
          in Inr (if m_endian ba' = CHAT_BYTE_ORDER then v else byteswap v, ba'))"

definition writeFint8 :: "8 word \<Rightarrow> unit ba" where
  "writeFint8 value = ByteArray_write (mem_image 1 value)"

definition writeFuint8 :: "8 word \<Rightarrow> unit ba" where
  "writeFuint8 value = ByteArray_write (mem_image 1 value)"

definition writeFint16 :: "16 word \<Rightarrow> unit ba" where
  "writeFint16 value = write_swapped value"

definition writeFuint16 :: "16 word \<Rightarrow> unit ba" where
  "writeFuint16 value = write_swapped value"

definition writeFint32 :: "32 word \<Rightarrow> unit ba" where
  "writeFint32 value = write_swapped value"

definition writeFuint32 :: "32 word \<Rightarrow> unit ba" where
  "writeFuint32 value = write_swapped value"

definition writeFint64 :: "64 word \<Rightarrow> unit ba" where
  "writeFint64 value = write_swapped value"

definition writeFuint64 :: "64 word \<Rightarrow> unit ba" where
  "writeFuint64 value = write_swapped value"

definition readFint8 :: "8 word ba" where
  "readFint8 = bind_action (ByteArray_read 1) (\<lambda>bs. return_action (mem_value bs))"

definition readFuint8 :: "8 word ba" where
  "readFuint8 = bind_action (ByteArray_read 1) (\<lambda>bs. return_action (mem_value bs))"

definition readFint16 :: "16 word ba" where "readFint16 = read_swapped"
definition readFuint16 :: "16 word ba" where "readFuint16 = read_swapped"
definition readFint32 :: "32 word ba" where "readFint32 = read_swapped"
definition readFuint32 :: "32 word ba" where "readFuint32 = read_swapped"
definition readFint64 :: "64 word ba" where "readFint64 = read_swapped"
definition readFuint64 :: "64 word ba" where "readFuint64 = read_swapped"

subsection \<open>Zigzag and variable-length integers\<close>

definition EncodeZigzag32 :: "32 word \<Rightarrow> 32 word" where
  "EncodeZigzag32 v = (if sint v < 0 then (- v) * 2 - 1 else v * 2)"

definition EncodeZigzag64 :: "64 word \<Rightarrow> 64 word" where
  "EncodeZigzag64 v = (if sint v < 0 then (- v) * 2 - 1 else v * 2)"

definition DecodeZigzag32 :: "32 word \<Rightarrow> 32 word" where
  "DecodeZigzag32 v = drop_bit 1 v XOR - (v AND 1)"

definition DecodeZigzag64 :: "64 word \<Rightarrow> 64 word" where
  "DecodeZigzag64 v = drop_bit 1 v XOR - (v AND 1)"

text \<open>
  The contents of \<open>tmp[0 .. i - 1]\<close> when the loop of \<open>writeUint32\<close> or \<open>writeUint64\<close> is done. That
  the arrays of 5 and 10 bytes are large enough is a theorem below.
\<close>

function uvarint :: "'a::len word \<Rightarrow> bytes" where
  "uvarint value =
     (if unat value \<ge> 0x80
      then (ucast (value AND 0x7F) OR 0x80) # uvarint (drop_bit 7 value)
      else [ucast value])"
  by pat_completeness auto
termination
  by (relation "measure unat") (simp_all only: wf_measure in_measure unat_drop_bit_eq,
      simp add: drop_bit_eq_div)

definition writeUint32 :: "32 word \<Rightarrow> unit ba" where
  "writeUint32 value = ByteArray_write (uvarint value)"

definition writeUint64 :: "64 word \<Rightarrow> unit ba" where
  "writeUint64 value = ByteArray_write (uvarint value)"

definition writeInt32 :: "32 word \<Rightarrow> unit ba" where
  "writeInt32 value = writeUint32 (EncodeZigzag32 value)"

definition writeInt64 :: "64 word \<Rightarrow> unit ba" where
  "writeInt64 value = writeUint64 (EncodeZigzag64 value)"

function readUint_loop :: "nat \<Rightarrow> nat \<Rightarrow> 'a::len word \<Rightarrow> 'a word ba" where
  "readUint_loop bits i result ba =
     (if \<not> i < bits then Inr (result, ba)
      else case readFuint8 ba of
        Inl e \<Rightarrow> Inl e
      | Inr (b, ba') \<Rightarrow>
          if b < 0x80 then Inr (result OR push_bit i (ucast b), ba')
          else readUint_loop bits (i + 7) (result OR push_bit i (ucast (b AND 0x7F))) ba')"
  by pat_completeness auto
termination
  by (relation "measure (\<lambda>(bits, i, result, ba). bits - i)") auto

definition readUint32 :: "32 word ba" where
  "readUint32 = readUint_loop 32 0 0"

definition readUint64 :: "64 word ba" where
  "readUint64 = readUint_loop 64 0 0"

definition readInt32 :: "32 word ba" where
  "readInt32 = bind_action readUint32 (\<lambda>v. return_action (DecodeZigzag32 v))"

definition readInt64 :: "64 word ba" where
  "readInt64 = bind_action readUint64 (\<lambda>v. return_action (DecodeZigzag64 v))"

subsection \<open>Floating point and strings\<close>

definition writeFloat :: "32 word \<Rightarrow> unit ba" where
  "writeFloat value = writeFuint32 value"

definition writeDouble :: "64 word \<Rightarrow> unit ba" where
  "writeDouble value = writeFuint64 value"

definition readFloat :: "32 word ba" where "readFloat = readFuint32"
definition readDouble :: "64 word ba" where "readDouble = readFuint64"

definition writeStringF16 :: "bytes \<Rightarrow> unit ba" where
  "writeStringF16 value =
     bind_action (writeFuint16 (of_nat (length value))) (\<lambda>_. ByteArray_write value)"

definition writeStringF32 :: "bytes \<Rightarrow> unit ba" where
  "writeStringF32 value =
     bind_action (writeFuint32 (of_nat (length value))) (\<lambda>_. ByteArray_write value)"

definition writeStringF64 :: "bytes \<Rightarrow> unit ba" where
  "writeStringF64 value =
     bind_action (writeFuint64 (of_nat (length value))) (\<lambda>_. ByteArray_write value)"

definition writeStringVint :: "bytes \<Rightarrow> unit ba" where
  "writeStringVint value =
     bind_action (writeUint64 (of_nat (length value))) (\<lambda>_. ByteArray_write value)"

definition writeStringWithoutLength :: "bytes \<Rightarrow> unit ba" where
  "writeStringWithoutLength value = ByteArray_write value"

definition readStringF16 :: "bytes ba" where
  "readStringF16 = bind_action readFuint16 (\<lambda>len. ByteArray_read (unat len))"

definition readStringF32 :: "bytes ba" where
  "readStringF32 = bind_action readFuint32 (\<lambda>len. ByteArray_read (unat len))"

definition readStringF64 :: "bytes ba" where
  "readStringF64 = bind_action readFuint64 (\<lambda>len. ByteArray_read (unat len))"

definition readStringVint :: "bytes ba" where
  "readStringVint = bind_action readUint64 (\<lambda>len. ByteArray_read (unat len))"

section \<open>The contract of the buffer\<close>

locale byte_buffer =
  fixes inv :: "'s \<Rightarrow> bool"
    and abs :: "'s \<Rightarrow> bytes \<times> nat"
    and put :: "bytes \<Rightarrow> (unit, 's) action"
    and get :: "nat \<Rightarrow> (bytes, 's) action"
    and seek :: "nat \<Rightarrow> (unit, 's) action"
  assumes cursor_le: "inv s \<Longrightarrow> snd (abs s) \<le> length (fst (abs s))"
    and write_law: "inv s \<Longrightarrow>
      \<exists>t. put bs s = Inr ((), t) \<and> inv t \<and> abs t = spec_write bs (abs s)"
    and read_law: "inv s \<Longrightarrow> 0 < n \<Longrightarrow> n \<le> length (fst (abs s)) - snd (abs s) \<Longrightarrow>
      \<exists>t. get n s = Inr (take n (drop (snd (abs s)) (fst (abs s))), t) \<and> inv t \<and>
          abs t = (fst (abs s), snd (abs s) + n)"
    and read_short_law: "inv s \<Longrightarrow> length (fst (abs s)) - snd (abs s) < n \<Longrightarrow>
      \<exists>msg. get n s = Inl (Out_of_range msg)"
    and seek_law: "inv s \<Longrightarrow> p \<le> length (fst (abs s)) \<Longrightarrow>
      \<exists>t. seek p s = Inr ((), t) \<and> inv t \<and> abs t = (fst (abs s), p)"
begin

fun write_chunks :: "bytes list \<Rightarrow> (unit, 's) action" where
  "write_chunks [] = return_action ()"
| "write_chunks (bs # bss) = bind_action (put bs) (\<lambda>_. write_chunks bss)"

lemma write_chunks_law:
  "inv s \<Longrightarrow>
     \<exists>t. write_chunks bss s = Inr ((), t) \<and> inv t \<and> abs t = spec_write (concat bss) (abs s)"
proof (induction bss arbitrary: s)
  case Nil
  then show ?case by (cases "abs s") (simp add: spec_write_def)
next
  case (Cons bs bss)
  obtain t where t: "put bs s = Inr ((), t)" "inv t" "abs t = spec_write bs (abs s)"
    using write_law [OF Cons.prems] by blast
  obtain u where "write_chunks bss t = Inr ((), u)" "inv u" "abs u = spec_write (concat bss) (abs t)"
    using Cons.IH [OF t(2)] by blast
  with t cursor_le [OF Cons.prems] show ?case
    by (cases "abs s") (simp add: bind_action_def spec_write_append)
qed

lemma write_seek_read:
  assumes "inv s" and "bs \<noteq> []"
  shows "\<exists>t u v. put bs s = Inr ((), t) \<and> seek (snd (abs s)) t = Inr ((), u) \<and>
           get (length bs) u = Inr (bs, v) \<and> inv v \<and> abs v = abs t"
proof -
  obtain d p where s: "abs s = (d, p)" by force
  have p: "p \<le> length d" using cursor_le [OF assms(1)] s by simp
  obtain t where t: "put bs s = Inr ((), t)" "inv t" "abs t = spec_write bs (d, p)"
    using write_law [OF assms(1), of bs] s by auto
  obtain u where u: "seek p t = Inr ((), u)" "inv u" "abs u = (fst (abs t), p)"
    using seek_law [OF t(2), of p] t(3) p by (auto simp: spec_write_def)
  obtain v where "get (length bs) u = Inr (bs, v)" "inv v" "abs v = (fst (abs t), p + length bs)"
    using read_law [OF u(2), of "length bs"] u(3) t(3) p assms(2) by (auto simp: spec_write_def)
  with t u s show ?thesis by (auto simp: spec_write_def)
qed

end

interpretation buf: byte_buffer ba_wf ba_abs ByteArray_write ByteArray_read setPosition
proof unfold_locales
  fix s :: ByteArray and bs :: bytes and n p :: nat
  assume wf: "ba_wf s"
  show "snd (ba_abs s) \<le> length (fst (ba_abs s))"
    using wf by (rule ba_abs_bound)
  show "\<exists>t. ByteArray_write bs s = Inr ((), t) \<and> ba_wf t \<and> ba_abs t = spec_write bs (ba_abs s)"
    using write_ok [OF wf, of bs] by blast
  show "\<exists>t. ByteArray_read n s = Inr (take n (drop (snd (ba_abs s)) (fst (ba_abs s))), t) \<and>
          ba_wf t \<and> ba_abs t = (fst (ba_abs s), snd (ba_abs s) + n)"
    if "0 < n" "n \<le> length (fst (ba_abs s)) - snd (ba_abs s)"
    using read_ok [OF wf, of n] advance_wf [OF wf, of n] that ba_wfD(5,9) [OF wf]
    by (simp add: unread_def ba_abs_def data_def mem_def)
  show "\<exists>msg. ByteArray_read n s = Inl (Out_of_range msg)"
    if "length (fst (ba_abs s)) - snd (ba_abs s) < n"
    using read_short [OF wf, of n] that by (simp add: unread_abs)
  show "\<exists>t. setPosition p s = Inr ((), t) \<and> ba_wf t \<and> ba_abs t = (fst (ba_abs s), p)"
    if "p \<le> length (fst (ba_abs s))"
    using seek_back [OF wf, of p] that ba_wfD(9) [OF wf] by (fastforce simp: ba_abs_def)
qed

section \<open>Writers that emit and readers that accept fixed bytes\<close>

text \<open>
  \<open>emits e m bs x\<close>: on a well-formed buffer in byte order \<open>e\<close> the action \<open>m\<close> returns \<open>x\<close> and its
  whole effect is to write \<open>bs\<close> at the cursor. \<open>accepts k e m bs x\<close>: on such a buffer whose unread
  bytes start with \<open>bs\<close> the action returns \<open>x\<close> and moves the cursor over \<open>bs\<close>. With \<open>k = 1\<close> the
  cursor must not end at the last byte of the allocated blocks: there \<open>m_cur\<close> is null, and a read
  of no bytes dereferences it.
\<close>

definition emits :: "endian \<Rightarrow> 'a ba \<Rightarrow> bytes \<Rightarrow> 'a \<Rightarrow> bool" where
  "emits e m bs x \<longleftrightarrow>
     (\<forall>ba. ba_wf ba \<longrightarrow> m_endian ba = e \<longrightarrow>
        (\<exists>ba'. m ba = Inr (x, ba') \<and> ba_wf ba' \<and> m_endian ba' = e \<and>
               ba_abs ba' = spec_write bs (ba_abs ba)))"

definition accepts :: "nat \<Rightarrow> endian \<Rightarrow> 'a ba \<Rightarrow> bytes \<Rightarrow> 'a \<Rightarrow> bool" where
  "accepts k e m bs x \<longleftrightarrow>
     (\<forall>ba rest. ba_wf ba \<longrightarrow> m_endian ba = e \<longrightarrow> unread ba = bs @ rest \<longrightarrow>
        m_position ba + length bs + k \<le> m_capacity ba \<longrightarrow>
        (\<exists>ba'. m ba = Inr (x, ba') \<and> ba_wf ba' \<and> m_endian ba' = e \<and>
               m_capacity ba' = m_capacity ba \<and> m_baseSize ba' = m_baseSize ba \<and>
               ba_abs ba' = (data ba, m_position ba + length bs)))"

lemma emitsE:
  assumes "emits e m bs x" and "ba_wf ba" and "m_endian ba = e"
  obtains ba' where "m ba = Inr (x, ba')" "ba_wf ba'" "m_endian ba' = e"
    "ba_abs ba' = spec_write bs (ba_abs ba)"
  using assms by (auto simp: emits_def)

lemma acceptsE:
  assumes "accepts k e m bs x" and "ba_wf ba" and "m_endian ba = e" and "unread ba = bs @ rest"
    and "m_position ba + length bs + k \<le> m_capacity ba"
  obtains ba' where "m ba = Inr (x, ba')" "ba_wf ba'" "m_endian ba' = e"
    "m_capacity ba' = m_capacity ba \<and> m_baseSize ba' = m_baseSize ba" "data ba' = data ba"
    "m_position ba' = m_position ba + length bs" "unread ba' = rest"
proof -
  obtain ba' where b: "m ba = Inr (x, ba')" "ba_wf ba'" "m_endian ba' = e"
    "m_capacity ba' = m_capacity ba \<and> m_baseSize ba' = m_baseSize ba" "ba_abs ba' = (data ba, m_position ba + length bs)"
    using assms unfolding accepts_def by blast
  have "unread ba' = drop (length bs) (unread ba)"
    using b(5) by (simp add: unread_def ba_abs_def add.commute)
  with b assms(4) show ?thesis by (intro that [of ba']) (simp_all add: ba_abs_def)
qed

lemma emits_return: "emits e (return_action x) [] x"
  by (auto simp: emits_def spec_write_def ba_abs_def)

lemma emits_write: "emits e (ByteArray_write bs) bs ()"
  unfolding emits_def by (metis write_ok)

lemma emits_bind:
  assumes "emits e m a x" and "emits e (f x) b y"
  shows "emits e (bind_action m f) (a @ b) y"
  unfolding emits_def
proof (intro allI impI)
  fix ba assume wf: "ba_wf ba" and e: "m_endian ba = e"
  obtain ba1 where 1: "m ba = Inr (x, ba1)" "ba_wf ba1" "m_endian ba1 = e"
    "ba_abs ba1 = spec_write a (ba_abs ba)" using emitsE [OF assms(1) wf e] .
  obtain ba2 where 2: "f x ba1 = Inr (y, ba2)" "ba_wf ba2" "m_endian ba2 = e"
    "ba_abs ba2 = spec_write b (ba_abs ba1)" using emitsE [OF assms(2) 1(2,3)] .
  show "\<exists>ba'. bind_action m f ba = Inr (y, ba') \<and> ba_wf ba' \<and> m_endian ba' = e \<and>
      ba_abs ba' = spec_write (a @ b) (ba_abs ba)"
    using 1 2 ba_abs_bound [OF wf]
    by (cases "ba_abs ba") (auto simp: bind_action_def spec_write_append)
qed

lemma accepts_return: "accepts k e (return_action x) [] x"
  by (auto simp: accepts_def ba_abs_def)

lemma accepts_mono: "accepts 0 e m bs x \<Longrightarrow> accepts k e m bs x"
  by (auto simp: accepts_def)

lemma accepts_bind:
  assumes "accepts k e m a x" and "accepts k e (f x) b y"
  shows "accepts k e (bind_action m f) (a @ b) y"
  unfolding accepts_def
proof (intro allI impI)
  fix ba rest
  assume wf: "ba_wf ba" and e: "m_endian ba = e" and u: "unread ba = (a @ b) @ rest"
    and c: "m_position ba + length (a @ b) + k \<le> m_capacity ba"
  obtain ba1 where 1: "m ba = Inr (x, ba1)" "ba_wf ba1" "m_endian ba1 = e"
    "m_capacity ba1 = m_capacity ba \<and> m_baseSize ba1 = m_baseSize ba" "data ba1 = data ba"
    "m_position ba1 = m_position ba + length a" "unread ba1 = b @ rest"
    using acceptsE [OF assms(1) wf e, of "b @ rest"] u c by auto
  obtain ba2 where "f x ba1 = Inr (y, ba2)" "ba_wf ba2" "m_endian ba2 = e"
    "m_capacity ba2 = m_capacity ba1 \<and> m_baseSize ba2 = m_baseSize ba1" "data ba2 = data ba1"
    "m_position ba2 = m_position ba1 + length b"
    using acceptsE [OF assms(2) 1(2,3,7)] 1(4,6) c by auto
  with 1 show "\<exists>ba'. bind_action m f ba = Inr (y, ba') \<and> ba_wf ba' \<and> m_endian ba' = e \<and>
      m_capacity ba' = m_capacity ba \<and> m_baseSize ba' = m_baseSize ba \<and> ba_abs ba' = (data ba, m_position ba + length (a @ b))"
    by (auto simp: bind_action_def ba_abs_def)
qed

lemma accepts_bind_return:
  "accepts k e m a x \<Longrightarrow> y = f x \<Longrightarrow> accepts k e (bind_action m (\<lambda>x. return_action (f x))) a y"
  using accepts_bind [OF _ accepts_return, of k e m a x "\<lambda>x. f x"]
  by (simp del: return_action_apply)

lemma accepts_read:
  assumes "bs \<noteq> [] \<or> 0 < k" and "n = length bs"
  shows "accepts k e (ByteArray_read n) bs bs"
  unfolding accepts_def
proof (intro allI impI)
  fix ba rest
  assume wf: "ba_wf ba" and "m_endian ba = e" and u: "unread ba = bs @ rest"
    and c: "m_position ba + length bs + k \<le> m_capacity ba"
  have "0 < n \<or> m_position ba < m_capacity ba" using assms c by auto
  from read_ok [OF wf _ this] u assms(2) show "\<exists>ba'. ByteArray_read n ba = Inr (bs, ba') \<and> ba_wf ba' \<and>
      m_endian ba' = e \<and> m_capacity ba' = m_capacity ba \<and> m_baseSize ba' = m_baseSize ba \<and>
      ba_abs ba' = (data ba, m_position ba + length bs)"
    using advance_wf [OF wf, of n] ba_wfD(5,10) [OF wf] \<open>m_endian ba = e\<close>
    by (simp add: ba_abs_def data_def mem_def)
qed

lemma emits_then: "emits e m a x \<Longrightarrow> emits e n b y \<Longrightarrow> emits e (then_action m n) (a @ b) y"
  unfolding then_action_def by (rule emits_bind)

lemma emits_then_return: "emits e m a x \<Longrightarrow> emits e (then_action m (return_action y)) a y"
  using emits_then [OF _ emits_return, of e m a x y] by simp

lemma emits_bind_return: "emits e m a x \<Longrightarrow> emits e (bind_action m (\<lambda>x. return_action (f x))) a (f x)"
  using emits_bind [OF _ emits_return, of e m a x f] by (simp del: return_action_apply)

lemma emits_try: "emits e m a x \<Longrightarrow> emits e (try_action m) a (Some x)"
  unfolding emits_def try_action_def by fastforce

lemma accepts_try: "accepts k e m a x \<Longrightarrow> accepts k e (try_action m) a (Some x)"
  unfolding accepts_def try_action_def by fastforce

section \<open>The contract of a writer and its reader\<close>

locale byte_codec =
  fixes k :: nat
    and e :: endian
    and valid :: "'a \<Rightarrow> bool"
    and enc :: "'a \<Rightarrow> 'r ba"
    and dec :: "'a ba"
    and image :: "'a \<Rightarrow> bytes"
    and result :: "'a \<Rightarrow> 'r"
  assumes enc_law: "valid x \<Longrightarrow> emits e (enc x) (image x) (result x)"
    and dec_law: "valid x \<Longrightarrow> accepts k e dec (image x) x"
begin

text \<open>Writing a value, moving the cursor back and reading returns the value and ends at the
  place where the writer ended, whatever the buffer held before.\<close>

lemma roundtrip:
  assumes "valid x" and "ba_wf ba" and "m_endian ba = e"
  shows "\<exists>ba1. enc x ba = Inr (result x, ba1) \<and> ba_wf ba1 \<and>
           getPosition ba1 = getPosition ba + length (image x) \<and>
           (getPosition ba1 + k \<le> m_capacity ba1 \<longrightarrow>
             (\<exists>ba2 ba3. setPosition (getPosition ba) ba1 = Inr ((), ba2) \<and>
                dec ba2 = Inr (x, ba3) \<and> ba_wf ba3 \<and> ba_abs ba3 = ba_abs ba1))"
proof -
  obtain ba1 where 1: "enc x ba = Inr (result x, ba1)" "ba_wf ba1" "m_endian ba1 = e"
    "ba_abs ba1 = spec_write (image x) (ba_abs ba)"
    using emitsE [OF enc_law [OF assms(1)] assms(2,3)] .
  note w = ba_wfD [OF assms(2)] and w1 = ba_wfD [OF 1(2)]
  have pos: "m_position ba1 = m_position ba + length (image x)"
    and dat: "data ba1 = take (m_position ba) (data ba) @ image x @
                drop (m_position ba + length (image x)) (data ba)"
    using 1(4) by (simp_all add: ba_abs_def spec_write_def)
  have le: "m_position ba \<le> m_size ba1" using pos w1(5) by simp
  obtain ba2 where 2: "setPosition (m_position ba) ba1 = Inr ((), ba2)" "ba_wf ba2"
    "ba_abs ba2 = (data ba1, m_position ba)" "m_endian ba2 = m_endian ba1"
    "m_capacity ba2 = m_capacity ba1 \<and> m_baseSize ba2 = m_baseSize ba1"
    using seek_back [OF 1(2) le] .
  have unread2: "unread ba2 = image x @ drop (m_position ba + length (image x)) (data ba)"
    using 2(3) dat w(5,9) by (simp add: unread_abs)
  have "\<exists>ba3. dec ba2 = Inr (x, ba3) \<and> ba_wf ba3 \<and> ba_abs ba3 = ba_abs ba1"
    if "m_position ba1 + k \<le> m_capacity ba1"
    using acceptsE [OF dec_law [OF assms(1)] 2(2) _ unread2] 1(3) 2(3,4,5) pos that
    by (auto simp: ba_abs_def)
  with 1(1,2) 2(1) pos show ?thesis by (auto simp: getPosition_def)
qed

text \<open>With \<open>k = 0\<close> the end of the written bytes is always inside the buffer.\<close>

lemma roundtrip_tight:
  assumes "k = 0" and "valid x" and "ba_wf ba" and "m_endian ba = e"
  shows "\<exists>ba1 ba2 ba3. enc x ba = Inr (result x, ba1) \<and>
           getPosition ba1 = getPosition ba + length (image x) \<and>
           setPosition (getPosition ba) ba1 = Inr ((), ba2) \<and> dec ba2 = Inr (x, ba3) \<and>
           ba_abs ba3 = ba_abs ba1"
proof -
  have "getPosition ba1 \<le> m_capacity ba1" if "ba_wf ba1" for ba1
    using ba_wfD(5,6) [OF that] by (simp add: getPosition_def)
  then show ?thesis using roundtrip [OF assms(2-4)] assms(1) by fastforce
qed

end

section \<open>Fixed-width integers\<close>

lemma mem_value_bits: "mem_value bs = take_bit (8 * length bs) (mem_value bs :: 'a::len word)"
proof (induction bs)
  case Nil
  then show ?case by simp
next
  case (Cons b bs)
  show ?case
    by (rule bit_word_eqI, subst (2) mem_value.simps, subst mem_value.simps, subst Cons.IH)
      (auto simp: bit_or_iff bit_push_bit_iff bit_take_bit_iff bit_ucast_iff dest: bit_imp_le_length)
qed

lemma mem_value_bit_bound: "bit (mem_value bs :: 'a::len word) n \<Longrightarrow> n < 8 * length bs"
  by (metis bit_take_bit_iff mem_value_bits)

lemma mem_image_value:
  "8 * length bs \<le> LENGTH('a) \<Longrightarrow> mem_image (length bs) (mem_value bs :: 'a::len word) = bs"
proof (induction bs)
  case Nil
  then show ?case by simp
next
  case (Cons b bs)
  let ?v = "mem_value bs :: 'a word"
  have "ucast (ucast b OR push_bit 8 ?v) = b"
    using Cons.prems
    by (intro bit_word_eqI) (auto simp: bit_or_iff bit_push_bit_iff bit_ucast_iff)
  moreover have "drop_bit 8 (ucast b OR push_bit 8 ?v) = ?v"
    using Cons.prems
    by (intro bit_word_eqI)
      (auto simp: bit_or_iff bit_push_bit_iff bit_ucast_iff bit_drop_bit_eq
        dest: bit_imp_le_length mem_value_bit_bound)
  ultimately show ?case using Cons by simp
qed

definition fixed_image :: "endian \<Rightarrow> 'a::len word \<Rightarrow> bytes" where
  "fixed_image e w = (let bs = mem_image (LENGTH('a) div 8) w in
     if e = CHAT_LITTLE_ENDIAN then bs else rev bs)"

lemma mem_image_byteswap:
  "mem_image (LENGTH('a) div 8) (byteswap w) = rev (mem_image (LENGTH('a) div 8) (w :: 'a::len word))"
  using mem_image_value [where 'a = 'a, of "rev (mem_image (LENGTH('a) div 8) w)"]
  by (simp add: byteswap_def)

lemma emits_write_swapped: "emits e (write_swapped w) (fixed_image e w) ()"
  using emits_write [of e] mem_image_byteswap [of w]
  by (cases e) (simp_all add: emits_def write_swapped_def fixed_image_def CHAT_BYTE_ORDER_def Let_def)

lemma fixed_image_value:
  fixes w :: "'a::len word"
  assumes "8 dvd LENGTH('a)"
  shows "(if e = CHAT_BYTE_ORDER then mem_value (fixed_image e w)
          else byteswap (mem_value (fixed_image e w))) = w"
proof -
  let ?n = "LENGTH('a) div 8"
  have n: "8 * ?n = LENGTH('a)" using assms by simp
  have rev: "mem_image ?n (mem_value (rev (mem_image ?n w)) :: 'a word) = rev (mem_image ?n w)"
    using mem_image_value [where 'a = 'a, of "rev (mem_image ?n w)"] n by simp
  show ?thesis
    using n by (cases e)
      (simp_all add: fixed_image_def CHAT_BYTE_ORDER_def Let_def byteswap_def rev mem_value_image_full)
qed

lemma length_fixed_image [simp]: "length (fixed_image e (w :: 'a::len word)) = LENGTH('a) div 8"
  by (simp add: fixed_image_def Let_def)

lemma accepts_read_swapped:
  assumes "8 dvd LENGTH('a)"
  shows "accepts k e read_swapped (fixed_image e w) (w :: 'a::len word)"
proof (rule accepts_mono)
  have "0 < LENGTH('a) div 8"
    using assms by (metis dvd_div_eq_0_iff gr0I len_gt_0 less_irrefl)
  then have "fixed_image e w \<noteq> []" by (metis length_0_conv length_fixed_image less_irrefl)
  then have acc: "accepts 0 e (ByteArray_read (LENGTH('a) div 8)) (fixed_image e w) (fixed_image e w)"
    by (intro accepts_read) simp_all
  show "accepts 0 e read_swapped (fixed_image e w) w"
    unfolding accepts_def
  proof (intro allI impI)
    fix ba rest
    assume *: "ba_wf ba" "m_endian ba = e" "unread ba = fixed_image e w @ rest"
      "m_position ba + length (fixed_image e w) + 0 \<le> m_capacity ba"
    obtain ba' where "ByteArray_read (LENGTH('a) div 8) ba = Inr (fixed_image e w, ba')"
      "ba_wf ba'" "m_endian ba' = e" "m_capacity ba' = m_capacity ba \<and> m_baseSize ba' = m_baseSize ba" "data ba' = data ba"
      "m_position ba' = m_position ba + length (fixed_image e w)"
      using acceptsE [OF acc *] .
    then show "\<exists>ba'. read_swapped ba = Inr (w, ba') \<and> ba_wf ba' \<and> m_endian ba' = e \<and>
        m_capacity ba' = m_capacity ba \<and> m_baseSize ba' = m_baseSize ba \<and>
        ba_abs ba' = (data ba, m_position ba + length (fixed_image e w))"
      using fixed_image_value [OF assms, of e w] by (simp add: read_swapped_def Let_def ba_abs_def)
  qed
qed

lemma fixed_image_byte: "fixed_image e (b :: byte) = [b]"
  by (simp add: fixed_image_def Let_def)

lemma emits_writeFuint8: "emits e (writeFuint8 b) [b] ()"
  using emits_write [of e "[b]"] by (simp add: writeFuint8_def)

lemma accepts_readFuint8: "accepts k e readFuint8 [b] b"
  unfolding readFuint8_def
  by (rule accepts_mono, rule accepts_bind_return [OF accepts_read]) simp_all

section \<open>Variable-length integers\<close>

declare uvarint.simps [simp del] readUint_loop.simps [simp del]

lemma uvarint_small: "unat v < 0x80 \<Longrightarrow> uvarint v = [ucast v]"
  by (subst uvarint.simps) simp

lemma uvarint_big:
  "0x80 \<le> unat v \<Longrightarrow> uvarint v = (ucast (v AND 0x7F) OR 0x80) # uvarint (drop_bit 7 v)"
  by (subst uvarint.simps) simp

lemma unat_drop7: "unat (drop_bit 7 v) = unat v div 128"
  by (simp only: unat_drop_bit_eq) (simp add: drop_bit_eq_div)

lemma uvarint_length_le:
  "unat v < 128 ^ Suc n \<Longrightarrow> length (uvarint v) \<le> Suc n"
proof (induction n arbitrary: v)
  case 0
  then show ?case by (simp add: uvarint_small)
next
  case (Suc n)
  show ?case
  proof (cases "unat v < 0x80")
    case True
    then show ?thesis by (simp add: uvarint_small)
  next
    case False
    have "unat (drop_bit 7 v) < 128 ^ Suc n"
      using Suc.prems by (simp add: unat_drop7 less_mult_imp_div_less mult.commute)
    from Suc.IH [OF this] False show ?thesis by (simp add: uvarint_big)
  qed
qed

lemma readUint_loop_last:
  assumes "i < bits" and "b < 0x80"
  shows "accepts k e (readUint_loop bits i r) [b] (r OR push_bit i (ucast b))"
  unfolding accepts_def
proof (intro allI impI)
  fix ba rest
  assume *: "ba_wf ba" "m_endian ba = e" "unread ba = [b] @ rest"
    "m_position ba + length [b] + k \<le> m_capacity ba"
  obtain ba' where "readFuint8 ba = Inr (b, ba')" "ba_wf ba'" "m_endian ba' = e"
      "m_capacity ba' = m_capacity ba \<and> m_baseSize ba' = m_baseSize ba" "data ba' = data ba" "m_position ba' = m_position ba + length [b]"
    using acceptsE [OF accepts_readFuint8 *] .
  then show "\<exists>ba'. readUint_loop bits i r ba = Inr (r OR push_bit i (ucast b), ba') \<and> ba_wf ba' \<and>
      m_endian ba' = e \<and> m_capacity ba' = m_capacity ba \<and> m_baseSize ba' = m_baseSize ba \<and>
      ba_abs ba' = (data ba, m_position ba + length [b])"
    using assms by (simp add: readUint_loop.simps [of bits i r ba] ba_abs_def)
qed

lemma readUint_loop_more:
  assumes "i < bits" and "\<not> b < 0x80"
    and "accepts k e (readUint_loop bits (i + 7) (r OR push_bit i (ucast (b AND 0x7F)))) bs x"
  shows "accepts k e (readUint_loop bits i r) (b # bs) x"
proof -
  let ?step = "bind_action readFuint8
      (\<lambda>b. if b < 0x80 then return_action (r OR push_bit i (ucast b))
           else readUint_loop bits (i + 7) (r OR push_bit i (ucast (b AND 0x7F))))"
  have "readUint_loop bits i r = ?step"
    using assms(1)
    by (intro ext) (simp add: readUint_loop.simps [of bits i r] bind_action_def split: sum.splits)
  moreover have "accepts k e ?step ([b] @ bs) x"
    using assms(2,3) by (intro accepts_bind [OF accepts_readFuint8]) simp
  ultimately show ?thesis by simp
qed

lemma and_7F: "(v :: 'a::len word) AND 0x7F = take_bit 7 v"
  using take_bit_eq_mask [of 7 v] by (simp add: mask_numeral)

lemma low7_or_high: "take_bit 7 v OR push_bit 7 (drop_bit 7 v) = (v :: 'a::len word)"
proof (rule bit_word_eqI)
  fix n assume "n < LENGTH('a)"
  then show "bit (take_bit 7 v OR push_bit 7 (drop_bit 7 v)) n = bit v n"
    by (cases "n < 7") (simp_all add: bit_or_iff bit_push_bit_iff bit_take_bit_iff bit_drop_bit_eq)
qed

lemma varint_byte:
  fixes v :: "'a::len word"
  assumes "8 \<le> LENGTH('a)"
  shows "\<not> (ucast (v AND 0x7F) OR 0x80 :: byte) < 0x80"
    and "ucast ((ucast (v AND 0x7F) OR 0x80 :: byte) AND 0x7F) = v AND 0x7F"
proof -
  show "\<not> (ucast (v AND 0x7F) OR 0x80 :: byte) < 0x80"
    by (simp add: not_less le_word_or1)
  have "(ucast (take_bit 7 v) OR 0x80 :: byte) AND 0x7F = take_bit 7 (ucast (take_bit 7 v))"
    unfolding and_7F by (simp add: take_bit_or)
  then show "ucast ((ucast (v AND 0x7F) OR 0x80 :: byte) AND 0x7F) = v AND 0x7F"
    unfolding and_7F by (intro bit_word_eqI) (use assms in \<open>auto simp: bit_simps\<close>)
qed

lemma accepts_uvarint:
  fixes v r :: "'a::len word"
  assumes "8 \<le> LENGTH('a)"
  shows "i < bits \<Longrightarrow> unat v < 2 ^ (bits - i) \<Longrightarrow>
           accepts k e (readUint_loop bits i r) (uvarint v) (r OR push_bit i v)"
proof (induction v arbitrary: i r rule: uvarint.induct)
  case (1 v)
  show ?case
  proof (cases "unat v < 0x80")
    case True
    then have u: "unat (ucast v :: byte) = unat v"
      by (simp add: unsigned_ucast_eq take_bit_nat_eq_self)
    then have "(ucast v :: byte) < 0x80"
      using True by (simp only: word_less_nat_alt) simp
    moreover have "unat (ucast (ucast v :: byte) :: 'a word) = unat v"
      by (subst unsigned_ucast_eq) (simp only: u, simp add: take_bit_nat_eq_self)
    then have "ucast (ucast v :: byte) = v" by (simp only: word_unat_eq_iff)
    ultimately show ?thesis
      using readUint_loop_last [OF "1.prems"(1), of "ucast v" k e r] True
      by (simp add: uvarint_small)
  next
    case False
    have "(2::nat) ^ (bits - i) \<le> 2 ^ 7" if "bits - i \<le> 7"
      using that by (intro power_increasing) simp_all
    with False "1.prems"(2) have i: "i + 7 < bits" by (force simp: not_less)
    then have "(2::nat) ^ (bits - i) = 2 ^ (bits - (i + 7)) * 2 ^ 7"
      by (subst power_add [symmetric], intro arg_cong [of _ _ "(^) 2"]) simp
    with "1.prems"(2) have "unat v < 2 ^ (bits - (i + 7)) * 128" by simp
    then have "unat (drop_bit 7 v) < 2 ^ (bits - (i + 7))"
      by (simp only: unat_drop7 less_mult_imp_div_less)
    then have "accepts k e (readUint_loop bits (i + 7) (r OR push_bit i (v AND 0x7F)))
        (uvarint (drop_bit 7 v)) ((r OR push_bit i (v AND 0x7F)) OR push_bit (i + 7) (drop_bit 7 v))"
      using "1.IH" False i by simp
    moreover have "(r OR push_bit i (v AND 0x7F)) OR push_bit (i + 7) (drop_bit 7 v) = r OR push_bit i v"
      using arg_cong [OF low7_or_high [of v], of "push_bit i"]
      by (simp add: and_7F push_bit_or or.assoc push_bit_push_bit)
    ultimately show ?thesis
      using False "1.prems"(1) varint_byte [OF assms, of v]
      by (simp add: uvarint_big readUint_loop_more)
  qed
qed

lemma zigzag_roundtrip:
  fixes v :: "'a::len word"
  assumes "1 < LENGTH('a)"
  defines "u \<equiv> (if sint v < 0 then (- v) * 2 - 1 else v * 2)"
  shows "drop_bit 1 u XOR - (u AND 1) = v"
proof -
  define w where "w = v * 2"
  have w: "bit w n \<longleftrightarrow> 0 < n \<and> n < LENGTH('a) \<and> bit v (n - 1)" for n
    using bit_push_bit_iff [of 1 v n] by (auto simp: w_def push_bit_eq_mult)
  have sign: "sint v < 0 \<longleftrightarrow> bit v (LENGTH('a) - 1)"
    by (simp add: bit_last_iff)
  have hi: "bit (drop_bit (Suc 0) x) n \<longleftrightarrow> Suc n < LENGTH('a) \<and> bit x (Suc n)" for x :: "'a word" and n
    by (auto simp: bit_drop_bit_eq dest: bit_imp_le_length)
  show ?thesis
  proof (cases "sint v < 0")
    case True
    have u: "u = NOT w" using True by (simp add: u_def w_def not_eq_complement)
    have "u AND 1 = 1"
      by (rule bit_word_eqI) (auto simp: u bit_and_iff bit_not_iff w bit_1_iff)
    then have "drop_bit 1 u XOR - (u AND 1) = NOT (drop_bit 1 u)" by simp
    also have "\<dots> = v"
    proof (rule bit_word_eqI)
      fix n assume "n < LENGTH('a)"
      then show "bit (NOT (drop_bit 1 u)) n = bit v n"
        using True sign by (cases "n = LENGTH('a) - 1") (auto simp: bit_not_iff hi u w)
    qed
    finally show ?thesis .
  next
    case False
    then have u: "u = w" by (simp add: u_def w_def)
    have "u AND 1 = 0"
      by (rule bit_word_eqI) (auto simp: u bit_and_iff w bit_1_iff)
    moreover have "drop_bit 1 u = v"
    proof (rule bit_word_eqI)
      fix n assume "n < LENGTH('a)"
      then show "bit (drop_bit 1 u) n = bit v n"
        using False sign by (cases "n = LENGTH('a) - 1") (auto simp: hi u w)
    qed
    ultimately show ?thesis by simp
  qed
qed

section \<open>Every accessor pair is a codec\<close>

lemmas fixed_defs =
  writeFint16_def writeFuint16_def writeFint32_def writeFuint32_def writeFint64_def writeFuint64_def
  readFint16_def readFuint16_def readFint32_def readFuint32_def readFint64_def readFuint64_def
  writeFloat_def writeDouble_def readFloat_def readDouble_def

interpretation u8: byte_codec 0 e "\<lambda>_. True" writeFuint8 readFuint8 "\<lambda>b. [b]" "\<lambda>_. ()" for e
  by unfold_locales (rule emits_writeFuint8, rule accepts_readFuint8)

interpretation u16: byte_codec 0 e "\<lambda>_. True" writeFuint16 readFuint16 "fixed_image e" "\<lambda>_. ()" for e
  by unfold_locales (simp_all add: fixed_defs emits_write_swapped accepts_read_swapped)

interpretation u32: byte_codec 0 e "\<lambda>_. True" writeFuint32 readFuint32 "fixed_image e" "\<lambda>_. ()" for e
  by unfold_locales (simp_all add: fixed_defs emits_write_swapped accepts_read_swapped)

interpretation u64: byte_codec 0 e "\<lambda>_. True" writeFuint64 readFuint64 "fixed_image e" "\<lambda>_. ()" for e
  by unfold_locales (simp_all add: fixed_defs emits_write_swapped accepts_read_swapped)

interpretation v32: byte_codec 0 e "\<lambda>_. True" writeUint32 readUint32 uvarint "\<lambda>_. ()" for e
proof unfold_locales
  fix v :: "32 word"
  show "emits e (writeUint32 v) (uvarint v) ()" unfolding writeUint32_def by (rule emits_write)
  show "accepts 0 e readUint32 (uvarint v) v"
    using accepts_uvarint [of 0 32 v 0 e 0] unsigned_less [of v] by (simp add: readUint32_def)
qed

interpretation v64: byte_codec 0 e "\<lambda>_. True" writeUint64 readUint64 uvarint "\<lambda>_. ()" for e
proof unfold_locales
  fix v :: "64 word"
  show "emits e (writeUint64 v) (uvarint v) ()" unfolding writeUint64_def by (rule emits_write)
  show "accepts 0 e readUint64 (uvarint v) v"
    using accepts_uvarint [of 0 64 v 0 e 0] unsigned_less [of v] by (simp add: readUint64_def)
qed

interpretation z32: byte_codec 0 e "\<lambda>_. True" writeInt32 readInt32
    "\<lambda>v. uvarint (EncodeZigzag32 v)" "\<lambda>_. ()" for e
proof unfold_locales
  fix v :: "32 word"
  show "emits e (writeInt32 v) (uvarint (EncodeZigzag32 v)) ()"
    unfolding writeInt32_def by (rule v32.enc_law) simp
  show "accepts 0 e readInt32 (uvarint (EncodeZigzag32 v)) v"
    unfolding readInt32_def using zigzag_roundtrip [of v]
    by (intro accepts_bind_return [OF v32.dec_law]) (simp_all add: DecodeZigzag32_def EncodeZigzag32_def)
qed

interpretation z64: byte_codec 0 e "\<lambda>_. True" writeInt64 readInt64
    "\<lambda>v. uvarint (EncodeZigzag64 v)" "\<lambda>_. ()" for e
proof unfold_locales
  fix v :: "64 word"
  show "emits e (writeInt64 v) (uvarint (EncodeZigzag64 v)) ()"
    unfolding writeInt64_def by (rule v64.enc_law) simp
  show "accepts 0 e readInt64 (uvarint (EncodeZigzag64 v)) v"
    unfolding readInt64_def using zigzag_roundtrip [of v]
    by (intro accepts_bind_return [OF v64.dec_law]) (simp_all add: DecodeZigzag64_def EncodeZigzag64_def)
qed

text \<open>
  The string formats are a length followed by the bytes. An empty string is left out: reading it
  back is a read of no bytes, which needs the cursor inside the allocated blocks (see below).
\<close>

lemma string_emits:
  assumes "byte_codec 0 e (\<lambda>_. True) put get img (\<lambda>_. ())"
  shows "emits e (bind_action (put (of_nat (length s))) (\<lambda>_. ByteArray_write s))
           (img (of_nat (length s)) @ s) ()"
  using byte_codec.enc_law [OF assms, of "of_nat (length s)"]
  by (rule emits_bind [OF _ emits_write]) simp

lemma string_accepts:
  fixes get :: "'a::len word ba"
  assumes "byte_codec 0 e (\<lambda>_. True) put get img (\<lambda>_. ())"
    and "length s < 2 ^ LENGTH('a)" and "s \<noteq> [] \<or> 0 < k"
  shows "accepts k e (bind_action get (\<lambda>len. ByteArray_read (unat len)))
           (img (of_nat (length s)) @ s) s"
proof (rule accepts_bind)
  show "accepts k e get (img (of_nat (length s))) (of_nat (length s))"
    using byte_codec.dec_law [OF assms(1)] by (rule accepts_mono) simp
  have "unat (of_nat (length s) :: 'a word) = length s"
    using assms(2) by (simp add: unat_of_nat take_bit_nat_eq_self)
  then show "accepts k e (ByteArray_read (unat (of_nat (length s) :: 'a word))) s s"
    using assms(3) by (simp add: accepts_read)
qed

interpretation s16: byte_codec 0 e "\<lambda>s. s \<noteq> [] \<and> length s < 2 ^ 16" writeStringF16 readStringF16
    "\<lambda>s. fixed_image e (of_nat (length s) :: 16 word) @ s" "\<lambda>_. ()" for e
  unfolding writeStringF16_def readStringF16_def
  by unfold_locales (rule string_emits [OF u16.byte_codec_axioms],
      rule string_accepts [OF u16.byte_codec_axioms], simp_all)

interpretation s32: byte_codec 0 e "\<lambda>s. s \<noteq> [] \<and> length s < 2 ^ 32" writeStringF32 readStringF32
    "\<lambda>s. fixed_image e (of_nat (length s) :: 32 word) @ s" "\<lambda>_. ()" for e
  unfolding writeStringF32_def readStringF32_def
  by unfold_locales (rule string_emits [OF u32.byte_codec_axioms],
      rule string_accepts [OF u32.byte_codec_axioms], simp_all)

interpretation s64: byte_codec 0 e "\<lambda>s. s \<noteq> [] \<and> length s < 2 ^ 64" writeStringF64 readStringF64
    "\<lambda>s. fixed_image e (of_nat (length s) :: 64 word) @ s" "\<lambda>_. ()" for e
  unfolding writeStringF64_def readStringF64_def
  by unfold_locales (rule string_emits [OF u64.byte_codec_axioms],
      rule string_accepts [OF u64.byte_codec_axioms], simp_all)

interpretation svint: byte_codec 0 e "\<lambda>s. s \<noteq> [] \<and> length s < 2 ^ 64" writeStringVint readStringVint
    "\<lambda>s. uvarint (of_nat (length s) :: 64 word) @ s" "\<lambda>_. ()" for e
  unfolding writeStringVint_def readStringVint_def
  by unfold_locales (rule string_emits [OF v64.byte_codec_axioms],
      rule string_accepts [OF v64.byte_codec_axioms], simp_all)

section \<open>Properties of the accessors\<close>

text \<open>C23. What is written is what is read: on any well-formed buffer, writing bytes, moving the cursor
  back to where it was and reading as many returns them and leaves the abstract buffer as the write
  left it.\<close>

theorem write_seek_read_back:
  assumes "ba_wf ba" and "bs \<noteq> []"
  shows "\<exists>ba1 ba2 ba3. ByteArray_write bs ba = Inr ((), ba1) \<and>
           setPosition (getPosition ba) ba1 = Inr ((), ba2) \<and>
           ByteArray_read (length bs) ba2 = Inr (bs, ba3) \<and> ba_wf ba3 \<and> ba_abs ba3 = ba_abs ba1"
  using buf.write_seek_read [OF assms] by (simp add: ba_abs_def getPosition_def)

theorem write_seek_read_back_witness:
  "\<exists>ba1 ba2 ba3. ByteArray_write [1, 2, 3] (ByteArray_new 2) = Inr ((), ba1) \<and>
     setPosition 0 ba1 = Inr ((), ba2) \<and> ByteArray_read 3 ba2 = Inr ([1, 2, 3], ba3)"
  using write_seek_read_back [of "ByteArray_new 2" "[1, 2, 3]"] ba_wf_new [of 2]
  by (auto simp: getPosition_def data_new numeral_3_eq_3)

text \<open>The fixed-width accessors round trip at every width and in both byte orders: the writers
  store exactly 2, 4 and 8 bytes, and the readers return the value that was written, ending where
  the writer ended.\<close>

theorem fixed_width_roundtrip:
  assumes "ba_wf ba"
  shows "(\<exists>ba1 ba2 ba3. writeFuint16 a ba = Inr ((), ba1) \<and> getPosition ba1 = getPosition ba + 2 \<and>
            setPosition (getPosition ba) ba1 = Inr ((), ba2) \<and> readFuint16 ba2 = Inr (a, ba3) \<and>
            ba_abs ba3 = ba_abs ba1) \<and>
         (\<exists>ba1 ba2 ba3. writeFuint32 b ba = Inr ((), ba1) \<and> getPosition ba1 = getPosition ba + 4 \<and>
            setPosition (getPosition ba) ba1 = Inr ((), ba2) \<and> readFuint32 ba2 = Inr (b, ba3) \<and>
            ba_abs ba3 = ba_abs ba1) \<and>
         (\<exists>ba1 ba2 ba3. writeFuint64 c ba = Inr ((), ba1) \<and> getPosition ba1 = getPosition ba + 8 \<and>
            setPosition (getPosition ba) ba1 = Inr ((), ba2) \<and> readFuint64 ba2 = Inr (c, ba3) \<and>
            ba_abs ba3 = ba_abs ba1)"
  using u16.roundtrip_tight [OF refl TrueI assms refl, of a]
    u32.roundtrip_tight [OF refl TrueI assms refl, of b]
    u64.roundtrip_tight [OF refl TrueI assms refl, of c]
  by simp

theorem fixed_width_roundtrip_witness:
  "\<exists>ba1 ba2 ba3. writeFuint32 0x01020304 (ByteArray_new 3) = Inr ((), ba1) \<and>
     setPosition 0 ba1 = Inr ((), ba2) \<and> readFuint32 ba2 = Inr (0x01020304, ba3)"
  using fixed_width_roundtrip [of "ByteArray_new 3" 0 "0x01020304" 0] ba_wf_new [of 3]
  by (auto simp: getPosition_def data_new)

text \<open>Variable-length integers: \<open>writeUint32\<close> and \<open>writeUint64\<close> fill at most the 5 and 10 bytes of
  their stack arrays, and \<open>readUint32\<close> and \<open>readUint64\<close> read the same value back for every value of
  the type.\<close>

theorem varint_roundtrip:
  assumes "ba_wf ba"
  shows "length (uvarint v) \<le> 5 \<and> length (uvarint w) \<le> 10 \<and>
         (\<exists>ba1 ba2 ba3. writeUint32 v ba = Inr ((), ba1) \<and>
            getPosition ba1 = getPosition ba + length (uvarint v) \<and>
            setPosition (getPosition ba) ba1 = Inr ((), ba2) \<and> readUint32 ba2 = Inr (v, ba3) \<and>
            ba_abs ba3 = ba_abs ba1) \<and>
         (\<exists>ba1 ba2 ba3. writeUint64 w ba = Inr ((), ba1) \<and>
            getPosition ba1 = getPosition ba + length (uvarint w) \<and>
            setPosition (getPosition ba) ba1 = Inr ((), ba2) \<and> readUint64 ba2 = Inr (w, ba3) \<and>
            ba_abs ba3 = ba_abs ba1)"
proof (intro conjI)
  have "unat v < 2 ^ 32" "unat w < 2 ^ 64"
    using unsigned_less [of v, where 'a = nat] unsigned_less [of w, where 'a = nat] by simp_all
  then have "unat v < 128 ^ Suc 4" "unat w < 128 ^ Suc 9" by simp_all
  then show "length (uvarint v) \<le> 5" "length (uvarint w) \<le> 10"
    using uvarint_length_le [of v 4] uvarint_length_le [of w 9] by simp_all
qed (rule v32.roundtrip_tight [OF refl TrueI assms refl] v64.roundtrip_tight [OF refl TrueI assms refl])+

theorem varint_roundtrip_witness:
  "\<exists>ba1 ba2 ba3. writeUint32 300 (ByteArray_new 1) = Inr ((), ba1) \<and>
     setPosition 0 ba1 = Inr ((), ba2) \<and> readUint32 ba2 = Inr (300, ba3)"
  using varint_roundtrip [of "ByteArray_new 1" 300 0] ba_wf_new [of 1]
  by (auto simp: getPosition_def data_new)

text \<open>Zigzag coding: the decoders invert the encoders on every word, the most negative one
  included, and the signed variable-length accessors round trip.\<close>

theorem signed_varint_roundtrip:
  assumes "ba_wf ba"
  shows "DecodeZigzag32 (EncodeZigzag32 v) = v \<and> DecodeZigzag64 (EncodeZigzag64 w) = w \<and>
         (\<exists>ba1 ba2 ba3. writeInt32 v ba = Inr ((), ba1) \<and>
            setPosition (getPosition ba) ba1 = Inr ((), ba2) \<and> readInt32 ba2 = Inr (v, ba3) \<and>
            ba_abs ba3 = ba_abs ba1) \<and>
         (\<exists>ba1 ba2 ba3. writeInt64 w ba = Inr ((), ba1) \<and>
            setPosition (getPosition ba) ba1 = Inr ((), ba2) \<and> readInt64 ba2 = Inr (w, ba3) \<and>
            ba_abs ba3 = ba_abs ba1)"
proof (intro conjI)
  show "DecodeZigzag32 (EncodeZigzag32 v) = v" "DecodeZigzag64 (EncodeZigzag64 w) = w"
    using zigzag_roundtrip [of v] zigzag_roundtrip [of w]
    by (simp_all add: EncodeZigzag32_def EncodeZigzag64_def DecodeZigzag32_def DecodeZigzag64_def)
qed (use z32.roundtrip_tight [OF refl TrueI assms refl] z64.roundtrip_tight [OF refl TrueI assms refl]
    in blast)+

theorem signed_varint_roundtrip_witness:
  "\<exists>ba1 ba2 ba3. writeInt32 (- 5) (ByteArray_new 1) = Inr ((), ba1) \<and>
     setPosition 0 ba1 = Inr ((), ba2) \<and> readInt32 ba2 = Inr (- 5, ba3)"
  using signed_varint_roundtrip [of "ByteArray_new 1" "- 5" 0] ba_wf_new [of 1]
  by (auto simp: getPosition_def data_new)

text \<open>The length-prefixed strings round trip for every non-empty string whose length fits the
  prefix.\<close>

theorem string_roundtrip:
  assumes "ba_wf ba" and "s \<noteq> []" and "length s < 2 ^ 16"
  shows "(\<exists>ba1 ba2 ba3. writeStringF16 s ba = Inr ((), ba1) \<and>
            setPosition (getPosition ba) ba1 = Inr ((), ba2) \<and> readStringF16 ba2 = Inr (s, ba3) \<and>
            ba_abs ba3 = ba_abs ba1) \<and>
         (\<exists>ba1 ba2 ba3. writeStringF32 s ba = Inr ((), ba1) \<and>
            setPosition (getPosition ba) ba1 = Inr ((), ba2) \<and> readStringF32 ba2 = Inr (s, ba3) \<and>
            ba_abs ba3 = ba_abs ba1) \<and>
         (\<exists>ba1 ba2 ba3. writeStringVint s ba = Inr ((), ba1) \<and>
            setPosition (getPosition ba) ba1 = Inr ((), ba2) \<and> readStringVint ba2 = Inr (s, ba3) \<and>
            ba_abs ba3 = ba_abs ba1)"
proof -
  have "s \<noteq> [] \<and> length s < 2 ^ 16" "s \<noteq> [] \<and> length s < 2 ^ 32" "s \<noteq> [] \<and> length s < 2 ^ 64"
    using assms(2,3) by simp_all
  from s16.roundtrip_tight [OF refl this(1) assms(1) refl]
    s32.roundtrip_tight [OF refl this(2) assms(1) refl]
    svint.roundtrip_tight [OF refl this(3) assms(1) refl]
  show ?thesis by (intro conjI) blast+
qed

theorem string_roundtrip_witness:
  "\<exists>ba1 ba2 ba3. writeStringF16 [104, 105] (ByteArray_new 3) = Inr ((), ba1) \<and>
     setPosition 0 ba1 = Inr ((), ba2) \<and> readStringF16 ba2 = Inr ([104, 105], ba3)"
  using string_roundtrip [of "ByteArray_new 3" "[104, 105]"] ba_wf_new [of 3]
  by (auto simp: getPosition_def data_new)

text \<open>The empty string is the exception: in a buffer whose block holds just the prefix, what
  \<open>writeStringF16\<close> wrote for it cannot be read back; \<open>readStringF16\<close> dereferences the null \<open>m_cur\<close>.\<close>

theorem empty_string_not_readable:
  "case writeStringF16 [] (ByteArray_new 2) of
     Inl _ \<Rightarrow> False
   | Inr (_, ba1) \<Rightarrow>
       (case setPosition 0 ba1 of
          Inl _ \<Rightarrow> False
        | Inr (_, ba2) \<Rightarrow> map_sum id fst (readStringF16 ba2) = Inl Null_deref)"
  by code_simp

end
