(* ===== verification/DynamicTable.thy ===== *)
theory DynamicTable
  imports Prelude
begin

text \<open>
  \<^verbatim>\<open>src/chat/http2/dynamic_table.cc\<close>: the header table of HPACK. A header's name and value are
  \<open>std::string\<close>s, so byte sequences; \<open>str\<close> turns a literal into one. The static table is a constant
  list; the dynamic table keeps its entries oldest first, as \<open>m_datas\<close> does, and addresses them
  newest first from index 62. The locale \<open>header_table\<close> states what the packer and the parser rely
  on, and is interpreted on these operations.
\<close>

type_synonym header = "bytes \<times> bytes"

section \<open>The static table\<close>

definition s_static_headers :: "header list" where
  "s_static_headers =
     [(str '''', str ''''),
      (str '':authority'', str ''''),
      (str '':method'', str ''GET''),
      (str '':method'', str ''POST''),
      (str '':path'', str ''/''),
      (str '':path'', str ''/index.html''),
      (str '':scheme'', str ''http''),
      (str '':scheme'', str ''https''),
      (str '':status'', str ''200''),
      (str '':status'', str ''204''),
      (str '':status'', str ''206''),
      (str '':status'', str ''304''),
      (str '':status'', str ''400''),
      (str '':status'', str ''404''),
      (str '':status'', str ''500''),
      (str ''accept-charset'', str ''''),
      (str ''accept-encoding'', str ''gzip, deflate''),
      (str ''accept-language'', str ''''),
      (str ''accept-ranges'', str ''''),
      (str ''accept'', str ''''),
      (str ''access-control-allow-origin'', str ''''),
      (str ''age'', str ''''),
      (str ''allow'', str ''''),
      (str ''authorization'', str ''''),
      (str ''cache-control'', str ''''),
      (str ''content-disposition'', str ''''),
      (str ''content-encoding'', str ''''),
      (str ''content-language'', str ''''),
      (str ''content-length'', str ''''),
      (str ''content-location'', str ''''),
      (str ''content-range'', str ''''),
      (str ''content-type'', str ''''),
      (str ''cookie'', str ''''),
      (str ''date'', str ''''),
      (str ''etag'', str ''''),
      (str ''expect'', str ''''),
      (str ''expires'', str ''''),
      (str ''from'', str ''''),
      (str ''host'', str ''''),
      (str ''if-match'', str ''''),
      (str ''if-modified-since'', str ''''),
      (str ''if-none-match'', str ''''),
      (str ''if-range'', str ''''),
      (str ''if-unmodified-since'', str ''''),
      (str ''last-modified'', str ''''),
      (str ''link'', str ''''),
      (str ''location'', str ''''),
      (str ''max-forwards'', str ''''),
      (str ''proxy-authenticate'', str ''''),
      (str ''proxy-authorization'', str ''''),
      (str ''range'', str ''''),
      (str ''referer'', str ''''),
      (str ''refresh'', str ''''),
      (str ''retry-after'', str ''''),
      (str ''server'', str ''''),
      (str ''set-cookie'', str ''''),
      (str ''strict-transport-security'', str ''''),
      (str ''transfer-encoding'', str ''''),
      (str ''user-agent'', str ''''),
      (str ''vary'', str ''''),
      (str ''via'', str ''''),
      (str ''www-authenticate'', str '''')]"

definition GetStaticHeaders :: "nat \<Rightarrow> error + header" where
  "GetStaticHeaders idx =
     (if idx < length s_static_headers then Inr (s_static_headers ! idx) else Inl Bad_index)"

text \<open>The scan for a name from a given index on; \<open>-1\<close> when there is none.\<close>

fun name_scan :: "header list \<Rightarrow> nat \<Rightarrow> bytes \<Rightarrow> int" where
  "name_scan [] i name = -1"
| "name_scan (h # hs) i name = (if fst h = name then int i else name_scan hs (Suc i) name)"

definition GetStaticHeadersIndex :: "bytes \<Rightarrow> int" where
  "GetStaticHeadersIndex name = name_scan (drop 1 s_static_headers) 1 name"

text \<open>
  The loop of \<open>GetStaticHeadersPair\<close> and of \<open>findPair\<close>: the first index with the right name is kept
  until an entry with the right name and value ends the scan.
\<close>

fun pair_scan :: "header list \<Rightarrow> nat \<Rightarrow> bytes \<Rightarrow> bytes \<Rightarrow> int \<times> bool \<Rightarrow> int \<times> bool" where
  "pair_scan [] i name val rt = rt"
| "pair_scan (h # hs) i name val rt =
     (if fst h = name
      then let rt' = (if fst rt = -1 then (int i, snd rt) else rt)
           in if snd h = val then (int i, True) else pair_scan hs (Suc i) name val rt'
      else pair_scan hs (Suc i) name val rt)"

definition GetStaticHeadersPair :: "bytes \<Rightarrow> bytes \<Rightarrow> int \<times> bool" where
  "GetStaticHeadersPair name val = pair_scan s_static_headers 0 name val (-1, False)"

section \<open>The dynamic table\<close>

record DynamicTable =
  m_maxDataSize :: int
  m_dataSize :: int
  m_datas :: "header list"

definition DynamicTable_new :: DynamicTable where
  "DynamicTable_new = \<lparr>m_maxDataSize = 4 * 1024, m_dataSize = 0, m_datas = []\<rparr>"

definition setMaxDataSize :: "int \<Rightarrow> DynamicTable \<Rightarrow> DynamicTable" where
  "setMaxDataSize v t = t\<lparr>m_maxDataSize := v\<rparr>"

definition entry_size :: "header \<Rightarrow> int" where
  "entry_size h = int (length (fst h)) + int (length (snd h)) + 32"

fun evict :: "int \<Rightarrow> int \<Rightarrow> int \<Rightarrow> header list \<Rightarrow> int \<times> header list" where
  "evict len maxSize dataSize [] = (dataSize, [])"
| "evict len maxSize dataSize (p # ps) =
     (if dataSize + len > maxSize then evict len maxSize (dataSize - entry_size p) ps
      else (dataSize, p # ps))"

definition DynamicTable_update :: "bytes \<Rightarrow> bytes \<Rightarrow> DynamicTable \<Rightarrow> DynamicTable" where
  "DynamicTable_update name value t =
     (let len = int (length name) + int (length value) + 32;
          (sz, ds) = evict len (m_maxDataSize t) (m_dataSize t) (m_datas t)
      in t\<lparr>m_dataSize := sz + len, m_datas := ds @ [(name, value)]\<rparr>)"

definition findIndex :: "bytes \<Rightarrow> DynamicTable \<Rightarrow> int" where
  "findIndex name t =
     (let idx = GetStaticHeadersIndex name
      in if idx = -1 then name_scan (rev (m_datas t)) 62 name else idx)"

definition findPair :: "bytes \<Rightarrow> bytes \<Rightarrow> DynamicTable \<Rightarrow> int \<times> bool" where
  "findPair name value t =
     (let p = GetStaticHeadersPair name value
      in if \<not> snd p then pair_scan (rev (m_datas t)) 62 name value p else p)"

definition getPair :: "nat \<Rightarrow> DynamicTable \<Rightarrow> error + header" where
  "getPair idx t =
     (if idx < 62 then GetStaticHeaders idx
      else let i = idx - 62
           in if i < length (m_datas t) then Inr (m_datas t ! (length (m_datas t) - i - 1))
              else Inr ([], []))"

definition getName :: "nat \<Rightarrow> DynamicTable \<Rightarrow> error + bytes" where
  "getName idx t = map_sum id fst (getPair idx t)"

section \<open>Invariant of the table\<close>

text \<open>
  \<open>m_dataSize\<close> counts the bytes of the entries, and the table fits its bound unless it holds a single
  entry that alone exceeds it.
\<close>

definition table_size :: "header list \<Rightarrow> int" where
  "table_size hs = sum_list (map entry_size hs)"

definition table_ok :: "DynamicTable \<Rightarrow> bool" where
  "table_ok t \<longleftrightarrow> m_dataSize t = table_size (m_datas t)"

definition table_fits :: "DynamicTable \<Rightarrow> bool" where
  "table_fits t \<longleftrightarrow> m_dataSize t \<le> m_maxDataSize t \<or> length (m_datas t) \<le> 1"

lemma table_size_simps [simp]:
  "table_size [] = 0" "table_size (h # hs) = entry_size h + table_size hs"
  "table_size (hs @ hs') = table_size hs + table_size hs'"
  by (simp_all add: table_size_def)

lemma evict_ok:
  assumes "evict len mx (table_size ds) ds = (sz, ds')"
  shows "\<exists>k \<le> length ds. ds' = drop k ds \<and> sz = table_size ds' \<and> (ds' = [] \<or> sz + len \<le> mx) \<and>
           (\<forall>j < k. mx < table_size (drop j ds) + len)"
  using assms
proof (induction ds)
  case Nil
  then show ?case by simp
next
  case (Cons p ps)
  show ?case
  proof (cases "table_size (p # ps) + len > mx")
    case True
    then have "evict len mx (table_size ps) ps = (sz, ds')" using Cons.prems by simp
    from Cons.IH [OF this] obtain k where k: "k \<le> length ps" "ds' = drop k ps" "sz = table_size ds'"
      "ds' = [] \<or> sz + len \<le> mx" "\<forall>j < k. mx < table_size (drop j ps) + len" by blast
    have "\<forall>j < Suc k. mx < table_size (drop j (p # ps)) + len"
      using k(5) True by (auto simp: less_Suc_eq_0_disj)
    with k(1-4) show ?thesis by (intro exI [of _ "Suc k"]) simp
  next
    case False
    with Cons.prems show ?thesis by (intro exI [of _ 0]) auto
  qed
qed

lemma update_ok:
  assumes "table_ok t"
  obtains k where "k \<le> length (m_datas t)"
    "m_datas (DynamicTable_update n v t) = drop k (m_datas t) @ [(n, v)]"
    "m_maxDataSize (DynamicTable_update n v t) = m_maxDataSize t"
    "table_ok (DynamicTable_update n v t)" "table_fits (DynamicTable_update n v t)"
    "\<forall>j < k. m_maxDataSize t < table_size (drop j (m_datas t) @ [(n, v)])"
proof -
  define len where "len = int (length n) + int (length v) + 32"
  obtain sz ds where ev: "evict len (m_maxDataSize t) (table_size (m_datas t)) (m_datas t) = (sz, ds)"
    by fastforce
  from evict_ok [OF ev] obtain k where k: "k \<le> length (m_datas t)" "ds = drop k (m_datas t)"
    "sz = table_size ds" "ds = [] \<or> sz + len \<le> m_maxDataSize t"
    "\<forall>j < k. m_maxDataSize t < table_size (drop j (m_datas t)) + len" by blast
  have up: "DynamicTable_update n v t = t\<lparr>m_dataSize := sz + len, m_datas := ds @ [(n, v)]\<rparr>"
    using ev assms by (simp add: DynamicTable_update_def table_ok_def len_def [symmetric])
  have e: "entry_size (n, v) = len" by (simp add: entry_size_def len_def)
  from k show ?thesis
    by (intro that [of k]) (auto simp: up table_ok_def table_fits_def e)
qed

section \<open>Lookups\<close>

lemma name_scan_range: "name_scan hs i n = -1 \<or> int i \<le> name_scan hs i n"
  by (induction hs i n rule: name_scan.induct) auto

lemma pair_scan_found:
  "pair_scan hs i n v rt = (j, True) \<Longrightarrow> \<not> snd rt \<Longrightarrow>
     \<exists>k < length hs. j = int (i + k) \<and> hs ! k = (n, v)"
proof (induction hs i n v rt rule: pair_scan.induct)
  case (1 i n v rt)
  then show ?case by auto
next
  case (2 h hs i n v rt)
  have shift: "\<exists>k < length (h # hs). j = int (i + k) \<and> (h # hs) ! k = (n, v)"
    if "\<exists>k < length hs. j = int (Suc i + k) \<and> hs ! k = (n, v)"
  proof -
    from that obtain k where "k < length hs" "j = int (Suc i + k)" "hs ! k = (n, v)" by blast
    then show ?thesis by (intro exI [of _ "Suc k"]) simp
  qed
  consider "h = (n, v)" | "fst h = n" "snd h \<noteq> v" | "fst h \<noteq> n" by (cases h) auto
  then show ?case
  proof cases
    case 1
    with "2.prems" show ?thesis by (intro exI [of _ 0]) (auto simp: Let_def)
  next
    case 2
    then show ?thesis
      using "2.prems" "2.IH"(1) [OF 2(1) refl 2(2)] by (intro shift) (auto simp: Let_def)
  next
    case 3
    then show ?thesis using "2.prems" "2.IH"(2) [OF 3] by (intro shift) auto
  qed
qed

lemma pair_scan_miss:
  "pair_scan hs i n v rt = (j, False) \<Longrightarrow> \<not> snd rt \<Longrightarrow>
     (n, v) \<notin> set hs \<and>
     (if fst rt \<noteq> -1 then j = fst rt
      else if n \<in> fst ` set hs then \<exists>k < length hs. j = int (i + k) \<and> fst (hs ! k) = n
      else j = -1)"
proof (induction hs i n v rt rule: pair_scan.induct)
  case (1 i n v rt)
  then show ?case by (cases rt) auto
next
  case (2 h hs i n v rt)
  show ?case
  proof (cases "fst h = n")
    case True
    let ?rt = "if fst rt = -1 then (int i, snd rt) else rt"
    have nv: "snd h \<noteq> v" and sc: "pair_scan hs (Suc i) n v ?rt = (j, False)"
      using "2.prems" True by (auto simp: Let_def split: if_splits)
    from "2.IH"(1) [OF True refl nv sc] "2.prems"(2) have "(n, v) \<notin> set hs" "j = fst ?rt"
      by (auto split: if_splits)
    with True nv show ?thesis by (cases h) (auto split: if_splits intro!: exI [of _ 0])
  next
    case False
    then have sc: "pair_scan hs (Suc i) n v rt = (j, False)" using "2.prems" by simp
    have shift: "\<exists>k < length (h # hs). j = int (i + k) \<and> fst ((h # hs) ! k) = n"
      if "\<exists>k < length hs. j = int (Suc i + k) \<and> fst (hs ! k) = n"
    proof -
      from that obtain k where "k < length hs" "j = int (Suc i + k)" "fst (hs ! k) = n" by blast
      then show ?thesis by (intro exI [of _ "Suc k"]) simp
    qed
    from "2.IH"(2) [OF False sc "2.prems"(2)] False shift show ?thesis
      by (auto split: if_splits)
  qed
qed

lemma length_static [simp]: "length s_static_headers = 62"
  by (simp add: s_static_headers_def)

definition entries :: "DynamicTable \<Rightarrow> header list" where
  "entries t = s_static_headers @ rev (m_datas t)"

text \<open>The table as the index space the code presents: static entries, then the newest first.\<close>

lemma getPair_entries:
  "getPair i t = (if i < length (entries t) then Inr (entries t ! i) else Inr ([], []))"
  by (auto simp: getPair_def entries_def GetStaticHeaders_def length_static nth_append rev_nth Let_def)

lemma findPair_scan:
  "findPair n v t = (let p = pair_scan s_static_headers 0 n v (-1, False)
     in if snd p then p else pair_scan (rev (m_datas t)) 62 n v p)"
  by (simp add: findPair_def GetStaticHeadersPair_def Let_def)

lemma pair_scan_append:
  "\<not> snd rt \<Longrightarrow> pair_scan (hs @ hs') i n v rt =
     (let p = pair_scan hs i n v rt
      in if snd p then p else pair_scan hs' (i + length hs) n v p)"
  by (induction hs i n v rt rule: pair_scan.induct) (auto simp: Let_def)

text \<open>So the two loops of \<open>findPair\<close> are one scan of the whole index space.\<close>

lemma findPair_entries: "findPair n v t = pair_scan (entries t) 0 n v (-1, False)"
  unfolding findPair_scan entries_def by (subst pair_scan_append) (simp_all add: Let_def)

lemma findPair_found:
  "findPair n v t = (i, True) \<Longrightarrow> 0 \<le> i \<and> getPair (nat i) t = Inr (n, v)"
  using pair_scan_found [of "entries t" 0 n v "(-1, False)" i]
  by (auto simp: findPair_entries getPair_entries)

lemma findPair_miss:
  assumes "findPair n v t = (i, False)"
  shows "(n, v) \<notin> set (entries t)"
    and "i \<noteq> -1 \<Longrightarrow> 0 \<le> i \<and> getName (nat i) t = Inr n"
    and "i = -1 \<longleftrightarrow> n \<notin> fst ` set (entries t)"
  using pair_scan_miss [of "entries t" 0 n v "(-1, False)" i] assms
  by (auto simp: findPair_entries getName_def getPair_entries split: if_splits)

section \<open>The contract of a header table\<close>

text \<open>
  What a packer and a parser that share a table rely on. \<open>represent\<close> chooses between an index, an
  indexed name and a literal the way \<open>HPack::pack\<close> does; \<open>resolve\<close> is what the parser makes of it.
\<close>

datatype representation =
    Indexed nat
  | Name_indexed nat bytes
  | Literal bytes bytes

locale header_table =
  fixes find_pair :: "bytes \<Rightarrow> bytes \<Rightarrow> 't \<Rightarrow> int \<times> bool"
    and get_pair :: "nat \<Rightarrow> 't \<Rightarrow> error + header"
  assumes found: "find_pair n v t = (i, True) \<Longrightarrow> 0 \<le> i \<and> get_pair (nat i) t = Inr (n, v)"
    and found_name: "find_pair n v t = (i, False) \<Longrightarrow> i \<noteq> -1 \<Longrightarrow>
      0 \<le> i \<and> map_sum id fst (get_pair (nat i) t) = Inr n"
begin

definition represent :: "header \<Rightarrow> 't \<Rightarrow> representation" where
  "represent h t =
     (case find_pair (fst h) (snd h) t of
        (i, True) \<Rightarrow> Indexed (nat i)
      | (i, False) \<Rightarrow> if i > 0 then Name_indexed (nat i) (snd h) else Literal (fst h) (snd h))"

fun resolve :: "representation \<Rightarrow> 't \<Rightarrow> error + header" where
  "resolve (Indexed i) t = get_pair i t"
| "resolve (Name_indexed i v) t = map_sum id (\<lambda>p. (fst p, v)) (get_pair i t)"
| "resolve (Literal n v) t = Inr (n, v)"

lemma resolve_represent: "resolve (represent h t) t = Inr h"
proof (cases "find_pair (fst h) (snd h) t")
  case (Pair i b)
  show ?thesis
  proof (cases b)
    case True
    with found Pair show ?thesis by (simp add: represent_def)
  next
    case False
    with found_name [of "fst h" "snd h" t i] Pair show ?thesis
      by (cases "get_pair (nat i) t") (auto simp: represent_def)
  qed
qed

end

interpretation dyn: header_table findPair getPair
  using findPair_found findPair_miss(2) by unfold_locales (auto simp: getName_def)

section \<open>Properties of the header table\<close>

text \<open>C25. \<open>DynamicTable::update\<close> keeps the byte count equal to the size of the entries, evicts oldest
  entries first and only as many as the bound requires, and appends the new entry; afterwards the
  table fits its bound, or it holds the new entry alone.\<close>

theorem update_evicts_oldest:
  assumes "table_ok t"
  shows "table_ok (DynamicTable_update n v t) \<and> table_fits (DynamicTable_update n v t) \<and>
         (\<exists>k. m_datas (DynamicTable_update n v t) = drop k (m_datas t) @ [(n, v)] \<and>
              (\<forall>j < k. m_maxDataSize t < table_size (drop j (m_datas t) @ [(n, v)])))"
  by (rule update_ok [OF assms, of n v]) blast

theorem update_evicts_oldest_witness:
  "table_ok (DynamicTable_update (str ''a'') (str ''b'') DynamicTable_new) \<and>
   m_datas (DynamicTable_update (str ''a'') (str ''b'') DynamicTable_new) = [(str ''a'', str ''b'')]"
  using update_evicts_oldest [of DynamicTable_new "str ''a''" "str ''b''"]
  by (auto simp: table_ok_def DynamicTable_new_def)

text \<open>Index addressing across an update: index 62 is always the entry just added, the entry that
  had index \<open>62 + i\<close> now has \<open>63 + i\<close> as long as it was not evicted, and the static indices are fixed.\<close>

theorem update_shifts_indices:
  assumes "table_ok t"
  shows "getPair 62 (DynamicTable_update n v t) = Inr (n, v) \<and>
         (\<forall>i. Suc i < length (m_datas (DynamicTable_update n v t)) \<longrightarrow>
            getPair (63 + i) (DynamicTable_update n v t) = getPair (62 + i) t) \<and>
         (\<forall>i < 62. getPair i (DynamicTable_update n v t) = getPair i t)"
proof -
  obtain k where "k \<le> length (m_datas t)"
    "m_datas (DynamicTable_update n v t) = drop k (m_datas t) @ [(n, v)]"
    using update_ok [OF assms, of n v] by blast
  then show ?thesis
    by (auto simp: getPair_entries entries_def nth_append rev_nth)
qed

theorem update_shifts_indices_witness:
  "getPair 62 (DynamicTable_update (str ''a'') (str ''b'') DynamicTable_new) =
     Inr (str ''a'', str ''b'')"
  using update_shifts_indices [of DynamicTable_new "str ''a''" "str ''b''"]
  by (simp add: table_ok_def DynamicTable_new_def)

text \<open>C24. \<open>findPair\<close> is sound and complete against \<open>getPair\<close> and \<open>getName\<close>: a match is reported exactly
  when the header is in the static or dynamic table and its index leads back to it; a name-only hit
  leads back to the name; and -1 means that no entry has the name.\<close>

theorem findPair_correct:
  "(snd (findPair n v t) \<longleftrightarrow> (n, v) \<in> set (entries t)) \<and>
   (snd (findPair n v t) \<longrightarrow> getPair (nat (fst (findPair n v t))) t = Inr (n, v)) \<and>
   (fst (findPair n v t) \<noteq> -1 \<longrightarrow> getName (nat (fst (findPair n v t))) t = Inr n) \<and>
   (fst (findPair n v t) = -1 \<longleftrightarrow> n \<notin> fst ` set (entries t))"
proof (cases "findPair n v t")
  case (Pair i b)
  show ?thesis
  proof (cases b)
    case True
    have "0 \<le> i" "getPair (nat i) t = Inr (n, v)" "(n, v) \<in> set (entries t)"
      using findPair_found [of n v t i] pair_scan_found [of "entries t" 0 n v "(-1, False)" i] Pair True
      by (auto simp: findPair_entries in_set_conv_nth)
    with Pair True show ?thesis by (force simp: getName_def)
  next
    case False
    with Pair findPair_miss [of n v t i] show ?thesis by auto
  qed
qed

theorem findPair_correct_witness:
  "getPair (nat (fst (findPair (str '':method'') (str ''POST'') DynamicTable_new))) DynamicTable_new =
     Inr (str '':method'', str ''POST'')"
proof -
  have "snd (findPair (str '':method'') (str ''POST'') DynamicTable_new)" by code_simp
  then show ?thesis using findPair_correct by blast
qed

end
