(* ===== verification/Huffman.thy ===== *)
theory Huffman
  imports Prelude
begin

text \<open>
  \<^verbatim>\<open>src/chat/http2/huffman.cc\<close> and \<^verbatim>\<open>src/chat/http2/huffman_table.h\<close>: the Huffman code of HPACK strings.
  The encoder writes bits into a byte buffer; the decoder walks a trie with 256-way nodes that
  \<open>hf_init\<close> builds from the code table. A pointer of the C code is an optional node, and a null
  pointer that is followed is an error of the model. The theory ends with the correctness of the
  encoder against the bit strings of the table, and the round trip through the decoder.
\<close>

section \<open>The code table\<close>

definition huffman_codes :: "nat list" where
  "huffman_codes =
     [0x1ff8, 0x7fffd8, 0xfffffe2, 0xfffffe3, 0xfffffe4, 0xfffffe5, 0xfffffe6, 0xfffffe7,
      0xfffffe8, 0xffffea, 0x3ffffffc, 0xfffffe9, 0xfffffea, 0x3ffffffd, 0xfffffeb, 0xfffffec,
      0xfffffed, 0xfffffee, 0xfffffef, 0xffffff0, 0xffffff1, 0xffffff2, 0x3ffffffe, 0xffffff3,
      0xffffff4, 0xffffff5, 0xffffff6, 0xffffff7, 0xffffff8, 0xffffff9, 0xffffffa, 0xffffffb,
      0x14, 0x3f8, 0x3f9, 0xffa, 0x1ff9, 0x15, 0xf8, 0x7fa,
      0x3fa, 0x3fb, 0xf9, 0x7fb, 0xfa, 0x16, 0x17, 0x18,
      0x0, 0x1, 0x2, 0x19, 0x1a, 0x1b, 0x1c, 0x1d,
      0x1e, 0x1f, 0x5c, 0xfb, 0x7ffc, 0x20, 0xffb, 0x3fc,
      0x1ffa, 0x21, 0x5d, 0x5e, 0x5f, 0x60, 0x61, 0x62,
      0x63, 0x64, 0x65, 0x66, 0x67, 0x68, 0x69, 0x6a,
      0x6b, 0x6c, 0x6d, 0x6e, 0x6f, 0x70, 0x71, 0x72,
      0xfc, 0x73, 0xfd, 0x1ffb, 0x7fff0, 0x1ffc, 0x3ffc, 0x22,
      0x7ffd, 0x3, 0x23, 0x4, 0x24, 0x5, 0x25, 0x26,
      0x27, 0x6, 0x74, 0x75, 0x28, 0x29, 0x2a, 0x7,
      0x2b, 0x76, 0x2c, 0x8, 0x9, 0x2d, 0x77, 0x78,
      0x79, 0x7a, 0x7b, 0x7ffe, 0x7fc, 0x3ffd, 0x1ffd, 0xffffffc,
      0xfffe6, 0x3fffd2, 0xfffe7, 0xfffe8, 0x3fffd3, 0x3fffd4, 0x3fffd5, 0x7fffd9,
      0x3fffd6, 0x7fffda, 0x7fffdb, 0x7fffdc, 0x7fffdd, 0x7fffde, 0xffffeb, 0x7fffdf,
      0xffffec, 0xffffed, 0x3fffd7, 0x7fffe0, 0xffffee, 0x7fffe1, 0x7fffe2, 0x7fffe3,
      0x7fffe4, 0x1fffdc, 0x3fffd8, 0x7fffe5, 0x3fffd9, 0x7fffe6, 0x7fffe7, 0xffffef,
      0x3fffda, 0x1fffdd, 0xfffe9, 0x3fffdb, 0x3fffdc, 0x7fffe8, 0x7fffe9, 0x1fffde,
      0x7fffea, 0x3fffdd, 0x3fffde, 0xfffff0, 0x1fffdf, 0x3fffdf, 0x7fffeb, 0x7fffec,
      0x1fffe0, 0x1fffe1, 0x3fffe0, 0x1fffe2, 0x7fffed, 0x3fffe1, 0x7fffee, 0x7fffef,
      0xfffea, 0x3fffe2, 0x3fffe3, 0x3fffe4, 0x7ffff0, 0x3fffe5, 0x3fffe6, 0x7ffff1,
      0x3ffffe0, 0x3ffffe1, 0xfffeb, 0x7fff1, 0x3fffe7, 0x7ffff2, 0x3fffe8, 0x1ffffec,
      0x3ffffe2, 0x3ffffe3, 0x3ffffe4, 0x7ffffde, 0x7ffffdf, 0x3ffffe5, 0xfffff1, 0x1ffffed,
      0x7fff2, 0x1fffe3, 0x3ffffe6, 0x7ffffe0, 0x7ffffe1, 0x3ffffe7, 0x7ffffe2, 0xfffff2,
      0x1fffe4, 0x1fffe5, 0x3ffffe8, 0x3ffffe9, 0xffffffd, 0x7ffffe3, 0x7ffffe4, 0x7ffffe5,
      0xfffec, 0xfffff3, 0xfffed, 0x1fffe6, 0x3fffe9, 0x1fffe7, 0x1fffe8, 0x7ffff3,
      0x3fffea, 0x3fffeb, 0x1ffffee, 0x1ffffef, 0xfffff4, 0xfffff5, 0x3ffffea, 0x7ffff4,
      0x3ffffeb, 0x7ffffe6, 0x3ffffec, 0x3ffffed, 0x7ffffe7, 0x7ffffe8, 0x7ffffe9, 0x7ffffea,
      0x7ffffeb, 0xffffffe, 0x7ffffec, 0x7ffffed, 0x7ffffee, 0x7ffffef, 0x7fffff0, 0x3ffffee]"

definition huffman_code_len :: "nat list" where
  "huffman_code_len =
     [13, 23, 28, 28, 28, 28, 28, 28, 28, 24, 30, 28, 28, 30, 28, 28,
      28, 28, 28, 28, 28, 28, 30, 28, 28, 28, 28, 28, 28, 28, 28, 28,
      6, 10, 10, 12, 13, 6, 8, 11, 10, 10, 8, 11, 8, 6, 6, 6,
      5, 5, 5, 6, 6, 6, 6, 6, 6, 6, 7, 8, 15, 6, 12, 10,
      13, 6, 7, 7, 7, 7, 7, 7, 7, 7, 7, 7, 7, 7, 7, 7,
      7, 7, 7, 7, 7, 7, 7, 7, 8, 7, 8, 13, 19, 13, 14, 6,
      15, 5, 6, 5, 6, 5, 6, 6, 6, 5, 7, 7, 6, 6, 6, 5,
      6, 7, 6, 5, 5, 6, 7, 7, 7, 7, 7, 15, 11, 14, 13, 28,
      20, 22, 20, 20, 22, 22, 22, 23, 22, 23, 23, 23, 23, 23, 24, 23,
      24, 24, 22, 23, 24, 23, 23, 23, 23, 21, 22, 23, 22, 23, 23, 24,
      22, 21, 20, 22, 22, 23, 23, 21, 23, 22, 22, 24, 21, 22, 23, 23,
      21, 21, 22, 21, 23, 22, 23, 23, 20, 22, 22, 22, 23, 22, 22, 23,
      26, 26, 20, 19, 22, 23, 22, 25, 26, 26, 26, 27, 27, 26, 24, 25,
      19, 21, 26, 27, 27, 26, 27, 24, 21, 21, 26, 26, 28, 27, 27, 27,
      20, 24, 20, 21, 22, 21, 21, 23, 22, 22, 25, 25, 24, 24, 26, 23,
      26, 27, 26, 26, 27, 27, 27, 27, 27, 28, 27, 27, 27, 27, 27, 26]"

section \<open>The trie\<close>

datatype node = NODE
  (children: "nat \<Rightarrow> node option")
  (sym: byte)
  (code: nat)
  (code_len: nat)
  (node_size: nat)

definition node_create :: node where
  "node_create = NODE (\<lambda>_. None) 0 0 0 0"

definition or_create :: "node option \<Rightarrow> node" where
  "or_create p = (case p of None \<Rightarrow> node_create | Some n \<Rightarrow> n)"

text \<open>One round of the loop that fills the children covered by the last bits of a code.\<close>

definition set_leaf :: "byte \<Rightarrow> nat \<Rightarrow> nat \<Rightarrow> nat \<Rightarrow> node \<Rightarrow> node" where
  "set_leaf s c len j cur =
     (let m = or_create (children cur j)
      in NODE ((children cur)(j \<mapsto> NODE (children m) s c len (node_size m)))
           (sym cur) (code cur) (code_len cur) (node_size cur + 1))"

function hf_add_node :: "node \<Rightarrow> byte \<Rightarrow> nat \<Rightarrow> nat \<Rightarrow> node" where
  "hf_add_node cur s c len =
     (if len > 8 then
        let i = drop_bit (len - 8) c mod 256
        in NODE ((children cur)(i \<mapsto> hf_add_node (or_create (children cur i)) s c (len - 8)))
             (sym cur) (code cur) (code_len cur) (node_size cur)
      else let shift = 8 - len; start = push_bit shift c mod 256
        in fold (set_leaf s c len) [start..<start + 2 ^ shift] cur)"
  by pat_completeness auto
termination
  by (relation "measure (\<lambda>(cur, s, c, len). len)") auto

definition hf_init :: node where
  "hf_init = fold (\<lambda>i cur. hf_add_node cur (of_nat i) (huffman_codes ! i) (huffman_code_len ! i))
               [0..<256] node_create"

section \<open>Encoding\<close>

text \<open>The loop of \<open>hf_byte_encode\<close>; \<open>i\<close> is the index in the whole output buffer.\<close>

function hf_emit :: "nat \<Rightarrow> nat \<Rightarrow> nat \<Rightarrow> nat \<Rightarrow> bytes \<Rightarrow> error + nat \<times> bytes" where
  "hf_emit codes nbits remain i buff =
     (if length buff \<le> i then Inl Bad_index
      else if remain > nbits then
        Inr (remain - nbits, buff[i := buff ! i OR of_nat (push_bit (remain - nbits) codes)])
      else let buff' = buff[i := buff ! i OR of_nat (drop_bit (nbits - remain) codes)] in
        if length buff \<le> Suc i then Inl Bad_index
        else let buff'' = buff'[Suc i := 0] in
          if nbits - remain = 0 then Inr (8, buff'')
          else hf_emit codes (nbits - remain) 8 (Suc i) buff'')"
  by pat_completeness auto
termination
  by (relation "measure (\<lambda>(codes, nbits, remain, i, buff). nbits + (8 - remain))") auto

definition hf_byte_encode :: "byte \<Rightarrow> nat \<Rightarrow> nat \<Rightarrow> bytes \<Rightarrow> error + nat \<times> bytes" where
  "hf_byte_encode ch remain i buff =
     hf_emit (huffman_codes ! unat ch) (huffman_code_len ! unat ch) remain i buff"

fun hf_encode_loop :: "bytes \<Rightarrow> nat \<Rightarrow> nat \<Rightarrow> bytes \<Rightarrow> error + nat \<times> nat \<times> bytes" where
  "hf_encode_loop [] remain j buff = Inr (remain, j, buff)"
| "hf_encode_loop (ch # rest) remain j buff =
     (let len = huffman_code_len ! unat ch;
          nbytes = (if remain > len then (remain - len) div 8 else (len - remain) div 8 + 1)
      in case hf_byte_encode ch remain j buff of
           Inl e \<Rightarrow> Inl e
         | Inr (remain', buff') \<Rightarrow> hf_encode_loop rest remain' (j + nbytes) buff')"

text \<open>The result is the size \<open>*size_out\<close> and the buffer.\<close>

definition hf_string_encode :: "bytes \<Rightarrow> nat \<Rightarrow> bytes \<Rightarrow> error + nat \<times> bytes" where
  "hf_string_encode buff_in prefix buff_out =
     (case hf_encode_loop buff_in (8 - prefix) 0 buff_out of
        Inl e \<Rightarrow> Inl e
      | Inr (remain, j, buff) \<Rightarrow>
          if remain < 8 then
            if length buff \<le> j then Inl Bad_index
            else Inr (j + 1, buff[j := buff ! j OR of_nat (drop_bit (30 - remain) 0x3fffffff)])
          else Inr (j, buff))"

definition hf_string_encode_len :: "bytes \<Rightarrow> nat" where
  "hf_string_encode_len enc = (sum_list (map (\<lambda>ch. huffman_code_len ! unat ch) enc) + 7) div 8"

text \<open>\<open>std::string::resize\<close>: cut, or fill up with zero bytes.\<close>

definition resize :: "nat \<Rightarrow> bytes \<Rightarrow> bytes" where
  "resize n s = take n s @ replicate (n - length s) 0"

definition CHAT_MAX_HUFFMAN_BUFF_LEN :: "nat \<Rightarrow> nat" where
  "CHAT_MAX_HUFFMAN_BUFF_LEN l = l * 8 + 1"

definition EncodeString :: "bytes \<Rightarrow> bytes \<Rightarrow> nat \<Rightarrow> error + bytes" where
  "EncodeString inp out prefix =
     (case hf_string_encode inp prefix (resize (CHAT_MAX_HUFFMAN_BUFF_LEN (length inp)) out) of
        Inl e \<Rightarrow> Inl e
      | Inr (len, buff) \<Rightarrow> Inr (resize len buff))"

definition EncodeLen :: "bytes \<Rightarrow> nat" where
  "EncodeLen inp = hf_string_encode_len inp"

definition ShouldEncode :: "bytes \<Rightarrow> bool" where
  "ShouldEncode inp \<longleftrightarrow> EncodeLen inp < length inp"

section \<open>Decoding\<close>

text \<open>
  \<open>hf_inner\<close> is the loop over the window \<open>cur\<close> while it holds at least 8 bits. It ends early with
  the function's return value (-1 or -2), or goes on with the node, the number of bits left and the
  output. A store outside the output buffer is refused.
\<close>

function hf_inner :: "node \<Rightarrow> 32 word \<Rightarrow> nat \<Rightarrow> node \<Rightarrow> nat \<Rightarrow> bytes \<Rightarrow> error + int + node \<times> nat \<times> bytes" where
  "hf_inner h_node cur out_sz n nbits out =
     (if \<not> nbits \<ge> 8 then Inr (Inr (n, nbits, out))
      else let idx = unat (ucast (drop_bit (nbits - 8) cur) :: byte) in
        case children n idx of
          None \<Rightarrow> Inr (Inl (-1))
        | Some n' \<Rightarrow>
            if node_size n' = 0 then
              if out_sz > 0 \<and> length out > out_sz then Inr (Inl (-2))
              else if length out \<ge> out_sz then Inl Bad_index
              else hf_inner h_node cur out_sz h_node (nbits - code_len n') (out @ [sym n'])
            else hf_inner h_node cur out_sz n' (nbits - 8) out)"
  by pat_completeness auto
termination
  by (relation "measures [\<lambda>(h, cur, out_sz, n, nbits, out). out_sz - length out,
        \<lambda>(h, cur, out_sz, n, nbits, out). nbits]") auto

fun hf_outer :: "node \<Rightarrow> bytes \<Rightarrow> 32 word \<Rightarrow> nat \<Rightarrow> node \<Rightarrow> nat \<Rightarrow> bytes \<Rightarrow>
    error + int + node \<times> 32 word \<times> nat \<times> bytes" where
  "hf_outer h_node [] cur out_sz n nbits out = Inr (Inr (n, cur, nbits, out))"
| "hf_outer h_node (b # enc) cur out_sz n nbits out =
     (let cur' = push_bit 8 cur OR ucast b
      in case hf_inner h_node cur' out_sz n (nbits + 8) out of
           Inl e \<Rightarrow> Inl e
         | Inr (Inl rt) \<Rightarrow> Inr (Inl rt)
         | Inr (Inr (n', nbits', out')) \<Rightarrow> hf_outer h_node enc cur' out_sz n' nbits' out')"

text \<open>The loop over the last, incomplete byte; here the child is followed without a null check.\<close>

function hf_tail :: "node \<Rightarrow> 32 word \<Rightarrow> nat \<Rightarrow> node \<Rightarrow> nat \<Rightarrow> bytes \<Rightarrow> error + bytes" where
  "hf_tail h_node cur out_sz n nbits out =
     (if nbits = 0 then Inr out
      else let idx = unat (ucast (push_bit (8 - nbits) cur) :: byte) in
        case children n idx of
          None \<Rightarrow> Inl Null_deref
        | Some n' \<Rightarrow>
            if node_size n' \<noteq> 0 \<or> code_len n' > nbits then Inr out
            else if length out \<ge> out_sz then Inl Bad_index
            else hf_tail h_node cur out_sz h_node (nbits - code_len n') (out @ [sym n']))"
  by pat_completeness auto
termination
  by (relation "measure (\<lambda>(h, cur, out_sz, n, nbits, out). out_sz - length out)") auto

text \<open>The return value and what was stored in the output buffer.\<close>

definition hf_string_decode :: "node \<Rightarrow> bytes \<Rightarrow> nat \<Rightarrow> error + int \<times> bytes" where
  "hf_string_decode h_node enc out_sz =
     (case hf_outer h_node enc 0 out_sz h_node 0 [] of
        Inl e \<Rightarrow> Inl e
      | Inr (Inl rt) \<Rightarrow> Inr (rt, [])
      | Inr (Inr (n, cur, nbits, out)) \<Rightarrow>
          (case hf_tail h_node cur out_sz n nbits out of
             Inl e \<Rightarrow> Inl e
           | Inr out' \<Rightarrow> Inr (int (length out'), out')))"

text \<open>\<open>out.resize(rt)\<close> with a negative \<open>rt\<close> asks for more than \<open>max_size()\<close> bytes.\<close>

definition DecodeString :: "bytes \<Rightarrow> error + int \<times> bytes" where
  "DecodeString inp =
     (case hf_string_decode hf_init inp (CHAT_MAX_HUFFMAN_BUFF_LEN (length inp)) of
        Inl e \<Rightarrow> Inl e
      | Inr (rt, out) \<Rightarrow> if rt < 0 then Inl Length_error else Inr (rt, out))"

section \<open>The stand-alone integer code\<close>

function hf_integer_more :: "nat \<Rightarrow> bytes" where
  "hf_integer_more ch =
     (if ch > 128 then of_nat (ch mod 128 + 128) # hf_integer_more (ch div 128) else [of_nat ch])"
  by pat_completeness auto
termination
  by (relation "measure id") auto

definition hf_integer_encode :: "32 word \<Rightarrow> nat \<Rightarrow> bytes" where
  "hf_integer_encode enc_binary nprefix =
     (let prefix = push_bit nprefix 1 - 1
      in if enc_binary < prefix \<and> enc_binary < 0xff then [ucast (enc_binary AND prefix)]
         else ucast prefix # hf_integer_more (unat (enc_binary - prefix)))"

text \<open>
  The buffer holds \<open>char\<close>s, so its bytes are sign-extended. The result is the number of bytes read
  and the byte stored in \<open>dec_buff\<close>.
\<close>

fun hf_integer_rest :: "bytes \<Rightarrow> nat \<Rightarrow> nat \<Rightarrow> 32 word \<Rightarrow> error + nat \<times> byte" where
  "hf_integer_rest [] i M ch = Inl Bad_index"
| "hf_integer_rest (b # bs) i M ch =
     (if M \<ge> 32 then Inl Bad_shift
      else let B = signed b :: 32 word; ch' = ch + (B AND 127) * push_bit M 1
           in if B AND 128 \<noteq> 0 then hf_integer_rest bs (i + 1) (M + 7) ch'
              else Inr (i + 1, ucast ch'))"

definition hf_integer_decode :: "bytes \<Rightarrow> nat \<Rightarrow> error + nat \<times> byte" where
  "hf_integer_decode enc_buff nprefix =
     (case enc_buff of
        [] \<Rightarrow> Inl Bad_index
      | b # bs \<Rightarrow>
          let ch = signed b :: 32 word; prefix = push_bit nprefix 1 - 1
          in if ch < prefix then Inr (1, ucast ch) else hf_integer_rest bs 1 0 ch)"

section \<open>Bit strings\<close>

text \<open>\<open>bits n c\<close> are the low \<open>n\<close> bits of \<open>c\<close>, highest first.\<close>

definition bits :: "nat \<Rightarrow> 'a::semiring_bit_operations \<Rightarrow> bool list" where
  "bits n c = map (bit c) (rev [0..<n])"

lemma length_bits [simp]: "length (bits n c) = n"
  by (simp add: bits_def)

lemma bits_0 [simp]: "bits 0 c = []"
  by (simp add: bits_def)

lemma nth_bits: "i < n \<Longrightarrow> bits n c ! i = bit c (n - Suc i)"
  by (simp add: bits_def rev_nth)

lemma bits_cong: "(\<And>i. i < n \<Longrightarrow> bit c i = bit d i) \<Longrightarrow> bits n c = bits n d"
  by (rule nth_equalityI) (simp_all add: nth_bits)

lemma bits_split:
  assumes "n \<le> m"
  shows "bits m c = bits (m - n) (drop_bit n c) @ bits n c"
proof (rule nth_equalityI)
  fix i assume "i < length (bits m c)"
  then show "bits m c ! i = (bits (m - n) (drop_bit n c) @ bits n c) ! i"
    using assms by (cases "i < m - n") (auto simp: nth_bits nth_append bit_drop_bit_eq Suc_diff_Suc)
qed (use assms in simp)

lemma bits_inject:
  fixes c d :: nat
  assumes "bits n c = bits n d" and "c < 2 ^ n" and "d < 2 ^ n"
  shows "c = d"
proof (rule bit_eqI)
  fix i
  have "bit c i = bit d i" if "i < n"
    using assms(1) that nth_bits [of "n - Suc i" n c] nth_bits [of "n - Suc i" n d] by simp
  moreover have "\<not> bit c i" "\<not> bit d i" if "n \<le> i"
    using assms(2,3) that
    by (metis bit_take_bit_iff not_le take_bit_nat_eq_self)+
  ultimately show "bit c i = bit d i" by (cases "i < n") auto
qed

lemma bits_zeros:
  fixes c :: nat
  assumes "c < 2 ^ k" and "k \<le> n"
  shows "bits n c = replicate (n - k) False @ bits k c"
proof -
  have "drop_bit k c = 0" using assms(1) by (simp add: drop_bit_eq_div)
  then have "bits (n - k) (drop_bit k c) = replicate (n - k) False"
    by (intro nth_equalityI) (simp_all add: nth_bits)
  then show ?thesis using bits_split [OF assms(2), of c] by simp
qed

lemma bits_push:
  fixes c :: nat
  assumes "n \<le> m"
  shows "bits m (push_bit n c) = bits (m - n) c @ replicate n False"
proof (rule nth_equalityI)
  fix i assume "i < length (bits m (push_bit n c))"
  then show "bits m (push_bit n c) ! i = (bits (m - n) c @ replicate n False) ! i"
    using assms by (cases "i < m - n") (auto simp: nth_bits nth_append bit_push_bit_iff_nat Suc_diff_Suc add.commute)
qed (use assms in simp)

text \<open>Bits of bytes.\<close>

lemma bits_byte_of_nat: "bits 8 (of_nat c :: byte) = bits 8 c"
  by (rule bits_cong) (simp add: bit_of_nat_iff)

lemma bits_unat: "bits n (unat w) = bits n (w :: 'a::len word)"
  by (rule bits_cong) (simp add: bit_unsigned_iff)

lemma bits_or_zeros:
  assumes "bits 8 (a :: byte) = pre @ replicate r False" and "bits 8 b = replicate (8 - r) False @ suf"
    and "r \<le> 8"
  shows "bits 8 (a OR b) = pre @ suf"
proof -
  have "length (pre @ replicate r False) = 8" "length (replicate (8 - r) False @ suf) = 8"
    unfolding assms(1,2) [symmetric] by simp_all
  then have len: "length pre = 8 - r" "length suf = r" using assms(3) by simp_all
  show ?thesis
  proof (rule nth_equalityI)
    fix i assume "i < length (bits 8 (a OR b))"
    then have i: "i < 8" by simp
    then have "bits 8 (a OR b) ! i = (bits 8 a ! i \<or> bits 8 b ! i)"
      by (simp add: nth_bits bit_or_iff)
    then show "bits 8 (a OR b) ! i = (pre @ suf) ! i"
      using i len unfolding assms(1,2) by (cases "i < 8 - r") (auto simp: nth_append)
  qed (use len assms(3) in simp)
qed

section \<open>The encoder writes the bit strings of the table\<close>

declare hf_emit.simps [simp del]

definition byte_bits :: "bytes \<Rightarrow> bool list" where
  "byte_bits bs = concat (map (bits 8) bs)"

lemma byte_bits_simps [simp]:
  "byte_bits [] = []" "byte_bits (b # bs) = bits 8 b @ byte_bits bs"
  "byte_bits (as @ bs) = byte_bits as @ byte_bits bs"
  by (simp_all add: byte_bits_def)

lemma length_byte_bits [simp]: "length (byte_bits bs) = 8 * length bs"
  by (induction bs) simp_all

lemma bits_zero_byte: "bits 8 (0 :: byte) = replicate 8 False"
  by (intro nth_equalityI) (simp_all add: nth_bits)

text \<open>The two bytes the loop can OR into the open byte.\<close>

lemma low_chunk:
  assumes "nbits < r" and "r \<le> 8" and "r = 8 \<or> codes < 2 ^ nbits"
  shows "bits 8 (of_nat (push_bit (r - nbits) codes) :: byte) =
           replicate (8 - r) False @ bits nbits codes @ replicate (r - nbits) False"
proof -
  have "bits (8 - (r - nbits)) codes = replicate (8 - r) False @ bits nbits codes"
    using assms bits_zeros [of codes nbits "8 - (r - nbits)"] by (cases "r = 8") auto
  then show ?thesis
    using assms(1,2) by (simp only: bits_byte_of_nat) (simp add: bits_push)
qed

lemma high_chunk:
  assumes "r \<le> nbits" and "r \<le> 8" and "r = 8 \<or> codes < 2 ^ nbits"
  shows "bits 8 (of_nat (drop_bit (nbits - r) codes) :: byte) =
           replicate (8 - r) False @ bits r (drop_bit (nbits - r) codes)"
proof (cases "r = 8")
  case False
  have "(2::nat) ^ nbits = 2 ^ r * 2 ^ (nbits - r)"
    using assms(1) by (simp add: power_add [symmetric])
  then have "drop_bit (nbits - r) codes < 2 ^ r"
    using assms(3) False by (simp add: drop_bit_eq_div less_mult_imp_div_less)
  from bits_zeros [OF this assms(2)] show ?thesis by (simp only: bits_byte_of_nat)
qed (simp add: bits_byte_of_nat)

lemma hf_emit_ok:
  assumes "1 \<le> r" and "r \<le> 8" and "r = 8 \<or> codes < 2 ^ nbits"
    and "i + (8 - r + nbits) div 8 < length buff" and "bits 8 (buff ! i) = pre @ replicate r False"
  shows "\<exists>r' mid b rest. hf_emit codes nbits r i buff = Inr (r', take i buff @ mid @ b # rest) \<and>
           length (take i buff @ mid @ b # rest) = length buff \<and> 1 \<le> r' \<and> r' \<le> 8 \<and>
           length mid = (8 - r + nbits) div 8 \<and>
           byte_bits (mid @ [b]) = pre @ bits nbits codes @ replicate r' False"
  using assms
proof (induction codes nbits r i buff arbitrary: pre rule: hf_emit.induct)
  case (1 codes nbits r i buff)
  note p = "1.prems"
  have i: "i < length buff" using p(4) by simp
  show ?case
  proof (cases "nbits < r")
    case True
    let ?b = "buff ! i OR of_nat (push_bit (r - nbits) codes)"
    have "hf_emit codes nbits r i buff = Inr (r - nbits, take i buff @ ?b # drop (Suc i) buff)"
      using i True by (simp add: hf_emit.simps [of codes nbits] upd_conv_take_nth_drop)
    moreover have "bits 8 ?b = pre @ bits nbits codes @ replicate (r - nbits) False"
      using low_chunk [OF True p(2,3)] p(2,5) by (intro bits_or_zeros) simp_all
    moreover have "(8 - r + nbits) div 8 = 0" "1 \<le> r - nbits" "r - nbits \<le> 8"
      "length (take i buff @ ?b # drop (Suc i) buff) = length buff"
      using True p(2) i by simp_all
    ultimately show ?thesis
      by (intro exI [of _ "r - nbits"] exI [of _ "[]"] exI [of _ ?b] exI [of _ "drop (Suc i) buff"]) simp
  next
    case False
    let ?k = "nbits - r" and ?b = "buff ! i OR of_nat (drop_bit (nbits - r) codes)"
    define buff'' where "buff'' = (buff[i := ?b])[Suc i := 0]"
    have "8 - r + nbits = ?k + 8" using False p(2) by simp
    then have div: "(8 - r + nbits) div 8 = Suc (?k div 8)" by simp
    have i': "Suc i < length buff" using p(4) div by simp
    have b: "bits 8 ?b = pre @ bits r (drop_bit ?k codes)"
      using high_chunk [of r nbits codes] False p by (intro bits_or_zeros) simp_all
    have split: "bits nbits codes = bits r (drop_bit ?k codes) @ bits ?k codes"
      using bits_split [of ?k nbits codes] False by simp
    have take'': "take (Suc i) buff'' = take i buff @ [?b]" and z: "buff'' ! Suc i = 0"
      and len'': "length buff'' = length buff"
      using i i' by (simp_all add: buff''_def take_Suc_conv_app_nth)
    have step: "hf_emit codes nbits r i buff =
        (if ?k = 0 then Inr (8, buff'') else hf_emit codes ?k 8 (Suc i) buff'')"
      using i i' False by (simp add: hf_emit.simps [of codes nbits] buff''_def Let_def)
    show ?thesis
    proof (cases "?k = 0")
      case True
      have "buff'' = take i buff @ [?b] @ 0 # drop (Suc (Suc i)) buff''"
        using id_take_nth_drop [of "Suc i" buff''] i' len'' take'' z by simp
      with True step b split div len'' show ?thesis
        by (intro exI [of _ 8] exI [of _ "[?b]"] exI [of _ 0] exI [of _ "drop (Suc (Suc i)) buff''"])
          (simp add: bits_zero_byte)
    next
      case more: False
      have room: "Suc i + (8 - 8 + ?k) div 8 < length buff''" using p(4) div len'' by simp
      obtain r' mid c rest where IH: "hf_emit codes ?k 8 (Suc i) buff'' = Inr (r', take (Suc i) buff'' @ mid @ c # rest)"
        "length (take (Suc i) buff'' @ mid @ c # rest) = length buff''" "1 \<le> r'" "r' \<le> 8"
        "length mid = ?k div 8" "byte_bits (mid @ [c]) = bits ?k codes @ replicate r' False"
        using "1.IH" [OF _ _ refl _ refl, folded buff''_def, of "[]"] i i' False more room z
        by (auto simp: bits_zero_byte)
      then show ?thesis
        using more b split div len'' take'' i
        by - (rule exI [of _ r'], rule exI [of _ "?b # mid"], rule exI [of _ c],
            rule exI [of _ rest], simp add: step)
    qed
  qed
qed

subsection \<open>Facts of the table\<close>

definition sym_bits :: "byte \<Rightarrow> bool list" where
  "sym_bits ch = bits (huffman_code_len ! unat ch) (huffman_codes ! unat ch)"

definition text_bits :: "bytes \<Rightarrow> bool list" where
  "text_bits inp = concat (map sym_bits inp)"

lemma length_sym_bits [simp]: "length (sym_bits ch) = huffman_code_len ! unat ch"
  by (simp add: sym_bits_def)

lemma text_bits_simps [simp]:
  "text_bits [] = []" "text_bits (ch # inp) = sym_bits ch @ text_bits inp"
  by (simp_all add: text_bits_def)

lemma table_lengths: "length huffman_codes = 256" "length huffman_code_len = 256"
  by (simp_all add: huffman_codes_def huffman_code_len_def)

lemma table_rows:
  "list_all2 (\<lambda>c l. 5 \<le> l \<and> l \<le> 30 \<and> c < 2 ^ l) huffman_codes huffman_code_len"
  unfolding huffman_codes_def huffman_code_len_def by simp

lemma table_row:
  fixes ch :: byte
  shows "5 \<le> huffman_code_len ! unat ch" "huffman_code_len ! unat ch \<le> 30"
    "huffman_codes ! unat ch < 2 ^ (huffman_code_len ! unat ch)"
  using list_all2_nthD [OF table_rows, of "unat ch"] unsigned_less [of ch, where 'a = nat]
  by (simp_all add: table_lengths)

lemma length_text_bits:
  "length (text_bits inp) = sum_list (map (\<lambda>ch. huffman_code_len ! unat ch) inp)"
  by (induction inp) simp_all

lemma length_text_bits_le: "length (text_bits inp) \<le> 30 * length inp"
proof (induction inp)
  case (Cons ch inp)
  then show ?case using table_row(2) [of ch] by simp
qed simp

subsection \<open>Whole strings\<close>

lemma nbytes_eq:
  assumes "1 \<le> r" and "r \<le> (8 :: nat)" and "0 < len"
  shows "(if r > len then (r - len) div 8 else (len - r) div 8 + 1) = (8 - r + len) div 8"
proof (cases "r > len")
  case False
  then have "8 - r + len = (len - r) + 8" using assms by simp
  with False show ?thesis by simp
qed (use assms in auto)

lemma append_prefix_split:
  "a @ b = c @ d \<Longrightarrow> length a \<le> length c \<Longrightarrow> \<exists>u. c = a @ u \<and> b = u @ d"
  by (auto simp: append_eq_append_conv2)

lemma hf_encode_loop_ok:
  assumes "1 \<le> r" and "r \<le> 8" and "j + (8 - r + length (text_bits inp)) div 8 < length buff"
    and "bits 8 (buff ! j) = pre @ replicate r False"
  shows "\<exists>r' mid b rest.
           hf_encode_loop inp r j buff = Inr (r', j + length mid, take j buff @ mid @ b # rest) \<and>
           length (take j buff @ mid @ b # rest) = length buff \<and> 1 \<le> r' \<and> r' \<le> 8 \<and>
           byte_bits (mid @ [b]) = pre @ text_bits inp @ replicate r' False"
  using assms
proof (induction inp arbitrary: r j buff pre)
  case Nil
  then have j: "j < length buff" by simp
  then have "buff = take j buff @ [] @ buff ! j # drop (Suc j) buff" by (simp add: id_take_nth_drop)
  with Nil j show ?case
    by - (rule exI [of _ r], rule exI [of _ "[]"], rule exI [of _ "buff ! j"],
        rule exI [of _ "drop (Suc j) buff"], simp)
next
  case (Cons ch inp)
  note p = Cons.prems
  let ?len = "huffman_code_len ! unat ch"
  have le: "(8 - r + ?len) div 8 \<le> (8 - r + length (text_bits (ch # inp))) div 8"
    by (intro div_le_mono) simp
  have room1: "j + (8 - r + ?len) div 8 < length buff" using p(3) le by linarith
  obtain r1 mid b rest where 1: "hf_byte_encode ch r j buff = Inr (r1, take j buff @ mid @ b # rest)"
    "length (take j buff @ mid @ b # rest) = length buff" "1 \<le> r1" "r1 \<le> 8"
    "length mid = (8 - r + ?len) div 8"
    "byte_bits (mid @ [b]) = pre @ sym_bits ch @ replicate r1 False"
    using hf_emit_ok [OF p(1,2) _ room1 p(4), of "huffman_codes ! unat ch"] table_row(3) [of ch]
    unfolding hf_byte_encode_def sym_bits_def by blast
  define buff1 where "buff1 = take j buff @ mid @ b # rest"
  have len1: "length buff1 = length buff" using 1(2) by (simp add: buff1_def)
  have j: "j < length buff" using room1 by simp
  obtain pre' where pre': "bits 8 b = pre' @ replicate r1 False"
    "pre @ sym_bits ch = byte_bits mid @ pre'"
  proof -
    have "length pre = 8 - r" using arg_cong [OF p(4), of length] p(2) by simp
    then have "length (byte_bits mid) \<le> length (pre @ sym_bits ch)"
      using 1(4) arg_cong [OF 1(6), of length] by simp
    with 1(6) show thesis
      using append_prefix_split [of "byte_bits mid" "bits 8 b" "pre @ sym_bits ch"] that by auto
  qed
  have b1: "buff1 ! (j + length mid) = b" "take (j + length mid) buff1 = take j buff @ mid"
    using j by (simp_all add: buff1_def nth_append)
  have "8 * length mid + 8 = 8 - r + ?len + r1"
    using arg_cong [OF 1(6), of length] arg_cong [OF p(4), of length] p(2) by simp
  then have "8 - r + length (text_bits (ch # inp)) = 8 * length mid + (8 - r1 + length (text_bits inp))"
    using 1(4) by simp
  then have room2: "j + length mid + (8 - r1 + length (text_bits inp)) div 8 < length buff1"
    using p(3) len1 by simp
  obtain r' mid' b' rest' where IH:
    "hf_encode_loop inp r1 (j + length mid) buff1 =
       Inr (r', j + length mid + length mid', take j buff @ mid @ mid' @ b' # rest')"
    "length (take j buff @ mid @ mid' @ b' # rest') = length buff" "1 \<le> r'" "r' \<le> 8"
    "byte_bits (mid' @ [b']) = pre' @ text_bits inp @ replicate r' False"
    using Cons.IH [OF 1(3,4) room2, of pre'] pre'(1) unfolding b1 len1 by auto
  have "byte_bits ((mid @ mid') @ [b']) = pre @ text_bits (ch # inp) @ replicate r' False"
    using IH(5) pre'(2) by simp
  moreover have "hf_encode_loop (ch # inp) r j buff =
      Inr (r', j + length (mid @ mid'), take j buff @ (mid @ mid') @ b' # rest')"
    using 1(1,5) IH(1) nbytes_eq [OF p(1,2), of ?len] table_row(1) [of ch] by (simp add: buff1_def Let_def)
  ultimately show ?case
    using IH(2,3,4)
    by - (rule exI [of _ r'], rule exI [of _ "mid @ mid'"], rule exI [of _ b'], rule exI [of _ rest'],
        simp del: hf_encode_loop.simps)
qed

lemma eos_byte: "r \<le> 8 \<Longrightarrow> bits 8 (of_nat (drop_bit (30 - r) 0x3fffffff) :: byte) =
    replicate (8 - r) False @ replicate r True"
proof -
  assume r: "r \<le> 8"
  have m: "(0x3fffffff :: nat) = mask 30" by (simp add: mask_eq_exp_minus_1)
  show ?thesis
    unfolding bits_byte_of_nat m
    by (intro nth_equalityI) (use r in \<open>auto simp: nth_bits bit_drop_bit_eq nth_append bit_mask_iff\<close>)
qed

lemma hf_string_encode_ok:
  assumes "length (text_bits inp) div 8 < length buff" and "bits 8 (buff ! 0) = replicate 8 False"
  obtains out rest k where "hf_string_encode inp 0 buff = Inr (length out, out @ rest)"
    "k < 8" "byte_bits out = text_bits inp @ replicate k True"
proof -
  obtain r mid b rest where e: "hf_encode_loop inp 8 0 buff = Inr (r, length mid, mid @ b # rest)"
    "1 \<le> r" "r \<le> 8" "byte_bits (mid @ [b]) = text_bits inp @ replicate r False"
    using hf_encode_loop_ok [of 8 0 inp buff "[]"] assms by auto
  show ?thesis
  proof (cases "r < 8")
    case False
    then have "byte_bits mid @ bits 8 b = text_bits inp @ replicate 8 False" using e(3,4) by simp
    then have "byte_bits mid = text_bits inp" by (subst (asm) append_eq_append_conv) simp_all
    with e False show ?thesis
      by (intro that [of mid "b # rest" 0]) (simp_all add: hf_string_encode_def)
  next
    case True
    let ?b = "b OR of_nat (drop_bit (30 - r) 0x3fffffff)"
    have "length (byte_bits mid) \<le> length (text_bits inp)"
      using arg_cong [OF e(4), of length] True by simp
    then obtain u where u: "text_bits inp = byte_bits mid @ u" "bits 8 b = u @ replicate r False"
      using append_prefix_split [of "byte_bits mid" "bits 8 b" "text_bits inp" "replicate r False"] e(4)
      by auto
    have "bits 8 ?b = u @ replicate r True"
      using u(2) eos_byte [of r] e(3) by (intro bits_or_zeros) simp_all
    with e True u(1) show ?thesis
      by (intro that [of "mid @ [?b]" rest r]) (simp_all add: hf_string_encode_def nth_append)
  qed
qed

lemma EncodeString_ok:
  obtains out k where "EncodeString inp [] 0 = Inr out" "k < 8"
    "byte_bits out = text_bits inp @ replicate k True" "length out = EncodeLen inp"
proof -
  let ?buff = "resize (CHAT_MAX_HUFFMAN_BUFF_LEN (length inp)) []"
  have "length (text_bits inp) div 8 \<le> 30 * length inp div 8"
    using length_text_bits_le by (rule div_le_mono)
  then have room: "length (text_bits inp) div 8 < length ?buff"
    by (simp add: resize_def CHAT_MAX_HUFFMAN_BUFF_LEN_def)
  have zero: "bits 8 (?buff ! 0) = replicate 8 False"
    by (simp add: resize_def CHAT_MAX_HUFFMAN_BUFF_LEN_def bits_zero_byte)
  obtain out rest k where o: "hf_string_encode inp 0 ?buff = Inr (length out, out @ rest)"
    "k < 8" "byte_bits out = text_bits inp @ replicate k True"
    using hf_string_encode_ok [OF room zero] .
  have "8 * length out = length (text_bits inp) + k" using arg_cong [OF o(3), of length] by simp
  then have "length out = EncodeLen inp"
    using o(2) by (simp add: EncodeLen_def hf_string_encode_len_def length_text_bits)
  with o show ?thesis
    by (intro that [of out k]) (simp_all add: EncodeString_def resize_def)
qed

section \<open>The trie holds the table\<close>

declare hf_add_node.simps [simp del]

text \<open>Byte \<open>j\<close> starts with the last bits \<open>len \<le> 8\<close> of the code \<open>c\<close>.\<close>

definition covers :: "nat \<Rightarrow> nat \<Rightarrow> nat \<Rightarrow> bool" where
  "covers len c j \<longleftrightarrow> j < 256 \<and> take len (bits 8 j) = bits len c"

definition chunk :: "nat \<Rightarrow> nat \<Rightarrow> nat" where
  "chunk len c = drop_bit (len - 8) c mod 256"

lemma bits_mod_256: "bits 8 (c mod 256 :: nat) = bits 8 c"
proof -
  have "c mod 256 = take_bit 8 c" by (simp add: take_bit_eq_mod)
  then show ?thesis by (intro bits_cong) (simp add: bit_take_bit_iff)
qed

lemma bits_chunk: "8 < len \<Longrightarrow> bits len c = bits 8 (chunk len c) @ bits (len - 8) c"
  using bits_split [of "len - 8" len c] by (simp add: chunk_def bits_mod_256)

lemma take_bits: "n \<le> m \<Longrightarrow> take n (bits m c) = bits n (drop_bit (m - n) c)"
  using bits_split [of "m - n" m c] by simp

lemma div_range: "0 < b \<Longrightarrow> j div b = q \<longleftrightarrow> q * b \<le> j \<and> j < q * b + (b::nat)"
proof
  assume *: "0 < b" "j div b = q"
  have "q * b + j mod b = j" using div_mult_mod_eq [of j b] *(2) by simp
  with mod_less_divisor [OF *(1), of j] show "q * b \<le> j \<and> j < q * b + b" by linarith
next
  assume "q * b \<le> j \<and> j < q * b + b"
  then show "j div b = q" by (intro div_nat_eqI) (simp_all add: mult.commute)
qed

lemma covers_range:
  assumes "len \<le> 8"
  shows "covers len c j \<longleftrightarrow> j \<in> {push_bit (8 - len) c mod 256 ..< push_bit (8 - len) c mod 256 + 2 ^ (8 - len)}"
proof -
  let ?s = "8 - len" and ?st = "push_bit (8 - len) c mod 256"
  have pow: "(256::nat) = 2 ^ len * 2 ^ ?s" using assms by (simp flip: power_add)
  have st: "?st = (c mod 2 ^ len) * 2 ^ ?s"
    unfolding pow by (simp add: push_bit_eq_mult mult.commute mult_mod_right)
  have lim: "?st + 2 ^ ?s \<le> 256"
  proof -
    have "c mod 2 ^ len + 1 \<le> 2 ^ len" by (simp add: Suc_leI)
    then have "(c mod 2 ^ len + 1) * 2 ^ ?s \<le> 2 ^ len * 2 ^ ?s" by (rule mult_le_mono1)
    then show ?thesis using st pow by simp
  qed
  have "take len (bits 8 j) = bits len c \<longleftrightarrow> drop_bit ?s j = c mod 2 ^ len" if "j < 256"
  proof -
    have "drop_bit ?s j < 2 ^ len" using that pow by (simp add: drop_bit_eq_div less_mult_imp_div_less)
    moreover have "bits len (c mod 2 ^ len) = bits len c"
      by (intro bits_cong) (simp add: bit_take_bit_iff flip: take_bit_eq_mod)
    moreover have "c mod 2 ^ len < 2 ^ len" by simp
    ultimately show ?thesis unfolding take_bits [OF assms] by (metis bits_inject)
  qed
  moreover have "drop_bit ?s j = c mod 2 ^ len \<longleftrightarrow> j \<in> {?st..<?st + 2 ^ ?s}"
    unfolding st drop_bit_eq_div by (subst div_range) auto
  ultimately show ?thesis using lim by (auto simp: covers_def)
qed

subsection \<open>The code is prefix-free\<close>

text \<open>
  Code \<open>i\<close> stands for the 30-bit strings from \<open>code_lo i\<close> up to \<open>code_hi i\<close>. The symbols listed in
  the order of their codes have adjacent, disjoint intervals.
\<close>

definition code_lo :: "nat \<Rightarrow> nat" where
  "code_lo i = huffman_codes ! i * 2 ^ (30 - huffman_code_len ! i)"

definition code_hi :: "nat \<Rightarrow> nat" where
  "code_hi i = (huffman_codes ! i + 1) * 2 ^ (30 - huffman_code_len ! i)"

definition by_code :: "nat list" where
  "by_code =
     [48, 49, 50, 97, 99, 101, 105, 111, 115, 116, 32, 37, 45, 46, 47, 51,
      52, 53, 54, 55, 56, 57, 61, 65, 95, 98, 100, 102, 103, 104, 108, 109,
      110, 112, 114, 117, 58, 66, 67, 68, 69, 70, 71, 72, 73, 74, 75, 76,
      77, 78, 79, 80, 81, 82, 83, 84, 85, 86, 87, 89, 106, 107, 113, 118,
      119, 120, 121, 122, 38, 42, 44, 59, 88, 90, 33, 34, 40, 41, 63, 39,
      43, 124, 35, 62, 0, 36, 64, 91, 93, 126, 94, 125, 60, 96, 123, 92,
      195, 208, 128, 130, 131, 162, 184, 194, 224, 226, 153, 161, 167, 172, 176, 177,
      179, 209, 216, 217, 227, 229, 230, 129, 132, 133, 134, 136, 146, 154, 156, 160,
      163, 164, 169, 170, 173, 178, 181, 185, 186, 187, 189, 190, 196, 198, 228, 232,
      233, 1, 135, 137, 138, 139, 140, 141, 143, 147, 149, 150, 151, 152, 155, 157,
      158, 165, 166, 168, 174, 175, 180, 182, 183, 188, 191, 197, 231, 239, 9, 142,
      144, 145, 148, 159, 171, 206, 215, 225, 236, 237, 199, 207, 234, 235, 192, 193,
      200, 201, 202, 205, 210, 213, 218, 219, 238, 240, 242, 243, 255, 203, 204, 211,
      212, 214, 221, 222, 223, 241, 244, 245, 246, 247, 248, 250, 251, 252, 253, 254,
      2, 3, 4, 5, 6, 7, 8, 11, 12, 14, 15, 16, 17, 18, 19, 20,
      21, 23, 24, 25, 26, 27, 28, 29, 30, 31, 127, 220, 249, 10, 13, 22]"

fun chained :: "nat \<Rightarrow> nat list \<Rightarrow> bool" where
  "chained b [] = True"
| "chained b (i # is) \<longleftrightarrow> b \<le> code_lo i \<and> chained (code_hi i) is"

lemma by_code_chained: "chained 0 by_code"
  by (simp add: by_code_def code_lo_def code_hi_def huffman_codes_def huffman_code_len_def)

lemma chained_sorted:
  "chained b is \<Longrightarrow> (\<forall>i \<in> set is. b \<le> code_lo i) \<and> sorted_wrt (\<lambda>i j. code_hi i \<le> code_lo j) is"
proof (induction "is" arbitrary: b)
  case (Cons i "is")
  have "code_lo i \<le> code_hi i" by (simp add: code_lo_def code_hi_def)
  moreover have "\<forall>j \<in> set is. code_hi i \<le> code_lo j" "sorted_wrt (\<lambda>i j. code_hi i \<le> code_lo j) is"
    using Cons.IH [of "code_hi i"] Cons.prems by simp_all
  ultimately show ?case using Cons.prems by fastforce
qed simp

lemma chained_distinct: "chained b is \<Longrightarrow> distinct is"
proof (induction "is" arbitrary: b)
  case (Cons i "is")
  have "code_lo i < code_hi i" by (simp add: code_lo_def code_hi_def)
  then have "i \<notin> set is" using chained_sorted [of "code_hi i" "is"] Cons.prems by fastforce
  with Cons show ?case by auto
qed simp

lemma by_code_complete: "set by_code = {..<256}"
proof (rule card_subset_eq)
  have "list_all (\<lambda>i. i < 256) by_code" unfolding by_code_def by simp
  then show "set by_code \<subseteq> {..<256}" by (auto simp: list_all_iff)
  have "distinct by_code" using by_code_chained by (rule chained_distinct)
  then show "card (set by_code) = card {..<256 :: nat}"
    by (simp add: distinct_card) (simp add: by_code_def)
qed simp

lemma intervals_disjoint:
  assumes "i < 256" and "j < 256" and "i \<noteq> j"
  shows "code_hi i \<le> code_lo j \<or> code_hi j \<le> code_lo i"
proof -
  have "i \<in> set by_code" "j \<in> set by_code" using assms by (simp_all add: by_code_complete)
  then obtain a b where "a < length by_code" "b < length by_code" "by_code ! a = i" "by_code ! b = j"
    by (auto simp: in_set_conv_nth)
  then show ?thesis
    using chained_sorted [OF by_code_chained] assms(3) linorder_less_linear [of a b]
    by (auto simp: sorted_wrt_iff_nth_less)
qed

definition apart :: "'a list \<Rightarrow> 'a list \<Rightarrow> bool" where
  "apart a b \<longleftrightarrow> (\<forall>x y. a @ x \<noteq> b @ y)"

lemma apart_sym: "apart a b \<Longrightarrow> apart b a"
  unfolding apart_def by metis

lemma apart_tail: "apart (u @ a) (u @ b) \<longleftrightarrow> apart a b"
  by (simp add: apart_def)

text \<open>A code that is a prefix of another has the other's interval inside its own.\<close>

lemma prefix_interval:
  fixes c c' :: nat
  assumes "bits n c @ x = bits m c' @ y" and "n \<le> m" and "m \<le> 30" and "c < 2 ^ n" and "c' < 2 ^ m"
  shows "c * 2 ^ (30 - n) \<le> c' * 2 ^ (30 - m) \<and> c' * 2 ^ (30 - m) < (c + 1) * 2 ^ (30 - n)"
proof -
  have "bits n c = take n (bits m c')"
    using arg_cong [OF assms(1), of "take n"] assms(2) by simp
  then have "bits n c = bits n (drop_bit (m - n) c')" using assms(2) by (simp add: take_bits)
  moreover have "drop_bit (m - n) c' < 2 ^ n"
    using assms(2,5) by (simp add: drop_bit_eq_div less_mult_imp_div_less flip: power_add)
  ultimately have "c' div 2 ^ (m - n) = c"
    using bits_inject [of n c "drop_bit (m - n) c'"] assms(4) by (simp add: drop_bit_eq_div)
  then have "c * 2 ^ (m - n) \<le> c' \<and> c' < (c + 1) * 2 ^ (m - n)"
    by (subst (asm) div_range) simp_all
  moreover have p: "(2::nat) ^ (30 - n) = 2 ^ (m - n) * 2 ^ (30 - m)"
    using assms(2,3) by (simp flip: power_add)
  ultimately show ?thesis
    unfolding p by (metis mult.assoc mult_le_mono1 mult_less_mono1 zero_less_numeral zero_less_power)
qed

lemma codes_apart:
  assumes "i \<noteq> (j :: byte)"
  shows "apart (sym_bits i) (sym_bits j)"
  unfolding apart_def
proof (intro allI notI)
  fix x y assume eq: "sym_bits i @ x = sym_bits j @ y"
  have no: False
    if "sym_bits a @ u = sym_bits b @ v" "a \<noteq> b"
      "huffman_code_len ! unat a \<le> huffman_code_len ! unat b" for a b :: byte and u v
  proof -
    from that(1) have "code_lo (unat a) \<le> code_lo (unat b)" "code_lo (unat b) < code_hi (unat a)"
      using prefix_interval [OF _ that(3)] table_row(2,3) [of b] table_row(3) [of a]
      by (auto simp: sym_bits_def code_lo_def code_hi_def)
    moreover have "code_lo (unat b) < code_hi (unat b)" by (simp add: code_lo_def code_hi_def)
    moreover have "unat a < 256" "unat b < 256" "unat a \<noteq> unat b"
      using unsigned_less [of a, where 'a = nat] unsigned_less [of b, where 'a = nat] that(2)
      by (simp_all add: unsigned_word_eqI word_unat_eq_iff)
    ultimately show False using intervals_disjoint [of "unat a" "unat b"] by linarith
  qed
  show False
    using no [OF eq assms] no [OF eq [symmetric] assms [symmetric]] by linarith
qed

subsection \<open>Adding a code\<close>

definition leaf_of :: "byte \<Rightarrow> nat \<Rightarrow> nat \<Rightarrow> node option \<Rightarrow> node" where
  "leaf_of s c len p = (let m = or_create p in NODE (children m) s c len (node_size m))"

lemma or_create_simps [simp]: "or_create None = node_create" "or_create (Some m) = m"
  by (simp_all add: or_create_def)

lemma node_create_simps [simp]: "children node_create j = None" "node_size node_create = 0"
  by (simp_all add: node_create_def)

lemma fold_set_leaf:
  "distinct js \<Longrightarrow>
     children (fold (set_leaf s c len) js n) j =
       (if j \<in> set js then Some (leaf_of s c len (children n j)) else children n j) \<and>
     node_size (fold (set_leaf s c len) js n) = node_size n + length js"
  by (induction js arbitrary: n) (auto simp: set_leaf_def leaf_of_def Let_def)

lemma add_short:
  assumes "len \<le> 8"
  shows "children (hf_add_node n s c len) j =
           (if covers len c j then Some (leaf_of s c len (children n j)) else children n j)"
    and "node_size n < node_size (hf_add_node n s c len)"
proof -
  let ?st = "push_bit (8 - len) c mod 256"
  have add: "hf_add_node n s c len = fold (set_leaf s c len) [?st..<?st + 2 ^ (8 - len)] n"
    using assms by (simp add: hf_add_node.simps Let_def)
  show "children (hf_add_node n s c len) j =
      (if covers len c j then Some (leaf_of s c len (children n j)) else children n j)"
    unfolding add using fold_set_leaf [of "[?st..<?st + 2 ^ (8 - len)]" s c len n j]
    by (simp add: covers_range [OF assms])
  show "node_size n < node_size (hf_add_node n s c len)"
    unfolding add using fold_set_leaf [of "[?st..<?st + 2 ^ (8 - len)]" s c len n] by simp
qed

lemma add_long:
  assumes "8 < len"
  shows "children (hf_add_node n s c len) j =
           (if j = chunk len c then Some (hf_add_node (or_create (children n j)) s c (len - 8))
            else children n j)"
    and "node_size (hf_add_node n s c len) = node_size n"
  using assms by (simp_all add: hf_add_node.simps [of n s c len] Let_def chunk_def)

lemma covers_bits: "covers len c j \<Longrightarrow> len \<le> 8 \<Longrightarrow> bits 8 j = bits len c @ drop len (bits 8 j)"
  by (metis covers_def append_take_drop_id)

lemma apart_covers:
  assumes "apart (bits len c) (bits len' c')" and "len \<le> 8" and "covers len c j"
  shows "len' \<le> 8 \<Longrightarrow> \<not> covers len' c' j" and "8 < len' \<Longrightarrow> j \<noteq> chunk len' c'"
proof -
  have j: "bits 8 j = bits len c @ drop len (bits 8 j)" using assms(3,2) by (rule covers_bits)
  show "\<not> covers len' c' j" if "len' \<le> 8"
    using assms(1) j covers_bits [of len' c' j] that unfolding apart_def by metis
  show "j \<noteq> chunk len' c'" if "8 < len'"
  proof
    assume "j = chunk len' c'"
    then have "bits len c @ (drop len (bits 8 j) @ bits (len' - 8) c') = bits len' c' @ []"
      using bits_chunk [OF that, of c'] j by (metis append.assoc append_Nil2)
    with assms(1) show False unfolding apart_def by blast
  qed
qed

lemma apart_chunk:
  "apart (bits len c) (bits len' c') \<Longrightarrow> 8 < len \<Longrightarrow> 8 < len' \<Longrightarrow> chunk len c = chunk len' c' \<Longrightarrow>
     apart (bits (len - 8) c) (bits (len' - 8) c')"
  using bits_chunk [of len c] bits_chunk [of len' c'] by (simp add: apart_tail)

lemma chunk_less: "chunk len c < 256"
  by (simp add: chunk_def)

inductive finds :: "byte \<Rightarrow> nat \<Rightarrow> node \<Rightarrow> nat \<Rightarrow> bool" for s c where
  finds_leaf: "len \<le> 8 \<Longrightarrow>
    (\<And>j. covers len c j \<Longrightarrow>
       \<exists>m. children n j = Some m \<and> node_size m = 0 \<and> sym m = s \<and> code_len m = len) \<Longrightarrow>
    finds s c n len"
| finds_deep: "8 < len \<Longrightarrow> children n (chunk len c) = Some m \<Longrightarrow> finds s c m (len - 8) \<Longrightarrow>
    finds s c n len"

function vacant :: "node \<Rightarrow> nat \<Rightarrow> nat \<Rightarrow> bool" where
  "vacant n c len \<longleftrightarrow>
     (if len \<le> 8 then \<forall>j < 256. covers len c j \<longrightarrow> children n j = None
      else vacant (or_create (children n (chunk len c))) c (len - 8))"
  by pat_completeness auto
termination
  by (relation "measure (\<lambda>(n, c, len). len)") auto

declare vacant.simps [simp del]

lemma vacant_create: "vacant node_create c len"
  by (induction len rule: less_induct) (subst vacant.simps, simp)

lemma finds_add:
  "finds s c n len \<Longrightarrow> apart (bits len c) (bits len' c') \<Longrightarrow>
     finds s c (hf_add_node n s' c' len') len"
proof (induction n len arbitrary: len' rule: finds.induct)
  case (finds_leaf len n)
  have same: "children (hf_add_node n s' c' len') j = children n j" if "covers len c j" for j
    using apart_covers [OF finds_leaf.prems finds_leaf.hyps(1) that]
    by (cases "len' \<le> 8") (simp_all add: add_short add_long)
  show ?case
    by (rule finds.finds_leaf [OF finds_leaf.hyps(1)]) (simp add: same finds_leaf.hyps(2))
next
  case (finds_deep len n m)
  show ?case
  proof (cases "8 < len' \<and> chunk len c = chunk len' c'")
    case True
    then have f: "finds s c (hf_add_node m s' c' (len' - 8)) (len - 8)"
      using finds_deep.IH apart_chunk finds_deep.prems finds_deep.hyps(1) by blast
    show ?thesis
      by (rule finds.finds_deep [OF finds_deep.hyps(1) _ f])
        (use True finds_deep.hyps(2) in \<open>simp add: add_long\<close>)
  next
    case False
    have "\<not> covers len' c' (chunk len c)" if "len' \<le> 8"
      using apart_covers(2) [OF apart_sym [OF finds_deep.prems] that] finds_deep.hyps(1) by blast
    then have "children (hf_add_node n s' c' len') (chunk len c) = Some m"
      using False finds_deep.hyps(2) by (cases "len' \<le> 8") (auto simp: add_short add_long)
    then show ?thesis by (rule finds.finds_deep [OF finds_deep.hyps(1) _ finds_deep.hyps(3)])
  qed
qed

lemma vacant_add:
  "vacant n c len \<Longrightarrow> apart (bits len c) (bits len' c') \<Longrightarrow> vacant (hf_add_node n s' c' len') c len"
proof (induction n c len arbitrary: len' rule: vacant.induct)
  case (1 n c len)
  show ?case
  proof (cases "len \<le> 8")
    case True
    have "children (hf_add_node n s' c' len') j = children n j" if "covers len c j" for j
      using apart_covers [OF "1.prems"(2) True that]
      by (cases "len' \<le> 8") (simp_all add: add_short add_long)
    with "1.prems"(1) True show ?thesis by (simp add: vacant.simps [of _ c len])
  next
    case False
    let ?i = "chunk len c"
    have sub: "vacant (or_create (children n ?i)) c (len - 8)"
      using "1.prems"(1) False by (simp add: vacant.simps [of n])
    have "vacant (or_create (children (hf_add_node n s' c' len') ?i)) c (len - 8)"
    proof (cases "8 < len' \<and> ?i = chunk len' c'")
      case True
      then show ?thesis
        using "1.IH" [OF False sub] apart_chunk [OF "1.prems"(2)] False by (simp add: add_long)
    next
      case no: False
      have "\<not> covers len' c' ?i" if "len' \<le> 8"
        using apart_covers(2) [OF apart_sym [OF "1.prems"(2)] that] False by force
      then show ?thesis using no sub by (cases "len' \<le> 8") (auto simp: add_short add_long)
    qed
    with False show ?thesis by (simp add: vacant.simps [of _ c len])
  qed
qed

lemma finds_new: "vacant n c len \<Longrightarrow> finds s c (hf_add_node n s c len) len"
proof (induction n c len rule: vacant.induct)
  case (1 n c len)
  show ?case
  proof (cases "len \<le> 8")
    case True
    have "children n j = None" if "covers len c j" for j
      using "1.prems" True that by (simp add: vacant.simps [of n] covers_def)
    then show ?thesis
      by (intro finds.finds_leaf [OF True]) (simp add: add_short [OF True] leaf_of_def)
  next
    case False
    then have len: "8 < len" by simp
    have "finds s c (hf_add_node (or_create (children n (chunk len c))) s c (len - 8)) (len - 8)"
      using "1.IH" [OF False] "1.prems" False by (simp add: vacant.simps [of n])
    then show ?thesis by (rule finds.finds_deep [OF len, rotated]) (simp add: add_long [OF len])
  qed
qed

text \<open>
  The decoder tells an inner node from a leaf by \<open>size\<close>, which counts only the leaves attached to a
  node directly. \<open>path\<close> is the sequence of bytes that leads to the node a code's leaves hang on.
\<close>

function path :: "nat \<Rightarrow> nat \<Rightarrow> nat list" where
  "path c len = (if len \<le> 8 then [] else chunk len c # path c (len - 8))"
  by pat_completeness auto
termination
  by (relation "measure (\<lambda>(c, len). len)") auto

declare path.simps [simp del]

fun sized :: "node \<Rightarrow> nat list \<Rightarrow> bool" where
  "sized n [] \<longleftrightarrow> node_size n \<noteq> 0"
| "sized n (i # p) \<longleftrightarrow> (\<exists>m. children n i = Some m \<and> sized m p)"

lemma sized_leaf_of: "sized m p \<Longrightarrow> sized (leaf_of s c len (Some m)) p"
  by (cases p) (simp_all add: leaf_of_def)

lemma sized_new: "sized (hf_add_node n s c len) (path c len)"
proof (induction c len arbitrary: n rule: path.induct)
  case (1 c len)
  show ?case
  proof (cases "len \<le> 8")
    case True
    then show ?thesis using add_short(2) [OF True, of n s c] by (simp add: path.simps)
  next
    case False
    then show ?thesis using "1.IH" [OF False] by (simp add: path.simps [of c len] add_long)
  qed
qed

lemma sized_add: "sized n p \<Longrightarrow> sized (hf_add_node n s c len) p"
proof (induction p arbitrary: n len)
  case Nil
  then show ?case using add_short(2) [of len n s c] by (cases "len \<le> 8") (auto simp: add_long)
next
  case (Cons i p)
  then obtain m where m: "children n i = Some m" "sized m p" by auto
  then show ?case
    using Cons.IH [OF m(2)] sized_leaf_of [OF m(2)]
    by (cases "len \<le> 8") (auto simp: add_short add_long)
qed

text \<open>\<open>hf_init\<close> builds a trie that finds every code of the table.\<close>

definition built :: "nat \<Rightarrow> node \<Rightarrow> bool" where
  "built k n \<longleftrightarrow>
     (\<forall>i < k. finds (of_nat i) (huffman_codes ! i) n (huffman_code_len ! i) \<and>
              sized n (path (huffman_codes ! i) (huffman_code_len ! i))) \<and>
     (\<forall>i < 256. k \<le> i \<longrightarrow> vacant n (huffman_codes ! i) (huffman_code_len ! i))"

lemma codes_apart_nat:
  assumes "i < 256" and "j < 256" and "i \<noteq> j"
  shows "apart (bits (huffman_code_len ! i) (huffman_codes ! i))
               (bits (huffman_code_len ! j) (huffman_codes ! j))"
proof -
  have u: "unat (of_nat i :: byte) = i" "unat (of_nat j :: byte) = j"
    using assms(1,2) by (simp_all add: unat_of_nat take_bit_nat_eq_self)
  with assms(3) have "(of_nat i :: byte) \<noteq> of_nat j" by metis
  from codes_apart [OF this] show ?thesis by (simp add: sym_bits_def u)
qed

lemma built_Suc:
  assumes "built k n" and "k < 256"
  shows "built (Suc k) (hf_add_node n (of_nat k) (huffman_codes ! k) (huffman_code_len ! k))"
  unfolding built_def
proof (intro conjI allI impI)
  fix i assume "i < Suc k"
  then consider "i = k" | "i < k" by linarith
  then have "finds (of_nat i) (huffman_codes ! i)
        (hf_add_node n (of_nat k) (huffman_codes ! k) (huffman_code_len ! k)) (huffman_code_len ! i) \<and>
      sized (hf_add_node n (of_nat k) (huffman_codes ! k) (huffman_code_len ! k))
        (path (huffman_codes ! i) (huffman_code_len ! i))"
    using assms by cases (simp_all add: built_def finds_new sized_new finds_add sized_add codes_apart_nat)
  then show "finds (of_nat i) (huffman_codes ! i)
        (hf_add_node n (of_nat k) (huffman_codes ! k) (huffman_code_len ! k)) (huffman_code_len ! i)"
    and "sized (hf_add_node n (of_nat k) (huffman_codes ! k) (huffman_code_len ! k))
        (path (huffman_codes ! i) (huffman_code_len ! i))" by simp_all
next
  fix i assume "i < 256" "Suc k \<le> i"
  then show "vacant (hf_add_node n (of_nat k) (huffman_codes ! k) (huffman_code_len ! k))
      (huffman_codes ! i) (huffman_code_len ! i)"
    using assms by (intro vacant_add codes_apart_nat) (simp_all add: built_def)
qed

lemma built_init: "built 256 hf_init"
proof -
  have "k \<le> 256 \<Longrightarrow> built k (fold (\<lambda>i cur. hf_add_node cur (of_nat i) (huffman_codes ! i)
      (huffman_code_len ! i)) [0..<k] node_create)" for k
  proof (induction k)
    case 0
    then show ?case by (simp add: built_def vacant_create)
  next
    case (Suc k)
    then show ?case using built_Suc by simp
  qed
  then show ?thesis by (simp add: hf_init_def)
qed

lemma finds_init: "finds ch (huffman_codes ! unat ch) hf_init (huffman_code_len ! unat ch)"
  and sized_init: "sized hf_init (path (huffman_codes ! unat ch) (huffman_code_len ! unat ch))"
  using built_init unsigned_less [of ch, where 'a = nat] by (auto simp: built_def)

text \<open>Every inner node has a leaf of its own, so the decoder never takes one for a leaf.\<close>

fun inner_path :: "nat list \<Rightarrow> bool" where
  "inner_path [] = True"
| "inner_path [a] = (254 \<le> a \<and> a \<le> 255)"
| "inner_path [a, b] = (a = 255 \<and> 254 \<le> b \<and> b \<le> 255)"
| "inner_path [a, b, c] = (a = 255 \<and> b = 255 \<and> 246 \<le> c \<and> c \<le> 255)"
| "inner_path _ = False"

lemma path_eval:
  "len \<le> 8 \<Longrightarrow> path c len = []"
  "8 < len \<Longrightarrow> path c len = (c div 2 ^ (len - 8) mod 256) # path c (len - 8)"
  by (simp_all add: path.simps [of c len] chunk_def drop_bit_eq_div)

lemma all_paths_inner:
  "list_all inner_path (map (\<lambda>(c, l). path c l) (zip huffman_codes huffman_code_len))"
  unfolding huffman_codes_def huffman_code_len_def by (simp add: path_eval)

text \<open>A symbol for each of the inner nodes.\<close>

lemma inner_path_witness:
  assumes "inner_path p"
  shows "\<exists>ch < 256. path (huffman_codes ! ch) (huffman_code_len ! ch) = p"
proof -
  let ?syms = "[32, 33, 0, 92, 1, 199, 234, 192, 202, 218, 203, 211, 245, 2, 10]"
  have rows: "map (\<lambda>ch. (huffman_codes ! ch, huffman_code_len ! ch)) ?syms =
      [(0x14, 6), (0x3f8, 10), (0x1ff8, 13), (0x7fff0, 19), (0x7fffd8, 23),
       (0x1ffffec, 25), (0x1ffffee, 25), (0x3ffffe0, 26), (0x3ffffe4, 26), (0x3ffffe8, 26),
       (0x7ffffde, 27), (0x7ffffe0, 27), (0x7ffffe8, 27), (0xfffffe2, 28), (0x3ffffffc, 30)]"
    by (simp add: huffman_codes_def huffman_code_len_def)
  have "map (\<lambda>(c, l). path c l) (map (\<lambda>ch. (huffman_codes ! ch, huffman_code_len ! ch)) ?syms) =
      [[], [254], [255], [255, 254], [255, 255], [255, 255, 246], [255, 255, 247], [255, 255, 248],
       [255, 255, 249], [255, 255, 250], [255, 255, 251], [255, 255, 252], [255, 255, 253],
       [255, 255, 254], [255, 255, 255]]" (is "_ = ?paths")
    unfolding rows by (simp add: path_eval)
  from arg_cong [OF this, of set]
  have img: "(\<lambda>ch. path (huffman_codes ! ch) (huffman_code_len ! ch)) ` set ?syms = set ?paths"
    by (simp only: set_map image_image prod.case)
  have "p \<in> set ?paths"
  proof -
    have "c \<in> {246, 247, 248, 249, 250, 251, 252, 253, 254, 255}" if "246 \<le> c" "c \<le> 255" for c :: nat
      using that by simp presburger
    moreover have "a \<in> {254, 255}" if "254 \<le> a" "a \<le> 255" for a :: nat using that by auto
    ultimately show ?thesis using assms by (cases p rule: inner_path.cases) auto
  qed
  then obtain ch where "ch \<in> set ?syms" "path (huffman_codes ! ch) (huffman_code_len ! ch) = p"
    unfolding img [symmetric] by (elim imageE) (rule that, simp_all only:)
  then show ?thesis by (intro exI [of _ ch]) auto
qed

lemma inner_paths_sized: "inner_path p \<Longrightarrow> sized hf_init p"
  using inner_path_witness [of p] built_init unfolding built_def by blast

function solid :: "node \<Rightarrow> nat \<Rightarrow> nat \<Rightarrow> bool" where
  "solid n c len \<longleftrightarrow>
     (if len \<le> 8 then True
      else case children n (chunk len c) of
        None \<Rightarrow> False
      | Some m \<Rightarrow> node_size m \<noteq> 0 \<and> solid m c (len - 8))"
  by pat_completeness auto
termination
  by (relation "measure (\<lambda>(n, c, len). len)") auto

declare solid.simps [simp del]

lemma solid_sized:
  "(\<forall>k. 0 < k \<and> k \<le> length (path c len) \<longrightarrow> sized n (take k (path c len))) \<Longrightarrow> solid n c len"
proof (induction c len arbitrary: n rule: path.induct)
  case (1 c len)
  show ?case
  proof (cases "len \<le> 8")
    case True
    then show ?thesis by (simp add: solid.simps)
  next
    case False
    let ?i = "chunk len c" and ?p = "path c (len - 8)"
    have p: "path c len = ?i # ?p" using False by (simp add: path.simps [of c len])
    have all: "\<exists>m. children n ?i = Some m \<and> sized m (take k ?p)" if "k \<le> length ?p" for k
      using "1.prems" [rule_format, of "Suc k"] that by (simp add: p)
    then obtain m where m: "children n ?i = Some m" by blast
    have "sized m (take k ?p)" if "k \<le> length ?p" for k using all [OF that] m by simp
    from this [of 0] this "1.IH" [OF False, of m] m False show ?thesis
      by (simp add: solid.simps [of n])
  qed
qed

lemma inner_path_take: "inner_path p \<Longrightarrow> inner_path (take k p)"
  by (cases p rule: inner_path.cases) (auto simp: take_Cons split: nat.splits)

lemma solid_init: "solid hf_init (huffman_codes ! unat ch) (huffman_code_len ! unat (ch :: byte))"
proof (rule solid_sized, intro allI impI)
  fix k
  let ?i = "unat ch"
  have i: "?i < 256" using unsigned_less [of ch, where 'a = nat] by simp
  then have "(huffman_codes ! ?i, huffman_code_len ! ?i) \<in> set (zip huffman_codes huffman_code_len)"
    by (auto simp: set_zip table_lengths)
  then have "inner_path (path (huffman_codes ! ?i) (huffman_code_len ! ?i))"
    using all_paths_inner by (auto simp: list_all_iff)
  then show "sized hf_init (take k (path (huffman_codes ! ?i) (huffman_code_len ! ?i)))"
    by (intro inner_paths_sized inner_path_take)
qed

section \<open>The decoder inverts the encoder\<close>

declare hf_inner.simps [simp del] hf_tail.simps [simp del]

text \<open>
  \<open>ready k n syms S\<close>: the decoder stands at node \<open>n\<close>, the symbols \<open>syms\<close> are still to come, and the
  bits not yet consumed are \<open>S\<close>, which end in \<open>k\<close> bits of padding.
\<close>

definition ready :: "nat \<Rightarrow> node \<Rightarrow> bytes \<Rightarrow> bool list \<Rightarrow> bool" where
  "ready k n syms S \<longleftrightarrow>
     (case syms of
        [] \<Rightarrow> n = hf_init \<and> S = replicate k True
      | s # rest \<Rightarrow>
          \<exists>len. 0 < len \<and> finds s (huffman_codes ! unat s) n len \<and>
                solid n (huffman_codes ! unat s) len \<and>
                S = bits len (huffman_codes ! unat s) @ text_bits rest @ replicate k True)"

lemma ready_init: "ready k hf_init syms (text_bits syms @ replicate k True)"
proof (cases syms)
  case (Cons s rest)
  then show ?thesis
    using finds_init [of s] solid_init [of s] table_row(1) [of s]
    by (auto simp: ready_def sym_bits_def intro!: exI [of _ "huffman_code_len ! unat s"])
qed (simp add: ready_def)

inductive_cases finds_leafE: "finds s c n len"

lemma finds_covers:
  assumes "finds s c n len" and "len \<le> 8" and "covers len c j"
  obtains m where "children n j = Some m" "node_size m = 0" "sym m = s" "code_len m = len"
  using assms(1)
proof cases
  case finds_leaf
  with assms(3) that show ?thesis by blast
qed (use assms(2) in simp)

lemma ready_step:
  assumes "ready k n syms S" and "k < 8" and "S = bits 8 idx @ S'" and "idx < 256"
  obtains n' where "children n idx = Some n'" "node_size n' \<noteq> 0" "ready k n' syms S'"
  | n' rest where "children n idx = Some n'" "node_size n' = 0" "syms = sym n' # rest"
      "0 < code_len n'" "code_len n' \<le> 8" "ready k hf_init rest (drop (code_len n') S)"
proof (cases syms)
  case Nil
  then have "length (bits 8 idx @ S') = k" using assms(1,3) by (simp add: ready_def)
  with assms(2) show ?thesis by simp
next
  case (Cons s rest)
  let ?c = "huffman_codes ! unat s"
  obtain len where r: "0 < len" "finds s ?c n len" "solid n ?c len"
    "S = bits len ?c @ text_bits rest @ replicate k True"
    using assms(1) Cons by (auto simp: ready_def)
  show ?thesis
  proof (cases "len \<le> 8")
    case True
    have "take len (bits 8 idx) = bits len ?c"
      using arg_cong [OF trans [OF assms(3) [symmetric] r(4)], of "take len"] True by simp
    then have "covers len ?c idx" using assms(4) by (simp add: covers_def)
    then obtain m where "children n idx = Some m" "node_size m = 0" "sym m = s" "code_len m = len"
      using finds_covers [OF r(2) True] by blast
    with Cons True r(1,4) ready_init [of k rest] show ?thesis by (intro that(2) [of m rest]) simp_all
  next
    case False
    have c: "bits len ?c = bits 8 (chunk len ?c) @ bits (len - 8) ?c" using False by (simp add: bits_chunk)
    have "bits 8 idx @ S' = bits 8 (chunk len ?c) @ (bits (len - 8) ?c @ text_bits rest @ replicate k True)"
      using assms(3) r(4) c by simp
    then have "bits 8 idx = bits 8 (chunk len ?c)"
      and S': "S' = bits (len - 8) ?c @ text_bits rest @ replicate k True" by simp_all
    then have idx: "idx = chunk len ?c" using bits_inject [of 8 idx] assms(4) chunk_less by simp
    obtain m where m: "children n idx = Some m" "node_size m \<noteq> 0" "solid m ?c (len - 8)"
      using r(3) False idx by (auto simp: solid.simps [of n] split: option.splits)
    have "finds s ?c m (len - 8)"
      using r(2) False m(1) idx by (auto elim: finds_leafE)
    with m False Cons S' show ?thesis
      by (intro that(1) [of m]) (auto simp: ready_def intro!: exI [of _ "len - 8"])
  qed
qed

lemma bits_ucast: "bits 8 (unat (ucast w :: byte)) = bits 8 (w :: 'a::len word)" if "8 \<le> LENGTH('a)"
  unfolding bits_unat by (rule bits_cong) (use that in \<open>simp add: bit_ucast_iff\<close>)

lemma unat_byte_less: "unat (b :: byte) < 256"
  using unsigned_less [of b, where 'a = nat] by simp

text \<open>The window after a byte was shifted in, and the index of its first eight bits.\<close>

lemma window_shift:
  fixes cur :: "32 word" and b :: byte
  assumes "n \<le> 24"
  shows "bits (n + 8) (push_bit 8 cur OR ucast b) = bits n cur @ bits 8 b"
proof (rule nth_equalityI)
  fix i assume "i < length (bits (n + 8) (push_bit 8 cur OR ucast b))"
  then show "bits (n + 8) (push_bit 8 cur OR ucast b) ! i = (bits n cur @ bits 8 b) ! i"
    using assms by (cases "i < n")
      (auto simp: nth_bits nth_append bit_or_iff bit_push_bit_iff bit_ucast_iff dest: bit_imp_le_length)
qed simp

lemma window_top:
  fixes cur :: "32 word"
  assumes "8 \<le> n"
  shows "bits n cur = bits 8 (unat (ucast (drop_bit (n - 8) cur) :: byte)) @ bits (n - 8) cur"
  using bits_split [of "n - 8" n cur] assms by (simp add: bits_ucast)

lemma window_last:
  fixes cur :: "32 word"
  assumes "n < 8"
  shows "bits 8 (unat (ucast (push_bit (8 - n) cur) :: byte)) = bits n cur @ replicate (8 - n) False"
proof -
  have "bits 8 (push_bit (8 - n) cur) = bits n cur @ replicate (8 - n) False"
  proof (rule nth_equalityI)
    fix i assume "i < length (bits 8 (push_bit (8 - n) cur))"
    then show "bits 8 (push_bit (8 - n) cur) ! i = (bits n cur @ replicate (8 - n) False) ! i"
      using assms by (cases "i < n") (auto simp: nth_bits nth_append bit_push_bit_iff)
  qed (use assms in simp)
  then show ?thesis by (simp add: bits_ucast)
qed

lemma hf_inner_ok:
  assumes "ready k n syms (bits nbits cur @ F)" and "k < 8" and "length out + length syms \<le> out_sz"
  shows "\<exists>n' nbits' done syms'.
           hf_inner hf_init cur out_sz n nbits out = Inr (Inr (n', nbits', out @ done)) \<and>
           syms = done @ syms' \<and> nbits' < 8 \<and> ready k n' syms' (bits nbits' cur @ F)"
  using assms(1,3)
proof (induction nbits arbitrary: n syms out rule: less_induct)
  case (less nbits)
  show ?case
  proof (cases "nbits < 8")
    case True
    then have "hf_inner hf_init cur out_sz n nbits out = Inr (Inr (n, nbits, out @ []))"
      by (simp add: hf_inner.simps)
    with True less.prems show ?thesis by (metis append_Nil)
  next
    case False
    define idx where "idx = unat (ucast (drop_bit (nbits - 8) cur) :: byte)"
    have top: "bits nbits cur @ F = bits 8 idx @ (bits (nbits - 8) cur @ F)"
      using window_top [of nbits cur] False by (simp add: idx_def)
    have idx: "idx < 256" unfolding idx_def by (rule unat_byte_less)
    from less.prems(1) assms(2) top idx show ?thesis
    proof (cases rule: ready_step)
      case (1 n')
      then have "hf_inner hf_init cur out_sz n nbits out = hf_inner hf_init cur out_sz n' (nbits - 8) out"
        using False by (simp add: hf_inner.simps [of _ _ _ n] idx_def [symmetric])
      then show ?thesis using less.IH [OF _ 1(3) less.prems(2)] False by simp
    next
      case (2 n' rest)
      have "drop (code_len n') (bits nbits cur) = bits (nbits - code_len n') cur"
        using bits_split [of "nbits - code_len n'" nbits cur] 2(5) False by simp
      then have r: "ready k hf_init rest (bits (nbits - code_len n') cur @ F)"
        using 2(5,6) False by simp
      have room: "length (out @ [sym n']) + length rest \<le> out_sz" using less.prems(2) 2(3) by simp
      then have "hf_inner hf_init cur out_sz n nbits out =
          hf_inner hf_init cur out_sz hf_init (nbits - code_len n') (out @ [sym n'])"
        using False 2(1,2) by (simp add: hf_inner.simps [of _ _ _ n] idx_def [symmetric])
      moreover have "nbits - code_len n' < nbits" using 2(4) False by simp
      ultimately show ?thesis using less.IH [OF _ r room] 2(3) by fastforce
    qed
  qed
qed

lemma hf_outer_ok:
  assumes "ready k n syms (bits nbits cur @ byte_bits enc)" and "k < 8" and "nbits < 8"
    and "length out + length syms \<le> out_sz"
  shows "\<exists>n' cur' nbits' done syms'.
           hf_outer hf_init enc cur out_sz n nbits out = Inr (Inr (n', cur', nbits', out @ done)) \<and>
           syms = done @ syms' \<and> nbits' < 8 \<and> ready k n' syms' (bits nbits' cur')"
  using assms(1,3,4)
proof (induction enc arbitrary: n syms nbits cur out)
  case Nil
  then show ?case by auto
next
  case (Cons b enc)
  let ?cur = "push_bit 8 cur OR ucast b"
  have r: "ready k n syms (bits (nbits + 8) ?cur @ byte_bits enc)"
    using Cons.prems(1,2) window_shift [of nbits cur b] by simp
  obtain n' nbits' done' syms' where 1: "hf_inner hf_init ?cur out_sz n (nbits + 8) out =
      Inr (Inr (n', nbits', out @ done'))" "syms = done' @ syms'" "nbits' < 8"
      "ready k n' syms' (bits nbits' ?cur @ byte_bits enc)"
    using hf_inner_ok [OF r assms(2) Cons.prems(3)] by blast
  have "length (out @ done') + length syms' \<le> out_sz" using 1(2) Cons.prems(3) by simp
  from Cons.IH [OF 1(4,3) this] 1(1,2) show ?case by fastforce
qed

text \<open>The padding: no code of the table is a prefix of up to seven one bits, and every index that
  starts with them is a child of the root.\<close>

lemma byte_eq: "bits 8 idx = bits 8 j \<Longrightarrow> idx < 256 \<Longrightarrow> j < 256 \<Longrightarrow> idx = (j :: nat)"
  using bits_inject [of 8 idx j] by simp

lemma bits_eval:
  "bits 8 c = [bit c 7, bit c 6, bit c 5, bit c 4, bit c 3, bit c 2, bit c 1, bit c 0]"
  "bits 7 c = [bit c 6, bit c 5, bit c 4, bit c 3, bit c 2, bit c 1, bit c 0]"
  "bits 6 c = [bit c 5, bit c 4, bit c 3, bit c 2, bit c 1, bit c 0]"
  by (simp_all add: bits_def upt_rec numeral_eq_Suc)

lemma replicate_eval:
  "replicate 2 x = [x, x]" "replicate 3 x = [x, x, x]" "replicate 4 x = [x, x, x, x]"
  "replicate 5 x = [x, x, x, x, x]" "replicate 6 x = [x, x, x, x, x, x]"
  "replicate 7 x = [x, x, x, x, x, x, x]"
  by (simp_all add: numeral_eq_Suc)

lemma pad_stops:
  assumes "bits 8 idx = replicate k True @ replicate (8 - k) False" and "idx < 256" and "0 < k" and "k < 8"
  shows "\<exists>m. children hf_init idx = Some m \<and> (node_size m \<noteq> 0 \<or> k < code_len m)"
proof -
  have short: "\<exists>m. children hf_init idx = Some m \<and> (node_size m \<noteq> 0 \<or> k < code_len m)"
    if "bits 8 idx = bits 8 j" "j < 256" "len \<le> 8" "take len (bits 8 j) = bits len c" "k < len"
      "huffman_codes ! unat ch = c" "huffman_code_len ! unat ch = len" for j c len :: nat and ch :: byte
  proof -
    have "idx = j" using that(1,2) assms(2) by (intro byte_eq)
    then have "covers len c idx" using that(2,4) by (simp add: covers_def)
    with finds_init [of ch] that(3,5,6,7) show ?thesis by (auto elim!: finds_covers)
  qed
  have row: "huffman_codes ! 61 = 0x20" "huffman_code_len ! 61 = 6" "huffman_codes ! 69 = 0x60"
    "huffman_code_len ! 69 = 7" "huffman_codes ! 85 = 0x70" "huffman_code_len ! 85 = 7"
    "huffman_codes ! 119 = 0x78" "huffman_code_len ! 119 = 7" "huffman_codes ! 38 = 0xf8"
    "huffman_code_len ! 38 = 8" "huffman_codes ! 88 = 0xfc" "huffman_code_len ! 88 = 8"
    by (simp_all add: huffman_codes_def huffman_code_len_def)
  consider "k = 1" | "k = 2" | "k = 3" | "k = 4" | "k = 5" | "k = 6" | "k = 7" using assms(3,4) by linarith
  then show ?thesis
  proof cases
    case 1
    then show ?thesis
      using assms(1) by (intro short [where j = 128 and len = 6 and c = "0x20" and ch = 61]) (simp_all add: row bits_eval replicate_eval bit_0)
  next
    case 2
    then show ?thesis
      using assms(1) by (intro short [where j = 192 and len = 7 and c = "0x60" and ch = 69]) (simp_all add: row bits_eval replicate_eval bit_0)
  next
    case 3
    then show ?thesis
      using assms(1) by (intro short [where j = 224 and len = 7 and c = "0x70" and ch = 85]) (simp_all add: row bits_eval replicate_eval bit_0)
  next
    case 4
    then show ?thesis
      using assms(1) by (intro short [where j = 240 and len = 7 and c = "0x78" and ch = 119]) (simp_all add: row bits_eval replicate_eval bit_0)
  next
    case 5
    then show ?thesis
      using assms(1) by (intro short [where j = 248 and len = 8 and c = "0xf8" and ch = 38]) (simp_all add: row bits_eval replicate_eval bit_0)
  next
    case 6
    then show ?thesis
      using assms(1) by (intro short [where j = 252 and len = 8 and c = "0xfc" and ch = 88]) (simp_all add: row bits_eval replicate_eval bit_0)
  next
    case 7
    have "idx = 254" using assms(1,2) 7 by (intro byte_eq) (simp_all add: bits_eval replicate_eval bit_0)
    then show ?thesis using inner_paths_sized [of "[254]"] by auto
  qed
qed

lemma hf_tail_ok:
  assumes "ready k n syms (bits nbits cur)" and "k < 8" and "nbits < 8"
    and "length out + length syms \<le> out_sz"
  shows "hf_tail hf_init cur out_sz n nbits out = Inr (out @ syms)"
  using assms(1,3,4)
proof (induction syms arbitrary: n nbits out)
  case Nil
  show ?case
  proof (cases "nbits = 0")
    case True
    then show ?thesis by (simp add: hf_tail.simps)
  next
    case False
    define idx where "idx = unat (ucast (push_bit (8 - nbits) cur) :: byte)"
    have n: "n = hf_init" and pad: "bits nbits cur = replicate k True"
      using Nil.prems(1) by (simp_all add: ready_def)
    have k: "k = nbits" using arg_cong [OF pad, of length] by simp
    have "bits 8 idx = replicate k True @ replicate (8 - k) False"
      using window_last [OF Nil.prems(2), of cur] pad k by (simp add: idx_def)
    then obtain m where "children hf_init idx = Some m" "node_size m \<noteq> 0 \<or> k < code_len m"
      using pad_stops [of idx k] unat_byte_less assms(2) False k unfolding idx_def by blast
    then show ?thesis using n False k by (simp add: hf_tail.simps idx_def [symmetric])
  qed
next
  case (Cons s rest)
  let ?c = "huffman_codes ! unat s"
  obtain len where r: "0 < len" "finds s ?c n len"
    "bits nbits cur = bits len ?c @ text_bits rest @ replicate k True"
    using Cons.prems(1) by (auto simp: ready_def)
  have len: "len \<le> nbits" using arg_cong [OF r(3), of length] by simp
  define idx where "idx = unat (ucast (push_bit (8 - nbits) cur) :: byte)"
  have "take len (bits 8 idx) = bits len ?c"
    using window_last [OF Cons.prems(2), of cur] r(3) by (simp add: idx_def)
  then have cov: "covers len ?c idx" using unat_byte_less by (simp add: covers_def idx_def)
  have "len \<le> 8" using len Cons.prems(2) by simp
  from finds_covers [OF r(2) this cov] obtain m where
    m: "children n idx = Some m" "node_size m = 0" "sym m = s" "code_len m = len" by blast
  have "bits (nbits - len) cur = drop len (bits nbits cur)"
    using bits_split [of "nbits - len" nbits cur] len by simp
  then have "ready k hf_init rest (bits (nbits - len) cur)" using r(3) ready_init by simp
  moreover have "hf_tail hf_init cur out_sz n nbits out =
      hf_tail hf_init cur out_sz hf_init (nbits - len) (out @ [s])"
    using m len r(1) Cons.prems(3) by (subst hf_tail.simps) (simp add: idx_def [symmetric])
  ultimately show ?case using Cons.IH [of hf_init "nbits - len" "out @ [s]"] Cons.prems(2,3) by simp
qed

lemma hf_string_decode_ok:
  assumes "byte_bits enc = text_bits syms @ replicate k True" and "k < 8" and "length syms \<le> out_sz"
  shows "hf_string_decode hf_init enc out_sz = Inr (int (length syms), syms)"
proof -
  have "ready k hf_init syms (bits 0 (0 :: 32 word) @ byte_bits enc)"
    using ready_init [of k syms] assms(1) by simp
  then obtain n cur nbits done' syms' where 1:
    "hf_outer hf_init enc 0 out_sz hf_init 0 [] = Inr (Inr (n, cur, nbits, done'))"
    "syms = done' @ syms'" "nbits < 8" "ready k n syms' (bits nbits cur)"
    using hf_outer_ok [of k hf_init syms 0 0 enc "[]" out_sz] assms(2,3) by auto
  then show ?thesis
    using hf_tail_ok [OF 1(4) assms(2) 1(3), of done' out_sz] assms(3)
    by (simp add: hf_string_decode_def)
qed

lemma DecodeString_ok:
  assumes "byte_bits enc = text_bits syms @ replicate k True" and "k < 8"
  shows "DecodeString enc = Inr (int (length syms), syms)"
proof -
  have "5 * length syms \<le> length (text_bits syms)"
  proof (induction syms)
    case (Cons s syms)
    then show ?case using table_row(1) [of s] by simp
  qed simp
  then have "length syms \<le> CHAT_MAX_HUFFMAN_BUFF_LEN (length enc)"
    using arg_cong [OF assms(1), of length] by (simp add: CHAT_MAX_HUFFMAN_BUFF_LEN_def)
  from hf_string_decode_ok [OF assms this] show ?thesis by (simp add: DecodeString_def)
qed

section \<open>Properties of the Huffman code\<close>

text \<open>The encoder never leaves its buffer and produces exactly the codes of the table, one after
  the other, filled up with fewer than eight one bits; the size it reports is the one \<open>EncodeLen\<close>
  predicts, and \<open>ShouldEncode\<close> says whether that is shorter.\<close>

theorem encode_bits:
  "\<exists>out k. EncodeString inp [] 0 = Inr out \<and> k < 8 \<and>
     byte_bits out = text_bits inp @ replicate k True \<and> length out = EncodeLen inp \<and>
     (ShouldEncode inp \<longleftrightarrow> length out < length inp)"
  by (rule EncodeString_ok [of inp]) (auto simp: ShouldEncode_def)

text \<open>C15. The Huffman round trip: for every byte string, decoding what the encoder produced returns
  the string and its length. This covers the construction of the trie, the byte-wise walk of codes
  of up to 30 bits, and the padding at the end.\<close>

theorem huffman_roundtrip:
  "\<exists>out. EncodeString inp [] 0 = Inr out \<and> DecodeString out = Inr (int (length inp), inp)"
proof -
  obtain out k where "EncodeString inp [] 0 = Inr out" "k < 8"
    "byte_bits out = text_bits inp @ replicate k True"
    using EncodeString_ok [of inp] by blast
  then show ?thesis using DecodeString_ok by blast
qed

text \<open>The code of the table is prefix-free: no two different symbols have codes one of which
  starts with the other.\<close>

theorem table_prefix_free:
  assumes "i \<noteq> j"
  shows "sym_bits i @ x \<noteq> sym_bits j @ y"
  using codes_apart [OF assms] by (simp add: apart_def)

theorem table_prefix_free_witness: "sym_bits 0x30 @ [] \<noteq> sym_bits 0x31 @ []"
  by (rule table_prefix_free) simp

text \<open>The code of the end-of-string symbol is apart from all others and never enters the trie.\<close>

lemma codes_below_eos:
  "list_all2 (\<lambda>c l. (c + 1) * 2 ^ (30 - l) \<le> 0x3fffffff) huffman_codes huffman_code_len"
  unfolding huffman_codes_def huffman_code_len_def by simp

lemma eos_apart:
  assumes "i < 256"
  shows "apart (bits 30 (0x3fffffff :: nat)) (bits (huffman_code_len ! i) (huffman_codes ! i))"
  unfolding apart_def
proof (intro allI notI)
  fix x y assume "bits 30 (0x3fffffff :: nat) @ x = bits (huffman_code_len ! i) (huffman_codes ! i) @ y"
  moreover have "huffman_code_len ! i \<le> 30" "huffman_codes ! i < 2 ^ (huffman_code_len ! i)"
    "(huffman_codes ! i + 1) * 2 ^ (30 - huffman_code_len ! i) \<le> 0x3fffffff"
    using list_all2_nthD [OF table_rows] list_all2_nthD [OF codes_below_eos] assms
    by (simp_all add: table_lengths)
  ultimately show False
    using prefix_interval [of "huffman_code_len ! i" "huffman_codes ! i" y 30 "0x3fffffff" x] by simp
qed

lemma eos_vacant: "vacant hf_init 0x3fffffff 30"
proof -
  have "k \<le> 256 \<Longrightarrow> vacant (fold (\<lambda>i cur. hf_add_node cur (of_nat i) (huffman_codes ! i)
      (huffman_code_len ! i)) [0..<k] node_create) 0x3fffffff 30" for k
    by (induction k) (simp_all add: vacant_create vacant_add eos_apart)
  then show ?thesis by (simp add: hf_init_def)
qed

lemma eos_walk:
  obtains n1 n2 n3 where "children hf_init 255 = Some n1" "node_size n1 \<noteq> 0"
    "children n1 255 = Some n2" "node_size n2 \<noteq> 0" "children n2 255 = Some n3" "node_size n3 \<noteq> 0"
    "children n3 252 = None"
proof -
  obtain n1 n2 n3 where n: "children hf_init 255 = Some n1" "children n1 255 = Some n2"
    "children n2 255 = Some n3" "node_size n3 \<noteq> 0" "node_size n1 \<noteq> 0" "node_size n2 \<noteq> 0"
    using inner_paths_sized [of "[255, 255, 255]"] inner_paths_sized [of "[255, 255]"]
      inner_paths_sized [of "[255]"] by auto
  have "covers 6 0x3fffffff 252"
    by (simp add: covers_def bits_eval bit_0)
  then have "children n3 252 = None"
    using eos_vacant n by (simp add: vacant.simps chunk_def drop_bit_eq_div)
  with n that show ?thesis by blast
qed

text \<open>A malformed string crashes the decoder: the check for an invalid code is missing in the last
  loop, so five bytes that end inside the end-of-string code make it follow a null child.\<close>

theorem decode_null_deref: "DecodeString [0x00, 0x3f, 0xff, 0xff, 0xff] = Inl Null_deref"
proof -
  obtain n1 n2 n3 where n: "children hf_init 255 = Some n1" "node_size n1 \<noteq> 0"
    "children n1 255 = Some n2" "node_size n2 \<noteq> 0" "children n2 255 = Some n3" "node_size n3 \<noteq> 0"
    "children n3 252 = None"
    by (rule eos_walk)
  have row: "huffman_codes ! 48 = 0" "huffman_code_len ! 48 = 5"
    by (simp_all add: huffman_codes_def huffman_code_len_def)
  have f: "finds 48 0 hf_init 5" using finds_init [of 48] by (simp add: row)
  have c: "covers 5 0 0" "covers 5 0 7"
    by (simp_all add: covers_range push_bit_eq_mult)
  have le: "5 \<le> (8 :: nat)" by simp
  from finds_covers [OF f le c(1)] obtain m where
    m: "children hf_init 0 = Some m" "node_size m = 0" "code_len m = 5" by blast
  from finds_covers [OF f le c(2)] obtain m' where
    m': "children hf_init 7 = Some m'" "node_size m' = 0" "code_len m' = 5" by blast
  show ?thesis
    by (simp add: DecodeString_def hf_string_decode_def CHAT_MAX_HUFFMAN_BUFF_LEN_def hf_inner.simps
        hf_tail.simps n m m')
qed

end
