(* ===== verification/HPack.thy ===== *)
theory HPack
  imports ByteCodec DynamicTable Huffman
begin

text \<open>
  \<^verbatim>\<open>src/chat/http2/hpack.cc\<close>: header compression. The theory puts the byte buffer, the header table
  and the Huffman code together: prefixed integers, strings, the seven header field
  representations, \<open>HPack::pack\<close> and \<open>HPack::parse\<close>. Its main theorem is that a parser whose table
  agrees with the packer's gets back the packed headers, and that the tables still agree afterwards,
  for strings short enough for the integer code; that bound is the subject of a second theorem.
\<close>

section \<open>Prefixed integers\<close>

text \<open>\<open>counted m\<close> is \<open>pos = getPosition(); m; return getPosition() - pos;\<close>.\<close>

definition counted :: "'a ba \<Rightarrow> int ba" where
  "counted m ba =
     (case m ba of
        Inl e \<Rightarrow> Inl e
      | Inr (_, ba') \<Rightarrow> Inr (int (getPosition ba') - int (getPosition ba), ba'))"

function write_more :: "64 word \<Rightarrow> unit ba" where
  "write_more value ba =
     (if value \<ge> 128 then
        (case writeFuint8 (ucast (0x8 OR (value AND 0x7f))) ba of
           Inl e \<Rightarrow> Inl e
         | Inr (_, ba') \<Rightarrow> write_more (drop_bit 7 value) ba')
      else writeFuint8 (ucast value) ba)"
  by pat_completeness auto
termination
  by (relation "measure (\<lambda>(value, ba). unat value)")
    (simp_all only: wf_measure in_measure unat_drop7 prod.case,
      simp add: word_le_nat_alt)

definition WriteVarInt :: "nat \<Rightarrow> 64 word \<Rightarrow> byte \<Rightarrow> int ba" where
  "WriteVarInt prefix value flags =
     (let v = push_bit prefix 1 - 1
      in if value < v then bind_action (writeFuint8 (ucast (value OR ucast flags))) (\<lambda>_. return_action 1)
         else counted (bind_action (writeFuint8 (ucast (v OR ucast flags)))
                (\<lambda>_. write_more (value - v))))"

function read_more :: "64 word \<Rightarrow> nat \<Rightarrow> 64 word ba" where
  "read_more iv m ba =
     (case readFuint8 ba of
        Inl e \<Rightarrow> Inl e
      | Inr (b, ba') \<Rightarrow>
          if m \<ge> 64 then Inl Bad_shift
          else let iv' = iv + push_bit m (ucast (b AND 0x7F))
               in if b AND 0x80 \<noteq> 0 then read_more iv' (m + 7) ba' else Inr (iv', ba'))"
  by pat_completeness auto
termination
  by (relation "measure (\<lambda>(iv, m, ba). 64 - m)") auto

definition ReadVarInt_from :: "byte \<Rightarrow> nat \<Rightarrow> 64 word ba" where
  "ReadVarInt_from b prefix =
     (let v = push_bit prefix 1 - 1; b' = b AND v
      in if b' < v then return_action (ucast b') else read_more (ucast b') 0)"

definition ReadVarInt :: "nat \<Rightarrow> 64 word ba" where
  "ReadVarInt prefix = bind_action readFuint8 (\<lambda>b. ReadVarInt_from b prefix)"

section \<open>Strings\<close>

text \<open>\<open>int len = ReadVarInt(...)\<close> truncates to 32 bits; a negative length makes \<open>resize\<close> throw.\<close>

definition ReadString :: "bytes ba" where
  "ReadString =
     bind_action readFuint8 (\<lambda>type.
       bind_action (ReadVarInt_from type 7) (\<lambda>n.
         let len = ucast n :: 32 word
         in if len = 0 then return_action []
            else if sint len < 0 then throw_action Length_error
            else bind_action (ByteArray_read (unat len)) (\<lambda>dat.
              if type AND 0x80 \<noteq> 0 then
                (case DecodeString dat of
                   Inl e \<Rightarrow> throw_action e
                 | Inr (_, out) \<Rightarrow> return_action out)
              else return_action dat)))"

definition WriteString :: "bytes \<Rightarrow> bool \<Rightarrow> int ba" where
  "WriteString s h =
     counted (if h then
         (case EncodeString s [] 0 of
            Inl e \<Rightarrow> throw_action e
          | Inr new_str \<Rightarrow>
              bind_action (WriteVarInt 7 (of_nat (length new_str)) 0x80)
                (\<lambda>_. ByteArray_write new_str))
       else bind_action (WriteVarInt 7 (of_nat (length s)) 0) (\<lambda>_. ByteArray_write s))"

section \<open>Header fields\<close>

datatype IndexType =
    INDEXED
  | WITH_INDEXING_INDEXED_NAME
  | WITH_INDEXING_NEW_NAME
  | WITHOUT_INDEXING_INDEXED_NAME
  | WITHOUT_INDEXING_NEW_NAME
  | NERVER_INDEXED_INDEXED_NAME
  | NERVER_INDEXED_NEW_NAME
  | ERROR

definition s_index_type_strings :: "string list" where
  "s_index_type_strings =
     [''INDEXED'', ''WITH_INDEXING_INDEXED_NAME'', ''WITH_INDEXING_NEW_NAME'',
      ''WITHOUT_INDEXING_INDEXED_NAME'', ''WITHOUT_INDEXING_NEW_NAME'',
      ''NERVER_INDEXED_INDEXED_NAME'', ''NERVER_INDEXED_NEW_NAME'', ''ERROR'']"

text \<open>
  \<open>IndexTypeToString\<close> on the number of an enumerator. The test lets 8 through, which is one past the
  end of the table.
\<close>

definition IndexTypeToString :: "nat \<Rightarrow> error + string" where
  "IndexTypeToString v =
     (if v \<le> 8 then
        if v < length s_index_type_strings then Inr (s_index_type_strings ! v) else Inl Bad_index
      else Inr (''UNKNOW('' @ dec v @ '')''))"

record HeaderField =
  hf_type :: IndexType
  h_name :: bool
  h_value :: bool
  hf_index :: "32 word"
  hf_name :: bytes
  hf_value :: bytes

definition HeaderField_new :: HeaderField where
  "HeaderField_new = \<lparr>hf_type = ERROR, h_name = False, h_value = False, hf_index = 0,
                      hf_name = [], hf_value = []\<rparr>"

record HPack =
  m_headers :: "HeaderField list"
  m_table :: DynamicTable

text \<open>
  The part of the loop of \<open>HPack::parse\<close> that reads one field; \<open>None\<close> is the \<open>return -1\<close>.
  \<open>read_literal\<close> is the common shape of its three literal branches.
\<close>

definition read_literal :: "byte \<Rightarrow> nat \<Rightarrow> IndexType \<Rightarrow> IndexType \<Rightarrow> HeaderField ba" where
  "read_literal type prefix indexed_name new_name =
     bind_action (ReadVarInt_from type prefix) (\<lambda>n.
       let idx = ucast n :: 32 word;
           header = HeaderField_new\<lparr>hf_type := (if idx > 0 then indexed_name else new_name),
                                    hf_index := idx\<rparr>
       in if idx > 0 then
            bind_action ReadString (\<lambda>v. return_action (header\<lparr>hf_value := v\<rparr>))
          else bind_action ReadString (\<lambda>n.
            bind_action ReadString (\<lambda>v. return_action (header\<lparr>hf_name := n, hf_value := v\<rparr>))))"

definition read_field :: "HeaderField option ba" where
  "read_field =
     bind_action readFuint8 (\<lambda>type.
       if type AND 0x80 \<noteq> 0 then
         bind_action (ReadVarInt_from type 7) (\<lambda>n.
           return_action (Some (HeaderField_new\<lparr>hf_type := INDEXED, hf_index := ucast n\<rparr>)))
       else if type AND 0x40 \<noteq> 0 then
         bind_action (read_literal type 6 WITH_INDEXING_INDEXED_NAME WITH_INDEXING_NEW_NAME)
           (\<lambda>h. return_action (Some h))
       else if type AND 0xF0 = 0 then
         bind_action (read_literal type 4 WITHOUT_INDEXING_INDEXED_NAME WITHOUT_INDEXING_NEW_NAME)
           (\<lambda>h. return_action (Some h))
       else if type AND 0x10 \<noteq> 0 then
         bind_action (read_literal type 4 NERVER_INDEXED_INDEXED_NAME NERVER_INDEXED_NEW_NAME)
           (\<lambda>h. return_action (Some h))
       else return_action None)"

text \<open>The rest of the loop body: the names from the table, and the update of the table.\<close>

definition apply_field :: "HeaderField \<Rightarrow> HPack \<Rightarrow> error + HPack" where
  "apply_field h hp =
     (let t = m_table hp; idx = unat (hf_index h) in
      case (if hf_type h = INDEXED
            then map_sum id (\<lambda>p. h\<lparr>hf_name := fst p, hf_value := snd p\<rparr>) (getPair idx t)
            else if hf_index h > 0 then map_sum id (\<lambda>p. h\<lparr>hf_name := fst p\<rparr>) (getPair idx t)
            else Inr h) of
        Inl e \<Rightarrow> Inl e
      | Inr h' \<Rightarrow>
          (case (if hf_type h' = WITH_INDEXING_INDEXED_NAME
                 then map_sum id (\<lambda>n. DynamicTable_update n (hf_value h') t) (getName idx t)
                 else if hf_type h' = WITH_INDEXING_NEW_NAME
                 then Inr (DynamicTable_update (hf_name h') (hf_value h') t)
                 else Inr t) of
             Inl e \<Rightarrow> Inl e
           | Inr t' \<Rightarrow> Inr (hp\<lparr>m_headers := m_headers hp @ [h'], m_table := t'\<rparr>)))"

subsection \<open>Every reader moves the cursor forward\<close>

text \<open>This is what makes the loop of \<open>HPack::parse\<close> end, on any buffer.\<close>

definition forward :: "'a ba \<Rightarrow> bool" where
  "forward m \<longleftrightarrow> (\<forall>ba x ba'. m ba = Inr (x, ba') \<longrightarrow> getPosition ba \<le> getPosition ba')"

lemma forward_return: "forward (return_action x)" and forward_throw: "forward (throw_action e)"
  by (simp_all add: forward_def)

lemma forward_bind: "forward m \<Longrightarrow> (\<And>x. forward (f x)) \<Longrightarrow> forward (bind_action m f)"
  unfolding forward_def bind_action_eq_Inr by (meson order_trans)

lemma read_loop_position:
  "read_loop sz npos ncap ba = Inr (bs, ba') \<Longrightarrow> m_position ba' = m_position ba + sz"
proof (induction sz npos ncap ba arbitrary: bs rule: read_loop.induct)
  case (1 sz npos ncap ba)
  show ?case
  proof (cases "sz = 0 \<or> m_cur ba = None")
    case True
    then show ?thesis using "1.prems" by (auto simp: read_loop.simps [of sz] split: if_splits)
  next
    case False
    then obtain c where c: "0 < sz" "m_cur ba = Some c" by auto
    show ?thesis
      using "1.prems" "1.IH" [OF _ c(2) _ refl] c
      by (auto simp: read_loop.simps [of sz npos] Let_def split: if_splits option.splits sum.splits)
  qed
qed

lemma read_position: "ByteArray_read n ba = Inr (bs, ba') \<Longrightarrow> getPosition ba' = getPosition ba + n"
  using read_loop_position
  by (fastforce simp: ByteArray_read_def getPosition_def Let_def split: if_splits option.splits)

lemma readFuint8_position: "readFuint8 ba = Inr (b, ba') \<Longrightarrow> getPosition ba' = getPosition ba + 1"
  by (auto simp: readFuint8_def bind_action_eq_Inr dest!: read_position)

lemma forward_read: "forward (ByteArray_read n)" and forward_readFuint8: "forward readFuint8"
  by (auto simp: forward_def dest: read_position readFuint8_position)

lemma forward_read_more: "forward (read_more iv m)"
proof -
  have "read_more iv m ba = Inr (x, ba') \<Longrightarrow> getPosition ba \<le> getPosition ba'" for ba x ba'
  proof (induction iv m ba rule: read_more.induct)
    case (1 iv m ba)
    then obtain b ba1 where b: "readFuint8 ba = Inr (b, ba1)"
      by (auto simp: read_more.simps [of iv] split: sum.splits)
    show ?case
      using "1.prems" "1.IH" [OF b refl _ refl] b readFuint8_position [OF b]
      by (auto simp: read_more.simps [of iv m] Let_def split: if_splits)
  qed
  then show ?thesis by (auto simp: forward_def)
qed

lemmas forward_rules = forward_return forward_throw forward_bind forward_read forward_readFuint8
  forward_read_more

lemma forward_ReadVarInt_from: "forward (ReadVarInt_from b prefix)"
  by (simp add: ReadVarInt_from_def Let_def forward_rules)

lemma forward_ReadString: "forward ReadString"
  unfolding ReadString_def Let_def
  by (auto intro!: forward_rules forward_ReadVarInt_from split: sum.splits)

lemma forward_read_literal: "forward (read_literal type prefix a b)"
  unfolding read_literal_def Let_def
  by (auto intro!: forward_rules forward_ReadVarInt_from forward_ReadString)

lemma bind_readFuint8_position:
  assumes "bind_action readFuint8 f ba = Inr (x, ba')" and "\<And>b. forward (f b)"
  shows "getPosition ba < getPosition ba'"
proof -
  obtain b ba1 where "readFuint8 ba = Inr (b, ba1)" "f b ba1 = Inr (x, ba')"
    using assms(1) by (auto simp: bind_action_eq_Inr)
  then show ?thesis using readFuint8_position assms(2) by (fastforce simp: forward_def)
qed

lemma read_field_position: "read_field ba = Inr (h, ba') \<Longrightarrow> getPosition ba < getPosition ba'"
  unfolding read_field_def
  by (erule bind_readFuint8_position)
    (auto intro!: forward_rules forward_ReadVarInt_from forward_read_literal)

section \<open>Parsing and packing\<close>

text \<open>\<open>pos\<close> is the position where \<open>parse\<close> started, \<open>parsed\<close> the bytes consumed since.\<close>

function parse_loop :: "int \<Rightarrow> int \<Rightarrow> HPack \<Rightarrow> (int \<times> HPack) ba" where
  "parse_loop pos len hp ba =
     (let parsed = int (getPosition ba) - pos in
      if \<not> parsed < len then Inr ((parsed, hp), ba)
      else case read_field ba of
        Inl e \<Rightarrow> Inl e
      | Inr (None, ba') \<Rightarrow> Inr ((-1, hp), ba')
      | Inr (Some h, ba') \<Rightarrow>
          (case apply_field h hp of
             Inl e \<Rightarrow> Inl e
           | Inr hp' \<Rightarrow> parse_loop pos len hp' ba'))"
  by pat_completeness auto
termination
  by (relation "measure (\<lambda>(pos, len, hp, ba). nat (len - (int (getPosition ba) - pos)))")
    (auto dest: read_field_position)

definition HPack_parse :: "int \<Rightarrow> HPack \<Rightarrow> (int \<times> HPack) ba" where
  "HPack_parse len hp ba = parse_loop (int (getPosition ba)) len hp ba"

definition HPack_parse_string :: "bytes \<Rightarrow> HPack \<Rightarrow> error + int \<times> HPack" where
  "HPack_parse_string dat hp =
     map_sum id fst (HPack_parse (int (length dat)) hp (ByteArray_of dat False))"

definition HPack_Pack :: "HeaderField \<Rightarrow> int ba" where
  "HPack_Pack h = counted (case hf_type h of
       INDEXED \<Rightarrow> WriteVarInt 7 (ucast (hf_index h)) 0x80
     | WITH_INDEXING_INDEXED_NAME \<Rightarrow>
         bind_action (WriteVarInt 6 (ucast (hf_index h)) 0x40)
           (\<lambda>_. WriteString (hf_value h) (h_value h))
     | WITH_INDEXING_NEW_NAME \<Rightarrow>
         bind_action (WriteVarInt 6 (ucast (hf_index h)) 0x40)
           (\<lambda>_. bind_action (WriteString (hf_name h) (h_name h))
             (\<lambda>_. WriteString (hf_value h) (h_value h)))
     | WITHOUT_INDEXING_INDEXED_NAME \<Rightarrow>
         bind_action (WriteVarInt 4 (ucast (hf_index h)) 0x00)
           (\<lambda>_. WriteString (hf_value h) (h_value h))
     | WITHOUT_INDEXING_NEW_NAME \<Rightarrow>
         bind_action (WriteVarInt 4 (ucast (hf_index h)) 0x00)
           (\<lambda>_. bind_action (WriteString (hf_name h) (h_name h))
             (\<lambda>_. WriteString (hf_value h) (h_value h)))
     | NERVER_INDEXED_INDEXED_NAME \<Rightarrow>
         bind_action (WriteVarInt 4 (ucast (hf_index h)) 0x10)
           (\<lambda>_. WriteString (hf_value h) (h_value h))
     | NERVER_INDEXED_NEW_NAME \<Rightarrow>
         bind_action (WriteVarInt 4 (ucast (hf_index h)) 0x10)
           (\<lambda>_. bind_action (WriteString (hf_name h) (h_name h))
             (\<lambda>_. WriteString (hf_value h) (h_value h)))
     | ERROR \<Rightarrow> return_action 0)"

definition HPack_pack_field :: "HeaderField \<Rightarrow> HPack \<Rightarrow> (int \<times> HPack) ba" where
  "HPack_pack_field h hp =
     bind_action (HPack_Pack h) (\<lambda>n. return_action (n, hp\<lparr>m_headers := m_headers hp @ [h]\<rparr>))"

text \<open>The choice of the representation in the loop of \<open>HPack::pack\<close>, with the table it leaves.\<close>

definition choose_field :: "header \<Rightarrow> DynamicTable \<Rightarrow> HeaderField \<times> DynamicTable" where
  "choose_field i t =
     (let p = findPair (fst i) (snd i) t in
      if snd p then
        (HeaderField_new\<lparr>hf_type := INDEXED, hf_index := of_int (fst p)\<rparr>, t)
      else if fst p > 0 then
        (HeaderField_new\<lparr>hf_type := WITH_INDEXING_INDEXED_NAME, hf_index := of_int (fst p),
                         h_value := ShouldEncode (snd i), hf_name := fst i, hf_value := snd i\<rparr>,
         DynamicTable_update (fst i) (snd i) t)
      else
        (HeaderField_new\<lparr>hf_type := WITH_INDEXING_NEW_NAME, hf_index := 0,
                         h_name := ShouldEncode (fst i), hf_name := fst i,
                         h_value := ShouldEncode (snd i), hf_value := snd i\<rparr>,
         DynamicTable_update (fst i) (snd i) t))"

fun HPack_pack :: "header list \<Rightarrow> HPack \<Rightarrow> (int \<times> HPack) ba" where
  "HPack_pack [] hp = return_action (0, hp)"
| "HPack_pack (i # headers) hp =
     (let (h, t) = choose_field i (m_table hp)
      in bind_action (HPack_pack_field h (hp\<lparr>m_table := t\<rparr>)) (\<lambda>(n, hp1).
           bind_action (HPack_pack headers hp1) (\<lambda>(rt, hp2). return_action (n + rt, hp2))))"

text \<open>The default block size of \<open>ByteArray\<close> is 4096.\<close>

definition HPack_pack_string :: "header list \<Rightarrow> HPack \<Rightarrow> error + int \<times> bytes \<times> HPack" where
  "HPack_pack_string headers hp =
     (case HPack_pack headers hp (ByteArray_new 4096) of
        Inl e \<Rightarrow> Inl e
      | Inr ((rt, hp'), ba) \<Rightarrow>
          (case setPosition 0 ba of
             Inl e \<Rightarrow> Inl e
           | Inr (_, ba') \<Rightarrow>
               (case ByteArray_toString ba' of
                  Inl e \<Rightarrow> Inl e
                | Inr out \<Rightarrow> Inr (rt, out, hp'))))"

section \<open>What the integer code writes and reads\<close>

declare write_more.simps [simp del] read_more.simps [simp del] parse_loop.simps [simp del]

lemma emits_counted: "emits e m bs x \<Longrightarrow> emits e (counted m) bs (int (length bs))"
  unfolding emits_def
proof (intro allI impI)
  fix ba
  assume *: "\<forall>ba. ba_wf ba \<longrightarrow> m_endian ba = e \<longrightarrow>
      (\<exists>ba'. m ba = Inr (x, ba') \<and> ba_wf ba' \<and> m_endian ba' = e \<and> ba_abs ba' = spec_write bs (ba_abs ba))"
    and "ba_wf ba" "m_endian ba = e"
  then obtain ba' where "m ba = Inr (x, ba')" "ba_wf ba'" "m_endian ba' = e"
    "ba_abs ba' = spec_write bs (ba_abs ba)" by blast
  moreover from this have "getPosition ba' = getPosition ba + length bs"
    by (simp add: ba_abs_def spec_write_def getPosition_def)
  ultimately show "\<exists>ba'. counted m ba = Inr (int (length bs), ba') \<and> ba_wf ba' \<and> m_endian ba' = e \<and>
      ba_abs ba' = spec_write bs (ba_abs ba)"
    by (simp add: counted_def)
qed

lemma write_more_last: "val < 128 \<Longrightarrow> write_more val = writeFuint8 (ucast val)"
  by (rule ext) (auto simp: write_more.simps [of val] dest: leD)

lemma write_more_step:
  "val \<ge> 128 \<Longrightarrow> write_more val =
     bind_action (writeFuint8 (ucast (0x8 OR (val AND 0x7f)))) (\<lambda>_. write_more (drop_bit 7 val))"
  by (rule ext) (simp add: write_more.simps [of val] bind_action_def)

lemma prefix_mask: "(push_bit prefix 1 - 1 :: 'a::len word) = mask prefix"
  by (simp add: mask_eq_exp_minus_1 push_bit_eq_mult)

text \<open>The bytes written for a value that fits one continuation byte.\<close>

definition varint_ok :: "nat \<Rightarrow> 64 word \<Rightarrow> byte \<Rightarrow> bool" where
  "varint_ok prefix val flags \<longleftrightarrow>
     prefix \<le> 8 \<and> unat val < 2 ^ prefix - 1 + 128 \<and> flags AND mask prefix = 0"

definition varint_image :: "nat \<Rightarrow> 64 word \<Rightarrow> byte \<Rightarrow> bytes" where
  "varint_image prefix val flags =
     (if val < mask prefix then [ucast (val OR ucast flags)]
      else [ucast (mask prefix OR ucast flags :: 64 word), ucast (val - mask prefix)])"

lemma unat_mask8:
  assumes "prefix \<le> 8" and "8 \<le> LENGTH('a::len)"
  shows "unat (mask prefix :: 'a word) = 2 ^ prefix - 1"
proof -
  have le: "(2::nat) ^ prefix \<le> 2 ^ LENGTH('a)" using assms by (intro power_increasing) simp_all
  moreover have "0 < (2::nat) ^ prefix" by simp
  ultimately have "(2::nat) ^ prefix - 1 < 2 ^ LENGTH('a)" by linarith
  then have "unat (of_nat (2 ^ prefix - 1) :: 'a word) = 2 ^ prefix - 1"
    by (simp only: unat_of_nat mod_less)
  moreover have "(of_nat (2 ^ prefix - 1) :: 'a word) = mask prefix"
    by (simp add: mask_eq_exp_minus_1 of_nat_diff)
  ultimately show ?thesis by simp
qed

lemma emits_WriteVarInt:
  assumes "varint_ok prefix val flags"
  shows "emits e (WriteVarInt prefix val flags) (varint_image prefix val flags)
           (int (length (varint_image prefix val flags)))"
proof (cases "val < mask prefix")
  case True
  then have "emits e (WriteVarInt prefix val flags) ([ucast (val OR ucast flags)] @ []) 1"
    unfolding WriteVarInt_def prefix_mask Let_def
    using emits_bind [OF emits_writeFuint8 emits_return, of e "ucast (val OR ucast flags)" "\<lambda>_. 1"]
    by (simp del: return_action_apply)
  with True show ?thesis by (simp add: varint_image_def)
next
  case False
  have "unat (val - mask prefix) = unat val - (2 ^ prefix - 1)"
    using False assms by (simp add: unat_sub unat_mask8 varint_ok_def not_less)
  moreover have "unat val - (2 ^ prefix - 1) < 128" using assms unfolding varint_ok_def by linarith
  ultimately have "val - mask prefix < 128" by (simp add: word_less_nat_alt)
  then have "emits e (write_more (val - mask prefix)) [ucast (val - mask prefix)] ()"
    by (simp add: write_more_last emits_writeFuint8)
  from emits_counted [OF emits_bind [OF emits_writeFuint8 this]] False show ?thesis
    unfolding WriteVarInt_def prefix_mask Let_def by (simp add: varint_image_def)
qed

lemma take_bit_flags:
  fixes val :: "64 word" and flags :: byte
  assumes "flags AND mask prefix = 0"
  shows "(ucast (val OR ucast flags) :: byte) AND mask prefix = (ucast val :: byte) AND mask prefix"
proof (rule bit_word_eqI)
  fix n assume n: "n < LENGTH(8)"
  have "\<not> (n < prefix \<and> bit flags n)"
    using arg_cong [OF assms, of "\<lambda>w. bit w n"] n by (auto simp: bit_and_iff bit_mask_iff)
  with n show "bit ((ucast (val OR ucast flags) :: byte) AND mask prefix) n =
      bit ((ucast val :: byte) AND mask prefix) n"
    by (auto simp: bit_and_iff bit_or_iff bit_mask_iff bit_ucast_iff)
qed

lemma high_flags:
  fixes val :: "64 word" and flags m :: byte
  assumes "unat val < 2 ^ prefix" and "m AND mask prefix = 0"
  shows "(ucast (val OR ucast flags) :: byte) AND m = flags AND m"
proof (rule bit_word_eqI)
  fix n assume n: "n < LENGTH(8)"
  have "\<not> (n < prefix \<and> bit m n)"
    using arg_cong [OF assms(2), of "\<lambda>w. bit w n"] n by (auto simp: bit_and_iff bit_mask_iff)
  moreover have "\<not> bit val n" if "prefix \<le> n"
  proof -
    have "take_bit prefix (unat val) = unat val" using assms(1) by (simp add: take_bit_nat_eq_self)
    then have "bit (unat val) n = bit (take_bit prefix (unat val)) n" by simp
    with that show ?thesis by (simp add: bit_take_bit_iff bit_unsigned_iff)
  qed
  ultimately show "bit ((ucast (val OR ucast flags) :: byte) AND m) n = bit (flags AND m) n"
    using n by (auto simp: bit_and_iff bit_or_iff bit_ucast_iff)
qed

lemma accepts_read_more_last:
  assumes "c < 128" and "m < 64"
  shows "accepts k e (read_more iv m) [c] (iv + push_bit m (ucast c))"
proof -
  have c: "c AND 0x7F = c" "c AND 0x80 = 0"
  proof -
    have "unat (take_bit 7 c) = unat c"
      using assms(1) by (simp add: unsigned_take_bit_eq take_bit_nat_eq_self word_less_nat_alt)
    then have "take_bit 7 c = c" by (simp only: word_unat_eq_iff)
    then show "c AND 0x7F = c" by (simp add: and_7F)
    have "\<not> bit (take_bit 7 c) 7" by (simp add: bit_take_bit_iff)
    with \<open>take_bit 7 c = c\<close> show "c AND 0x80 = 0" using and_exp_eq_0_iff_not_bit [of c 7] by simp
  qed
  have "read_more iv m = bind_action readFuint8 (\<lambda>b.
      if m \<ge> 64 then throw_action Bad_shift
      else if b AND 0x80 \<noteq> 0 then read_more (iv + push_bit m (ucast (b AND 0x7F))) (m + 7)
      else return_action (iv + push_bit m (ucast (b AND 0x7F))))"
    by (rule ext) (simp add: read_more.simps [of iv m] bind_action_def Let_def split: sum.splits)
  moreover have "accepts k e \<dots> ([c] @ []) (iv + push_bit m (ucast c))"
    using assms(2) c by (intro accepts_bind [OF accepts_readFuint8]) (simp add: accepts_return)
  ultimately show ?thesis by simp
qed

lemma byte_mask_less:
  fixes val :: "64 word"
  assumes "prefix \<le> 8" and "val < mask prefix"
  shows "(ucast val :: byte) AND mask prefix = ucast val" "(ucast val :: byte) < mask prefix"
    "ucast (ucast val :: byte) = val"
proof -
  have v: "unat val < 2 ^ prefix - 1" using assms by (simp add: word_less_nat_alt unat_mask8)
  have p: "(2::nat) ^ prefix \<le> 2 ^ 8" using assms(1) by (intro power_increasing) simp_all
  then have lt: "unat val < 256" "unat val < 2 ^ prefix" using v by simp_all
  have u: "unat (ucast val :: byte) = unat val"
    using lt by (simp add: unsigned_ucast_eq take_bit_nat_eq_self)
  have "unat (take_bit prefix (ucast val :: byte)) = unat (ucast val :: byte)"
    using lt by (simp only: unsigned_take_bit_eq u take_bit_nat_eq_self)
  then show "(ucast val :: byte) AND mask prefix = ucast val"
    by (simp only: word_unat_eq_iff take_bit_eq_mask)
  have "unat (ucast (ucast val :: byte) :: 64 word) = unat val"
    using lt by (subst unsigned_ucast_eq) (simp only: u, simp add: take_bit_nat_eq_self)
  then show "ucast (ucast val :: byte) = val" by (simp only: word_unat_eq_iff)
  have "unat (mask prefix :: byte) = 2 ^ prefix - 1"
    using assms(1) by (simp add: unat_mask8)
  with v u show "(ucast val :: byte) < mask prefix" by (simp only: word_less_nat_alt)
qed

text \<open>A value written with flags above its prefix: what the reader makes of the first byte.\<close>

lemma varint_split:
  assumes "varint_ok prefix val flags"
  obtains b bs where "varint_image prefix val flags = b # bs"
    "\<And>k e. accepts k e (ReadVarInt_from b prefix) bs val"
    "\<And>m. m AND mask prefix = 0 \<Longrightarrow> b AND m = flags AND m"
proof -
  have p: "prefix \<le> 8" and f: "flags AND mask prefix = 0"
    and v: "unat val < 2 ^ prefix - 1 + 128" using assms by (auto simp: varint_ok_def)
  have m64: "unat (mask prefix :: 64 word) = 2 ^ prefix - 1" using p by (simp add: unat_mask8)
  show ?thesis
  proof (cases "val < mask prefix")
    case True
    let ?b = "ucast (val OR ucast flags) :: byte"
    have b: "?b AND mask prefix = ucast val"
      using take_bit_flags [OF f, of val] byte_mask_less(1) [OF p True] by simp
    have "accepts k e (ReadVarInt_from ?b prefix) [] val" for k e
      unfolding ReadVarInt_from_def prefix_mask Let_def b
      using byte_mask_less(2,3) [OF p True] accepts_return [of k e val]
      by (simp del: return_action_apply)
    moreover have "?b AND m = flags AND m" if "m AND mask prefix = 0" for m
      using high_flags [OF _ that] True m64 by (simp add: word_less_nat_alt)
    ultimately show ?thesis using True by (intro that [of ?b "[]"]) (simp_all add: varint_image_def)
  next
    case False
    let ?b = "ucast (mask prefix OR ucast flags :: 64 word) :: byte" and ?r = "val - mask prefix"
    have "unat ?r = unat val - (2 ^ prefix - 1)"
      using False by (simp add: unat_sub m64 not_less)
    then have r: "unat ?r < 128" using v by linarith
    then have rb: "(ucast ?r :: byte) < 128" "ucast (ucast ?r :: byte) = ?r"
    proof -
      have u: "unat (ucast ?r :: byte) = unat ?r"
        using r by (simp add: unsigned_ucast_eq take_bit_nat_eq_self)
      then show "(ucast ?r :: byte) < 128" using r by (simp only: word_less_nat_alt) simp
      have "unat (ucast (ucast ?r :: byte) :: 64 word) = unat ?r"
        using r by (subst unsigned_ucast_eq) (simp only: u, simp add: take_bit_nat_eq_self)
      then show "ucast (ucast ?r :: byte) = ?r" by (simp only: word_unat_eq_iff)
    qed
    have mm: "(ucast (mask prefix :: 64 word) :: byte) AND mask prefix = mask prefix"
      by (rule bit_word_eqI) (auto simp: bit_and_iff bit_mask_iff bit_ucast_iff)
    have b: "?b AND mask prefix = mask prefix"
      using take_bit_flags [OF f, of "mask prefix"] mm by simp
    have um: "ucast (mask prefix :: byte) = (mask prefix :: 64 word)"
      by (rule bit_word_eqI) (use p in \<open>auto simp: bit_mask_iff bit_ucast_iff\<close>)
    have "accepts k e (ReadVarInt_from ?b prefix) [ucast ?r] val" for k e
      unfolding ReadVarInt_from_def prefix_mask Let_def b
      using accepts_read_more_last [OF rb(1), of 0 k e "mask prefix"] rb(2) um by simp
    moreover have "?b AND m = flags AND m" if "m AND mask prefix = 0" for m
      using high_flags [OF _ that, of "mask prefix"] m64 by simp
    ultimately show ?thesis
      using False by (intro that [of ?b "[ucast ?r]"]) (simp_all add: varint_image_def)
  qed
qed

section \<open>Strings and fields\<close>

definition string_body :: "bytes \<Rightarrow> bool \<Rightarrow> bytes" where
  "string_body s h = (if h then case EncodeString s [] 0 of Inl _ \<Rightarrow> [] | Inr new_str \<Rightarrow> new_str else s)"

definition string_image :: "bytes \<Rightarrow> bool \<Rightarrow> bytes" where
  "string_image s h =
     varint_image 7 (of_nat (length (string_body s h))) (if h then 0x80 else 0) @ string_body s h"

text \<open>A string is short when what goes on the wire has fewer than 255 bytes.\<close>

definition short_string :: "bytes \<Rightarrow> bool \<Rightarrow> bool" where
  "short_string s h \<longleftrightarrow> length (string_body s h) < 255"

lemma string_varint_ok: "short_string s h \<Longrightarrow>
    varint_ok 7 (of_nat (length (string_body s h))) (if h then 0x80 else 0)"
  by (auto simp: varint_ok_def short_string_def unat_of_nat take_bit_nat_eq_self mask_eq_exp_minus_1)

lemma emits_WriteString:
  assumes "short_string s h"
  shows "emits e (WriteString s h) (string_image s h) (int (length (string_image s h)))"
proof -
  let ?b = "string_body s h" and ?f = "if h then 0x80 else 0 :: byte"
  have "emits e (bind_action (WriteVarInt 7 (of_nat (length ?b)) ?f) (\<lambda>_. ByteArray_write ?b))
      (varint_image 7 (of_nat (length ?b)) ?f @ ?b) ()"
    using emits_WriteVarInt [OF string_varint_ok [OF assms]] by (rule emits_bind [OF _ emits_write])
  from emits_counted [OF this] show ?thesis
    by (cases h; cases rule: EncodeString_ok [of s]) (auto simp: WriteString_def string_image_def string_body_def)
qed

lemma string_body_ok:
  obtains "h" "DecodeString (string_body s h) = Inr (int (length s), s)"
    "string_body s h = [] \<longleftrightarrow> s = []"
  | "\<not> h" "string_body s h = s"
proof (cases h)
  case True
  obtain out k where o: "EncodeString s [] 0 = Inr out" "k < 8"
    "byte_bits out = text_bits s @ replicate k True" "length out = EncodeLen s"
    by (rule EncodeString_ok)
  have "out = [] \<longleftrightarrow> s = []"
  proof (cases s)
    case Nil
    then show ?thesis using o(4) by (simp add: EncodeLen_def hf_string_encode_len_def)
  next
    case (Cons ch rest)
    have "sym_bits ch \<noteq> []" using table_row(1) [of ch] by (metis length_sym_bits list.size(3) not_numeral_le_zero)
    with Cons o(3) show ?thesis by auto
  qed
  with True o DecodeString_ok [OF o(3,2)] that(1) show ?thesis by (simp add: string_body_def)
next
  case False
  then show ?thesis using that(2) by (simp add: string_body_def)
qed

lemma accepts_ReadString:
  assumes "short_string s h"
  shows "accepts k e ReadString (string_image s h) s"
proof -
  let ?b = "string_body s h" and ?f = "if h then 0x80 else 0 :: byte"
  obtain b bs where v: "varint_image 7 (of_nat (length ?b)) ?f = b # bs"
    "\<And>k e. accepts k e (ReadVarInt_from b 7) bs (of_nat (length ?b))"
    "\<And>m. m AND mask 7 = 0 \<Longrightarrow> b AND m = ?f AND m"
    using varint_split [OF string_varint_ok [OF assms]] by blast
  have flag: "b AND 0x80 \<noteq> 0 \<longleftrightarrow> h" using v(3) [of "0x80"] by (simp add: mask_eq_exp_minus_1)
  let ?len = "ucast (of_nat (length ?b) :: 64 word) :: 32 word"
  have len1: "unat ?len = length ?b"
    using assms by (simp add: short_string_def unsigned_ucast_eq unat_of_nat take_bit_nat_eq_self)
  have "uint ?len = int (length ?b)" using len1 by (metis of_nat_unat)
  then have len: "unat ?len = length ?b" "sint ?len = int (length ?b)"
    using assms len1 by (simp_all add: short_string_def sint_uint signed_take_bit_int_eq_self)
  let ?body = "\<lambda>dat. if b AND 0x80 \<noteq> 0 then
      (case DecodeString dat of Inl e \<Rightarrow> throw_action e | Inr (_, out) \<Rightarrow> return_action out)
      else return_action dat"
  have body: "?body ?b = return_action s"
    using flag by (cases rule: string_body_ok [of h s]) simp_all
  have rest: "accepts k e (if ?len = 0 then return_action []
      else if sint ?len < 0 then throw_action Length_error
      else bind_action (ByteArray_read (unat ?len)) ?body) ?b s"
  proof (cases "?b = []")
    case True
    then have "s = []" by (cases rule: string_body_ok [of h s]) simp_all
    with True show ?thesis using accepts_return [of k e "[]"] by (simp del: return_action_apply)
  next
    case False
    then have "?len \<noteq> 0" using len(1) by (metis length_0_conv unat_0)
    moreover have "accepts k e (bind_action (ByteArray_read (length ?b)) ?body) (?b @ []) s"
    proof (rule accepts_bind [OF accepts_read])
      show "accepts k e (?body ?b) [] s" unfolding body by (rule accepts_return)
    qed (use False in simp_all)
    ultimately show ?thesis using len by simp
  qed
  have "accepts k e ReadString ([b] @ bs @ ?b) s"
    unfolding ReadString_def Let_def
    by (rule accepts_bind [OF accepts_readFuint8], rule accepts_bind [OF v(2)], rule rest)
  then show ?thesis unfolding string_image_def v(1) by simp
qed

text \<open>The bytes of a field and what the parser reads from them, for every representation.\<close>

definition new_name :: "IndexType \<Rightarrow> bool" where
  "new_name ty \<longleftrightarrow>
     ty \<in> {WITH_INDEXING_NEW_NAME, WITHOUT_INDEXING_NEW_NAME, NERVER_INDEXED_NEW_NAME}"

definition field_prefix :: "IndexType \<Rightarrow> nat" where
  "field_prefix ty =
     (if ty = INDEXED then 7
      else if ty = WITH_INDEXING_INDEXED_NAME \<or> ty = WITH_INDEXING_NEW_NAME then 6 else 4)"

definition field_flags :: "IndexType \<Rightarrow> byte" where
  "field_flags ty =
     (if ty = INDEXED then 0x80
      else if ty = WITH_INDEXING_INDEXED_NAME \<or> ty = WITH_INDEXING_NEW_NAME then 0x40
      else if ty = NERVER_INDEXED_INDEXED_NAME \<or> ty = NERVER_INDEXED_NEW_NAME then 0x10 else 0)"

definition field_image :: "HeaderField \<Rightarrow> bytes" where
  "field_image h =
     varint_image (field_prefix (hf_type h)) (ucast (hf_index h)) (field_flags (hf_type h)) @
     (if new_name (hf_type h) then string_image (hf_name h) (h_name h) else []) @
     (if hf_type h = INDEXED then [] else string_image (hf_value h) (h_value h))"

definition wire :: "HeaderField \<Rightarrow> HeaderField" where
  "wire h = HeaderField_new\<lparr>hf_type := hf_type h, hf_index := hf_index h,
      hf_name := (if new_name (hf_type h) then hf_name h else []),
      hf_value := (if hf_type h = INDEXED then [] else hf_value h)\<rparr>"

definition field_ok :: "HeaderField \<Rightarrow> bool" where
  "field_ok h \<longleftrightarrow> hf_type h \<noteq> ERROR \<and>
     unat (hf_index h) < 2 ^ field_prefix (hf_type h) - 1 + 128 \<and>
     (hf_type h \<noteq> INDEXED \<longrightarrow> (hf_index h = 0 \<longleftrightarrow> new_name (hf_type h))) \<and>
     (new_name (hf_type h) \<longrightarrow> short_string (hf_name h) (h_name h)) \<and>
     (hf_type h \<noteq> INDEXED \<longrightarrow> short_string (hf_value h) (h_value h))"

lemma field_varint_ok:
  assumes "field_ok h"
  shows "varint_ok (field_prefix (hf_type h)) (ucast (hf_index h)) (field_flags (hf_type h))"
proof -
  have "unat (ucast (hf_index h) :: 64 word) = unat (hf_index h)"
    by (simp add: unsigned_ucast_eq take_bit_nat_eq_self less_trans [OF unsigned_less])
  moreover have "field_prefix ty \<le> 8" "field_flags ty AND mask (field_prefix ty) = 0" for ty
    by (simp_all add: field_prefix_def field_flags_def mask_eq_exp_minus_1)
  ultimately show ?thesis using assms by (simp add: varint_ok_def field_ok_def)
qed

lemma emits_Pack:
  assumes "field_ok h"
  shows "emits e (HPack_Pack h) (field_image h) (int (length (field_image h)))"
proof -
  note v = emits_WriteVarInt [OF field_varint_ok [OF assms], of e]
  have val: "emits e (WriteString (hf_value h) (h_value h)) (string_image (hf_value h) (h_value h))
      (int (length (string_image (hf_value h) (h_value h))))" if "hf_type h \<noteq> INDEXED"
    using assms that by (intro emits_WriteString) (simp add: field_ok_def)
  have nam: "emits e (WriteString (hf_name h) (h_name h)) (string_image (hf_name h) (h_name h))
      (int (length (string_image (hf_name h) (h_name h))))" if "new_name (hf_type h)"
    using assms that by (intro emits_WriteString) (simp add: field_ok_def)
  note rules = emits_counted [OF emits_bind [OF v emits_bind [OF nam val]]]
    emits_counted [OF emits_bind [OF v val]] emits_counted [OF v]
  show ?thesis
    unfolding HPack_Pack_def field_image_def
    using assms rules
    by (cases "hf_type h") (simp_all add: field_prefix_def field_flags_def new_name_def field_ok_def)
qed

lemma accepts_read_literal:
  assumes "field_ok h" and "hf_type h \<noteq> INDEXED"
    and "\<And>k e. accepts k e (ReadVarInt_from b prefix) bs (ucast (hf_index h))"
    and "hf_type h = (if new_name (hf_type h) then ty2 else ty1)"
  shows "accepts k e (read_literal b prefix ty1 ty2)
           (bs @ (if new_name (hf_type h) then string_image (hf_name h) (h_name h) else []) @
            string_image (hf_value h) (h_value h)) (wire h)"
proof -
  have idx: "(ucast (ucast (hf_index h) :: 64 word) :: 32 word) = hf_index h"
    by (rule bit_word_eqI) (simp add: bit_ucast_iff)
  have val: "accepts k e ReadString (string_image (hf_value h) (h_value h)) (hf_value h)"
    using assms(1,2) by (intro accepts_ReadString) (simp add: field_ok_def)
  have zero: "0 < hf_index h \<longleftrightarrow> \<not> new_name (hf_type h)"
    using assms(1,2) by (auto simp: field_ok_def word_gt_0)
  let ?h = "HeaderField_new\<lparr>hf_type := hf_type h, hf_index := hf_index h\<rparr>"
  have w: "wire h = ?h\<lparr>hf_name := (if new_name (hf_type h) then hf_name h else []), hf_value := hf_value h\<rparr>"
    using assms(2) by (simp add: wire_def)
  have body: "accepts k e (if 0 < hf_index h
      then bind_action ReadString (\<lambda>v. return_action (?h\<lparr>hf_value := v\<rparr>))
      else bind_action ReadString (\<lambda>n.
             bind_action ReadString (\<lambda>v. return_action (?h\<lparr>hf_name := n, hf_value := v\<rparr>))))
      ((if new_name (hf_type h) then string_image (hf_name h) (h_name h) else []) @
       string_image (hf_value h) (h_value h)) (wire h)"
  proof (cases "new_name (hf_type h)")
    case True
    have nam: "accepts k e ReadString (string_image (hf_name h) (h_name h)) (hf_name h)"
      using assms(1) True by (intro accepts_ReadString) (simp add: field_ok_def)
    have "accepts k e (bind_action ReadString (\<lambda>n.
        bind_action ReadString (\<lambda>v. return_action (?h\<lparr>hf_name := n, hf_value := v\<rparr>))))
        (string_image (hf_name h) (h_name h) @ string_image (hf_value h) (h_value h)) (wire h)"
      by (rule accepts_bind [OF nam accepts_bind_return [OF val]]) (simp add: w True)
    with True zero show ?thesis by simp
  next
    case False
    from accepts_bind_return [OF val, of "wire h" "\<lambda>v. ?h\<lparr>hf_value := v\<rparr>"] False zero w show ?thesis
      by (simp add: HeaderField_new_def del: return_action_apply)
  qed
  have ty: "(if 0 < hf_index h then ty1 else ty2) = hf_type h"
    using assms(4) zero by (metis (full_types))
  show ?thesis
    unfolding read_literal_def Let_def
    by (rule accepts_bind [OF assms(3)]) (simp only: idx ty body)
qed

lemma accepts_read_field:
  assumes "field_ok h"
  shows "accepts k e read_field (field_image h) (Some (wire h))"
proof -
  let ?ty = "hf_type h"
  obtain b bs where v: "varint_image (field_prefix ?ty) (ucast (hf_index h)) (field_flags ?ty) = b # bs"
    "\<And>k e. accepts k e (ReadVarInt_from b (field_prefix ?ty)) bs (ucast (hf_index h))"
    "\<And>m. m AND mask (field_prefix ?ty) = 0 \<Longrightarrow> b AND m = field_flags ?ty AND m"
    using varint_split [OF field_varint_ok [OF assms]] by blast
  have idx: "(ucast (ucast (hf_index h) :: 64 word) :: 32 word) = hf_index h"
    by (rule bit_word_eqI) (simp add: bit_ucast_iff)
  have lit: "accepts k e (bind_action (read_literal b (field_prefix ?ty) ty1 ty2) (\<lambda>h. return_action (Some h)))
      (bs @ (if new_name ?ty then string_image (hf_name h) (h_name h) else []) @
       string_image (hf_value h) (h_value h)) (Some (wire h))"
    if "?ty \<noteq> INDEXED" "?ty = (if new_name ?ty then ty2 else ty1)" for ty1 ty2
    by (rule accepts_bind_return [OF accepts_read_literal [OF assms that(1) v(2) that(2)]]) simp
  have ind: "accepts k e (bind_action (ReadVarInt_from b (field_prefix ?ty)) (\<lambda>n.
      return_action (Some (HeaderField_new\<lparr>hf_type := INDEXED, hf_index := ucast n\<rparr>)))) bs (Some (wire h))"
    if "?ty = INDEXED"
    by (rule accepts_bind_return [OF v(2)]) (simp add: wire_def that idx new_name_def HeaderField_new_def)
  have flags: "b AND 0x80 = field_flags ?ty AND 0x80"
    "?ty \<noteq> INDEXED \<Longrightarrow> b AND 0x40 = field_flags ?ty AND 0x40"
    "field_prefix ?ty = 4 \<Longrightarrow> b AND 0xF0 = field_flags ?ty AND 0xF0"
    "field_prefix ?ty = 4 \<Longrightarrow> b AND 0x10 = field_flags ?ty AND 0x10"
    using v(3) [of "0x80"] v(3) [of "0x40"] v(3) [of "0xF0"] v(3) [of "0x10"]
    by (auto simp: field_prefix_def mask_eq_exp_minus_1 split: if_splits)
  have "accepts k e read_field ([b] @ bs @
      (if new_name ?ty then string_image (hf_name h) (h_name h) else []) @
      (if ?ty = INDEXED then [] else string_image (hf_value h) (h_value h))) (Some (wire h))"
    unfolding read_field_def
    by (rule accepts_bind [OF accepts_readFuint8])
      (use lit ind flags assms in
        \<open>cases ?ty; simp add: field_prefix_def field_flags_def new_name_def field_ok_def\<close>)
  then show ?thesis unfolding field_image_def v(1) by simp
qed

section \<open>Packing and parsing with equal tables\<close>

lemma table_size_ge: "32 * int (length hs) \<le> table_size hs"
  by (induction hs) (simp_all add: entry_size_def)

lemma table_length_le:
  assumes "table_ok t" and "table_fits t" and "m_maxDataSize t \<le> 4096"
  shows "length (m_datas t) \<le> 128"
  using assms table_size_ge [of "m_datas t"] by (auto simp: table_ok_def table_fits_def)

lemma findPair_bound:
  assumes "findPair n v t = (i, b)"
  shows "i < 62 + int (length (m_datas t))" "-1 \<le> i"
  using pair_scan_found [of "entries t" 0 n v "(-1, False)" i]
    pair_scan_miss [of "entries t" 0 n v "(-1, False)" i] assms
  by (cases b; auto simp: findPair_entries entries_def split: if_splits)+

text \<open>A header is short when both of its strings are, in the form \<open>pack\<close> chooses for them.\<close>

definition short_header :: "header \<Rightarrow> bool" where
  "short_header i \<longleftrightarrow> short_string (fst i) (ShouldEncode (fst i)) \<and>
                     short_string (snd i) (ShouldEncode (snd i))"

definition good_table :: "DynamicTable \<Rightarrow> bool" where
  "good_table t \<longleftrightarrow> table_ok t \<and> table_fits t \<and> m_maxDataSize t \<le> 4096"

lemma good_update: "good_table t \<Longrightarrow> good_table (DynamicTable_update n v t)"
  by (auto simp: good_table_def elim!: update_ok [of t n v])

lemma choose_field_ok:
  assumes "good_table t" and "short_header i" and "choose_field i t = (h, t')"
  shows "field_ok h" and "good_table t'"
    and "m_table hp = t \<Longrightarrow> \<exists>h'. apply_field (wire h) hp =
           Inr (hp\<lparr>m_headers := m_headers hp @ [h'], m_table := t'\<rparr>) \<and> (hf_name h', hf_value h') = i"
proof -
  obtain j b where p: "findPair (fst i) (snd i) t = (j, b)" by force
  have j: "-1 \<le> j" "j < 190"
    using findPair_bound [OF p] table_length_le [of t] assms(1) by (auto simp: good_table_def)
  have idx: "unat (of_int j :: 32 word) = nat j" if "0 \<le> j"
    using j that by (simp add: unat_eq_nat_uint uint_word_of_int)
  have short: "short_string (fst i) (ShouldEncode (fst i))" "short_string (snd i) (ShouldEncode (snd i))"
    using assms(2) by (simp_all add: short_header_def)
  consider (indexed) "b" | (name) "\<not> b" "0 < j" | (new) "\<not> b" "\<not> 0 < j" by blast
  note cases = this
  have "field_ok h \<and> good_table t' \<and> (m_table hp = t \<longrightarrow> (\<exists>h'. apply_field (wire h) hp =
           Inr (hp\<lparr>m_headers := m_headers hp @ [h'], m_table := t'\<rparr>) \<and> (hf_name h', hf_value h') = i))"
    using cases
  proof cases
    case indexed
    have "0 \<le> j" "getPair (nat j) t = Inr i" using dyn.found [of "fst i" "snd i" t j] p indexed by auto
    with assms(1,3) p indexed j idx show ?thesis
      by (auto simp: choose_field_def field_ok_def field_prefix_def new_name_def wire_def apply_field_def
          HeaderField_new_def)
  next
    case name
    have "getName (nat j) t = Inr (fst i)"
      using dyn.found_name [of "fst i" "snd i" t j] p name by (auto simp: getName_def)
    then obtain v where "getPair (nat j) t = Inr (fst i, v)"
      by (cases "getPair (nat j) t") (auto simp: getName_def)
    moreover have "(of_int j :: 32 word) \<noteq> 0" "0 < (of_int j :: 32 word)"
      using idx name by (auto simp: word_gt_0 simp flip: unat_eq_0)
    ultimately show ?thesis
      using assms(1,3) p name j idx short \<open>getName (nat j) t = Inr (fst i)\<close> good_update
      by (auto simp: choose_field_def field_ok_def field_prefix_def new_name_def wire_def apply_field_def
          HeaderField_new_def)
  next
    case new
    with assms(1,3) p short good_update show ?thesis
      by (auto simp: choose_field_def field_ok_def field_prefix_def new_name_def wire_def apply_field_def
          HeaderField_new_def)
  qed
  then show "field_ok h" "good_table t'" "m_table hp = t \<Longrightarrow> \<exists>h'. apply_field (wire h) hp =
           Inr (hp\<lparr>m_headers := m_headers hp @ [h'], m_table := t'\<rparr>) \<and> (hf_name h', hf_value h') = i"
    by simp_all
qed

fun pack_image :: "header list \<Rightarrow> DynamicTable \<Rightarrow> bytes" where
  "pack_image [] t = []"
| "pack_image (i # hs) t = (let (h, t') = choose_field i t in field_image h @ pack_image hs t')"

fun pack_fields :: "header list \<Rightarrow> DynamicTable \<Rightarrow> HeaderField list \<times> DynamicTable" where
  "pack_fields [] t = ([], t)"
| "pack_fields (i # hs) t =
     (let (h, t') = choose_field i t; (fs, t'') = pack_fields hs t' in (h # fs, t''))"

lemma emits_pack:
  assumes "good_table (m_table hp)" and "list_all short_header hs"
  shows "emits e (HPack_pack hs hp) (pack_image hs (m_table hp))
           (int (length (pack_image hs (m_table hp))),
            hp\<lparr>m_headers := m_headers hp @ fst (pack_fields hs (m_table hp)),
               m_table := snd (pack_fields hs (m_table hp))\<rparr>)"
  using assms
proof (induction hs arbitrary: hp)
  case Nil
  then show ?case using emits_return by (simp del: return_action_apply)
next
  case (Cons i hs)
  obtain h t where c: "choose_field i (m_table hp) = (h, t)" by force
  obtain fs t' where f: "pack_fields hs t = (fs, t')" by force
  have ok: "field_ok h" "good_table t" "list_all short_header hs"
    using choose_field_ok(1,2) [OF Cons.prems(1) _ c] Cons.prems(2) by simp_all
  let ?hp = "hp\<lparr>m_table := t, m_headers := m_headers hp @ [h]\<rparr>"
  have one: "emits e (HPack_pack_field h (hp\<lparr>m_table := t\<rparr>)) (field_image h) (int (length (field_image h)), ?hp)"
    unfolding HPack_pack_field_def using emits_bind [OF emits_Pack [OF ok(1)] emits_return]
    by fastforce
  have IH: "emits e (HPack_pack hs ?hp) (pack_image hs t)
      (int (length (pack_image hs t)), hp\<lparr>m_headers := m_headers hp @ h # fs, m_table := t'\<rparr>)"
    using Cons.IH [of ?hp] ok(2,3) f by simp
  have "emits e (HPack_pack (i # hs) hp) (field_image h @ pack_image hs t @ [])
      (int (length (field_image h)) + int (length (pack_image hs t)),
       hp\<lparr>m_headers := m_headers hp @ h # fs, m_table := t'\<rparr>)"
    unfolding HPack_pack.simps c Let_def prod.case
    by (rule emits_bind [OF one], unfold prod.case, rule emits_bind [OF IH], unfold prod.case,
        rule emits_return)
  with c f show ?case by simp
qed

lemma field_image_nonempty: "field_ok h \<Longrightarrow> field_image h \<noteq> []"
  by (simp add: field_image_def varint_image_def)

lemma parse_loop_ok:
  assumes "good_table (m_table hp)" and "list_all short_header hs" and "ba_wf ba"
    and "unread ba = pack_image hs (m_table hp) @ rest"
    and "len = int (getPosition ba) - pos + int (length (pack_image hs (m_table hp)))"
  shows "\<exists>hp' ba'. parse_loop pos len hp ba = Inr ((len, hp'), ba') \<and>
           map (\<lambda>h. (hf_name h, hf_value h)) (m_headers hp') =
             map (\<lambda>h. (hf_name h, hf_value h)) (m_headers hp) @ hs \<and>
           m_table hp' = snd (pack_fields hs (m_table hp))"
  using assms
proof (induction hs arbitrary: hp ba)
  case Nil
  then have "parse_loop pos len hp ba = Inr ((len, hp), ba)" by (subst parse_loop.simps) simp
  then show ?case by simp
next
  case (Cons i hs)
  obtain h t where c: "choose_field i (m_table hp) = (h, t)" by force
  have ok: "field_ok h" "good_table t" "list_all short_header hs"
    using choose_field_ok(1,2) [OF Cons.prems(1) _ c] Cons.prems(2) by simp_all
  obtain h' where h': "apply_field (wire h) hp = Inr (hp\<lparr>m_headers := m_headers hp @ [h'], m_table := t\<rparr>)"
    "(hf_name h', hf_value h') = i"
    using choose_field_ok(3) [OF Cons.prems(1) _ c refl] Cons.prems(2) by auto
  have u: "unread ba = field_image h @ (pack_image hs t @ rest)" using Cons.prems(4) c by simp
  have "m_position ba + length (field_image h) + 0 \<le> m_capacity ba"
    using ba_wfD(5,6,10) [OF Cons.prems(3)] arg_cong [OF u, of length] by simp
  from acceptsE [OF accepts_read_field [OF ok(1)] Cons.prems(3) refl u this] obtain ba' where
    r: "read_field ba = Inr (Some (wire h), ba')" "ba_wf ba'" "unread ba' = pack_image hs t @ rest"
       "m_position ba' = m_position ba + length (field_image h)"
    by (metis (no_types, lifting))
  have "0 < length (field_image h)" using field_image_nonempty [OF ok(1)] by simp
  then have "int (getPosition ba) - pos < len"
    using Cons.prems(5) c by (simp del: length_greater_0_conv)
  then have step: "parse_loop pos len hp ba =
      parse_loop pos len (hp\<lparr>m_headers := m_headers hp @ [h'], m_table := t\<rparr>) ba'"
    using r(1) h'(1) by (simp add: parse_loop.simps [of pos len hp ba])
  have "len = int (getPosition ba') - pos + int (length (pack_image hs t))"
    using Cons.prems(5) c r(4) by (simp add: getPosition_def)
  then show ?case
    unfolding step using Cons.IH [of "hp\<lparr>m_headers := m_headers hp @ [h'], m_table := t\<rparr>" ba'] ok r h'(2) c
    by (auto split: prod.splits)
qed

text \<open>Strings of up to 254 bytes are short in the form \<open>pack\<close> chooses.\<close>

lemma short_chosen: "length s < 255 \<Longrightarrow> short_string s (ShouldEncode s)"
  by (cases rule: EncodeString_ok [of s]) (auto simp: short_string_def string_body_def ShouldEncode_def)

lemma pack_string_ok:
  assumes "good_table (m_table hp)" and "list_all short_header hs"
  shows "HPack_pack_string hs hp =
           Inr (int (length (pack_image hs (m_table hp))), pack_image hs (m_table hp),
                hp\<lparr>m_headers := m_headers hp @ fst (pack_fields hs (m_table hp)),
                   m_table := snd (pack_fields hs (m_table hp))\<rparr>)"
proof -
  let ?out = "pack_image hs (m_table hp)"
  have wf: "ba_wf (ByteArray_new 4096)" by (simp add: ba_wf_new)
  obtain ba where ba: "HPack_pack hs hp (ByteArray_new 4096) =
      Inr ((int (length ?out), hp\<lparr>m_headers := m_headers hp @ fst (pack_fields hs (m_table hp)),
               m_table := snd (pack_fields hs (m_table hp))\<rparr>), ba)" "ba_wf ba"
    "ba_abs ba = spec_write ?out (ba_abs (ByteArray_new 4096))"
    using emitsE [OF emits_pack [OF assms] wf refl] by blast
  then have dat: "data ba = ?out" by (simp add: ba_abs_def spec_write_def data_new)
  obtain ba' where "setPosition 0 ba = Inr ((), ba')" "ba_wf ba'" "ba_abs ba' = (?out, 0)"
    using seek_back [OF ba(2), of 0] dat by auto
  then show ?thesis
    using ba(1) toString_ok [of ba'] by (simp add: HPack_pack_string_def unread_abs)
qed

lemma parse_string_ok:
  assumes "good_table (m_table hp)" and "list_all short_header hs"
  shows "\<exists>hp'. HPack_parse_string (pack_image hs (m_table hp)) hp =
           Inr (int (length (pack_image hs (m_table hp))), hp') \<and>
           map (\<lambda>h. (hf_name h, hf_value h)) (m_headers hp') =
             map (\<lambda>h. (hf_name h, hf_value h)) (m_headers hp) @ hs \<and>
           m_table hp' = snd (pack_fields hs (m_table hp))"
proof (cases hs)
  case Nil
  then show ?thesis
    by (simp add: HPack_parse_string_def HPack_parse_def getPosition_def ByteArray_of_def parse_loop.simps)
next
  case (Cons i hs')
  let ?out = "pack_image hs (m_table hp)"
  obtain h t where c: "choose_field i (m_table hp) = (h, t)" by force
  have "field_ok h" using choose_field_ok(1) [OF assms(1) _ c] assms(2) Cons by simp
  then have "?out \<noteq> []" using Cons c field_image_nonempty by simp
  then have wf: "ba_wf (ByteArray_of ?out False)" by (rule ba_wf_of)
  have u: "unread (ByteArray_of ?out False) = ?out @ []" by (simp add: unread_def data_of)
  have "int (length ?out) = int (getPosition (ByteArray_of ?out False)) -
      int (getPosition (ByteArray_of ?out False)) + int (length ?out)" by simp
  from parse_loop_ok [OF assms wf u this] show ?thesis
    by (auto simp: HPack_parse_string_def HPack_parse_def)
qed

section \<open>Properties of header compression\<close>

text \<open>C11. The HPACK round trip. A packer and a parser that start with the same table (of the default
  size or smaller) stay in step: parsing the packed block consumes all of it, returns the headers in
  order, and leaves both with the same table, so the next block can rely on it. The strings may be up
  to 254 bytes long.\<close>

theorem hpack_roundtrip:
  assumes "table_ok t" and "table_fits t" and "m_maxDataSize t \<le> 4096"
    and "\<forall>(n, v) \<in> set hs. length n < 255 \<and> length v < 255"
  shows "\<exists>rt out hp1 hp2.
           HPack_pack_string hs \<lparr>m_headers = [], m_table = t\<rparr> = Inr (rt, out, hp1) \<and>
           HPack_parse_string out \<lparr>m_headers = [], m_table = t\<rparr> = Inr (rt, hp2) \<and>
           rt = int (length out) \<and>
           map (\<lambda>h. (hf_name h, hf_value h)) (m_headers hp2) = hs \<and> m_table hp2 = m_table hp1"
proof -
  have "good_table t" using assms(1-3) by (simp add: good_table_def)
  moreover have "list_all short_header hs"
    using assms(4) short_chosen by (fastforce simp: list_all_iff short_header_def)
  ultimately show ?thesis
    using pack_string_ok [of "\<lparr>m_headers = [], m_table = t\<rparr>" hs]
      parse_string_ok [of "\<lparr>m_headers = [], m_table = t\<rparr>" hs] by auto
qed

theorem hpack_roundtrip_witness:
  "\<exists>rt out hp1 hp2.
     HPack_pack_string [(str '':method'', str ''GET''), (str ''x'', str ''y'')]
       \<lparr>m_headers = [], m_table = DynamicTable_new\<rparr> = Inr (rt, out, hp1) \<and>
     HPack_parse_string out \<lparr>m_headers = [], m_table = DynamicTable_new\<rparr> = Inr (rt, hp2) \<and>
     map (\<lambda>h. (hf_name h, hf_value h)) (m_headers hp2) =
       [(str '':method'', str ''GET''), (str ''x'', str ''y'')]"
  using hpack_roundtrip [of DynamicTable_new "[(str '':method'', str ''GET''), (str ''x'', str ''y'')]"]
  by (auto simp: table_ok_def table_fits_def DynamicTable_new_def str_def)

text \<open>The bytes \<open>write_more\<close> produces, with the wrong continuation bit.\<close>

function more_image :: "64 word \<Rightarrow> bytes" where
  "more_image val =
     (if val \<ge> 128 then ucast (0x8 OR (val AND 0x7f)) # more_image (drop_bit 7 val) else [ucast val])"
  by pat_completeness auto
termination
  by (relation "measure unat")
    (simp_all only: wf_measure in_measure unat_drop7, simp add: word_le_nat_alt)

lemma emits_write_more: "emits e (write_more val) (more_image val) ()"
proof (induction val rule: more_image.induct)
  case (1 val)
  show ?case
  proof (cases "val \<ge> 128")
    case True
    then show ?thesis
      using emits_bind [OF emits_writeFuint8 "1.IH" [OF True]]
      by (simp add: write_more_step more_image.simps [of val])
  next
    case False
    then show ?thesis
      using emits_writeFuint8 [of e "ucast val"]
      by (auto simp: write_more_last more_image.simps [of val] dest: leD)
  qed
qed

lemma broken_byte:
  fixes val :: "64 word"
  shows "(ucast (0x8 OR (val AND 0x7f)) :: byte) < 128" (is "ucast ?x < _")
    and "unat (ucast (ucast (0x8 OR (val AND 0x7f)) :: byte) :: 64 word) < 128"
proof -
  have "?x = take_bit 7 (0x8 OR val)" by (simp add: and_7F take_bit_or)
  then have x: "unat ?x < 2 ^ 7" by (simp only: unsigned_take_bit_eq take_bit_nat_less_exp)
  then have u: "unat (ucast ?x :: byte) = unat ?x"
    by (simp add: unsigned_ucast_eq take_bit_nat_eq_self)
  with x show "(ucast ?x :: byte) < 128" by (simp only: word_less_nat_alt) simp
  have "unat (ucast (ucast ?x :: byte) :: 64 word) = unat ?x"
    using x by (subst unsigned_ucast_eq) (simp only: u, simp add: take_bit_nat_eq_self)
  with x show "unat (ucast (ucast ?x :: byte) :: 64 word) < 128" by simp
qed

lemma emits_WriteVarInt_large:
  assumes "prefix \<le> 8" and "2 ^ prefix - 1 + 128 \<le> unat val"
  obtains c bs where "emits e (WriteVarInt prefix val 0) (ucast (mask prefix :: 64 word) # c # bs)
      (int (length (ucast (mask prefix :: 64 word) # c # bs :: bytes)))"
    "c < 128" "unat (ucast c :: 64 word) < 128"
proof -
  have m: "unat (mask prefix :: 64 word) = 2 ^ prefix - 1" using assms(1) by (simp add: unat_mask8)
  let ?r = "val - mask prefix"
  have "unat ?r = unat val - (2 ^ prefix - 1)" using m assms(2) by (simp add: unat_sub word_le_nat_alt)
  then have "128 \<le> unat ?r" using assms(2) by linarith
  then have r: "128 \<le> ?r" by (simp add: word_le_nat_alt)
  have ge: "\<not> val < mask prefix" using m assms(2) by (simp add: word_less_nat_alt)
  let ?c = "ucast (0x8 OR (?r AND 0x7f)) :: byte"
  have "more_image ?r = ?c # more_image (drop_bit 7 ?r)" using r by (subst more_image.simps) simp
  moreover have "emits e (bind_action (writeFuint8 (ucast (mask prefix :: 64 word))) (\<lambda>_. write_more ?r))
      ([ucast (mask prefix :: 64 word)] @ more_image ?r) ()"
    by (rule emits_bind [OF emits_writeFuint8 emits_write_more])
  from emits_counted [OF this] ge
  have "emits e (WriteVarInt prefix val 0) (ucast (mask prefix :: 64 word) # more_image ?r)
      (int (length (ucast (mask prefix :: 64 word) # more_image ?r :: bytes)))"
    unfolding WriteVarInt_def prefix_mask Let_def by simp
  ultimately have "emits e (WriteVarInt prefix val 0) (ucast (mask prefix :: 64 word) # ?c # more_image (drop_bit 7 ?r))
      (int (length (ucast (mask prefix :: 64 word) # ?c # more_image (drop_bit 7 ?r) :: bytes)))"
    by simp
  with broken_byte [of ?r] that show ?thesis by blast
qed

lemma accepts_ReadVarInt_broken:
  assumes "prefix \<le> 8" and "c < 128"
  shows "accepts k e (ReadVarInt prefix) [ucast (mask prefix :: 64 word), c] (mask prefix + ucast c)"
proof -
  let ?b = "ucast (mask prefix :: 64 word) :: byte"
  have b: "?b = mask prefix"
    by (rule bit_word_eqI) (auto simp: bit_mask_iff bit_ucast_iff)
  have um: "ucast (mask prefix :: byte) = (mask prefix :: 64 word)"
    by (rule bit_word_eqI) (use assms(1) in \<open>auto simp: bit_mask_iff bit_ucast_iff\<close>)
  have "accepts k e (ReadVarInt_from ?b prefix) [c] (mask prefix + ucast c)"
    unfolding ReadVarInt_from_def prefix_mask Let_def b
    using accepts_read_more_last [OF assms(2), of 0 k e "mask prefix"] um by simp
  then have "accepts k e (ReadVarInt prefix) ([?b] @ [c]) (mask prefix + ucast c)"
    unfolding ReadVarInt_def by (rule accepts_bind [OF accepts_readFuint8])
  then show ?thesis by simp
qed

text \<open>C26. The integer code is broken from the second continuation byte on: \<open>WriteVarInt\<close> sets bit 3
  instead of bit 7 as the continuation flag, so for every value of at least 2 to the prefix plus 127
  the reader stops too early and returns a smaller value.\<close>

theorem varint_continuation_broken:
  assumes "ba_wf ba" and "prefix \<le> 8" and "2 ^ prefix - 1 + 128 \<le> unat val"
  shows "\<exists>n ba1 ba2 x ba3. WriteVarInt prefix val 0 ba = Inr (n, ba1) \<and>
           setPosition (getPosition ba) ba1 = Inr ((), ba2) \<and>
           ReadVarInt prefix ba2 = Inr (x, ba3) \<and> x < val"
proof -
  obtain c bs where c: "emits (m_endian ba) (WriteVarInt prefix val 0)
      (ucast (mask prefix :: 64 word) # c # bs)
      (int (length (ucast (mask prefix :: 64 word) # c # bs :: bytes)))"
    "c < 128" "unat (ucast c :: 64 word) < 128"
    using emits_WriteVarInt_large [OF assms(2,3)] by blast
  let ?bs = "ucast (mask prefix :: 64 word) # c # bs :: bytes"
  obtain ba1 where 1: "WriteVarInt prefix val 0 ba = Inr (int (length ?bs), ba1)" "ba_wf ba1"
    "m_endian ba1 = m_endian ba" "ba_abs ba1 = spec_write ?bs (ba_abs ba)"
    using emitsE [OF c(1) assms(1) refl] by blast
  note w = ba_wfD [OF assms(1)] and w1 = ba_wfD [OF 1(2)]
  have pos: "m_position ba1 = m_position ba + length ?bs"
    and dat: "data ba1 = take (m_position ba) (data ba) @ ?bs @ drop (m_position ba + length ?bs) (data ba)"
    using 1(4) by (simp_all add: ba_abs_def spec_write_def)
  have le: "m_position ba \<le> m_size ba1" using pos w1(5) by simp
  obtain ba2 where 2: "setPosition (m_position ba) ba1 = Inr ((), ba2)" "ba_wf ba2"
    "ba_abs ba2 = (data ba1, m_position ba)" "m_endian ba2 = m_endian ba1"
    using seek_back [OF 1(2) le] by blast
  have u: "unread ba2 = [ucast (mask prefix :: 64 word), c] @ bs @ drop (m_position ba + length ?bs) (data ba)"
    using 2(3) dat w(5,9) by (simp add: unread_abs)
  have room: "m_position ba2 + length [ucast (mask prefix :: 64 word) :: byte, c] + 0 \<le> m_capacity ba2"
    using ba_wfD(5,6,10) [OF 2(2)] arg_cong [OF u, of length] by simp
  obtain ba3 where 3: "ReadVarInt prefix ba2 = Inr (mask prefix + ucast c, ba3)"
    using acceptsE [OF accepts_ReadVarInt_broken [OF assms(2) c(2)] 2(2) refl u room] by blast
  have m: "unat (mask prefix :: 64 word) = 2 ^ prefix - 1" using assms(2) by (simp add: unat_mask8)
  have "unat (mask prefix + ucast c :: 64 word) \<le> unat (mask prefix :: 64 word) + unat (ucast c :: 64 word)"
    by (simp add: unat_word_ariths)
  then have "mask prefix + ucast c < val" using m c(3) assms(3) by (simp add: word_less_nat_alt)
  with 1 2 3 show ?thesis by (auto simp: getPosition_def)
qed

theorem varint_continuation_broken_witness:
  "\<exists>n ba1 ba2 x ba3. WriteVarInt 7 300 0 (ByteArray_new 16) = Inr (n, ba1) \<and>
     setPosition 0 ba1 = Inr ((), ba2) \<and> ReadVarInt 7 ba2 = Inr (x, ba3) \<and> x < 300"
  using varint_continuation_broken [of "ByteArray_new 16" 7 300] ba_wf_new [of 16]
  by (simp add: getPosition_def data_new)



end
