(* ===== verification/ByteArrayViews.thy ===== *)
theory ByteArrayViews
  imports ByteArray
begin

text \<open>
  The rest of \<^verbatim>\<open>src/chat/bytearray.cc\<close>: the scatter/gather views of a buffer that the sockets use
  (\<open>getReadBuffers\<close>, \<open>getWriteBuffers\<close>), the hexadecimal dump, the transfer to and from a file,
  and what the destructor frees. An \<open>iovec\<close> is a node's index with an offset and a length into
  its block; an output file is the list of bytes it receives, an input file the list it holds.
\<close>

section \<open>Scatter/gather views\<close>

record iovec =
  iov_node :: nat
  iov_off :: nat
  iov_len :: nat

function iov_loop :: "bytes list \<Rightarrow> nat \<Rightarrow> nat \<Rightarrow> nat \<Rightarrow> nat option \<Rightarrow> error + iovec list" where
  "iov_loop nodes len npos ncap cur =
     (if len = 0 then Inr []
      else case cur of
        None \<Rightarrow> Inl Null_deref
      | Some c \<Rightarrow>
          if length nodes \<le> c then Inl Bad_index
          else if ncap \<ge> len then
            Inr [\<lparr>iov_node = c, iov_off = npos, iov_len = len\<rparr>]
          else case next_node nodes c of
            None \<Rightarrow> Inl Null_deref
          | Some c' \<Rightarrow>
              map_sum id ((#) \<lparr>iov_node = c, iov_off = npos, iov_len = ncap\<rparr>)
                (iov_loop nodes (len - ncap) 0 (length (nodes ! c')) (Some c')))"
  by pat_completeness auto
termination
  by (relation "measure (\<lambda>(nodes, len, npos, ncap, cur).
        case cur of None \<Rightarrow> 0 | Some c \<Rightarrow> length nodes - c)")
    (auto simp: next_node_def split: if_splits)

definition iov_from :: "ByteArray \<Rightarrow> nat \<Rightarrow> nat \<Rightarrow> nat option \<Rightarrow> error + iovec list" where
  "iov_from ba len npos cur =
     (case cur of
        None \<Rightarrow> Inl Null_deref
      | Some c \<Rightarrow>
          if length (m_nodes ba) \<le> c then Inl Bad_index
          else iov_loop (m_nodes ba) len npos (size_sub (length (m_nodes ba ! c)) npos) cur)"

text \<open>The buffers are appended to the caller's vector; the result is the number of bytes.\<close>

definition getReadBuffers :: "iovec list \<Rightarrow> nat \<Rightarrow> ByteArray \<Rightarrow> error + nat \<times> iovec list" where
  "getReadBuffers buffers len0 ba =
     (let len = (if len0 > getReadSize ba then getReadSize ba else len0) in
      if len = 0 then Inr (0, buffers)
      else if m_baseSize ba = 0 then Inl Div_by_zero
      else map_sum id (\<lambda>iovs. (len, buffers @ iovs))
             (iov_from ba len (m_position ba mod m_baseSize ba) (m_cur ba)))"

fun skip_nodes :: "bytes list \<Rightarrow> nat \<Rightarrow> nat option \<Rightarrow> error + nat option" where
  "skip_nodes nodes 0 cur = Inr cur"
| "skip_nodes nodes (Suc n) None = Inl Null_deref"
| "skip_nodes nodes (Suc n) (Some c) = skip_nodes nodes n (next_node nodes c)"

definition getReadBuffers_at ::
    "iovec list \<Rightarrow> nat \<Rightarrow> nat \<Rightarrow> ByteArray \<Rightarrow> error + nat \<times> iovec list" where
  "getReadBuffers_at buffers len0 position ba =
     (let len = (if len0 > getReadSize ba then getReadSize ba else len0) in
      if len = 0 then Inr (0, buffers)
      else if m_baseSize ba = 0 then Inl Div_by_zero
      else case skip_nodes (m_nodes ba) (position div m_baseSize ba) (Some 0) of
        Inl e \<Rightarrow> Inl e
      | Inr cur \<Rightarrow> map_sum id (\<lambda>iovs. (len, buffers @ iovs))
                    (iov_from ba len (position mod m_baseSize ba) cur))"

definition getWriteBuffers :: "iovec list \<Rightarrow> nat \<Rightarrow> (nat \<times> iovec list) ba" where
  "getWriteBuffers buffers len ba0 =
     (if len = 0 then Inr ((0, buffers), ba0)
      else if m_baseSize ba0 = 0 then Inl Div_by_zero
      else let ba = addCapacity len ba0 in
        case iov_from ba len (m_position ba mod m_baseSize ba) (m_cur ba) of
          Inl e \<Rightarrow> Inl e
        | Inr iovs \<Rightarrow> Inr ((len, buffers @ iovs), ba))"

text \<open>The bytes an \<open>iovec\<close> points at.\<close>

definition iov_bytes :: "bytes list \<Rightarrow> iovec \<Rightarrow> bytes" where
  "iov_bytes nodes v = take (iov_len v) (drop (iov_off v) (nodes ! iov_node v))"

definition gather :: "bytes list \<Rightarrow> iovec list \<Rightarrow> bytes" where
  "gather nodes vs = concat (map (iov_bytes nodes) vs)"

definition iov_inside :: "bytes list \<Rightarrow> iovec \<Rightarrow> bool" where
  "iov_inside nodes v \<longleftrightarrow>
     iov_node v < length nodes \<and> iov_off v + iov_len v \<le> length (nodes ! iov_node v)"

section \<open>Dump, files, destruction\<close>

definition hex_digit :: "nat \<Rightarrow> char" where
  "hex_digit n = ''0123456789abcdef'' ! n"

fun hex_dump :: "nat \<Rightarrow> bytes \<Rightarrow> string" where
  "hex_dump i [] = []"
| "hex_dump i (b # bs) =
     (if i > 0 \<and> i mod 32 = 0 then [CHR 0x0A] else []) @
     [hex_digit (unat b div 16), hex_digit (unat b mod 16), CHR '' ''] @ hex_dump (Suc i) bs"

definition ByteArray_toHexString :: "ByteArray \<Rightarrow> error + string" where
  "ByteArray_toHexString ba = map_sum id (hex_dump 0) (ByteArray_toString ba)"

text \<open>
  \<open>writeToFile\<close> after the file was opened. A negative count passed to \<open>ofstream::write\<close> and a
  read past the end of a block are refused by the model.
\<close>

function writeToFile_loop :: "ByteArray \<Rightarrow> int \<Rightarrow> int \<Rightarrow> nat option \<Rightarrow> error + bytes" where
  "writeToFile_loop ba read_size pos cur =
     (if read_size \<le> 0 then Inr []
      else case cur of
        None \<Rightarrow> Inl Null_deref
      | Some c \<Rightarrow>
          if length (m_nodes ba) \<le> c then Inl Bad_index
          else let diff = pos mod int (m_baseSize ba);
                   len = (if read_size > int (m_baseSize ba) - diff
                          then int (m_baseSize ba) - diff else read_size - diff)
               in if len < 0 \<or> diff + len > int (length (m_nodes ba ! c)) then Inl Bad_index
                  else map_sum id ((@) (take (nat len) (drop (nat diff) (m_nodes ba ! c))))
                         (writeToFile_loop ba (read_size - len) (pos + len)
                            (next_node (m_nodes ba) c)))"
  by pat_completeness auto
termination
  by (relation "measure (\<lambda>(ba, read_size, pos, cur).
        case cur of None \<Rightarrow> 0 | Some c \<Rightarrow> length (m_nodes ba) - c)")
    (auto simp: next_node_def split: if_splits)

definition writeToFile :: "ByteArray \<Rightarrow> error + bytes" where
  "writeToFile ba =
     (if m_baseSize ba = 0 \<and> getReadSize ba > 0 then Inl Div_by_zero
      else writeToFile_loop ba (int (getReadSize ba)) (int (m_position ba)) (m_cur ba))"

text \<open>
  \<open>readFromFile\<close> after the file was opened: blocks of \<open>m_baseSize\<close> bytes are read until a read
  hits the end of the file, so a file whose length is a multiple of the block size costs one
  last read of nothing. With blocks of size 0 the end of the file is never reached.
\<close>

function readFromFile_loop :: "bytes \<Rightarrow> unit ba" where
  "readFromFile_loop contents ba =
     (if m_baseSize ba = 0 then Inl Diverges
      else if length contents < m_baseSize ba then ByteArray_write contents ba
      else case ByteArray_write (take (m_baseSize ba) contents) ba of
        Inl e \<Rightarrow> Inl e
      | Inr (_, ba') \<Rightarrow> readFromFile_loop (drop (m_baseSize ba) contents) ba')"
  by pat_completeness auto
termination
  by (relation "measure (\<lambda>(contents, ba). length contents)") auto

text \<open>
  The destructor: \<open>Node::free\<close> deletes the block and clears the pointer, \<open>Node::~Node\<close> deletes
  the block the pointer still names. The result is the sequence of blocks given to \<open>delete[]\<close>.
\<close>

definition Node_free :: "nat option \<Rightarrow> nat option \<times> nat list" where
  "Node_free p = (case p of None \<Rightarrow> (None, []) | Some blk \<Rightarrow> (None, [blk]))"

definition Node_destroy :: "nat option \<Rightarrow> nat list" where
  "Node_destroy p = (case p of None \<Rightarrow> [] | Some blk \<Rightarrow> [blk])"

fun destroy_nodes :: "bool \<Rightarrow> nat option list \<Rightarrow> nat list" where
  "destroy_nodes owner [] = []"
| "destroy_nodes owner (p # ps) =
     (let (p', freed) = (if owner then Node_free p else (p, []))
      in freed @ Node_destroy p' @ destroy_nodes owner ps)"

definition ByteArray_destroy :: "ByteArray \<Rightarrow> nat list" where
  "ByteArray_destroy ba = destroy_nodes (m_owner ba) (map Some [0..<length (m_nodes ba)])"

section \<open>What the views show\<close>

declare iov_loop.simps [simp del] writeToFile_loop.simps [simp del]
  readFromFile_loop.simps [simp del]

lemma iov_loop_ok:
  assumes "0 < b" and "blocks_of b nodes" and "c < length nodes" and "npos < b"
    and "c * b + npos + len \<le> b * length nodes" and "0 < len"
  shows "\<exists>vs. iov_loop nodes len npos (b - npos) (Some c) = Inr vs \<and>
           gather nodes vs = take len (drop (c * b + npos) (concat nodes)) \<and>
           list_all (iov_inside nodes) vs \<and> sum_list (map iov_len vs) = len"
  using assms
proof (induction "length nodes - c" arbitrary: len npos c rule: less_induct)
  case less
  note p = less.prems
  have blk: "length (nodes ! c) = b" using p(2,3) by (rule blocks_of_nth)
  have tail: "drop (c * b + npos) (concat nodes) = drop npos (nodes ! c) @ concat (drop (Suc c) nodes)"
    using drop_concat_blocks [OF p(2,3), of npos] p(4) by simp
  let ?v = "\<lambda>k. \<lparr>iov_node = c, iov_off = npos, iov_len = k\<rparr>"
  show ?case
  proof (cases "len \<le> b - npos")
    case True
    then show ?thesis
      using p(3,4,6) blk
      by (intro exI [of _ "[?v len]"])
        (simp add: iov_loop.simps [of nodes len] tail gather_def iov_bytes_def iov_inside_def)
  next
    case False
    have c': "Suc c < length nodes" using p(4,5) False by (intro next_block [of npos b c len]) simp_all
    have tail': "drop (Suc c * b + 0) (concat nodes) = concat (drop (Suc c) nodes)"
      using drop_concat_blocks [OF p(2) c', of 0] c' by (simp add: Cons_nth_drop_Suc [symmetric])
    have "\<exists>vs. iov_loop nodes (len - (b - npos)) 0 (b - 0) (Some (Suc c)) = Inr vs \<and>
        gather nodes vs = take (len - (b - npos)) (drop (Suc c * b + 0) (concat nodes)) \<and>
        list_all (iov_inside nodes) vs \<and> sum_list (map iov_len vs) = len - (b - npos)"
      using p(1,2,4,5) c' False by (intro less.hyps) simp_all
    then obtain vs where vs: "iov_loop nodes (len - (b - npos)) 0 b (Some (Suc c)) = Inr vs"
      "gather nodes vs = take (len - (b - npos)) (concat (drop (Suc c) nodes))"
      "list_all (iov_inside nodes) vs" "sum_list (map iov_len vs) = len - (b - npos)"
      unfolding tail' by auto
    then show ?thesis
      using False p(3,4) c' blk blocks_of_nth [OF p(2) c']
      by (intro exI [of _ "?v (b - npos) # vs"])
        (simp add: iov_loop.simps [of nodes len npos] next_node_def tail gather_def iov_bytes_def
          iov_inside_def)
  qed
qed

lemma iov_from_ok:
  assumes wf: "ba_wf ba" and room: "m_position ba + len \<le> m_capacity ba" and len: "0 < len"
  obtains vs where
    "iov_from ba len (m_position ba mod m_baseSize ba) (m_cur ba) = Inr vs"
    "gather (m_nodes ba) vs = take len (drop (m_position ba) (mem ba))"
    "list_all (iov_inside (m_nodes ba)) vs" "sum_list (map iov_len vs) = len"
proof -
  note w = ba_wfD [OF wf]
  have "m_position ba < m_capacity ba" using room len by simp
  note c = cur_block [OF wf this]
  show ?thesis
    using iov_loop_ok [OF w(1,3) c(2,3), of len] c room len w(4) that
    by (auto simp: iov_from_def mem_def)
qed

lemma getReadBuffers_ok:
  assumes wf: "ba_wf ba"
  obtains vs where
    "getReadBuffers buffers len ba = Inr (min len (length (unread ba)), buffers @ vs)"
    "gather (m_nodes ba) vs = take len (unread ba)" "list_all (iov_inside (m_nodes ba)) vs"
proof (cases "min len (length (unread ba)) = 0")
  case True
  then show ?thesis
    using ba_wfD(5,10) [OF wf]
    by (intro that [of "[]"])
      (auto simp: getReadBuffers_def getReadSize_def Let_def gather_def min_def split: if_splits)
next
  case False
  note w = ba_wfD [OF wf]
  define n where "n = min len (length (unread ba))"
  have n: "0 < n" "m_position ba + n \<le> m_capacity ba"
    "(if len > getReadSize ba then getReadSize ba else len) = n"
    using False w(5,6,10) by (auto simp: n_def getReadSize_def min_def)
  obtain vs where vs: "iov_from ba n (m_position ba mod m_baseSize ba) (m_cur ba) = Inr vs"
    "gather (m_nodes ba) vs = take n (drop (m_position ba) (mem ba))"
    "list_all (iov_inside (m_nodes ba)) vs"
    using iov_from_ok [OF wf n(2,1)] by blast
  have "getReadBuffers buffers len ba = Inr (n, buffers @ vs)"
    unfolding getReadBuffers_def n(3) using n(1) vs(1) w(1) by (simp add: Let_def)
  moreover have "gather (m_nodes ba) vs = take len (unread ba)"
    using w(5,10) by (simp add: vs(2) n_def unread_def data_def drop_take min.commute)
  ultimately show ?thesis using vs(3) unfolding n_def by (intro that)
qed

lemma getWriteBuffers_ok:
  assumes wf: "ba_wf ba"
  obtains vs ba' where "getWriteBuffers buffers len ba = Inr ((len, buffers @ vs), ba')"
    "ba_wf ba'" "ba_abs ba' = ba_abs ba"
    "gather (m_nodes ba') vs = take len (drop (m_position ba) (mem ba'))"
    "list_all (iov_inside (m_nodes ba')) vs" "sum_list (map iov_len vs) = len"
proof (cases "len = 0")
  case True
  then show ?thesis using wf by (intro that [of "[]" ba]) (simp_all add: getWriteBuffers_def gather_def)
next
  case False
  let ?ba = "addCapacity len ba"
  have wf': "ba_wf ?ba" and room: "m_position ?ba + len \<le> m_capacity ?ba"
    using addCapacity_wf(1,2) [OF wf] by simp_all
  obtain vs where vs: "iov_from ?ba len (m_position ?ba mod m_baseSize ?ba) (m_cur ?ba) = Inr vs"
    "gather (m_nodes ?ba) vs = take len (drop (m_position ?ba) (mem ?ba))"
    "list_all (iov_inside (m_nodes ?ba)) vs" "sum_list (map iov_len vs) = len"
    using iov_from_ok [OF wf' room] False by auto
  have "ba_abs ?ba = ba_abs ba"
    using addCapacity_wf(3) [OF wf, of len] ba_wfD(6,8) [OF wf] by (auto simp: ba_abs_def data_def)
  then show ?thesis
    using vs wf' False ba_wfD(1) [OF wf]
    by (intro that [of vs ?ba]) (simp_all add: getWriteBuffers_def Let_def)
qed

lemma readFromFile_ok:
  "ba_wf ba \<Longrightarrow> \<exists>ba'. readFromFile_loop contents ba = Inr ((), ba') \<and> ba_wf ba' \<and>
     ba_abs ba' = spec_write contents (ba_abs ba)"
proof (induction "length contents" arbitrary: contents ba rule: less_induct)
  case less
  let ?b = "m_baseSize ba"
  have b: "0 < ?b" using less.prems by (simp add: ba_wfD)
  show ?case
  proof (cases "length contents < ?b")
    case True
    with b less.prems show ?thesis
      by (auto simp: readFromFile_loop.simps [of contents ba] elim!: write_ok [of ba contents])
  next
    case False
    obtain ba1 where ba1: "ByteArray_write (take ?b contents) ba = Inr ((), ba1)" "ba_wf ba1"
      "ba_abs ba1 = spec_write (take ?b contents) (ba_abs ba)"
      using less.prems by (rule write_ok)
    have "length (drop ?b contents) < length contents" using b False by simp
    from less.hyps [OF this ba1(2)] obtain ba' where
      "readFromFile_loop (drop ?b contents) ba1 = Inr ((), ba')" "ba_wf ba'"
      "ba_abs ba' = spec_write (drop ?b contents) (ba_abs ba1)" by blast
    with ba1 b False show ?thesis
      using ba_abs_bound [OF less.prems]
      by (cases "ba_abs ba") (simp add: readFromFile_loop.simps [of contents ba] spec_write_append)
  qed
qed

lemma writeToFile_loop_done: "writeToFile_loop ba 0 pos cur = Inr []"
  by (subst writeToFile_loop.simps) simp

lemma writeToFile_loop_last:
  assumes "0 < n" and "n \<le> m_baseSize ba" and "c < length (m_nodes ba)"
    and "length (m_nodes ba ! c) = m_baseSize ba"
  shows "writeToFile_loop ba (int n) (int (c * m_baseSize ba)) (Some c) =
           Inr (take n (m_nodes ba ! c))"
  using assms by (subst writeToFile_loop.simps) (simp add: Let_def writeToFile_loop_done)

lemma writeToFile_loop_next:
  assumes "m_baseSize ba < n" and "Suc c < length (m_nodes ba)"
    and "length (m_nodes ba ! c) = m_baseSize ba"
  shows "writeToFile_loop ba (int n) (int (c * m_baseSize ba)) (Some c) =
           map_sum id ((@) (m_nodes ba ! c))
             (writeToFile_loop ba (int (n - m_baseSize ba)) (int (Suc c * m_baseSize ba)) (Some (Suc c)))"
  using assms
  by (subst writeToFile_loop.simps) (simp add: Let_def next_node_def of_nat_diff add.commute)

lemma writeToFile_loop_aligned:
  assumes "0 < b" and "m_baseSize ba = b" and "blocks_of b (m_nodes ba)"
    and "c * b + n \<le> b * length (m_nodes ba)" and "0 < n \<Longrightarrow> cur = Some c"
  shows "writeToFile_loop ba (int n) (int (c * b)) cur =
           Inr (take n (drop (c * b) (concat (m_nodes ba))))"
  using assms(4,5)
proof (induction "length (m_nodes ba) - c" arbitrary: n c cur rule: less_induct)
  case less
  show ?case
  proof (cases "n = 0")
    case True
    then show ?thesis by (simp add: writeToFile_loop.simps)
  next
    case False
    let ?ns = "m_nodes ba"
    have cur: "cur = Some c" using False less.prems(2) by simp
    have "c * b < b * length ?ns" using less.prems(1) False by linarith
    then have c: "c < length ?ns" using assms(1) by (simp add: mult.commute)
    have blk: "length (?ns ! c) = b" using assms(3) c by (rule blocks_of_nth)
    have tail: "drop (c * b) (concat ?ns) = ?ns ! c @ concat (drop (Suc c) ?ns)"
      using drop_concat_blocks [OF assms(3) c, of 0] by simp
    show ?thesis
    proof (cases "n \<le> b")
      case True
      then show ?thesis
        using False c blk cur assms(2)
        by (simp add: writeToFile_loop_last [of n ba c, unfolded assms(2)] tail del: of_nat_mult)
    next
      case big: False
      have c': "Suc c < length ?ns"
        using assms(1) less.prems(1) big by (intro next_block [of 0 b c n]) simp_all
      have tail': "drop (Suc c * b) (concat ?ns) = concat (drop (Suc c) ?ns)"
        using drop_concat_blocks [OF assms(3) c', of 0] c' by (simp add: Cons_nth_drop_Suc [symmetric])
      have "writeToFile_loop ba (int (n - b)) (int (Suc c * b)) (Some (Suc c)) =
          Inr (take (n - b) (drop (Suc c * b) (concat ?ns)))"
        using less.prems(1) big c' by (intro less.hyps) simp_all
      then show ?thesis
        using big c' blk cur writeToFile_loop_next [of ba n c, unfolded assms(2)]
        by (simp add: tail tail' del: of_nat_mult mult_Suc)
    qed
  qed
qed

lemma writeToFile_aligned:
  assumes wf: "ba_wf ba" and "m_baseSize ba dvd m_position ba"
  shows "writeToFile ba = Inr (unread ba)"
proof -
  note w = ba_wfD [OF wf]
  let ?c = "m_position ba div m_baseSize ba"
  have pos: "m_position ba = ?c * m_baseSize ba" using assms(2) by simp
  have cur: "m_cur ba = Some ?c" if "0 < length (unread ba)"
    using that cur_block(1) [OF wf] w(6,10) by simp
  have "writeToFile_loop ba (int (length (unread ba))) (int (?c * m_baseSize ba)) (m_cur ba) =
      Inr (take (length (unread ba)) (drop (?c * m_baseSize ba) (concat (m_nodes ba))))"
    using w(1,3,4,5,6,10) pos cur by (intro writeToFile_loop_aligned) simp_all
  moreover have "getReadSize ba = length (unread ba)" using w(5,10) by (simp add: getReadSize_def)
  moreover have "take (length (unread ba)) (drop (m_position ba) (concat (m_nodes ba))) = unread ba"
    unfolding w(10) by (simp add: unread_def data_def mem_def drop_take)
  ultimately show ?thesis
    using w(1) pos by (simp add: writeToFile_def)
qed

lemma destroy_nodes_all: "destroy_nodes owner (map Some bs) = bs"
  by (induction bs) (simp_all add: Node_free_def Node_destroy_def)

section \<open>Properties of the views\<close>

text \<open>\<open>getReadBuffers\<close> exposes exactly the next unread bytes, at most as many as asked for: the
  iovecs it appends lie inside the nodes and their contents in order are those bytes, so a \<open>writev\<close> of
  them sends what \<open>read\<close> would have returned.\<close>

theorem getReadBuffers_exposes_unread:
  assumes "ba_wf ba"
  shows "\<exists>vs. getReadBuffers buffers len ba = Inr (min len (length (unread ba)), buffers @ vs) \<and>
           gather (m_nodes ba) vs = take len (unread ba) \<and> list_all (iov_inside (m_nodes ba)) vs"
  using getReadBuffers_ok [OF assms, of buffers len] by blast

theorem getReadBuffers_exposes_unread_witness:
  "\<exists>vs. getReadBuffers [] 5 (ByteArray_of [7, 8, 9] True) = Inr (3, vs) \<and>
     gather (m_nodes (ByteArray_of [7, 8, 9] True)) vs = [7, 8, 9]"
  using getReadBuffers_exposes_unread [of "ByteArray_of [7, 8, 9] True" "[]" 5]
    ba_wf_of [of "[7, 8, 9]" True]
  by (auto simp: unread_def data_of)

text \<open>\<open>getWriteBuffers\<close> makes room: the iovecs lie inside the (possibly extended) chain, cover
  exactly the requested number of bytes from the cursor on, and the abstract buffer is unchanged.\<close>

theorem getWriteBuffers_covers_room:
  assumes "ba_wf ba"
  shows "\<exists>vs ba'. getWriteBuffers buffers len ba = Inr ((len, buffers @ vs), ba') \<and> ba_wf ba' \<and>
           ba_abs ba' = ba_abs ba \<and> list_all (iov_inside (m_nodes ba')) vs \<and>
           sum_list (map iov_len vs) = len \<and>
           gather (m_nodes ba') vs = take len (drop (m_position ba) (mem ba'))"
  by (rule getWriteBuffers_ok [OF assms, of buffers len]) blast

theorem getWriteBuffers_covers_room_witness:
  "\<exists>vs ba'. getWriteBuffers [] 5 (ByteArray_new 2) = Inr ((5, vs), ba') \<and> ba_wf ba' \<and>
     sum_list (map iov_len vs) = 5"
  using getWriteBuffers_covers_room [of "ByteArray_new 2" "[]" 5] ba_wf_new [of 2] by auto

text \<open>A file read into a buffer and written out again is unchanged: \<open>readFromFile\<close> appends the
  whole contents whatever the block size, and \<open>writeToFile\<close> from a cursor on a block boundary writes
  exactly the unread bytes.\<close>

theorem file_roundtrip:
  assumes "0 < b"
  shows "\<exists>ba1 ba2. readFromFile_loop contents (ByteArray_new b) = Inr ((), ba1) \<and>
           setPosition 0 ba1 = Inr ((), ba2) \<and> writeToFile ba2 = Inr contents"
proof -
  obtain ba1 where ba1: "readFromFile_loop contents (ByteArray_new b) = Inr ((), ba1)" "ba_wf ba1"
    "data ba1 = contents"
    using readFromFile_ok [OF ba_wf_new [OF assms], of contents]
    by (auto simp: ba_abs_def spec_write_def data_new)
  obtain ba2 where "setPosition 0 ba1 = Inr ((), ba2)" "ba_wf ba2" "ba_abs ba2 = (data ba1, 0)"
    using seek_back [OF ba1(2), of 0] by auto
  then show ?thesis
    using ba1 writeToFile_aligned [of ba2] by (auto simp: ba_abs_def unread_def)
qed

theorem file_roundtrip_witness:
  "\<exists>ba1 ba2. readFromFile_loop [1, 2, 3] (ByteArray_new 2) = Inr ((), ba1) \<and>
     setPosition 0 ba1 = Inr ((), ba2) \<and> writeToFile ba2 = Inr [1, 2, 3]"
  using file_roundtrip [of 2 "[1, 2, 3]"] by simp

text \<open>The destructor frees every block of the chain exactly once, in order, whoever owns it:
  \<open>Node::~Node\<close> deletes its pointer, and \<open>m_owner\<close> only decides whether \<open>free\<close> has already done so.
  There is no double free and no leak, but a buffer built over the caller's memory with
  \<open>owner = false\<close> frees memory it does not own.\<close>

theorem destroy_frees_every_block_once:
  "ByteArray_destroy ba = [0..<length (m_nodes ba)] \<and>
   ByteArray_destroy (ByteArray_of d False) = ByteArray_destroy (ByteArray_of d True)"
  by (simp add: ByteArray_destroy_def ByteArray_of_def destroy_nodes_all del: upt_Suc)

end
