(* ===== verification/Streams.thy ===== *)
theory Streams
  imports ByteCodec
begin

text \<open>
  \<^verbatim>\<open>src/chat/stream.cc\<close>: transfers of a fixed size over a stream. \<open>Stream\<close> is an abstract class; its
  pure virtual \<open>read(ba, n)\<close> and \<open>write(ba, n)\<close> are parameters here, functions of the stream's state
  and the buffer that return the number of bytes moved (zero or negative for a failure).
  \<open>delivers\<close> and \<open>absorbs\<close> say what an implementation over a connection does: it moves at least one
  and at most \<open>n\<close> of the bytes that are there.
\<close>

type_synonym 's mover = "nat \<Rightarrow> 's \<Rightarrow> ByteArray \<Rightarrow> error + int \<times> 's \<times> ByteArray"

text \<open>
  The loop shared by \<open>readFixSize\<close> and \<open>writeFixSize\<close>; \<open>mx\<close> is the configured \<open>socket.buff_size\<close>. The
  functions count down a \<open>size_t\<close> as an \<open>int64_t\<close> and return it as an \<open>int\<close>.
\<close>

definition c_int :: "nat \<Rightarrow> int" where
  "c_int n = sint (of_nat n :: 32 word)"

definition c_int64 :: "nat \<Rightarrow> int" where
  "c_int64 n = sint (of_nat n :: 64 word)"

lemma c_int_small: "n < 2 ^ 31 \<Longrightarrow> c_int n = int n" "n < 2 ^ 31 \<Longrightarrow> c_int64 n = int n"
  by (simp_all add: c_int_def c_int64_def signed_of_nat signed_take_bit_int_eq_self)

text \<open>\<open>rt\<close> is the value returned when nothing is left.\<close>

function fix_size_loop :: "'s mover \<Rightarrow> int \<Rightarrow> int \<Rightarrow> int \<Rightarrow> 's \<Rightarrow> ByteArray \<Rightarrow> error + int \<times> 's \<times> ByteArray" where
  "fix_size_loop mv mx rt left s ba =
     (if \<not> left > 0 then Inr (rt, s, ba)
      else case mv (nat (min left mx)) s ba of
        Inl e \<Rightarrow> Inl e
      | Inr (n, s', ba') \<Rightarrow>
          if n \<le> 0 then Inr (n, s', ba') else fix_size_loop mv mx rt (left - n) s' ba')"
  by pat_completeness auto
termination
  by (relation "measure (\<lambda>(mv, mx, rt, left, s, ba). nat left)") auto

declare fix_size_loop.simps [simp del]

definition readFixSize :: "'s mover \<Rightarrow> int \<Rightarrow> nat \<Rightarrow> 's \<Rightarrow> ByteArray \<Rightarrow> error + int \<times> 's \<times> ByteArray" where
  "readFixSize rd mx len s ba = fix_size_loop rd mx (c_int len) (c_int64 len) s ba"

definition writeFixSize :: "'s mover \<Rightarrow> int \<Rightarrow> nat \<Rightarrow> 's \<Rightarrow> ByteArray \<Rightarrow> error + int \<times> 's \<times> ByteArray" where
  "writeFixSize wr mx len s ba = fix_size_loop wr mx (c_int len) (c_int64 len) s ba"

text \<open>
  The overloads on raw memory. A reader returns the bytes it stored; the buffer holds what earlier
  rounds stored, followed by them. A writer is given the bytes from the current offset on.
\<close>

type_synonym 's raw_reader = "nat \<Rightarrow> 's \<Rightarrow> int \<times> bytes \<times> 's"
type_synonym 's raw_writer = "bytes \<Rightarrow> 's \<Rightarrow> int \<times> 's"

function read_raw_loop :: "'s raw_reader \<Rightarrow> int \<Rightarrow> int \<Rightarrow> int \<Rightarrow> bytes \<Rightarrow> 's \<Rightarrow> int \<times> bytes \<times> 's" where
  "read_raw_loop rd mx rt left buf s =
     (if \<not> left > 0 then (rt, buf, s)
      else case rd (nat (min left mx)) s of
        (n, bs, s') \<Rightarrow> if n \<le> 0 then (n, buf, s') else read_raw_loop rd mx rt (left - n) (buf @ bs) s')"
  by pat_completeness auto
termination
  by (relation "measure (\<lambda>(rd, mx, rt, left, buf, s). nat left)") auto

function write_raw_loop :: "'s raw_writer \<Rightarrow> int \<Rightarrow> int \<Rightarrow> bytes \<Rightarrow> 's \<Rightarrow> int \<times> 's" where
  "write_raw_loop wr mx rt buf s =
     (if buf = [] then (rt, s)
      else case wr (take (nat (min (int (length buf)) mx)) buf) s of
        (n, s') \<Rightarrow> if n \<le> 0 then (n, s') else write_raw_loop wr mx rt (drop (nat n) buf) s')"
  by pat_completeness auto
termination
  by (relation "measure (\<lambda>(wr, mx, rt, buf, s). length buf)") auto

declare read_raw_loop.simps [simp del] write_raw_loop.simps [simp del]

definition readFixSize_raw :: "'s raw_reader \<Rightarrow> int \<Rightarrow> nat \<Rightarrow> 's \<Rightarrow> int \<times> bytes \<times> 's" where
  "readFixSize_raw rd mx len s = read_raw_loop rd mx (c_int len) (c_int64 len) [] s"

definition writeFixSize_raw :: "'s raw_writer \<Rightarrow> int \<Rightarrow> bytes \<Rightarrow> 's \<Rightarrow> int \<times> 's" where
  "writeFixSize_raw wr mx buf s = write_raw_loop wr mx (c_int (length buf)) buf s"

section \<open>What a connection does\<close>

text \<open>\<open>inc s\<close> are the bytes the peer has sent and the stream has not read yet.\<close>

definition delivers :: "'s mover \<Rightarrow> ('s \<Rightarrow> bytes) \<Rightarrow> bool" where
  "delivers rd inc \<longleftrightarrow>
     (\<forall>n s ba. ba_wf ba \<longrightarrow> 0 < n \<longrightarrow>
        (if inc s = []
         then \<exists>rt s' ba'. rt \<le> 0 \<and> rd n s ba = Inr (rt, s', ba') \<and> ba_wf ba' \<and> ba_abs ba' = ba_abs ba
         else \<exists>k s' ba'. 0 < k \<and> k \<le> n \<and> k \<le> length (inc s) \<and> rd n s ba = Inr (int k, s', ba') \<and>
                inc s' = drop k (inc s) \<and> ba_wf ba' \<and>
                ba_abs ba' = spec_write (take k (inc s)) (ba_abs ba) \<and>
                m_endian ba' = m_endian ba \<and> m_baseSize ba' = m_baseSize ba))"

text \<open>\<open>out s\<close> are the bytes handed to the peer so far, \<open>up s\<close> says that the connection is up.\<close>

definition absorbs :: "'s mover \<Rightarrow> ('s \<Rightarrow> bool) \<Rightarrow> ('s \<Rightarrow> bytes) \<Rightarrow> bool" where
  "absorbs wr up out \<longleftrightarrow>
     (\<forall>n s ba. ba_wf ba \<longrightarrow> 0 < n \<longrightarrow> unread ba \<noteq> [] \<longrightarrow> up s \<longrightarrow>
        (\<exists>k s' ba'. up s' \<and> 0 < k \<and> k \<le> n \<and> k \<le> length (unread ba) \<and> wr n s ba = Inr (int k, s', ba') \<and>
           out s' = out s @ take k (unread ba) \<and> ba_wf ba' \<and>
           ba_abs ba' = (data ba, m_position ba + k)))"

lemma delivers_step:
  assumes "delivers rd inc" and "ba_wf ba" and "0 < n" and "inc s \<noteq> []"
  obtains k s' ba' where "0 < k" "k \<le> n" "k \<le> length (inc s)" "rd n s ba = Inr (int k, s', ba')"
    "inc s' = drop k (inc s)" "ba_wf ba'" "ba_abs ba' = spec_write (take k (inc s)) (ba_abs ba)"
    "m_endian ba' = m_endian ba" "m_baseSize ba' = m_baseSize ba"
  using assms unfolding delivers_def by metis

lemma absorbs_step:
  assumes "absorbs wr up out" and "ba_wf ba" and "0 < n" and "unread ba \<noteq> []" and "up s"
  obtains k s' ba' where "up s'" "0 < k" "k \<le> n" "k \<le> length (unread ba)" "wr n s ba = Inr (int k, s', ba')"
    "out s' = out s @ take k (unread ba)" "ba_wf ba'" "ba_abs ba' = (data ba, m_position ba + k)"
  using assms unfolding absorbs_def by metis

lemma fix_size_loop_reads:
  assumes "delivers rd inc" and "0 < mx" and "ba_wf ba" and "left \<le> length (inc s)"
  shows "\<exists>s' ba'. fix_size_loop rd mx rt (int left) s ba = Inr (rt, s', ba') \<and>
           inc s' = drop left (inc s) \<and> ba_wf ba' \<and>
           ba_abs ba' = spec_write (take left (inc s)) (ba_abs ba) \<and>
           m_endian ba' = m_endian ba \<and> m_baseSize ba' = m_baseSize ba"
  using assms(3,4)
proof (induction left arbitrary: s ba rule: less_induct)
  case (less left)
  show ?case
  proof (cases "left = 0")
    case True
    then show ?thesis
      using less.prems by (cases "ba_abs ba") (simp add: fix_size_loop.simps spec_write_def)
  next
    case False
    let ?n = "nat (min (int left) mx)"
    have n: "0 < ?n" "?n \<le> left" using False assms(2) by auto
    have "inc s \<noteq> []" using False less.prems(2) by auto
    from delivers_step [OF assms(1) less.prems(1) n(1) this] obtain k s1 ba1 where
      k: "0 < k" "k \<le> ?n" "k \<le> length (inc s)" "rd ?n s ba = Inr (int k, s1, ba1)"
      "inc s1 = drop k (inc s)" "ba_wf ba1" "ba_abs ba1 = spec_write (take k (inc s)) (ba_abs ba)"
      "m_endian ba1 = m_endian ba" "m_baseSize ba1 = m_baseSize ba" by blast
    have le: "k \<le> left" using k(2) n(2) by simp
    have IH: "\<exists>s' ba'. fix_size_loop rd mx rt (int (left - k)) s1 ba1 = Inr (rt, s', ba') \<and>
           inc s' = drop (left - k) (inc s1) \<and> ba_wf ba' \<and>
           ba_abs ba' = spec_write (take (left - k) (inc s1)) (ba_abs ba1) \<and>
           m_endian ba' = m_endian ba1 \<and> m_baseSize ba' = m_baseSize ba1"
      using le k(1,5) less.prems(2) by (intro less.IH [OF _ k(6)]) auto
    have step: "fix_size_loop rd mx rt (int left) s ba = fix_size_loop rd mx rt (int (left - k)) s1 ba1"
      using False k(1,4) le by (subst fix_size_loop.simps) (simp add: of_nat_diff)
    have app: "take k (inc s) @ take (left - k) (drop k (inc s)) = take left (inc s)"
      using le by (metis le_add_diff_inverse take_add)
    have "spec_write (take (left - k) (inc s1)) (ba_abs ba1) = spec_write (take left (inc s)) (ba_abs ba)"
      using ba_abs_bound [OF less.prems(1)]
      by (cases "ba_abs ba") (simp add: k(5,7) spec_write_append app)
    with IH k(5,8,9) le show ?thesis unfolding step by simp
  qed
qed

lemma fix_size_loop_writes:
  assumes "absorbs wr up out" and "0 < mx" and "ba_wf ba" and "left \<le> length (unread ba)" and "up s"
  shows "\<exists>s' ba'. fix_size_loop wr mx rt (int left) s ba = Inr (rt, s', ba') \<and> up s' \<and>
           out s' = out s @ take left (unread ba) \<and> ba_wf ba' \<and>
           ba_abs ba' = (data ba, m_position ba + left)"
  using assms(3-5)
proof (induction left arbitrary: s ba rule: less_induct)
  case (less left)
  show ?case
  proof (cases "left = 0")
    case True
    then show ?thesis using less.prems by (simp add: fix_size_loop.simps ba_abs_def)
  next
    case False
    let ?n = "nat (min (int left) mx)"
    have n: "0 < ?n" "?n \<le> left" using False assms(2) by auto
    have "unread ba \<noteq> []" using False less.prems(2) by auto
    from absorbs_step [OF assms(1) less.prems(1) n(1) this less.prems(3)] obtain k s1 ba1 where
      up: "up s1" and k: "0 < k" "k \<le> ?n" "k \<le> length (unread ba)" "wr ?n s ba = Inr (int k, s1, ba1)"
      "out s1 = out s @ take k (unread ba)" "ba_wf ba1" "ba_abs ba1 = (data ba, m_position ba + k)" by blast
    have le: "k \<le> left" using k(2) n(2) by simp
    have u1: "unread ba1 = drop k (unread ba)"
      using k(7) by (simp add: unread_def ba_abs_def add.commute)
    have IH: "\<exists>s' ba'. fix_size_loop wr mx rt (int (left - k)) s1 ba1 = Inr (rt, s', ba') \<and> up s' \<and>
           out s' = out s1 @ take (left - k) (unread ba1) \<and> ba_wf ba' \<and>
           ba_abs ba' = (data ba1, m_position ba1 + (left - k))"
      using le k(1) u1 up less.prems(2) by (intro less.IH [OF _ k(6)]) auto
    have step: "fix_size_loop wr mx rt (int left) s ba = fix_size_loop wr mx rt (int (left - k)) s1 ba1"
      using False k(1,4) le by (subst fix_size_loop.simps) (simp add: of_nat_diff)
    have app: "take k (unread ba) @ take (left - k) (drop k (unread ba)) = take left (unread ba)"
      using le by (metis le_add_diff_inverse take_add)
    with IH k(5,7) le u1 show ?thesis unfolding step by (simp add: ba_abs_def)
  qed
qed

text \<open>The same for raw memory.\<close>

definition delivers_raw :: "'s raw_reader \<Rightarrow> ('s \<Rightarrow> bytes) \<Rightarrow> bool" where
  "delivers_raw rd inc \<longleftrightarrow>
     (\<forall>n s. 0 < n \<longrightarrow>
        (if inc s = [] then \<exists>rt s'. rt \<le> 0 \<and> rd n s = (rt, [], s')
         else \<exists>k s'. 0 < k \<and> k \<le> n \<and> k \<le> length (inc s) \<and> rd n s = (int k, take k (inc s), s') \<and>
                inc s' = drop k (inc s)))"

definition absorbs_raw :: "'s raw_writer \<Rightarrow> ('s \<Rightarrow> bool) \<Rightarrow> ('s \<Rightarrow> bytes) \<Rightarrow> bool" where
  "absorbs_raw wr up out \<longleftrightarrow>
     (\<forall>bs s. bs \<noteq> [] \<longrightarrow> up s \<longrightarrow>
        (\<exists>k s'. up s' \<and> 0 < k \<and> k \<le> length bs \<and> wr bs s = (int k, s') \<and> out s' = out s @ take k bs))"

lemma read_raw_loop_reads:
  assumes "delivers_raw rd inc" and "0 < mx" and "left \<le> length (inc s)"
  shows "\<exists>s'. read_raw_loop rd mx rt (int left) buf s = (rt, buf @ take left (inc s), s') \<and>
           inc s' = drop left (inc s)"
  using assms(3)
proof (induction left arbitrary: s buf rule: less_induct)
  case (less left)
  show ?case
  proof (cases "left = 0")
    case True
    then show ?thesis by (simp add: read_raw_loop.simps)
  next
    case False
    let ?n = "nat (min (int left) mx)"
    have n: "0 < ?n" "?n \<le> left" using False assms(2) by auto
    have "inc s \<noteq> []" using False less.prems by auto
    then obtain k s1 where k: "0 < k" "k \<le> ?n" "k \<le> length (inc s)"
      "rd ?n s = (int k, take k (inc s), s1)" "inc s1 = drop k (inc s)"
      using assms(1) n(1) unfolding delivers_raw_def by metis
    have le: "k \<le> left" using k(2) n(2) by simp
    have step: "read_raw_loop rd mx rt (int left) buf s =
        read_raw_loop rd mx rt (int (left - k)) (buf @ take k (inc s)) s1"
      using False k(1,4) le by (subst read_raw_loop.simps) (simp add: of_nat_diff)
    have "take k (inc s) @ take (left - k) (drop k (inc s)) = take left (inc s)"
      using le by (metis le_add_diff_inverse take_add)
    with less.IH [of "left - k" s1 "buf @ take k (inc s)"] less.prems k(1,5) le show ?thesis
      unfolding step by auto
  qed
qed

lemma write_raw_loop_writes:
  assumes "absorbs_raw wr up out" and "0 < mx" and "up s"
  shows "\<exists>s'. write_raw_loop wr mx rt buf s = (rt, s') \<and> up s' \<and> out s' = out s @ buf"
  using assms(3)
proof (induction buf arbitrary: s rule: length_induct)
  case (1 buf)
  show ?case
  proof (cases "buf = []")
    case True
    then show ?thesis using 1 by (simp add: write_raw_loop.simps)
  next
    case False
    let ?bs = "take (nat (min (int (length buf)) mx)) buf"
    have "?bs \<noteq> []" using False assms(2) by (auto simp: min_def split: if_splits)
    then obtain k s1 where k: "up s1" "0 < k" "k \<le> length ?bs" "wr ?bs s = (int k, s1)"
      "out s1 = out s @ take k ?bs"
      using assms(1) 1(2) unfolding absorbs_raw_def by metis
    have tk: "take k ?bs = take k buf" using k(3) by (simp add: min_absorb1)
    have step: "write_raw_loop wr mx rt buf s = write_raw_loop wr mx rt (drop k buf) s1"
      using False k(2,4) by (subst write_raw_loop.simps) simp
    have "length (drop k buf) < length buf" using k(2) False by simp
    with 1(1) k(1,5) tk show ?thesis unfolding step by fastforce
  qed
qed

section \<open>The contract of a stream\<close>

locale byte_stream =
  fixes rd :: "'s mover" and wr :: "'s mover" and up :: "'s \<Rightarrow> bool"
    and inc :: "'s \<Rightarrow> bytes" and out :: "'s \<Rightarrow> bytes" and mx :: int
  assumes read_law: "delivers rd inc" and write_law: "absorbs wr up out" and mx_pos: "0 < mx"
begin

lemma read_exact:
  assumes "ba_wf ba" and "n \<le> length (inc s)" and "n < 2 ^ 31"
  obtains s' ba' where "readFixSize rd mx n s ba = Inr (int n, s', ba')" "inc s' = drop n (inc s)"
    "ba_wf ba'" "ba_abs ba' = spec_write (take n (inc s)) (ba_abs ba)" "m_endian ba' = m_endian ba"
    "m_baseSize ba' = m_baseSize ba"
  using fix_size_loop_reads [OF read_law mx_pos assms(1,2), of "int n"] c_int_small [OF assms(3)]
  unfolding readFixSize_def by auto

lemma write_exact:
  assumes "ba_wf ba" and "n \<le> length (unread ba)" and "up s" and "n < 2 ^ 31"
  obtains s' ba' where "writeFixSize wr mx n s ba = Inr (int n, s', ba')" "up s'"
    "out s' = out s @ take n (unread ba)" "ba_wf ba'" "ba_abs ba' = (data ba, m_position ba + n)"
  using fix_size_loop_writes [OF write_law mx_pos assms(1-3), of "int n"] c_int_small [OF assms(4)]
  unfolding writeFixSize_def by auto

end

text \<open>The contract of the overloads on raw memory.\<close>

locale raw_stream =
  fixes rd :: "'s raw_reader" and wr :: "'s raw_writer" and up :: "'s \<Rightarrow> bool"
    and inc :: "'s \<Rightarrow> bytes" and out :: "'s \<Rightarrow> bytes" and mx :: int
  assumes raw_read_law: "delivers_raw rd inc" and raw_write_law: "absorbs_raw wr up out" and raw_mx_pos: "0 < mx"
begin

lemma raw_read_exact:
  assumes "inc s = bs @ rest" and "length bs < 2 ^ 31"
  obtains s' where "readFixSize_raw rd mx (length bs) s = (int (length bs), bs, s')" "inc s' = rest"
  using read_raw_loop_reads [OF raw_read_law raw_mx_pos, of "length bs" s "int (length bs)" "[]"]
    c_int_small [OF assms(2)] assms(1) unfolding readFixSize_raw_def by auto

lemma raw_write_exact:
  assumes "up s" and "length bs < 2 ^ 31"
  obtains s' where "writeFixSize_raw wr mx bs s = (int (length bs), s')" "up s'" "out s' = out s @ bs"
  using write_raw_loop_writes [OF raw_write_law raw_mx_pos assms(1), of "int (length bs)" bs]
    c_int_small [OF assms(2)] unfolding writeFixSize_raw_def by auto

end

end
