(* ===== verification/SocketStream.thy ===== *)
theory SocketStream
  imports ByteArrayViews Streams
begin

text \<open>
  \<^verbatim>\<open>src/chat/streams/socket_stream.cc\<close> and the data transfer of \<open>Socket\<close> in \<^verbatim>\<open>src/chat/socket.cc\<close>: a
  stream over a connected socket. The operating system is a parameter: \<open>recvmsg n\<close> gives the result
  of the call for buffers of \<open>n\<close> bytes together with the bytes it stored, \<open>sendmsg bs\<close> the result
  for the gathered bytes. \<open>scatter\<close> is how the kernel fills the buffers of a call, in their order.
  The theory proves that the two virtual methods give a stream that delivers and absorbs bytes.
\<close>

section \<open>Sockets\<close>

type_synonym 'k recvmsg = "nat \<Rightarrow> 'k \<Rightarrow> int \<times> bytes \<times> 'k"
type_synonym 'k sendmsg = "bytes \<Rightarrow> 'k \<Rightarrow> int \<times> 'k"

record 'k Socket =
  m_isConnected :: bool
  m_sock :: 'k

fun scatter :: "iovec list \<Rightarrow> bytes \<Rightarrow> bytes list \<Rightarrow> bytes list" where
  "scatter [] bs nodes = nodes"
| "scatter (v # vs) bs nodes =
     (let k = min (iov_len v) (length bs) in
      scatter vs (drop k bs)
        (nodes[iov_node v := blit (iov_off v) (take k bs) (nodes ! iov_node v)]))"

text \<open>The overloads of \<open>Socket::recv\<close> and \<open>Socket::send\<close> for one buffer and for a vector of them.\<close>

definition Socket_recv :: "'k recvmsg \<Rightarrow> nat \<Rightarrow> 'k Socket \<Rightarrow> int \<times> bytes \<times> 'k Socket" where
  "Socket_recv recvmsg n sock =
     (if m_isConnected sock
      then let (rt, bs, k) = recvmsg n (m_sock sock) in (rt, bs, sock\<lparr>m_sock := k\<rparr>)
      else (-1, [], sock))"

definition Socket_recv_iov ::
    "'k recvmsg \<Rightarrow> iovec list \<Rightarrow> 'k Socket \<Rightarrow> bytes list \<Rightarrow> int \<times> 'k Socket \<times> bytes list" where
  "Socket_recv_iov recvmsg iovs sock nodes =
     (if m_isConnected sock
      then let (rt, bs, k) = recvmsg (sum_list (map iov_len iovs)) (m_sock sock)
           in (rt, sock\<lparr>m_sock := k\<rparr>, scatter iovs bs nodes)
      else (-1, sock, nodes))"

definition Socket_send :: "'k sendmsg \<Rightarrow> bytes \<Rightarrow> 'k Socket \<Rightarrow> int \<times> 'k Socket" where
  "Socket_send sendmsg bs sock =
     (if m_isConnected sock
      then let (rt, k) = sendmsg bs (m_sock sock) in (rt, sock\<lparr>m_sock := k\<rparr>)
      else (-1, sock))"

definition Socket_send_iov ::
    "'k sendmsg \<Rightarrow> iovec list \<Rightarrow> bytes list \<Rightarrow> 'k Socket \<Rightarrow> int \<times> 'k Socket" where
  "Socket_send_iov sendmsg iovs nodes sock =
     (if m_isConnected sock
      then let (rt, k) = sendmsg (gather nodes iovs) (m_sock sock) in (rt, sock\<lparr>m_sock := k\<rparr>)
      else (-1, sock))"

section \<open>The stream\<close>

text \<open>\<open>m_socket\<close> may be null.\<close>

record 'k SocketStream =
  m_socket :: "'k Socket option"

definition SocketStream_isConnected :: "'k SocketStream \<Rightarrow> bool" where
  "SocketStream_isConnected ss = (case m_socket ss of None \<Rightarrow> False | Some sock \<Rightarrow> m_isConnected sock)"

definition SocketStream_read_raw ::
    "'k recvmsg \<Rightarrow> nat \<Rightarrow> 'k SocketStream \<Rightarrow> int \<times> bytes \<times> 'k SocketStream" where
  "SocketStream_read_raw recvmsg n ss =
     (case m_socket ss of
        None \<Rightarrow> (-1, [], ss)
      | Some sock \<Rightarrow>
          if \<not> m_isConnected sock then (-1, [], ss)
          else let (rt, bs, sock') = Socket_recv recvmsg n sock
               in (rt, bs, ss\<lparr>m_socket := Some sock'\<rparr>))"

definition SocketStream_read :: "'k recvmsg \<Rightarrow> 'k SocketStream mover" where
  "SocketStream_read recvmsg n ss ba =
     (case m_socket ss of
        None \<Rightarrow> Inr (-1, ss, ba)
      | Some sock \<Rightarrow>
          if \<not> m_isConnected sock then Inr (-1, ss, ba)
          else (case getWriteBuffers [] n ba of
             Inl e \<Rightarrow> Inl e
           | Inr ((_, iovs), ba1) \<Rightarrow>
               let (rt, sock', nodes) = Socket_recv_iov recvmsg iovs sock (m_nodes ba1);
                   ss' = ss\<lparr>m_socket := Some sock'\<rparr>; ba2 = ba1\<lparr>m_nodes := nodes\<rparr>
               in if rt > 0
                  then map_sum id (\<lambda>(_, ba3). (rt, ss', ba3)) (setPosition (getPosition ba2 + nat rt) ba2)
                  else Inr (rt, ss', ba2)))"

definition SocketStream_write_raw ::
    "'k sendmsg \<Rightarrow> bytes \<Rightarrow> 'k SocketStream \<Rightarrow> int \<times> 'k SocketStream" where
  "SocketStream_write_raw sendmsg bs ss =
     (case m_socket ss of
        None \<Rightarrow> (-1, ss)
      | Some sock \<Rightarrow>
          if \<not> m_isConnected sock then (-1, ss)
          else let (rt, sock') = Socket_send sendmsg bs sock in (rt, ss\<lparr>m_socket := Some sock'\<rparr>))"

definition SocketStream_write :: "'k sendmsg \<Rightarrow> 'k SocketStream mover" where
  "SocketStream_write sendmsg n ss ba =
     (case m_socket ss of
        None \<Rightarrow> Inr (-1, ss, ba)
      | Some sock \<Rightarrow>
          if \<not> m_isConnected sock then Inr (-1, ss, ba)
          else (case getReadBuffers [] n ba of
             Inl e \<Rightarrow> Inl e
           | Inr (_, iovs) \<Rightarrow>
               let (rt, sock') = Socket_send_iov sendmsg iovs (m_nodes ba) sock;
                   ss' = ss\<lparr>m_socket := Some sock'\<rparr>
               in if rt > 0
                  then map_sum id (\<lambda>(_, ba1). (rt, ss', ba1)) (setPosition (getPosition ba + nat rt) ba)
                  else Inr (rt, ss', ba)))"

section \<open>Receiving into the buffers of the array\<close>

lemma scatter_iov_loop:
  assumes "0 < b" and "blocks_of b ns" and "c < length ns" and "npos < b"
    and "c * b + npos + len \<le> b * length ns" and "0 < len"
    and "iov_loop ns len npos (b - npos) (Some c) = Inr vs"
    and "blocks_of b nodes" and "length nodes = length ns" and "length bs \<le> len"
  shows "concat (scatter vs bs nodes) = blit (c * b + npos) bs (concat nodes) \<and>
         blocks_of b (scatter vs bs nodes) \<and> length (scatter vs bs nodes) = length ns"
  using assms
proof (induction "length ns - c" arbitrary: len npos c vs bs nodes rule: less_induct)
  case less
  note p = less.prems
  have c: "c < length nodes" using p(3,9) by simp
  have blk: "length (nodes ! c) = b" using p(8) c by (rule blocks_of_nth)
  show ?case
  proof (cases "len \<le> b - npos")
    case True
    then have fit: "npos + length bs \<le> b" using p(4,10) by simp
    have "vs = [\<lparr>iov_node = c, iov_off = npos, iov_len = len\<rparr>]"
      using p(3,6,7) True by (simp add: iov_loop.simps [of ns len])
    then show ?thesis
      using p(8,9,10) blk fit blit_concat_blocks [OF p(8) c fit]
      by (simp add: blocks_of_update min_absorb2)
  next
    case False
    define k where "k = b - npos"
    have c': "Suc c < length ns" using p(4,5) False by (intro next_block [of npos b c len]) simp_all
    obtain vs' where vs: "vs = \<lparr>iov_node = c, iov_off = npos, iov_len = k\<rparr> # vs'"
      and loop: "iov_loop ns (len - k) 0 (b - 0) (Some (Suc c)) = Inr vs'"
      using p(3,6,7) False c' blocks_of_nth [OF p(2) c']
      by (cases "iov_loop ns (len - (b - npos)) 0 b (Some (Suc c))")
        (auto simp: iov_loop.simps [of ns len npos] next_node_def k_def)
    let ?m = "min k (length bs)"
    define nodes' where "nodes' = nodes[c := blit npos (take ?m bs) (nodes ! c)]"
    have fit: "npos + length (take ?m bs) \<le> b" using p(4) by (simp add: k_def)
    have n': "blocks_of b nodes'" "length nodes' = length ns"
      "concat nodes' = blit (c * b + npos) (take ?m bs) (concat nodes)"
      using p(8,9) blk fit blit_concat_blocks [OF p(8) c fit] by (simp_all add: nodes'_def blocks_of_update)
    have pos: "Suc c * b + 0 = c * b + npos + k" using p(4) by (simp add: k_def)
    have "concat (scatter vs' (drop ?m bs) nodes') = blit (Suc c * b + 0) (drop ?m bs) (concat nodes') \<and>
         blocks_of b (scatter vs' (drop ?m bs) nodes') \<and> length (scatter vs' (drop ?m bs) nodes') = length ns"
      using p(1,2,4,5,10) c' False pos n' by (intro less.hyps [OF _ _ _ _ _ _ _ loop]) (auto simp: k_def)
    moreover have "blit (Suc c * b + 0) (drop ?m bs) (concat nodes') = blit (c * b + npos) bs (concat nodes)"
    proof (cases "length bs \<le> k")
      case True
      then show ?thesis by (simp add: n'(3) min_absorb2)
    next
      case more: False
      then show ?thesis
        using blit_append [of "c * b + npos" "take k bs" "drop k bs" "concat nodes"] p(5,8,9,10)
        unfolding pos by (simp add: n'(3) min_absorb1 length_concat_blocks)
    qed
    ultimately show ?thesis by (simp add: vs Let_def nodes'_def)
  qed
qed

lemma scatter_Nil [simp]: "scatter vs [] nodes = nodes"
  by (induction vs arbitrary: nodes) simp_all

lemma recv_buffers:
  assumes wf: "ba_wf ba" and n: "0 < n"
  obtains iovs ba1 where "getWriteBuffers [] n ba = Inr ((n, iovs), ba1)" "sum_list (map iov_len iovs) = n"
    "ba_wf ba1" "ba_abs ba1 = ba_abs ba"
    "\<And>bs. length bs \<le> n \<Longrightarrow>
       \<exists>ba3. setPosition (getPosition ba1 + length bs) (ba1\<lparr>m_nodes := scatter iovs bs (m_nodes ba1)\<rparr>) = Inr ((), ba3) \<and>
         ba_wf ba3 \<and> ba_abs ba3 = spec_write bs (ba_abs ba) \<and> m_endian ba3 = m_endian ba \<and>
         m_baseSize ba3 = m_baseSize ba"
proof -
  define ba1 where "ba1 = addCapacity n ba"
  have wf1: "ba_wf ba1" and room: "m_position ba1 + n \<le> m_capacity ba1"
    using addCapacity_wf(1,2) [OF wf] by (simp_all add: ba1_def)
  obtain fresh where fresh: "mem ba1 = mem ba @ fresh"
    using addCapacity_wf(3) [OF wf] by (auto simp: ba1_def)
  note w = ba_wfD [OF wf] and w1 = ba_wfD [OF wf1]
  have fr: "m_position ba1 = m_position ba" "m_size ba1 = m_size ba" "m_baseSize ba1 = m_baseSize ba"
    "m_endian ba1 = m_endian ba" by (simp_all add: ba1_def)
  have "m_position ba1 < m_capacity ba1" using room n by simp
  note c = cur_block [OF wf1 this]
  let ?b = "m_baseSize ba1" and ?ns = "m_nodes ba1"
  let ?c = "m_position ba1 div ?b" and ?p = "m_position ba1 mod ?b"
  obtain vs where vs: "iov_from ba1 n ?p (m_cur ba1) = Inr vs" "sum_list (map iov_len vs) = n"
    using iov_from_ok [OF wf1 room n] by metis
  have loop: "iov_loop ?ns n ?p (?b - ?p) (Some ?c) = Inr vs" using vs(1) c by (simp add: iov_from_def)
  have get: "getWriteBuffers [] n ba = Inr ((n, vs), ba1)"
    using n vs(1) w(1) fr by (simp add: getWriteBuffers_def ba1_def [symmetric] Let_def)
  have abs1: "ba_abs ba1 = ba_abs ba" using w(6,8) fr by (simp add: ba_abs_def data_def fresh)
  show ?thesis
  proof (rule that [OF get vs(2) wf1 abs1])
    fix bs :: bytes assume len: "length bs \<le> n"
    define ba2 where "ba2 = ba1\<lparr>m_nodes := scatter vs bs ?ns\<rparr>"
    have sc: "concat (scatter vs bs ?ns) = blit (m_position ba1) bs (mem ba1)"
      "blocks_of ?b (scatter vs bs ?ns)" "length (scatter vs bs ?ns) = length ?ns"
      using scatter_iov_loop [OF w1(1,3) c(2,3) _ n loop w1(3) refl len] room w1(4) c(4) by (simp_all add: mem_def)
    have "scatter vs bs ?ns \<noteq> []" using sc(3) w1(2) by auto
    then have wf2: "ba_wf ba2" using w1 sc(2,3) by (simp add: ba_wf_def ba2_def)
    have le: "m_position ba1 + length bs \<le> m_capacity ba2" using room len by (simp add: ba2_def)
    have "mem ba2 = blit (m_position ba) bs (mem ba @ fresh)"
      using sc(1) fr(1) by (subst mem_def) (simp add: ba2_def fresh)
    then have "take (max (m_size ba) (m_position ba + length bs)) (mem ba2) =
        take (m_position ba) (data ba) @ bs @ drop (m_position ba + length bs) (data ba)"
      using take_blit_ge [of "m_position ba" "m_size ba" "mem ba @ fresh" bs] room len w(5,6,8) w1(8) fr
      by (simp add: data_def fresh min_absorb1)
    then show "\<exists>ba3. setPosition (getPosition ba1 + length bs) (ba1\<lparr>m_nodes := scatter vs bs ?ns\<rparr>) = Inr ((), ba3) \<and>
         ba_wf ba3 \<and> ba_abs ba3 = spec_write bs (ba_abs ba) \<and> m_endian ba3 = m_endian ba \<and>
         m_baseSize ba3 = m_baseSize ba"
      using setPosition_ok [OF wf2 le] fr
      by (simp add: ba2_def [symmetric] getPosition_def ba_abs_def spec_write_def data_def mem_def)
        (simp add: ba2_def)
  qed
qed

section \<open>The stream delivers and absorbs\<close>

text \<open>
  What the code relies on: a receive on a connected socket waits for data, returns a positive number of
  the bytes that arrived, in order, or no positive number when the peer has closed or failed; a send
  of at least one byte takes a positive number of the bytes.
\<close>

definition receives :: "'k recvmsg \<Rightarrow> ('k \<Rightarrow> bytes) \<Rightarrow> bool" where
  "receives recvmsg inc \<longleftrightarrow>
     (\<forall>n k rt bs k'. 0 < n \<longrightarrow> recvmsg n k = (rt, bs, k') \<longrightarrow>
        (if inc k = [] then rt \<le> 0 \<and> bs = []
         else 0 < rt \<and> rt \<le> int n \<and> rt \<le> int (length (inc k)) \<and> bs = take (nat rt) (inc k) \<and>
              inc k' = drop (nat rt) (inc k)))"

definition sends :: "'k sendmsg \<Rightarrow> ('k \<Rightarrow> bytes) \<Rightarrow> bool" where
  "sends sendmsg out \<longleftrightarrow>
     (\<forall>bs k rt k'. bs \<noteq> [] \<longrightarrow> sendmsg bs k = (rt, k') \<longrightarrow>
        0 < rt \<and> rt \<le> int (length bs) \<and> out k' = out k @ take (nat rt) bs)"

text \<open>The bytes a stream has still to receive and those it has sent.\<close>

definition stream_in :: "('k \<Rightarrow> bytes) \<Rightarrow> 'k SocketStream \<Rightarrow> bytes" where
  "stream_in inc ss = (case m_socket ss of
     Some sock \<Rightarrow> if m_isConnected sock then inc (m_sock sock) else [] | None \<Rightarrow> [])"

definition stream_out :: "('k \<Rightarrow> bytes) \<Rightarrow> 'k SocketStream \<Rightarrow> bytes" where
  "stream_out out ss = (case m_socket ss of Some sock \<Rightarrow> out (m_sock sock) | None \<Rightarrow> [])"

lemma SocketStream_read_delivers:
  assumes "receives recvmsg inc"
  shows "delivers (SocketStream_read recvmsg) (stream_in inc)"
  unfolding delivers_def
proof (intro allI impI)
  fix n :: nat and ss :: "'a SocketStream" and ba
  assume wf: "ba_wf ba" and n: "0 < n"
  let ?goal = "if stream_in inc ss = [] then \<exists>rt s' ba'. rt \<le> 0 \<and> SocketStream_read recvmsg n ss ba = Inr (rt, s', ba') \<and>
           ba_wf ba' \<and> ba_abs ba' = ba_abs ba
         else \<exists>k s' ba'. 0 < k \<and> k \<le> n \<and> k \<le> length (stream_in inc ss) \<and>
                SocketStream_read recvmsg n ss ba = Inr (int k, s', ba') \<and>
                stream_in inc s' = drop k (stream_in inc ss) \<and> ba_wf ba' \<and>
                ba_abs ba' = spec_write (take k (stream_in inc ss)) (ba_abs ba) \<and>
                m_endian ba' = m_endian ba \<and> m_baseSize ba' = m_baseSize ba"
  show ?goal
  proof (cases "SocketStream_isConnected ss")
    case False
    then show ?thesis
      using wf by (auto simp: stream_in_def SocketStream_isConnected_def SocketStream_read_def split: option.splits)
  next
    case True
    then obtain sock where sock: "m_socket ss = Some sock" "m_isConnected sock"
      by (auto simp: SocketStream_isConnected_def split: option.splits)
    obtain iovs ba1 where b: "getWriteBuffers [] n ba = Inr ((n, iovs), ba1)" "sum_list (map iov_len iovs) = n"
      "ba_wf ba1" "ba_abs ba1 = ba_abs ba"
      "\<And>bs. length bs \<le> n \<Longrightarrow>
       \<exists>ba3. setPosition (getPosition ba1 + length bs) (ba1\<lparr>m_nodes := scatter iovs bs (m_nodes ba1)\<rparr>) = Inr ((), ba3) \<and>
         ba_wf ba3 \<and> ba_abs ba3 = spec_write bs (ba_abs ba) \<and> m_endian ba3 = m_endian ba \<and>
         m_baseSize ba3 = m_baseSize ba"
      using recv_buffers [OF wf n] by blast
    obtain rt bs k' where r: "recvmsg n (m_sock sock) = (rt, bs, k')" by (metis prod_cases3)
    note law = assms [unfolded receives_def, rule_format, OF n r]
    have ins: "stream_in inc ss = inc (m_sock sock)" using sock by (simp add: stream_in_def)
    show ?thesis
    proof (cases "inc (m_sock sock) = []")
      case True
      then show ?thesis
        using law b sock r by (simp add: ins SocketStream_read_def Socket_recv_iov_def)
    next
      case False
      then have l: "0 < rt" "rt \<le> int n" "rt \<le> int (length (inc (m_sock sock)))"
        "bs = take (nat rt) (inc (m_sock sock))" "inc k' = drop (nat rt) (inc (m_sock sock))"
        using law by simp_all
      have len: "length bs = nat rt" "length bs \<le> n" using l(2,3,4) by simp_all
      then obtain ba3 where 3: "setPosition (getPosition ba1 + nat rt) (ba1\<lparr>m_nodes := scatter iovs bs (m_nodes ba1)\<rparr>)
          = Inr ((), ba3)" "ba_wf ba3" "ba_abs ba3 = spec_write bs (ba_abs ba)" "m_endian ba3 = m_endian ba"
         "m_baseSize ba3 = m_baseSize ba"
        using b(5) [of bs] by auto
      let ?ss = "ss\<lparr>m_socket := Some (sock\<lparr>m_sock := k'\<rparr>)\<rparr>"
      have "getPosition (ba1\<lparr>m_nodes := scatter iovs bs (m_nodes ba1)\<rparr>) = getPosition ba1"
        by (simp add: getPosition_def)
      then have "SocketStream_read recvmsg n ss ba = Inr (rt, ?ss, ba3)"
        using sock b(1,2) r l(1) 3(1) by (simp add: SocketStream_read_def Socket_recv_iov_def)
      moreover have "stream_in inc ?ss = drop (nat rt) (inc (m_sock sock))"
        using l(5) sock by (simp add: stream_in_def)
      ultimately have "0 < nat rt \<and> nat rt \<le> n \<and> nat rt \<le> length (stream_in inc ss) \<and>
                SocketStream_read recvmsg n ss ba = Inr (int (nat rt), ?ss, ba3) \<and>
                stream_in inc ?ss = drop (nat rt) (stream_in inc ss) \<and> ba_wf ba3 \<and>
                ba_abs ba3 = spec_write (take (nat rt) (stream_in inc ss)) (ba_abs ba) \<and>
                m_endian ba3 = m_endian ba \<and> m_baseSize ba3 = m_baseSize ba"
        using l 3 by (simp add: ins nat_le_iff)
      with False show ?thesis unfolding ins if_not_P [OF False] by blast
    qed
  qed
qed

lemma SocketStream_write_absorbs:
  assumes "sends sendmsg out"
  shows "absorbs (SocketStream_write sendmsg) SocketStream_isConnected (stream_out out)"
  unfolding absorbs_def
proof (intro allI impI)
  fix n :: nat and ss :: "'a SocketStream" and ba
  assume wf: "ba_wf ba" and n: "0 < n" and u: "unread ba \<noteq> []" and "SocketStream_isConnected ss"
  then obtain sock where sock: "m_socket ss = Some sock" "m_isConnected sock"
    by (auto simp: SocketStream_isConnected_def split: option.splits)
  obtain iovs where b: "getReadBuffers [] n ba = Inr (min n (length (unread ba)), iovs)"
    "gather (m_nodes ba) iovs = take n (unread ba)"
    using getReadBuffers_ok [OF wf, of "[]" n] by auto
  obtain rt k' where r: "sendmsg (take n (unread ba)) (m_sock sock) = (rt, k')" by (meson surj_pair)
  have "take n (unread ba) \<noteq> []" using n u by simp
  from assms [unfolded sends_def, rule_format, OF this r]
  have l: "0 < rt" "rt \<le> int (length (take n (unread ba)))"
    "out k' = out (m_sock sock) @ take (nat rt) (take n (unread ba))" by auto
  then have k: "nat rt \<le> n" "nat rt \<le> length (unread ba)" by auto
  let ?ss = "ss\<lparr>m_socket := Some (sock\<lparr>m_sock := k'\<rparr>)\<rparr>"
  have "m_position ba + nat rt \<le> m_size ba" using k(2) ba_wfD(5,10) [OF wf] by simp
  then obtain ba1 where 1: "setPosition (m_position ba + nat rt) ba = Inr ((), ba1)" "ba_wf ba1"
    "ba_abs ba1 = (data ba, m_position ba + nat rt)"
    using seek_back [OF wf] by metis
  have "SocketStream_write sendmsg n ss ba = Inr (rt, ?ss, ba1)"
    using sock b r l(1) 1(1) by (simp add: SocketStream_write_def Socket_send_iov_def getPosition_def)
  then have "SocketStream_isConnected ?ss \<and> 0 < nat rt \<and> nat rt \<le> n \<and> nat rt \<le> length (unread ba) \<and>
      SocketStream_write sendmsg n ss ba = Inr (int (nat rt), ?ss, ba1) \<and>
      stream_out out ?ss = stream_out out ss @ take (nat rt) (unread ba) \<and> ba_wf ba1 \<and>
      ba_abs ba1 = (data ba, m_position ba + nat rt)"
    using sock l k 1 by (simp add: SocketStream_isConnected_def stream_out_def min_absorb1)
  then show "\<exists>k s' ba'. SocketStream_isConnected s' \<and> 0 < k \<and> k \<le> n \<and> k \<le> length (unread ba) \<and>
      SocketStream_write sendmsg n ss ba = Inr (int k, s', ba') \<and>
      stream_out out s' = stream_out out ss @ take k (unread ba) \<and> ba_wf ba' \<and>
      ba_abs ba' = (data ba, m_position ba + k)" by blast
qed


lemma SocketStream_read_raw_delivers:
  assumes "receives recvmsg inc"
  shows "delivers_raw (SocketStream_read_raw recvmsg) (stream_in inc)"
  unfolding delivers_raw_def
proof (intro allI impI)
  fix n :: nat and ss :: "'a SocketStream" assume n: "0 < n"
  show "if stream_in inc ss = [] then \<exists>rt s'. rt \<le> 0 \<and> SocketStream_read_raw recvmsg n ss = (rt, [], s')
     else \<exists>k s'. 0 < k \<and> k \<le> n \<and> k \<le> length (stream_in inc ss) \<and>
            SocketStream_read_raw recvmsg n ss = (int k, take k (stream_in inc ss), s') \<and>
            stream_in inc s' = drop k (stream_in inc ss)"
  proof (cases "SocketStream_isConnected ss")
    case False
    then show ?thesis
      by (auto simp: stream_in_def SocketStream_isConnected_def SocketStream_read_raw_def split: option.splits)
  next
    case True
    then obtain sock where sock: "m_socket ss = Some sock" "m_isConnected sock"
      by (auto simp: SocketStream_isConnected_def split: option.splits)
    obtain rt bs k' where r: "recvmsg n (m_sock sock) = (rt, bs, k')" by (metis prod_cases3)
    note law = assms [unfolded receives_def, rule_format, OF n r]
    have ins: "stream_in inc ss = inc (m_sock sock)" using sock by (simp add: stream_in_def)
    let ?ss = "ss\<lparr>m_socket := Some (sock\<lparr>m_sock := k'\<rparr>)\<rparr>"
    have eq: "SocketStream_read_raw recvmsg n ss = (rt, bs, ?ss)"
      using sock r by (simp add: SocketStream_read_raw_def Socket_recv_def)
    have ins': "stream_in inc ?ss = inc k'" using sock by (simp add: stream_in_def)
    show ?thesis
    proof (cases "inc (m_sock sock) = []")
      case True
      with law eq show ?thesis by (simp add: ins)
    next
      case False
      then have "0 < nat rt \<and> nat rt \<le> n \<and> nat rt \<le> length (stream_in inc ss) \<and>
            SocketStream_read_raw recvmsg n ss = (int (nat rt), take (nat rt) (stream_in inc ss), ?ss) \<and>
            stream_in inc ?ss = drop (nat rt) (stream_in inc ss)"
        using law by (simp add: eq ins ins' nat_le_iff)
      with False show ?thesis unfolding ins if_not_P [OF False] by blast
    qed
  qed
qed

lemma SocketStream_write_raw_absorbs:
  assumes "sends sendmsg out"
  shows "absorbs_raw (SocketStream_write_raw sendmsg) SocketStream_isConnected (stream_out out)"
  unfolding absorbs_raw_def
proof (intro allI impI)
  fix bs :: bytes and ss :: "'a SocketStream"
  assume bs: "bs \<noteq> []" and "SocketStream_isConnected ss"
  then obtain sock where sock: "m_socket ss = Some sock" "m_isConnected sock"
    by (auto simp: SocketStream_isConnected_def split: option.splits)
  obtain rt k' where r: "sendmsg bs (m_sock sock) = (rt, k')" by (meson surj_pair)
  from assms [unfolded sends_def, rule_format, OF bs r]
  have l: "0 < rt" "rt \<le> int (length bs)" "out k' = out (m_sock sock) @ take (nat rt) bs" by auto
  let ?ss = "ss\<lparr>m_socket := Some (sock\<lparr>m_sock := k'\<rparr>)\<rparr>"
  have "SocketStream_isConnected ?ss \<and> 0 < nat rt \<and> nat rt \<le> length bs \<and>
      SocketStream_write_raw sendmsg bs ss = (int (nat rt), ?ss) \<and>
      stream_out out ?ss = stream_out out ss @ take (nat rt) bs"
    using sock r l by (simp add: SocketStream_write_raw_def Socket_send_def SocketStream_isConnected_def stream_out_def nat_le_iff)
  then show "\<exists>k s'. SocketStream_isConnected s' \<and> 0 < k \<and> k \<le> length bs \<and>
      SocketStream_write_raw sendmsg bs ss = (int k, s') \<and>
      stream_out out s' = stream_out out ss @ take k bs" by blast
qed

lemma socket_byte_stream:
  "receives recvmsg inc \<Longrightarrow> sends sendmsg out \<Longrightarrow> 0 < mx \<Longrightarrow>
     byte_stream (SocketStream_read recvmsg) (SocketStream_write sendmsg) SocketStream_isConnected
       (stream_in inc) (stream_out out) mx"
  by (intro byte_stream.intro SocketStream_read_delivers SocketStream_write_absorbs)

section \<open>The contract of the operating system\<close>

locale kernel_socket =
  fixes recvmsg :: "'k recvmsg" and sendmsg :: "'k sendmsg"
    and inc :: "'k \<Rightarrow> bytes" and out :: "'k \<Rightarrow> bytes" and mx :: int
  assumes recv_law: "receives recvmsg inc" and send_law: "sends sendmsg out" and buff_size: "0 < mx"

sublocale kernel_socket \<subseteq> ks: byte_stream "SocketStream_read recvmsg" "SocketStream_write sendmsg"
    SocketStream_isConnected "stream_in inc" "stream_out out" mx
  by (rule socket_byte_stream [OF recv_law send_law buff_size])

lemma socket_raw_stream:
  "receives recvmsg inc \<Longrightarrow> sends sendmsg out \<Longrightarrow> 0 < mx \<Longrightarrow>
     raw_stream (SocketStream_read_raw recvmsg) (SocketStream_write_raw sendmsg) SocketStream_isConnected
       (stream_in inc) (stream_out out) mx"
  by (intro raw_stream.intro SocketStream_read_raw_delivers SocketStream_write_raw_absorbs)

sublocale kernel_socket \<subseteq> kr: raw_stream "SocketStream_read_raw recvmsg" "SocketStream_write_raw sendmsg"
    SocketStream_isConnected "stream_in inc" "stream_out out" mx
  by (rule socket_raw_stream [OF recv_law send_law buff_size])

text \<open>A kernel that meets the contract: a queue of bytes to receive and one of bytes sent.\<close>

record loopback =
  lb_in :: bytes
  lb_out :: bytes

definition loop_recvmsg :: "loopback recvmsg" where
  "loop_recvmsg n k = (let m = min n (length (lb_in k)) in
     (int m, take m (lb_in k), k\<lparr>lb_in := drop m (lb_in k)\<rparr>))"

definition loop_sendmsg :: "loopback sendmsg" where
  "loop_sendmsg bs k = (int (length bs), k\<lparr>lb_out := lb_out k @ bs\<rparr>)"

lemma loopback_laws: "receives loop_recvmsg lb_in" "sends loop_sendmsg lb_out"
  by (auto simp: receives_def sends_def loop_recvmsg_def loop_sendmsg_def Let_def min_def)

interpretation loop: kernel_socket loop_recvmsg loop_sendmsg lb_in lb_out 4096
  using loopback_laws by unfold_locales simp_all

text \<open>C28. Fixed-size transfers over a socket (\<open>Stream::readFixSize\<close> and \<open>writeFixSize\<close> on
  \<open>SocketStream::read\<close> and \<open>write\<close>) are exact, for every way the kernel splits the data: \<open>n\<close> bytes
  that arrive on a connected socket are stored at the cursor of the buffer, in order and across its
  nodes, the cursor moves over them, and what follows stays in the socket; \<open>n\<close> unread bytes of a
  buffer are sent exactly once and in order (\<open>n\<close> is less than \<open>2 ^ 31\<close>, because the result is an \<open>int\<close>). A stream that is not connected returns -1.\<close>

theorem socket_fix_size_exact:
  assumes "receives recvmsg inc" and "sends sendmsg out" and "0 < mx" and "ba_wf ba" and "0 < n" and "n < 2 ^ 31"
  shows "(n \<le> length (stream_in inc ss) \<longrightarrow>
           (\<exists>ss' ba'. readFixSize (SocketStream_read recvmsg) mx n ss ba = Inr (int n, ss', ba') \<and>
              stream_in inc ss' = drop n (stream_in inc ss) \<and> ba_wf ba' \<and>
              ba_abs ba' = spec_write (take n (stream_in inc ss)) (ba_abs ba))) \<and>
         (SocketStream_isConnected ss \<and> n \<le> length (unread ba) \<longrightarrow>
           (\<exists>ss' ba'. writeFixSize (SocketStream_write sendmsg) mx n ss ba = Inr (int n, ss', ba') \<and>
              stream_out out ss' = stream_out out ss @ take n (unread ba) \<and> ba_wf ba' \<and>
              ba_abs ba' = (data ba, m_position ba + n))) \<and>
         (\<not> SocketStream_isConnected ss \<longrightarrow>
           readFixSize (SocketStream_read recvmsg) mx n ss ba = Inr (-1, ss, ba) \<and>
           writeFixSize (SocketStream_write sendmsg) mx n ss ba = Inr (-1, ss, ba))"
proof (intro conjI impI)
  note bs = socket_byte_stream [OF assms(1-3)]
  show "\<exists>ss' ba'. readFixSize (SocketStream_read recvmsg) mx n ss ba = Inr (int n, ss', ba') \<and>
      stream_in inc ss' = drop n (stream_in inc ss) \<and> ba_wf ba' \<and>
      ba_abs ba' = spec_write (take n (stream_in inc ss)) (ba_abs ba)" if "n \<le> length (stream_in inc ss)"
    using byte_stream.read_exact [OF bs assms(4) that assms(6)] by metis
  show "\<exists>ss' ba'. writeFixSize (SocketStream_write sendmsg) mx n ss ba = Inr (int n, ss', ba') \<and>
      stream_out out ss' = stream_out out ss @ take n (unread ba) \<and> ba_wf ba' \<and>
      ba_abs ba' = (data ba, m_position ba + n)" if "SocketStream_isConnected ss \<and> n \<le> length (unread ba)"
    using byte_stream.write_exact [OF bs assms(4) _ _ assms(6)] that by metis
  show "readFixSize (SocketStream_read recvmsg) mx n ss ba = Inr (-1, ss, ba)"
    "writeFixSize (SocketStream_write sendmsg) mx n ss ba = Inr (-1, ss, ba)"
    if "\<not> SocketStream_isConnected ss"
    using that assms(5) c_int_small [OF assms(6)] by (auto simp: readFixSize_def writeFixSize_def fix_size_loop.simps SocketStream_read_def
        SocketStream_write_def SocketStream_isConnected_def split: option.splits)
qed

theorem socket_fix_size_exact_witness:
  "\<exists>ss' ba'. readFixSize (SocketStream_read loop_recvmsg) 2 3
       \<lparr>m_socket = Some \<lparr>m_isConnected = True, m_sock = \<lparr>lb_in = [1, 2, 3, 4], lb_out = []\<rparr>\<rparr>\<rparr> (ByteArray_new 2)
     = Inr (3, ss', ba') \<and> stream_in lb_in ss' = [4] \<and> ba_abs ba' = ([1, 2, 3], 3)"
  using socket_fix_size_exact [OF loopback_laws, of 2 "ByteArray_new 2" 3
      "\<lparr>m_socket = Some \<lparr>m_isConnected = True, m_sock = \<lparr>lb_in = [1, 2, 3, 4], lb_out = []\<rparr>\<rparr>\<rparr>"]
    ba_wf_new [of 2]
  by (auto simp: stream_in_def spec_write_def ba_abs_def data_new)

end
