(* ===== verification/Frame.thy ===== *)
theory Frame
  imports HPack SocketStream
begin

text \<open>
  \<^verbatim>\<open>src/chat/http2/frame.cc\<close> and \<^verbatim>\<open>src/chat/http2/frame.h\<close>: the HTTP/2 frames. Each frame struct is a
  record, \<open>IFrame\<close> the datatype of all of them, and \<open>IFrame_writeTo\<close> and \<open>IFrame_readFrom\<close> the
  dispatch of the two virtual methods. The bit fields of a struct are words of their width; the
  integer the union overlays is computed from them. The last sections prove that serializing a frame
  and parsing it gives the frame back.
\<close>

section \<open>Frame header\<close>

datatype FrameType =
    DATA | HEADERS | PRIORITY | RST_STREAM | SETTINGS | PUSH_PROMISE | PING | GOAWAY
  | WINDOW_UPDATE | CONTINUATION

definition frame_types :: "FrameType list" where
  "frame_types = [DATA, HEADERS, PRIORITY, RST_STREAM, SETTINGS, PUSH_PROMISE, PING, GOAWAY,
                  WINDOW_UPDATE, CONTINUATION]"

text \<open>The enumerator of a type byte, \<open>None\<close> for a value the enumeration does not name.\<close>

definition FrameType_of :: "byte \<Rightarrow> FrameType option" where
  "FrameType_of v = (if unat v < length frame_types then Some (frame_types ! unat v) else None)"

abbreviation FLAG_END_STREAM :: byte where "FLAG_END_STREAM \<equiv> 0x1"
abbreviation FLAG_ACK :: byte where "FLAG_ACK \<equiv> 0x1"
abbreviation FLAG_END_HEADERS :: byte where "FLAG_END_HEADERS \<equiv> 0x4"
abbreviation FLAG_PADDED :: byte where "FLAG_PADDED \<equiv> 0x8"
abbreviation FLAG_PRIORITY :: byte where "FLAG_PRIORITY \<equiv> 0x20"

record FrameHeader =
  fh_type :: byte
  fh_length :: "24 word"
  fh_flags :: byte
  fh_identifier :: "31 word"
  fh_r :: "1 word"

definition FrameHeader_SIZE :: nat where
  "FrameHeader_SIZE = 9"

definition FrameHeader_new :: FrameHeader where
  "FrameHeader_new = \<lparr>fh_type = 0, fh_length = 0, fh_flags = 0, fh_identifier = 0, fh_r = 0\<rparr>"

text \<open>The unions: \<open>type\<close> below \<open>length\<close>, and a 31-bit field below the reserved bit.\<close>

definition len_type :: "FrameHeader \<Rightarrow> 32 word" where
  "len_type h = ucast (fh_type h) OR push_bit 8 (ucast (fh_length h))"

definition set_len_type :: "32 word \<Rightarrow> FrameHeader \<Rightarrow> FrameHeader" where
  "set_len_type v h = h\<lparr>fh_type := ucast v, fh_length := ucast (drop_bit 8 v)\<rparr>"

definition join31 :: "31 word \<Rightarrow> 1 word \<Rightarrow> 32 word" where
  "join31 low high = ucast low OR push_bit 31 (ucast high)"

definition low31 :: "32 word \<Rightarrow> 31 word" where "low31 v = ucast v"
definition high1 :: "32 word \<Rightarrow> 1 word" where "high1 v = ucast (drop_bit 31 v)"

definition FrameHeader_writeTo :: "FrameHeader \<Rightarrow> bool ba" where
  "FrameHeader_writeTo h =
     bind_action (try_action
       (then_action (writeFuint32 (len_type h))
       (then_action (writeFuint8 (fh_flags h))
       (then_action (writeFuint32 (join31 (fh_identifier h) (fh_r h))) (return_action ())))))
     (\<lambda>r. return_action (r \<noteq> None))"

definition FrameHeader_readFrom :: "FrameHeader \<Rightarrow> FrameHeader option ba" where
  "FrameHeader_readFrom h =
     try_action
       (bind_action readFuint32 (\<lambda>v.
        bind_action readFuint8 (\<lambda>flags.
        bind_action readFuint32 (\<lambda>rid.
          return_action ((set_len_type v h)\<lparr>fh_flags := flags, fh_identifier := low31 rid,
                                          fh_r := high1 rid\<rparr>)))))"

section \<open>The frames\<close>

text \<open>\<open>std::string::resize(n); ba->read(&s[0], n)\<close> for an \<open>int\<close> \<open>n\<close>.\<close>

definition read_sized :: "int \<Rightarrow> bytes ba" where
  "read_sized n = (if n < 0 then throw_action Length_error else ByteArray_read (nat n))"

record DataFrame =
  df_pad :: byte
  df_data :: bytes
  df_padding :: bytes

definition DataFrame_writeTo :: "DataFrame \<Rightarrow> FrameHeader \<Rightarrow> unit ba" where
  "DataFrame_writeTo f h =
     (if fh_flags h AND FLAG_PADDED \<noteq> 0 then
        then_action (writeFuint8 (df_pad f))
        (then_action (ByteArray_write (df_data f)) (ByteArray_write (df_padding f)))
      else ByteArray_write (df_data f))"

definition DataFrame_readFrom :: "DataFrame \<Rightarrow> FrameHeader \<Rightarrow> DataFrame ba" where
  "DataFrame_readFrom f h =
     (if fh_flags h AND FLAG_PADDED \<noteq> 0 then
        bind_action readFuint8 (\<lambda>pad.
        bind_action (read_sized (uint (fh_length h) - uint pad - 1)) (\<lambda>dat.
        bind_action (ByteArray_read (unat pad)) (\<lambda>padding.
          return_action (f\<lparr>df_pad := pad, df_data := dat, df_padding := padding\<rparr>))))
      else bind_action (ByteArray_read (unat (fh_length h))) (\<lambda>dat.
        return_action (f\<lparr>df_data := dat\<rparr>)))"

record PriorityFrame =
  pf_stream_dep :: "31 word"
  pf_exclusive :: "1 word"
  pf_weight :: byte

definition PriorityFrame_new :: PriorityFrame where
  "PriorityFrame_new = \<lparr>pf_stream_dep = 0, pf_exclusive = 0, pf_weight = 0\<rparr>"

definition PriorityFrame_writeTo :: "PriorityFrame \<Rightarrow> unit ba" where
  "PriorityFrame_writeTo f =
     then_action (writeFuint32 (join31 (pf_stream_dep f) (pf_exclusive f)))
       (writeFuint8 (pf_weight f))"

text \<open>
  \<open>HeadersFrame::readFrom\<close> goes on after a failed \<open>PriorityFrame::readFrom\<close>, so here the state after
  the exception matters: a read that throws has changed nothing, but an earlier one has.
\<close>

definition PriorityFrame_readFrom :: "PriorityFrame \<Rightarrow> (bool \<times> PriorityFrame) ba" where
  "PriorityFrame_readFrom f ba =
     (case readFuint32 ba of
        Inl e \<Rightarrow> if is_exception e then Inr ((False, f), ba) else Inl e
      | Inr (v, ba1) \<Rightarrow>
          let f1 = f\<lparr>pf_stream_dep := low31 v, pf_exclusive := high1 v\<rparr> in
          (case readFuint8 ba1 of
             Inl e \<Rightarrow> if is_exception e then Inr ((False, f1), ba1) else Inl e
           | Inr (w, ba2) \<Rightarrow> Inr ((True, f1\<lparr>pf_weight := w\<rparr>), ba2)))"

record HeadersFrame =
  hd_pad :: byte
  hd_priority :: PriorityFrame
  hd_data :: bytes
  hd_padding :: bytes
  hd_hpack :: "HPack option"
  hd_kvs :: "header list"

definition HeadersFrame_pack :: "HeadersFrame \<Rightarrow> error + HeadersFrame" where
  "HeadersFrame_pack f =
     (case hd_hpack f of
        None \<Rightarrow> Inr f
      | Some hp \<Rightarrow>
          if hd_kvs f = [] then Inr f
          else map_sum id (\<lambda>(rt, out, hp'). f\<lparr>hd_data := out, hd_hpack := Some hp'\<rparr>)
                 (HPack_pack_string (hd_kvs f) hp))"

definition HeadersFrame_writeTo :: "HeadersFrame \<Rightarrow> FrameHeader \<Rightarrow> HeadersFrame ba" where
  "HeadersFrame_writeTo f h =
     (let padded = fh_flags h AND FLAG_PADDED \<noteq> 0 in
      then_action (if padded then writeFuint8 (hd_pad f) else return_action ())
      (then_action (if fh_flags h AND FLAG_PRIORITY \<noteq> 0 then PriorityFrame_writeTo (hd_priority f)
                    else return_action ())
      (case HeadersFrame_pack f of
         Inl e \<Rightarrow> throw_action e
       | Inr f' \<Rightarrow>
           then_action (ByteArray_write (hd_data f'))
           (then_action (if padded then ByteArray_write (hd_padding f') else return_action ())
             (return_action f')))))"

definition HeadersFrame_readFrom :: "HeadersFrame \<Rightarrow> FrameHeader \<Rightarrow> HeadersFrame ba" where
  "HeadersFrame_readFrom f h =
     (let padded = fh_flags h AND FLAG_PADDED \<noteq> 0; prio = fh_flags h AND FLAG_PRIORITY \<noteq> 0 in
      bind_action (if padded then readFuint8 else return_action (hd_pad f)) (\<lambda>pad.
      bind_action (if prio then PriorityFrame_readFrom (hd_priority f)
                   else return_action (True, hd_priority f)) (\<lambda>(_, priority).
      let len = uint (fh_length h) - (if padded then 1 + uint pad else 0) - (if prio then 5 else 0) in
      bind_action (read_sized len) (\<lambda>dat.
      bind_action (if padded then ByteArray_read (unat pad) else return_action (hd_padding f)) (\<lambda>padding.
        return_action (f\<lparr>hd_pad := pad, hd_priority := priority, hd_data := dat,
                          hd_padding := padding\<rparr>))))))"

record RstStreamFrame =
  rs_error_code :: "32 word"

definition RstStreamFrame_writeTo :: "RstStreamFrame \<Rightarrow> unit ba" where
  "RstStreamFrame_writeTo f = writeFuint32 (rs_error_code f)"

definition RstStreamFrame_readFrom :: "RstStreamFrame \<Rightarrow> RstStreamFrame ba" where
  "RstStreamFrame_readFrom f =
     bind_action readFuint32 (\<lambda>v. return_action (f\<lparr>rs_error_code := v\<rparr>))"

record SettingsItem =
  si_identifier :: "16 word"
  si_value :: "32 word"

definition SettingsItem_writeTo :: "SettingsItem \<Rightarrow> unit ba" where
  "SettingsItem_writeTo i = then_action (writeFuint16 (si_identifier i)) (writeFuint32 (si_value i))"

definition SettingsItem_readFrom :: "SettingsItem ba" where
  "SettingsItem_readFrom =
     bind_action readFuint16 (\<lambda>i.
     bind_action readFuint32 (\<lambda>v. return_action \<lparr>si_identifier = i, si_value = v\<rparr>))"

fun SettingsFrame_writeTo :: "SettingsItem list \<Rightarrow> unit ba" where
  "SettingsFrame_writeTo [] = return_action ()"
| "SettingsFrame_writeTo (i # is) = then_action (SettingsItem_writeTo i) (SettingsFrame_writeTo is)"

fun settings_read_loop :: "nat \<Rightarrow> SettingsItem list ba" where
  "settings_read_loop 0 = return_action []"
| "settings_read_loop (Suc n) =
     bind_action SettingsItem_readFrom (\<lambda>i.
     bind_action (settings_read_loop n) (\<lambda>is. return_action (i # is)))"

text \<open>\<open>sizeof(SettingsItem)\<close> is 6 under \<open>#pragma pack(1)\<close>.\<close>

definition SettingsFrame_readFrom :: "FrameHeader \<Rightarrow> SettingsItem list ba" where
  "SettingsFrame_readFrom h = settings_read_loop (unat (fh_length h) div 6)"

record PushPromisedFrame =
  pp_pad :: byte
  pp_stream_id :: "31 word"
  pp_r :: "1 word"
  pp_data :: bytes
  pp_padding :: bytes

definition PushPromisedFrame_writeTo :: "PushPromisedFrame \<Rightarrow> FrameHeader \<Rightarrow> unit ba" where
  "PushPromisedFrame_writeTo f h =
     (if fh_flags h AND FLAG_PADDED \<noteq> 0 then
        then_action (writeFuint8 (pp_pad f))
        (then_action (writeFuint32 (join31 (pp_stream_id f) (pp_r f)))
        (then_action (ByteArray_write (pp_data f)) (ByteArray_write (pp_padding f))))
      else
        then_action (writeFuint32 (join31 (pp_stream_id f) (pp_r f))) (ByteArray_write (pp_data f)))"

definition PushPromisedFrame_readFrom :: "PushPromisedFrame \<Rightarrow> FrameHeader \<Rightarrow> PushPromisedFrame ba" where
  "PushPromisedFrame_readFrom f h =
     (if fh_flags h AND FLAG_PADDED \<noteq> 0 then
        bind_action readFuint8 (\<lambda>pad.
        bind_action readFuint32 (\<lambda>v.
        bind_action (read_sized (uint (fh_length h) - 5 - uint pad)) (\<lambda>dat.
        bind_action (ByteArray_read (unat pad)) (\<lambda>padding.
          return_action (f\<lparr>pp_pad := pad, pp_stream_id := low31 v, pp_r := high1 v, pp_data := dat,
                           pp_padding := padding\<rparr>)))))
      else
        bind_action readFuint32 (\<lambda>v.
        bind_action (read_sized (uint (fh_length h) - 4)) (\<lambda>dat.
          return_action (f\<lparr>pp_stream_id := low31 v, pp_r := high1 v, pp_data := dat\<rparr>))))"

text \<open>The eight bytes of a ping are the memory of its \<open>uint64\<close>.\<close>

record PingFrame =
  pg_uint64 :: "64 word"

definition PingFrame_writeTo :: "PingFrame \<Rightarrow> unit ba" where
  "PingFrame_writeTo f = ByteArray_write (mem_image 8 (pg_uint64 f))"

definition PingFrame_readFrom :: "PingFrame \<Rightarrow> PingFrame ba" where
  "PingFrame_readFrom f =
     bind_action (ByteArray_read 8) (\<lambda>bs. return_action (f\<lparr>pg_uint64 := mem_value bs\<rparr>))"

record GoAwayFrame =
  ga_last_stream_id :: "31 word"
  ga_r :: "1 word"
  ga_error_code :: "32 word"
  ga_data :: bytes

definition GoAwayFrame_writeTo :: "GoAwayFrame \<Rightarrow> unit ba" where
  "GoAwayFrame_writeTo f =
     then_action (writeFuint32 (join31 (ga_last_stream_id f) (ga_r f)))
     (then_action (writeFuint32 (ga_error_code f))
       (if ga_data f \<noteq> [] then ByteArray_write (ga_data f) else return_action ()))"

definition GoAwayFrame_readFrom :: "GoAwayFrame \<Rightarrow> FrameHeader \<Rightarrow> GoAwayFrame ba" where
  "GoAwayFrame_readFrom f h =
     bind_action readFuint32 (\<lambda>v.
     bind_action readFuint32 (\<lambda>err.
     bind_action (if unat (fh_length h) > 8 then ByteArray_read (unat (fh_length h) - 8)
                  else return_action (ga_data f)) (\<lambda>dat.
       return_action (f\<lparr>ga_last_stream_id := low31 v, ga_r := high1 v, ga_error_code := err,
                         ga_data := dat\<rparr>))))"

record WindowUpdateFrame =
  wu_increment :: "31 word"
  wu_r :: "1 word"

definition WindowUpdateFrame_writeTo :: "WindowUpdateFrame \<Rightarrow> unit ba" where
  "WindowUpdateFrame_writeTo f = writeFuint32 (join31 (wu_increment f) (wu_r f))"

definition WindowUpdateFrame_readFrom :: "WindowUpdateFrame \<Rightarrow> WindowUpdateFrame ba" where
  "WindowUpdateFrame_readFrom f =
     bind_action readFuint32 (\<lambda>v. return_action (f\<lparr>wu_increment := low31 v, wu_r := high1 v\<rparr>))"

section \<open>Dispatch, parsing and serializing\<close>

datatype IFrame =
    Data DataFrame
  | Headers HeadersFrame
  | Priority PriorityFrame
  | RstStream RstStreamFrame
  | Settings "SettingsItem list"
  | PushPromised PushPromisedFrame
  | Ping PingFrame
  | GoAway GoAwayFrame
  | WindowUpdate WindowUpdateFrame

text \<open>
  \<open>data->writeTo(ba, header)\<close> with its \<open>try\<close>: the value returned and the frame after the call.
  \<open>PushPromisedFrame::writeTo\<close> has no \<open>return true\<close>.
\<close>

definition writing :: "bool \<Rightarrow> IFrame \<Rightarrow> IFrame ba \<Rightarrow> (bool \<times> IFrame) ba" where
  "writing ok f m = bind_action (try_action m) (\<lambda>r. return_action
     (case r of None \<Rightarrow> (False, f) | Some f' \<Rightarrow> (ok, f')))"

definition IFrame_writeTo :: "IFrame \<Rightarrow> FrameHeader \<Rightarrow> (bool \<times> IFrame) ba" where
  "IFrame_writeTo f h =
     (case f of
        Data d \<Rightarrow> writing True f (then_action (DataFrame_writeTo d h) (return_action f))
      | Headers d \<Rightarrow> writing True f (bind_action (HeadersFrame_writeTo d h) (\<lambda>d'. return_action (Headers d')))
      | Priority d \<Rightarrow> writing True f (then_action (PriorityFrame_writeTo d) (return_action f))
      | RstStream d \<Rightarrow> writing True f (then_action (RstStreamFrame_writeTo d) (return_action f))
      | Settings d \<Rightarrow> writing True f (then_action (SettingsFrame_writeTo d) (return_action f))
      | PushPromised d \<Rightarrow> writing False f (then_action (PushPromisedFrame_writeTo d h) (return_action f))
      | Ping d \<Rightarrow> writing True f (then_action (PingFrame_writeTo d) (return_action f))
      | GoAway d \<Rightarrow> writing True f (then_action (GoAwayFrame_writeTo d) (return_action f))
      | WindowUpdate d \<Rightarrow> writing True f (then_action (WindowUpdateFrame_writeTo d) (return_action f)))"

text \<open>
  The \<open>switch\<close> of \<open>parseFrom\<close>: a fresh frame of the right type and its \<open>readFrom\<close>. The outer \<open>None\<close> is
  \<open>return nullptr\<close>; a \<open>CONTINUATION\<close> frame has no data object.
\<close>

definition reading :: "('a \<Rightarrow> IFrame) \<Rightarrow> 'a ba \<Rightarrow> IFrame option option ba" where
  "reading c m = bind_action (try_action m) (\<lambda>r. return_action (map_option (\<lambda>x. Some (c x)) r))"

definition IFrame_readFrom :: "FrameHeader \<Rightarrow> IFrame option option ba" where
  "IFrame_readFrom h =
     (case FrameType_of (fh_type h) of
        Some DATA \<Rightarrow> reading Data (DataFrame_readFrom \<lparr>df_pad = 0, df_data = [], df_padding = []\<rparr> h)
      | Some HEADERS \<Rightarrow> reading Headers (HeadersFrame_readFrom
          \<lparr>hd_pad = 0, hd_priority = PriorityFrame_new, hd_data = [], hd_padding = [],
           hd_hpack = None, hd_kvs = []\<rparr> h)
      | Some PRIORITY \<Rightarrow>
          bind_action (PriorityFrame_readFrom PriorityFrame_new) (\<lambda>(ok, f).
            return_action (if ok then Some (Some (Priority f)) else None))
      | Some RST_STREAM \<Rightarrow> reading RstStream (RstStreamFrame_readFrom \<lparr>rs_error_code = 0\<rparr>)
      | Some SETTINGS \<Rightarrow> reading Settings (SettingsFrame_readFrom h)
      | Some PUSH_PROMISE \<Rightarrow> reading PushPromised (PushPromisedFrame_readFrom
          \<lparr>pp_pad = 0, pp_stream_id = 0, pp_r = 0, pp_data = [], pp_padding = []\<rparr> h)
      | Some PING \<Rightarrow> reading Ping (PingFrame_readFrom \<lparr>pg_uint64 = 0\<rparr>)
      | Some GOAWAY \<Rightarrow> reading GoAway (GoAwayFrame_readFrom
          \<lparr>ga_last_stream_id = 0, ga_r = 0, ga_error_code = 0, ga_data = []\<rparr> h)
      | Some WINDOW_UPDATE \<Rightarrow> reading WindowUpdate (WindowUpdateFrame_readFrom
          \<lparr>wu_increment = 0, wu_r = 0\<rparr>)
      | Some CONTINUATION \<Rightarrow> return_action (Some None)
      | None \<Rightarrow> return_action None)"

record Frame =
  header :: FrameHeader
  frame_data :: "IFrame option"

text \<open>
  \<open>FrameCodec::parseFrom\<close>. The result is the frame, or \<open>None\<close> for \<open>nullptr\<close>, and the stream's state.
  An exception that reaches the outer \<open>catch\<close> also gives \<open>nullptr\<close>; the stream is then in the state
  of the last completed call.
\<close>

definition parseFrom :: "'s mover \<Rightarrow> int \<Rightarrow> 's \<Rightarrow> error + Frame option \<times> 's" where
  "parseFrom rd mx s =
     (case readFixSize rd mx FrameHeader_SIZE s (ByteArray_new 4096) of
        Inl e \<Rightarrow> if is_exception e then Inr (None, s) else Inl e
      | Inr (rt, s1, ba1) \<Rightarrow>
          if rt \<le> 0 then Inr (None, s1)
          else (case then_action (setPosition 0) (FrameHeader_readFrom FrameHeader_new) ba1 of
             Inl e \<Rightarrow> if is_exception e then Inr (None, s1) else Inl e
           | Inr (None, _) \<Rightarrow> Inr (None, s1)
           | Inr (Some h, ba2) \<Rightarrow>
               (case (if fh_length h > 0 then
                        (case setPosition 0 ba2 of
                           Inl e \<Rightarrow> Inl e
                         | Inr (_, ba3) \<Rightarrow>
                             (case readFixSize rd mx (unat (fh_length h)) s1 ba3 of
                                Inl e \<Rightarrow> Inl e
                              | Inr (rt, s2, ba4) \<Rightarrow>
                                  if rt \<le> 0 then Inr (s2, None)
                                  else map_sum id (\<lambda>(_, ba5). (s2, Some ba5)) (setPosition 0 ba4)))
                      else Inr (s1, Some ba2)) of
                  Inl e \<Rightarrow> if is_exception e then Inr (None, s1) else Inl e
                | Inr (s2, None) \<Rightarrow> Inr (None, s2)
                | Inr (s2, Some ba5) \<Rightarrow>
                    (case IFrame_readFrom h ba5 of
                       Inl e \<Rightarrow> if is_exception e then Inr (None, s2) else Inl e
                     | Inr (None, _) \<Rightarrow> Inr (None, s2)
                     | Inr (Some d, _) \<Rightarrow> Inr (Some \<lparr>header = h, frame_data = d\<rparr>, s2)))))"

text \<open>
  \<open>FrameCodec::serializeTo\<close>: the return value, the frame after the call (its length field is set and
  a header block may have been packed) and the stream's state.
\<close>

definition serialize_body :: "Frame \<Rightarrow> (bool \<times> Frame) ba" where
  "serialize_body frame =
     then_action (FrameHeader_writeTo (header frame))
     (case frame_data frame of
        None \<Rightarrow> return_action (True, frame)
      | Some d \<Rightarrow>
          bind_action (IFrame_writeTo d (header frame)) (\<lambda>(ok, d').
            if \<not> ok then return_action (False, frame\<lparr>frame_data := Some d'\<rparr>)
            else (\<lambda>ba.
              let pos = getPosition ba;
                  h = (header frame)\<lparr>fh_length := of_int (int pos - int FrameHeader_SIZE)\<rparr>
              in then_action (setPosition 0)
                 (then_action (FrameHeader_writeTo h)
                   (return_action (True, \<lparr>header = h, frame_data = Some d'\<rparr>))) ba)))"

definition serializeTo :: "'s mover \<Rightarrow> int \<Rightarrow> Frame \<Rightarrow> 's \<Rightarrow> error + int \<times> Frame \<times> 's" where
  "serializeTo wr mx frame s =
     (case serialize_body frame (ByteArray_new 4096) of
        Inl e \<Rightarrow> Inl e
      | Inr ((ok, frame'), ba) \<Rightarrow>
          if \<not> ok then Inr (-1, frame', s)
          else (case setPosition 0 ba of
             Inl e \<Rightarrow> Inl e
           | Inr (_, ba1) \<Rightarrow>
               (case writeFixSize wr mx (getReadSize ba1) s ba1 of
                  Inl e \<Rightarrow> Inl e
                | Inr (rt, s', ba2) \<Rightarrow>
                    if rt \<le> 0 then Inr (-2, frame', s') else Inr (int (m_size ba2), frame', s'))))"

section \<open>The bit fields\<close>

lemma join31_inverse [simp]: "low31 (join31 a b) = a" "high1 (join31 a b) = b"
proof -
  show "low31 (join31 a b) = a"
    by (rule bit_word_eqI) (auto simp: low31_def join31_def bit_ucast_iff bit_or_iff bit_push_bit_iff)
  show "high1 (join31 a b) = b"
  proof (rule bit_word_eqI)
    fix n assume "n < LENGTH(1)"
    moreover have "\<not> bit a 31" using bit_imp_le_length [of a 31] by auto
    ultimately show "bit (high1 (join31 a b)) n = bit b n"
      by (auto simp: high1_def join31_def bit_ucast_iff bit_or_iff bit_push_bit_iff bit_drop_bit_eq)
  qed
qed

lemma len_type_inverse: "ucast (len_type h) = fh_type h" "ucast (drop_bit 8 (len_type h)) = fh_length h"
proof -
  show "ucast (len_type h) = fh_type h"
    by (rule bit_word_eqI) (auto simp: len_type_def bit_ucast_iff bit_or_iff bit_push_bit_iff)
  show "ucast (drop_bit 8 (len_type h)) = fh_length h"
  proof (rule bit_word_eqI)
    fix n assume n: "n < LENGTH(24)"
    have "\<not> bit (fh_type h) (8 + n)" using bit_imp_le_length [of "fh_type h" "8 + n"] by auto
    with n show "bit (ucast (drop_bit 8 (len_type h)) :: 24 word) n = bit (fh_length h) n"
      by (auto simp: len_type_def bit_ucast_iff bit_or_iff bit_push_bit_iff bit_drop_bit_eq)
  qed
qed

section \<open>What the frames write and read\<close>

definition header_image :: "endian \<Rightarrow> FrameHeader \<Rightarrow> bytes" where
  "header_image e h =
     fixed_image e (len_type h) @ [fh_flags h] @ fixed_image e (join31 (fh_identifier h) (fh_r h))"

lemma length_header_image [simp]: "length (header_image e h) = 9"
  by (simp add: header_image_def)

lemma emits_u32: "emits e (writeFuint32 w) (fixed_image e w) ()"
  and emits_u16: "emits e (writeFuint16 v) (fixed_image e v) ()"
  by (simp_all add: fixed_defs emits_write_swapped)

lemma accepts_u32: "accepts k e readFuint32 (fixed_image e w) w"
  and accepts_u16: "accepts k e readFuint16 (fixed_image e v) v"
  by (simp_all add: fixed_defs accepts_read_swapped)

lemma emits_step: "emits e m a () \<Longrightarrow> emits e n b y \<Longrightarrow> emits e (then_action m n) (a @ b) y"
  by (rule emits_then)

lemma emits_last: "emits e m a () \<Longrightarrow> emits e (then_action m (return_action y)) a y"
  by (rule emits_then_return)

lemma emits_FrameHeader: "emits e (FrameHeader_writeTo h) (header_image e h) True"
proof -
  have "emits e (try_action
       (then_action (writeFuint32 (len_type h))
       (then_action (writeFuint8 (fh_flags h))
       (then_action (writeFuint32 (join31 (fh_identifier h) (fh_r h))) (return_action ())))))
      (header_image e h) (Some ())"
    unfolding header_image_def
    by (intro emits_try emits_step emits_u32 emits_writeFuint8 emits_last)
  from emits_bind_return [OF this, of "\<lambda>r. r \<noteq> None"] show ?thesis
    unfolding FrameHeader_writeTo_def by simp
qed

lemma accepts_FrameHeader: "accepts k e (FrameHeader_readFrom h0) (header_image e h) (Some h)"
proof -
  have h: "(set_len_type (len_type h) h0)\<lparr>fh_flags := fh_flags h,
      fh_identifier := low31 (join31 (fh_identifier h) (fh_r h)),
      fh_r := high1 (join31 (fh_identifier h) (fh_r h))\<rparr> = h"
    by (cases h; cases h0) (simp add: set_len_type_def len_type_inverse)
  show ?thesis
    unfolding FrameHeader_readFrom_def header_image_def
    by (intro accepts_try, rule accepts_bind [OF accepts_u32], rule accepts_bind [OF accepts_readFuint8],
        rule accepts_bind_return [OF accepts_u32]) (simp only: h)
qed

definition priority_image :: "endian \<Rightarrow> PriorityFrame \<Rightarrow> bytes" where
  "priority_image e f = fixed_image e (join31 (pf_stream_dep f) (pf_exclusive f)) @ [pf_weight f]"

definition item_image :: "endian \<Rightarrow> SettingsItem \<Rightarrow> bytes" where
  "item_image e i = fixed_image e (si_identifier i) @ fixed_image e (si_value i)"

fun payload :: "endian \<Rightarrow> FrameHeader \<Rightarrow> IFrame \<Rightarrow> bytes" where
  "payload e h (Data d) =
     (if fh_flags h AND FLAG_PADDED \<noteq> 0 then [df_pad d] @ df_data d @ df_padding d else df_data d)"
| "payload e h (Headers d) =
     (if fh_flags h AND FLAG_PADDED \<noteq> 0 then [hd_pad d] else []) @
     (if fh_flags h AND FLAG_PRIORITY \<noteq> 0 then priority_image e (hd_priority d) else []) @
     hd_data d @ (if fh_flags h AND FLAG_PADDED \<noteq> 0 then hd_padding d else [])"
| "payload e h (Priority d) = priority_image e d"
| "payload e h (RstStream d) = fixed_image e (rs_error_code d)"
| "payload e h (Settings is) = concat (map (item_image e) is)"
| "payload e h (PushPromised d) =
     (if fh_flags h AND FLAG_PADDED \<noteq> 0
      then [pp_pad d] @ fixed_image e (join31 (pp_stream_id d) (pp_r d)) @ pp_data d @ pp_padding d
      else fixed_image e (join31 (pp_stream_id d) (pp_r d)) @ pp_data d)"
| "payload e h (Ping d) = mem_image 8 (pg_uint64 d)"
| "payload e h (GoAway d) =
     fixed_image e (join31 (ga_last_stream_id d) (ga_r d)) @ fixed_image e (ga_error_code d) @ ga_data d"
| "payload e h (WindowUpdate d) = fixed_image e (join31 (wu_increment d) (wu_r d))"

text \<open>
  A frame the codec can carry: its type byte names it, fields the flags leave out have their default
  value, and the pad length is the length of the padding. \<open>PUSH_PROMISE\<close> is left out, see below.
\<close>

fun frame_ok :: "FrameHeader \<Rightarrow> IFrame \<Rightarrow> bool" where
  "frame_ok h (Data d) \<longleftrightarrow> fh_type h = 0 \<and>
     (if fh_flags h AND FLAG_PADDED \<noteq> 0 then length (df_padding d) = unat (df_pad d)
      else df_pad d = 0 \<and> df_padding d = [])"
| "frame_ok h (Headers d) \<longleftrightarrow> fh_type h = 1 \<and> hd_hpack d = None \<and> hd_kvs d = [] \<and>
     (if fh_flags h AND FLAG_PADDED \<noteq> 0 then length (hd_padding d) = unat (hd_pad d)
      else hd_pad d = 0 \<and> hd_padding d = []) \<and>
     (fh_flags h AND FLAG_PRIORITY = 0 \<longrightarrow> hd_priority d = PriorityFrame_new)"
| "frame_ok h (Priority d) \<longleftrightarrow> fh_type h = 2"
| "frame_ok h (RstStream d) \<longleftrightarrow> fh_type h = 3"
| "frame_ok h (Settings is) \<longleftrightarrow> fh_type h = 4"
| "frame_ok h (PushPromised d) \<longleftrightarrow> False"
| "frame_ok h (Ping d) \<longleftrightarrow> fh_type h = 6"
| "frame_ok h (GoAway d) \<longleftrightarrow> fh_type h = 7"
| "frame_ok h (WindowUpdate d) \<longleftrightarrow> fh_type h = 8"

text \<open>The parts of a frame that are read with a length of their own are not empty.\<close>

fun parts_nonempty :: "FrameHeader \<Rightarrow> IFrame \<Rightarrow> bool" where
  "parts_nonempty h (Data d) \<longleftrightarrow>
     df_data d \<noteq> [] \<and> (fh_flags h AND FLAG_PADDED \<noteq> 0 \<longrightarrow> df_padding d \<noteq> [])"
| "parts_nonempty h (Headers d) \<longleftrightarrow>
     hd_data d \<noteq> [] \<and> (fh_flags h AND FLAG_PADDED \<noteq> 0 \<longrightarrow> hd_padding d \<noteq> [])"
| "parts_nonempty h _ \<longleftrightarrow> True"

lemma emits_priority: "emits e (PriorityFrame_writeTo f) (priority_image e f) ()"
  unfolding PriorityFrame_writeTo_def priority_image_def
  by (intro emits_step emits_u32 emits_writeFuint8)

lemma emits_settings: "emits e (SettingsFrame_writeTo is) (concat (map (item_image e) is)) ()"
proof (induction "is")
  case Nil
  then show ?case using emits_return by (simp del: return_action_apply)
next
  case (Cons i "is")
  have "emits e (SettingsItem_writeTo i) (item_image e i) ()"
    unfolding SettingsItem_writeTo_def item_image_def by (intro emits_step emits_u32 emits_u16)
  from emits_then [OF this Cons.IH] show ?case by simp
qed

lemma emits_writing: "emits e m a f' \<Longrightarrow> emits e (writing ok f m) a (ok, f')"
  using emits_bind_return [OF emits_try, of e m a f' "case_option (False, f) (Pair ok)"]
  by (simp add: writing_def)

lemma emits_if_unit: "(c \<Longrightarrow> emits e m a ()) \<Longrightarrow> emits e (if c then m else return_action ()) (if c then a else []) ()"
  by (simp add: emits_return del: return_action_apply)

lemma emits_headers:
  assumes "HeadersFrame_pack d = Inr d'"
  shows "emits e (HeadersFrame_writeTo d h)
     ((if fh_flags h AND FLAG_PADDED \<noteq> 0 then [hd_pad d] else []) @
      (if fh_flags h AND FLAG_PRIORITY \<noteq> 0 then priority_image e (hd_priority d) else []) @
      hd_data d' @ (if fh_flags h AND FLAG_PADDED \<noteq> 0 then hd_padding d' else [])) d'"
  unfolding HeadersFrame_writeTo_def Let_def assms sum.case
  by (intro emits_step emits_if_unit emits_writeFuint8 emits_priority emits_write emits_last)

lemma emits_IFrame:
  assumes "frame_ok h f"
  shows "emits e (IFrame_writeTo f h) (payload e h f) (True, f)"
proof (cases f)
  case (Data d)
  have "emits e (DataFrame_writeTo d h) (payload e h f) ()"
    unfolding DataFrame_writeTo_def Data payload.simps
    by (auto simp del: append_Cons append_Nil intro!: emits_step emits_writeFuint8 emits_write)
  then show ?thesis by (simp add: IFrame_writeTo_def Data emits_writing emits_then_return)
next
  case (Headers d)
  have "HeadersFrame_pack d = Inr d" using assms Headers by (simp add: HeadersFrame_pack_def)
  from emits_writing [OF emits_bind_return [OF emits_headers [OF this]]] show ?thesis
    unfolding IFrame_writeTo_def Headers payload.simps IFrame.case .
next
  case (GoAway d)
  have "emits e (GoAwayFrame_writeTo d) (payload e h f) ()"
    unfolding GoAwayFrame_writeTo_def GoAway payload.simps
    using emits_write [of e "ga_data d"] emits_return [of e "()"]
    by (intro emits_step emits_u32) (auto simp del: return_action_apply)
  then show ?thesis by (simp add: IFrame_writeTo_def GoAway emits_writing emits_then_return)
qed (use assms in \<open>simp_all add: IFrame_writeTo_def emits_writing emits_then_return emits_priority
    emits_settings emits_u32 emits_write RstStreamFrame_writeTo_def PingFrame_writeTo_def
    WindowUpdateFrame_writeTo_def\<close>)


lemma accepts_if_unit:
  "(c \<Longrightarrow> accepts k e m a x) \<Longrightarrow> (\<not> c \<Longrightarrow> x = y) \<Longrightarrow>
   accepts k e (if c then m else return_action y) (if c then a else []) x"
  by (simp add: accepts_return del: return_action_apply)

lemma accepts_priority: "accepts k e (PriorityFrame_readFrom f0) (priority_image e f) (True, f)"
  unfolding accepts_def
proof (intro allI impI)
  fix ba rest
  assume ba: "ba_wf ba" "m_endian ba = e" "unread ba = priority_image e f @ rest"
    and c: "m_position ba + length (priority_image e f) + k \<le> m_capacity ba"
  let ?v = "join31 (pf_stream_dep f) (pf_exclusive f)"
  obtain ba1 where 1: "readFuint32 ba = Inr (?v, ba1)" "ba_wf ba1" "m_endian ba1 = e"
    "m_capacity ba1 = m_capacity ba \<and> m_baseSize ba1 = m_baseSize ba" "data ba1 = data ba"
    "m_position ba1 = m_position ba + length (fixed_image e ?v)" "unread ba1 = [pf_weight f] @ rest"
    using acceptsE [OF accepts_u32 [of 0] ba(1,2), of ?v "[pf_weight f] @ rest"] ba(3) c
    by (auto simp: priority_image_def)
  obtain ba2 where 2: "readFuint8 ba1 = Inr (pf_weight f, ba2)" "ba_wf ba2" "m_endian ba2 = e"
    "m_capacity ba2 = m_capacity ba1 \<and> m_baseSize ba2 = m_baseSize ba1" "data ba2 = data ba1"
    "m_position ba2 = m_position ba1 + 1" "unread ba2 = rest"
    using acceptsE [OF accepts_readFuint8 [of 0] 1(2,3,7)] 1(4,6) c by (auto simp: priority_image_def)
  show "\<exists>ba'. PriorityFrame_readFrom f0 ba = Inr ((True, f), ba') \<and> ba_wf ba' \<and> m_endian ba' = e \<and>
     m_capacity ba' = m_capacity ba \<and> m_baseSize ba' = m_baseSize ba \<and>
     ba_abs ba' = (data ba, m_position ba + length (priority_image e f))"
    using 1 2 by (auto simp: PriorityFrame_readFrom_def priority_image_def ba_abs_def)
qed

lemma accepts_item: "accepts k e SettingsItem_readFrom (item_image e i) i"
  unfolding SettingsItem_readFrom_def item_image_def
  by (rule accepts_bind [OF accepts_u16], rule accepts_bind_return [OF accepts_u32]) simp

lemma length_item_image [simp]: "length (item_image e i) = 6"
  by (simp add: item_image_def)

lemma accepts_settings_loop:
  "accepts k e (settings_read_loop (length is)) (concat (map (item_image e) is)) is"
proof (induction "is")
  case Nil
  then show ?case using accepts_return by (simp del: return_action_apply)
next
  case (Cons i "is")
  show ?case
    unfolding list.size settings_read_loop.simps list.map concat.simps add_0_right add_Suc_right
    by (rule accepts_bind [OF accepts_item], rule accepts_bind_return [OF Cons.IH]) simp
qed

lemma length_settings: "length (concat (map (item_image e) is)) = 6 * length is"
  by (induction "is") simp_all

lemma accepts_sized:
  "bs \<noteq> [] \<or> 0 < k \<Longrightarrow> n = int (length bs) \<Longrightarrow> accepts k e (read_sized n) bs bs"
  by (simp add: read_sized_def accepts_read)

lemma accepts_reading: "accepts k e m a x \<Longrightarrow> accepts k e (reading c m) a (Some (Some (c x)))"
  unfolding reading_def by (rule accepts_bind_return [OF accepts_try]) simp_all

lemma int_unat: "unat w = n \<Longrightarrow> uint w = int n"
  by auto

lemma accepts_data:
  assumes "frame_ok h (Data d)" and "unat (fh_length h) = length (payload e h (Data d))"
    and "0 < k \<or> parts_nonempty h (Data d)"
  shows "accepts k e (DataFrame_readFrom \<lparr>df_pad = 0, df_data = [], df_padding = []\<rparr> h)
           (payload e h (Data d)) d"
proof (cases "fh_flags h AND FLAG_PADDED \<noteq> 0")
  case True
  have len: "uint (fh_length h) - uint (df_pad d) - 1 = int (length (df_data d))"
    using int_unat [OF assms(2)] int_unat [of "df_pad d"] assms(1) True by simp
  have pd: "unat (df_pad d) = length (df_padding d)" using assms(1) True by simp
  have img: "payload e h (Data d) = [df_pad d] @ df_data d @ df_padding d" using True by simp
  show ?thesis
    unfolding img unfolding DataFrame_readFrom_def if_P [OF True]
  proof (rule accepts_bind [OF accepts_readFuint8], rule accepts_bind)
    show "accepts k e (read_sized (uint (fh_length h) - uint (df_pad d) - 1)) (df_data d) (df_data d)"
      using assms(3) len by (intro accepts_sized) auto
    have "accepts k e (ByteArray_read (unat (df_pad d))) (df_padding d) (df_padding d)"
      using assms(3) True pd by (intro accepts_read) auto
    then show "accepts k e (bind_action (ByteArray_read (unat (df_pad d))) (\<lambda>padding. return_action
        (\<lparr>df_pad = 0, df_data = [], df_padding = []\<rparr>
          \<lparr>df_pad := df_pad d, df_data := df_data d, df_padding := padding\<rparr>))) (df_padding d) d"
      by (rule accepts_bind_return) simp
  qed
next
  case False
  then show ?thesis
    using assms unfolding DataFrame_readFrom_def if_not_P [OF False]
    by (intro accepts_bind_return [OF accepts_read]) auto
qed


lemma accepts_headers:
  assumes "frame_ok h (Headers d)" and "unat (fh_length h) = length (payload e h (Headers d))"
    and "0 < k \<or> parts_nonempty h (Headers d)"
  shows "accepts k e (HeadersFrame_readFrom \<lparr>hd_pad = 0, hd_priority = PriorityFrame_new, hd_data = [],
           hd_padding = [], hd_hpack = None, hd_kvs = []\<rparr> h) (payload e h (Headers d)) d"
proof -
  let ?padded = "fh_flags h AND FLAG_PADDED \<noteq> 0" and ?prio = "fh_flags h AND FLAG_PRIORITY \<noteq> 0"
  have plen: "length (priority_image e (hd_priority d)) = 5" by (simp add: priority_image_def)
  have pad: "?padded \<Longrightarrow> unat (hd_pad d) = length (hd_padding d)" using assms(1) by simp
  have len: "uint (fh_length h) - (if ?padded then 1 + uint (hd_pad d) else 0) - (if ?prio then 5 else 0)
      = int (length (hd_data d))"
    using int_unat [OF assms(2)] plen int_unat [OF pad] by simp
  show ?thesis
    unfolding payload.simps HeadersFrame_readFrom_def Let_def FrameHeader.simps HeadersFrame.simps
  proof (rule accepts_bind, rule accepts_if_unit)
    show "accepts k e readFuint8 [hd_pad d] (hd_pad d)" by (rule accepts_readFuint8)
    show "\<not> ?padded \<Longrightarrow> hd_pad d = 0" using assms(1) by simp
  next
    show "accepts k e (bind_action (if ?prio then PriorityFrame_readFrom PriorityFrame_new
              else return_action (True, PriorityFrame_new)) (\<lambda>(_, priority).
          bind_action (read_sized (uint (fh_length h) - (if ?padded then 1 + uint (hd_pad d) else 0)
              - (if ?prio then 5 else 0))) (\<lambda>dat.
          bind_action (if ?padded then ByteArray_read (unat (hd_pad d)) else return_action []) (\<lambda>padding.
            return_action \<lparr>hd_pad = hd_pad d, hd_priority = priority, hd_data = dat,
              hd_padding = padding, hd_hpack = None, hd_kvs = []\<rparr>))))
        ((if ?prio then priority_image e (hd_priority d) else []) @ hd_data d @
         (if ?padded then hd_padding d else [])) d"
      unfolding len
    proof (rule accepts_bind, rule accepts_if_unit [OF accepts_priority])
      show "\<not> ?prio \<Longrightarrow> (True, hd_priority d) = (True, PriorityFrame_new)" using assms(1) by simp
      have "accepts k e (if ?padded then ByteArray_read (unat (hd_pad d)) else return_action [])
          (if ?padded then hd_padding d else []) (hd_padding d)"
        using assms pad by (intro accepts_if_unit accepts_read) auto
      then show "accepts k e (case (True, hd_priority d) of (_, priority) \<Rightarrow>
          bind_action (read_sized (int (length (hd_data d)))) (\<lambda>dat.
          bind_action (if ?padded then ByteArray_read (unat (hd_pad d)) else return_action []) (\<lambda>padding.
            return_action \<lparr>hd_pad = hd_pad d, hd_priority = priority, hd_data = dat,
              hd_padding = padding, hd_hpack = None, hd_kvs = []\<rparr>)))
          (hd_data d @ (if ?padded then hd_padding d else [])) d"
        unfolding prod.case using assms(1,3)
        by (intro accepts_bind [OF accepts_sized] accepts_bind_return) auto
    qed
  qed
qed

lemma accepts_goaway:
  assumes "unat (fh_length h) = length (payload e h (GoAway d))"
  shows "accepts k e (GoAwayFrame_readFrom \<lparr>ga_last_stream_id = 0, ga_r = 0, ga_error_code = 0,
           ga_data = []\<rparr> h) (payload e h (GoAway d)) d"
proof -
  have "accepts k e (if unat (fh_length h) > 8 then ByteArray_read (unat (fh_length h) - 8)
      else return_action []) (if unat (fh_length h) > 8 then ga_data d else []) (ga_data d)"
    using assms by (intro accepts_if_unit accepts_read) auto
  moreover have "(if unat (fh_length h) > 8 then ga_data d else []) = ga_data d" using assms by simp
  ultimately have dat: "accepts k e (if unat (fh_length h) > 8 then ByteArray_read (unat (fh_length h) - 8)
      else return_action []) (ga_data d) (ga_data d)" by simp
  show ?thesis
    unfolding payload.simps GoAwayFrame_readFrom_def GoAwayFrame.simps
    by (rule accepts_bind [OF accepts_u32], rule accepts_bind [OF accepts_u32],
        rule accepts_bind_return [OF dat]) simp
qed

lemma FrameType_of_simps:
  "FrameType_of 0 = Some DATA" "FrameType_of 1 = Some HEADERS" "FrameType_of 2 = Some PRIORITY"
  "FrameType_of 3 = Some RST_STREAM" "FrameType_of 4 = Some SETTINGS" "FrameType_of 5 = Some PUSH_PROMISE"
  "FrameType_of 6 = Some PING" "FrameType_of 7 = Some GOAWAY" "FrameType_of 8 = Some WINDOW_UPDATE"
  "FrameType_of 9 = Some CONTINUATION"
  by (simp_all add: FrameType_of_def frame_types_def)

lemma accepts_IFrame:
  assumes "frame_ok h f" and "unat (fh_length h) = length (payload e h f)"
    and "0 < k \<or> parts_nonempty h f"
  shows "accepts k e (IFrame_readFrom h) (payload e h f) (Some (Some f))"
proof (cases f)
  case (Data d)
  with accepts_data [of h d e k] assms show ?thesis
    by (simp add: IFrame_readFrom_def FrameType_of_simps accepts_reading del: payload.simps parts_nonempty.simps)
next
  case (Headers d)
  with accepts_headers [of h d e k] assms show ?thesis
    by (simp add: IFrame_readFrom_def FrameType_of_simps accepts_reading del: payload.simps parts_nonempty.simps)
next
  case (Priority d)
  with assms(1) show ?thesis
    by (simp add: IFrame_readFrom_def FrameType_of_simps del: return_action_apply)
      (rule accepts_bind [OF accepts_priority, where b = "[]", simplified], simp add: accepts_return del: return_action_apply)
next
  case (RstStream d)
  have "accepts k e (RstStreamFrame_readFrom \<lparr>rs_error_code = 0\<rparr>) (payload e h f) d"
    unfolding RstStreamFrame_readFrom_def RstStream payload.simps
    by (rule accepts_bind_return [OF accepts_u32]) simp
  with RstStream assms(1) show ?thesis
    by (simp add: IFrame_readFrom_def FrameType_of_simps accepts_reading)
next
  case (Settings "is")
  have "accepts k e (SettingsFrame_readFrom h) (payload e h f) is"
    using accepts_settings_loop [of k e "is"] assms(2) Settings
    by (simp add: SettingsFrame_readFrom_def length_settings)
  with Settings assms(1) show ?thesis
    by (simp add: IFrame_readFrom_def FrameType_of_simps accepts_reading)
next
  case (Ping d)
  have "accepts k e (PingFrame_readFrom \<lparr>pg_uint64 = 0\<rparr>) (payload e h f) d"
    unfolding PingFrame_readFrom_def Ping payload.simps
    by (rule accepts_bind_return [OF accepts_read]) (auto simp: mem_value_image_full simp flip: length_0_conv)
  with Ping assms(1) show ?thesis
    by (simp add: IFrame_readFrom_def FrameType_of_simps accepts_reading)
next
  case (GoAway d)
  with accepts_goaway [of h e d k] assms show ?thesis
    by (simp add: IFrame_readFrom_def FrameType_of_simps accepts_reading)
next
  case (WindowUpdate d)
  have "accepts k e (WindowUpdateFrame_readFrom \<lparr>wu_increment = 0, wu_r = 0\<rparr>) (payload e h f) d"
    unfolding WindowUpdateFrame_readFrom_def WindowUpdate payload.simps
    by (rule accepts_bind_return [OF accepts_u32]) simp
  with WindowUpdate assms(1) show ?thesis
    by (simp add: IFrame_readFrom_def FrameType_of_simps accepts_reading)
qed (use assms in simp)


section \<open>Serializing and parsing\<close>

definition with_length :: "nat \<Rightarrow> FrameHeader \<Rightarrow> FrameHeader" where
  "with_length n h = h\<lparr>fh_length := of_nat n\<rparr>"

lemma with_length [simp]:
  "payload e (with_length n h) f = payload e h f" "frame_ok (with_length n h) f = frame_ok h f"
  "parts_nonempty (with_length n h) f = parts_nonempty h f"
  by (cases f; simp add: with_length_def)+

lemma unat_with_length: "n < 2 ^ 24 \<Longrightarrow> unat (fh_length (with_length n h)) = n"
  by (simp add: with_length_def unat_of_nat)

lemma serialize_body_ok:
  fixes h f
  defines "h' \<equiv> with_length (length (payload CHAT_BIG_ENDIAN h f)) h"
  assumes "frame_ok h f"
  obtains ba where
    "serialize_body \<lparr>header = h, frame_data = Some f\<rparr> (ByteArray_new 4096)
       = Inr ((True, \<lparr>header = h', frame_data = Some f\<rparr>), ba)"
    "ba_wf ba" "data ba = header_image CHAT_BIG_ENDIAN h' @ payload CHAT_BIG_ENDIAN h f"
proof -
  let ?e = CHAT_BIG_ENDIAN and ?pl = "payload CHAT_BIG_ENDIAN h f"
  have new: "ba_wf (ByteArray_new 4096)" "m_endian (ByteArray_new 4096) = ?e"
    "ba_abs (ByteArray_new 4096) = ([], 0)"
    by (simp_all add: ba_wf_new) (simp_all add: ByteArray_new_def ba_abs_def data_def)
  obtain ba1 where 1: "FrameHeader_writeTo h (ByteArray_new 4096) = Inr (True, ba1)" "ba_wf ba1"
    "m_endian ba1 = ?e" "ba_abs ba1 = (header_image ?e h, 9)"
    using emitsE [OF emits_FrameHeader new(1,2), of h] new(3) by (auto simp: spec_write_def)
  obtain ba2 where 2: "IFrame_writeTo f h ba1 = Inr ((True, f), ba2)" "ba_wf ba2" "m_endian ba2 = ?e"
    "ba_abs ba2 = (header_image ?e h @ ?pl, 9 + length ?pl)"
    using emitsE [OF emits_IFrame [OF assms(2)] 1(2,3)] 1(4) by (auto simp: spec_write_def)
  obtain ba3 where 3: "setPosition 0 ba2 = Inr ((), ba3)" "ba_wf ba3" "ba_abs ba3 = (data ba2, 0)"
    "m_endian ba3 = ?e"
    using seek_back [OF 2(2), of 0] 2(3) by auto
  obtain ba4 where 4: "FrameHeader_writeTo h' ba3 = Inr (True, ba4)" "ba_wf ba4"
    "ba_abs ba4 = (header_image ?e h' @ ?pl, 9)"
    using emitsE [OF emits_FrameHeader 3(2,4), of h'] 3(3) 2(4) by (auto simp: spec_write_def ba_abs_def)
  have pos: "getPosition ba2 = 9 + length ?pl" using 2(4) by (simp add: ba_abs_def getPosition_def)
  have "serialize_body \<lparr>header = h, frame_data = Some f\<rparr> (ByteArray_new 4096)
       = Inr ((True, \<lparr>header = h', frame_data = Some f\<rparr>), ba4)"
    using 1(1) 2(1) 3(1) 4(1) pos
    by (simp add: serialize_body_def then_action_def bind_action_def FrameHeader_SIZE_def h'_def with_length_def)
  then show ?thesis using 4 by (intro that [of ba4]) (simp_all add: ba_abs_def)
qed

lemma capacity_blocks: "ba_wf ba \<Longrightarrow> m_baseSize ba dvd m_capacity ba"
  by (auto dest: ba_wfD)

lemma parse_body_ok:
  assumes "frame_ok h f" and "unat (fh_length h) = length (payload e h f)"
    and "m_baseSize ba dvd length (payload e h f) \<Longrightarrow> parts_nonempty h f"
    and "ba_wf ba" and "m_endian ba = e" and "m_position ba = 0" and "unread ba = payload e h f @ rest"
  shows "\<exists>ba'. IFrame_readFrom h ba = Inr (Some (Some f), ba')"
proof -
  let ?n = "length (payload e h f)" and ?k = "if m_baseSize ba dvd length (payload e h f) then 0 else 1 :: nat"
  have "length (unread ba) \<le> m_capacity ba"
    using ba_wfD(6,9) [OF assms(4)] by (simp add: unread_def)
  then have "?n \<le> m_capacity ba" using assms(7) by simp
  moreover have "?n \<noteq> m_capacity ba" if "\<not> m_baseSize ba dvd ?n"
    using capacity_blocks [OF assms(4)] that by auto
  ultimately have cap: "m_position ba + ?n + ?k \<le> m_capacity ba" using assms(6) by (auto simp: le_less)
  have "0 < ?k \<or> parts_nonempty h f" using assms(3) by simp
  from accepts_IFrame [OF assms(1,2) this] show ?thesis
    by (rule acceptsE [OF _ assms(4,5,7) cap]) (rule exI)
qed

lemma parse_empty_ok:
  assumes "frame_ok h f" and "unat (fh_length h) = length (payload e h f)" and "payload e h f = []"
    and "ba_wf ba" and "m_endian ba = e" and "m_position ba < m_capacity ba" and "unread ba = []"
  shows "\<exists>ba'. IFrame_readFrom h ba = Inr (Some (Some f), ba')"
proof -
  have "accepts 1 e (IFrame_readFrom h) (payload e h f) (Some (Some f))"
    using accepts_IFrame [OF assms(1,2), of 1] by simp
  from acceptsE [OF this assms(4,5), of "[]"] assms(3,6,7) show ?thesis by fastforce
qed

context byte_stream
begin

lemma serializeTo_ok:
  fixes h f
  defines "h' \<equiv> with_length (length (payload CHAT_BIG_ENDIAN h f)) h"
  assumes "frame_ok h f" and "up s" and "length (payload CHAT_BIG_ENDIAN h f) < 2 ^ 24"
  obtains s' where
    "serializeTo wr mx \<lparr>header = h, frame_data = Some f\<rparr> s
       = Inr (9 + int (length (payload CHAT_BIG_ENDIAN h f)), \<lparr>header = h', frame_data = Some f\<rparr>, s')"
    "up s'"
    "out s' = out s @ header_image CHAT_BIG_ENDIAN h' @ payload CHAT_BIG_ENDIAN h f"
proof -
  let ?W = "header_image CHAT_BIG_ENDIAN h' @ payload CHAT_BIG_ENDIAN h f"
  obtain ba where b: "serialize_body \<lparr>header = h, frame_data = Some f\<rparr> (ByteArray_new 4096)
       = Inr ((True, \<lparr>header = h', frame_data = Some f\<rparr>), ba)" "ba_wf ba" "data ba = ?W"
    using serialize_body_ok [OF assms(2)] unfolding h'_def .
  obtain ba1 where 1: "setPosition 0 ba = Inr ((), ba1)" "ba_wf ba1" "ba_abs ba1 = (?W, 0)"
    using seek_back [OF b(2), of 0] b(3) by auto
  have u: "unread ba1 = ?W" using 1(3) by (simp add: unread_abs)
  have n: "getReadSize ba1 = length ?W"
    using 1(3) ba_wfD(9) [OF 1(2)] by (simp add: getReadSize_def ba_abs_def)
  obtain s' ba2 where 2: "writeFixSize wr mx (length ?W) s ba1 = Inr (int (length ?W), s', ba2)"
        "out s' = out s @ take (length ?W) (unread ba1)" "ba_wf ba2" "ba_abs ba2 = (data ba1, m_position ba1 + length ?W)"
    "up s'"
    using write_exact [OF 1(2) _ assms(3), of "length ?W"] assms(4) u by simp blast
  have "m_size ba2 = length ?W"
    using ba_wfD(9) [OF 2(3)] 2(4) 1(3) by (simp add: ba_abs_def)
  with 2 b(1) 1(1) n u show ?thesis by (intro that [of s']) (simp_all add: serializeTo_def)
qed

lemma parseFrom_header:
  assumes "inc t = header_image CHAT_BIG_ENDIAN h @ rest"
  obtains t1 ba0 ba where "readFixSize rd mx 9 t (ByteArray_new 4096) = Inr (9, t1, ba0)" "inc t1 = rest"
    "then_action (setPosition 0) (FrameHeader_readFrom FrameHeader_new) ba0 = Inr (Some h, ba)" "ba_wf ba"
    "m_endian ba = CHAT_BIG_ENDIAN" "m_baseSize ba = 4096"
    "ba_abs ba = (header_image CHAT_BIG_ENDIAN h, 9)"
proof -
  let ?e = CHAT_BIG_ENDIAN
  have new: "ba_wf (ByteArray_new 4096)" "m_endian (ByteArray_new 4096) = ?e"
    "ba_abs (ByteArray_new 4096) = ([], 0)" "m_baseSize (ByteArray_new 4096) = 4096"
    by (simp_all add: ba_wf_new) (simp_all add: ByteArray_new_def ba_abs_def data_def)
  obtain t1 ba0 where 0: "readFixSize rd mx 9 t (ByteArray_new 4096) = Inr (9, t1, ba0)"
    "inc t1 = rest" "ba_wf ba0" "ba_abs ba0 = (header_image ?e h, 9)" "m_endian ba0 = ?e"
    "m_baseSize ba0 = 4096"
    using read_exact [OF new(1), of 9 t] assms new(2,3,4)
    by (auto simp: spec_write_def)
  obtain ba1 where 1: "setPosition 0 ba0 = Inr ((), ba1)" "ba_wf ba1" "ba_abs ba1 = (header_image ?e h, 0)"
    "m_endian ba1 = ?e" "m_baseSize ba1 = 4096"
    using seek_back [OF 0(3), of 0] 0(4,5,6) by (auto simp: ba_abs_def)
  have u: "unread ba1 = header_image ?e h @ []" using 1(3) by (simp add: unread_abs)
  have c: "m_position ba1 + length (header_image ?e h) + 0 \<le> m_capacity ba1"
    using 1(3) ba_wfD(6,9) [OF 1(2)] by (auto simp: ba_abs_def)
  obtain ba2 where 2: "FrameHeader_readFrom FrameHeader_new ba1 = Inr (Some h, ba2)" "ba_wf ba2"
    "m_endian ba2 = ?e" "m_baseSize ba2 = 4096" "ba_abs ba2 = (header_image ?e h, 9)"
    using acceptsE [OF accepts_FrameHeader 1(2,4) u c, of FrameHeader_new] 1(3,5)
    by (auto simp: ba_abs_def)
  have "then_action (setPosition 0) (FrameHeader_readFrom FrameHeader_new) ba0 = Inr (Some h, ba2)"
    using 1(1) 2(1) by (simp add: then_action_def bind_action_def)
  from that [OF 0(1,2) this 2(2-5)] show ?thesis .
qed

lemma parseFrom_ok:
  assumes "frame_ok h f"
    and "unat (fh_length h) = length (payload CHAT_BIG_ENDIAN h f)"
    and "payload CHAT_BIG_ENDIAN h f = [] \<or> \<not> 4096 dvd length (payload CHAT_BIG_ENDIAN h f) \<or> parts_nonempty h f"
    and "inc t = header_image CHAT_BIG_ENDIAN h @ payload CHAT_BIG_ENDIAN h f @ rest"
  shows "\<exists>t'. parseFrom rd mx t = Inr (Some \<lparr>header = h, frame_data = Some f\<rparr>, t') \<and> inc t' = rest"
proof -
  let ?e = CHAT_BIG_ENDIAN and ?pl = "payload CHAT_BIG_ENDIAN h f"
  obtain t1 ba0 ba where b: "readFixSize rd mx 9 t (ByteArray_new 4096) = Inr (9, t1, ba0)" "inc t1 = ?pl @ rest"
    "then_action (setPosition 0) (FrameHeader_readFrom FrameHeader_new) ba0 = Inr (Some h, ba)" "ba_wf ba"
    "m_endian ba = ?e" "m_baseSize ba = 4096" "ba_abs ba = (header_image ?e h, 9)"
    using parseFrom_header [OF assms(4)] by blast
  show ?thesis
  proof (cases "?pl = []")
    case True
    have "m_capacity ba \<noteq> 0" using ba_wfD(1,2,4) [OF b(4)] by simp
    then have cap: "4096 \<le> m_capacity ba" using capacity_blocks [OF b(4)] b(6) by (auto intro: dvd_imp_le)
    have "\<exists>ba'. IFrame_readFrom h ba = Inr (Some (Some f), ba')"
      using parse_empty_ok [OF assms(1,2) True b(4,5)] b(7) cap by (simp add: ba_abs_def unread_def)
    moreover have "fh_length h = 0" using assms(2) True by (simp add: unat_eq_zero)
    ultimately show ?thesis using b(1,2,3) True by (auto simp: parseFrom_def FrameHeader_SIZE_def)
  next
    case False
    obtain ba1 where 1: "setPosition 0 ba = Inr ((), ba1)" "ba_wf ba1" "ba_abs ba1 = (header_image ?e h, 0)"
      "m_endian ba1 = ?e" "m_baseSize ba1 = 4096"
      using seek_back [OF b(4), of 0] b(5,6,7) by (auto simp: ba_abs_def)
    obtain t2 ba2 where 2: "readFixSize rd mx (length ?pl) t1 ba1 = Inr (int (length ?pl), t2, ba2)"
      "inc t2 = rest" "ba_wf ba2" "ba_abs ba2 = (?pl @ drop (length ?pl) (header_image ?e h), length ?pl)"
      "m_endian ba2 = ?e" "m_baseSize ba2 = 4096"
      using read_exact [OF 1(2), of "length ?pl" t1] unsigned_less [of "fh_length h", where 'a = nat] assms(2)
        b(2) 1(3,4,5) by (auto simp: spec_write_def)
    obtain ba3 where 3: "setPosition 0 ba2 = Inr ((), ba3)" "ba_wf ba3"
      "ba_abs ba3 = (?pl @ drop (length ?pl) (header_image ?e h), 0)" "m_endian ba3 = ?e" "m_baseSize ba3 = 4096"
      using seek_back [OF 2(3), of 0] 2(4,5,6) by (auto simp: ba_abs_def)
    have "\<exists>ba'. IFrame_readFrom h ba3 = Inr (Some (Some f), ba')"
      using parse_body_ok [OF assms(1,2) _ 3(2,4)] 3(3,5) assms(3) False
      by (simp add: ba_abs_def unread_def)
    moreover have "fh_length h > 0" using assms(2) False by (metis length_0_conv unat_0 word_gt_0)
    ultimately show ?thesis
      using b(1,3) 1(1) 2(1,2) 3(1) assms(2) False
      by (auto simp: parseFrom_def FrameHeader_SIZE_def)
  qed
qed

lemma frame_roundtrip_stream:
  assumes "up s" and "frame_ok h f"
    and "n = length (payload CHAT_BIG_ENDIAN h f)" and "n < 2 ^ 24"
    and "n = 0 \<or> \<not> 4096 dvd n \<or> parts_nonempty h f"
  shows "\<exists>sent frame s'. serializeTo wr mx \<lparr>header = h, frame_data = Some f\<rparr> s = Inr (int (length sent), frame, s') \<and>
           out s' = out s @ sent \<and> length sent = 9 + n \<and>
           header frame = h\<lparr>fh_length := of_nat n\<rparr> \<and> frame_data frame = Some f \<and>
           (\<forall>t rest. inc t = sent @ rest \<longrightarrow>
              (\<exists>t'. parseFrom rd mx t = Inr (Some frame, t') \<and> inc t' = rest))"
proof -
  let ?h = "with_length n h" and ?pl = "payload CHAT_BIG_ENDIAN h f"
  let ?frame = "\<lparr>header = ?h, frame_data = Some f\<rparr>" and ?sent = "header_image CHAT_BIG_ENDIAN ?h @ ?pl"
  obtain s' where s: "serializeTo wr mx \<lparr>header = h, frame_data = Some f\<rparr> s = Inr (9 + int n, ?frame, s')"
    "out s' = out s @ ?sent"
    using serializeTo_ok [OF assms(2,1)] assms(3,4) by blast
  have "\<exists>t'. parseFrom rd mx t = Inr (Some ?frame, t') \<and> inc t' = rest" if "inc t = ?sent @ rest" for t rest
    using parseFrom_ok [of ?h f] assms(2-5) that by (simp add: unat_with_length)
  with s assms(3) show ?thesis
    by (intro exI [of _ ?sent] exI [of _ ?frame] exI [of _ s']) (simp add: with_length_def)
qed

end



section \<open>Frames that do not get through\<close>

lemma emits_push_promise: "emits e (PushPromisedFrame_writeTo d h) (payload e h (PushPromised d)) ()"
  unfolding PushPromisedFrame_writeTo_def payload.simps
  by (auto simp del: append_Cons append_Nil intro!: emits_step emits_writeFuint8 emits_u32 emits_write)

text \<open>A \<open>PUSH_PROMISE\<close> frame is never sent: \<open>PushPromisedFrame::writeTo\<close> returns false also when
  it has written every field, so \<open>serializeTo\<close> returns -1 for every such frame, on every stream, and
  hands the stream nothing.\<close>

theorem push_promise_never_sent:
  "serializeTo wr mx \<lparr>header = h, frame_data = Some (PushPromised d)\<rparr> s =
     Inr (-1, \<lparr>header = h, frame_data = Some (PushPromised d)\<rparr>, s)"
proof -
  let ?e = CHAT_BIG_ENDIAN
  have new: "ba_wf (ByteArray_new 4096)" "m_endian (ByteArray_new 4096) = ?e"
    by (simp_all add: ba_wf_new) (simp add: ByteArray_new_def)
  obtain ba1 where 1: "FrameHeader_writeTo h (ByteArray_new 4096) = Inr (True, ba1)" "ba_wf ba1"
    "m_endian ba1 = ?e"
    using emitsE [OF emits_FrameHeader new, of h] by metis
  have "emits ?e (IFrame_writeTo (PushPromised d) h) (payload ?e h (PushPromised d)) (False, PushPromised d)"
    by (simp add: IFrame_writeTo_def emits_writing emits_last emits_push_promise del: payload.simps)
  from emitsE [OF this 1(2,3)] obtain ba2 where
    "IFrame_writeTo (PushPromised d) h ba1 = Inr ((False, PushPromised d), ba2)" by metis
  with 1(1) show ?thesis
    by (simp add: serializeTo_def serialize_body_def then_action_def bind_action_def)
qed

text \<open>A peer can crash the parser: on a padded \<open>DATA\<close> frame with pad length 0 whose payload fills
  the blocks of the receive buffer exactly (4096 bytes, say), \<open>DataFrame::readFrom\<close> reads the empty
  padding at the end of the buffer, which dereferences the null \<open>m_cur\<close>; no exception handler sees
  this.\<close>

theorem padded_data_crashes:
  assumes "ba_wf ba" and "m_position ba = 0" and "unread ba = 0 # dat" and "dat \<noteq> []"
    and "length (unread ba) = m_capacity ba" and "unat (fh_length h) = m_capacity ba"
    and "fh_type h = 0" and "fh_flags h AND FLAG_PADDED \<noteq> 0"
  shows "IFrame_readFrom h ba = Inl Null_deref"
proof -
  have "unread ba = [0] @ dat" using assms(3) by simp
  from acceptsE [OF accepts_readFuint8 [of 0] assms(1) refl this] obtain ba1 where
    1: "readFuint8 ba = Inr (0, ba1)" "ba_wf ba1" "m_position ba1 = 1" "unread ba1 = dat" "m_capacity ba1 = m_capacity ba"
    using assms(2,3,5) by auto
  have len: "m_capacity ba = Suc (length dat)" using assms(3,5) by simp
  let ?ba2 = "ba1\<lparr>m_position := m_position ba1 + length dat,
      m_cur := cur_of (m_baseSize ba1) (m_capacity ba1) (m_position ba1 + length dat)\<rparr>"
  have 2: "ByteArray_read (length dat) ba1 = Inr (dat, ?ba2)"
    using read_ok [OF 1(2), of "length dat"] 1(4) assms(4) by simp
  have "ByteArray_read 0 ?ba2 = Inl Null_deref"
    using ba_wfD(1) [OF 1(2)] 1(3,5) len by (simp add: ByteArray_read_def cur_of_def)
  moreover have "uint (fh_length h) - uint (0 :: byte) - 1 = int (length dat)"
    using int_unat [OF assms(6)] len by simp
  ultimately show ?thesis
    using 1(1) 2 assms(7,8)
    by (simp add: IFrame_readFrom_def FrameType_of_simps reading_def try_action_def bind_action_def
        DataFrame_readFrom_def read_sized_def)
qed

theorem padded_data_crashes_witness:
  "IFrame_readFrom \<lparr>fh_type = 0, fh_length = 3, fh_flags = FLAG_PADDED, fh_identifier = 1, fh_r = 0\<rparr>
     (ByteArray_of [0, 65, 66] True) = Inl Null_deref"
  by (rule padded_data_crashes [where dat = "[65, 66]"])
    (simp_all add: ba_wf_of data_of unread_def, simp_all add: ByteArray_of_def)

end
