(* ===== verification/Util.thy ===== *)
theory Util
  imports Prelude
begin

text \<open>
  \<^verbatim>\<open>src/chat/util.cc\<close>: the string helpers the servers rely on: case conversion, splitting and trimming,
  URL escaping, base64, hexadecimal dumps and JSON escaping. A \<open>std::string\<close> is a byte list, so that
  embedded zero bytes are kept; \<open>c_str\<close> is what a C function sees of it. The loops that build their
  result lazily or into a buffer of computed size are modelled as they are written and proved equal to
  a reference definition.
\<close>

section \<open>What the standard library provides\<close>

text \<open>The C string of a byte string: it ends at the first zero byte.\<close>

definition c_str :: "bytes \<Rightarrow> bytes" where
  "c_str s = takeWhile (\<lambda>c. c \<noteq> 0) s"

text \<open>
  The index of the first (last) character that satisfies a test, \<open>None\<close> for \<open>npos\<close>: \<open>find\<close>,
  \<open>find_first_of\<close>, \<open>find_first_not_of\<close>, \<open>rfind\<close> and \<open>find_last_not_of\<close>.
\<close>

fun first_index :: "('a \<Rightarrow> bool) \<Rightarrow> 'a list \<Rightarrow> nat option" where
  "first_index P [] = None"
| "first_index P (x # xs) = (if P x then Some 0 else map_option Suc (first_index P xs))"

definition last_index :: "('a \<Rightarrow> bool) \<Rightarrow> 'a list \<Rightarrow> nat option" where
  "last_index P xs = map_option (\<lambda>i. length xs - 1 - i) (first_index P (rev xs))"

text \<open>\<open>substr(pos, n)\<close> for a \<open>pos\<close> inside the string.\<close>

definition substr :: "nat \<Rightarrow> nat \<Rightarrow> bytes \<Rightarrow> bytes" where
  "substr pos n s = take n (drop pos s)"

definition toupper :: "byte \<Rightarrow> byte" where
  "toupper c = (if 97 \<le> c \<and> c \<le> 122 then c - 32 else c)"

definition tolower :: "byte \<Rightarrow> byte" where
  "tolower c = (if 65 \<le> c \<and> c \<le> 90 then c + 32 else c)"

definition isxdigit :: "byte \<Rightarrow> bool" where
  "isxdigit c \<longleftrightarrow> 48 \<le> c \<and> c \<le> 57 \<or> 65 \<le> c \<and> c \<le> 70 \<or> 97 \<le> c \<and> c \<le> 102"

section \<open>Case, paths, splitting and trimming\<close>

definition ToUpper :: "bytes \<Rightarrow> bytes" where
  "ToUpper name = map toupper name"

definition ToLower :: "bytes \<Rightarrow> bytes" where
  "ToLower name = map tolower name"

definition Dirname :: "bytes \<Rightarrow> bytes" where
  "Dirname filename =
     (if filename = [] then str ''.''
      else case last_index ((=) 47) filename of
             None \<Rightarrow> str ''.''
           | Some pos \<Rightarrow> if pos = 0 then str ''/'' else substr 0 pos filename)"

definition Basename :: "bytes \<Rightarrow> bytes" where
  "Basename filename =
     (if filename = [] then filename
      else case last_index ((=) 47) filename of
             None \<Rightarrow> filename
           | Some pos \<Rightarrow> drop (pos + 1) filename)"

text \<open>
  The loop of both overloads of \<open>split\<close>: \<open>P\<close> tells the delimiters, \<open>rest\<close> is the string from \<open>last\<close> on.
\<close>

function split_loop :: "(byte \<Rightarrow> bool) \<Rightarrow> bytes \<Rightarrow> 64 word \<Rightarrow> bytes list \<Rightarrow> bytes list" where
  "split_loop P rest mx result =
     (case first_index P rest of
        None \<Rightarrow> result @ [rest]
      | Some pos \<Rightarrow>
          let result' = result @ [take pos rest]; rest' = drop (pos + 1) rest; mx' = mx - 1 in
          if mx' = 1 then result' @ [rest'] else split_loop P rest' mx' result')"
  by pat_completeness auto

lemma first_index_less: "first_index P xs = Some i \<Longrightarrow> i < length xs"
  by (induction xs arbitrary: i) (auto split: if_splits)

termination split_loop
  by (relation "measure (\<lambda>(P, rest, mx, result). length rest)") (auto dest: first_index_less)

declare split_loop.simps [simp del]

definition split_char :: "bytes \<Rightarrow> byte \<Rightarrow> 64 word \<Rightarrow> bytes list" where
  "split_char s delim mx = (if s = [] then [] else split_loop ((=) delim) s mx [])"

definition split_any :: "bytes \<Rightarrow> bytes \<Rightarrow> 64 word \<Rightarrow> bytes list" where
  "split_any s delims mx = (if s = [] then [] else split_loop (\<lambda>c. c \<in> set (c_str delims)) s mx [])"

text \<open>The default delimiters of the trim functions.\<close>

definition WHITESPACE :: bytes where
  "WHITESPACE = [32, 9, 13, 10]"

definition Trim :: "bytes \<Rightarrow> bytes \<Rightarrow> bytes" where
  "Trim s delimit =
     (case first_index (\<lambda>c. c \<notin> set delimit) s of
        None \<Rightarrow> []
      | Some begin' \<Rightarrow>
          (case last_index (\<lambda>c. c \<notin> set delimit) s of
             None \<Rightarrow> drop begin' s
           | Some end' \<Rightarrow> substr begin' (end' + 1 - begin') s))"

definition TrimLeft :: "bytes \<Rightarrow> bytes \<Rightarrow> bytes" where
  "TrimLeft s delimit =
     (case first_index (\<lambda>c. c \<notin> set delimit) s of None \<Rightarrow> [] | Some begin' \<Rightarrow> drop begin' s)"

definition TrimRight :: "bytes \<Rightarrow> bytes \<Rightarrow> bytes" where
  "TrimRight s delimit =
     (case last_index (\<lambda>c. c \<notin> set delimit) s of None \<Rightarrow> [] | Some end' \<Rightarrow> substr 0 end' s)"

section \<open>Numbers\<close>

definition isspace :: "byte \<Rightarrow> bool" where
  "isspace c \<longleftrightarrow> c = 32 \<or> 9 \<le> c \<and> c \<le> 13"

definition isdigit :: "byte \<Rightarrow> bool" where
  "isdigit c \<longleftrightarrow> 48 \<le> c \<and> c \<le> 57"

definition digits_value :: "bytes \<Rightarrow> nat" where
  "digits_value ds = foldl (\<lambda>n d. 10 * n + (unat d - 48)) 0 ds"

text \<open>
  \<open>strtoull(s, nullptr, 10)\<close>: white space, a sign, digits; a value that does not fit gives \<open>ULLONG_MAX\<close>.
\<close>

definition strtoull :: "bytes \<Rightarrow> 64 word" where
  "strtoull s =
     (let t = dropWhile isspace s;
          neg = (t \<noteq> [] \<and> hd t = 45);
          u = (if t \<noteq> [] \<and> (hd t = 45 \<or> hd t = 43) then drop 1 t else t);
          n = digits_value (takeWhile isdigit u)
      in if n \<ge> 2 ^ 64 then - 1 else if neg then - of_nat n else of_nat n)"

definition Atoi :: "bytes \<Rightarrow> 64 word" where
  "Atoi s = (if s = [] then 0 else strtoull (c_str s))"

section \<open>Percent encoding\<close>

definition uri_chars :: "nat list" where
  "uri_chars =
     [0, 0, 0, 0, 0, 0, 0, 0, 0, 0, 0, 0, 0, 0, 0, 0, 0, 0, 0, 0, 0, 0, 0, 0, 0, 0, 0, 0, 0, 0, 0, 0,
      0, 0, 0, 0, 0, 0, 0, 0, 0, 0, 0, 0, 0, 1, 1, 0, 1, 1, 1, 1, 1, 1, 1, 1, 1, 1, 0, 0, 0, 1, 0, 0,
      0, 1, 1, 1, 1, 1, 1, 1, 1, 1, 1, 1, 1, 1, 1, 1, 1, 1, 1, 1, 1, 1, 1, 1, 1, 1, 1, 0, 0, 0, 0, 1,
      0, 1, 1, 1, 1, 1, 1, 1, 1, 1, 1, 1, 1, 1, 1, 1, 1, 1, 1, 1, 1, 1, 1, 1, 1, 1, 1, 0, 0, 0, 1, 0,
      0, 0, 0, 0, 0, 0, 0, 0, 0, 0, 0, 0, 0, 0, 0, 0, 0, 0, 0, 0, 0, 0, 0, 0, 0, 0, 0, 0, 0, 0, 0, 0,
      0, 0, 0, 0, 0, 0, 0, 0, 0, 0, 0, 0, 0, 0, 0, 0, 0, 0, 0, 0, 0, 0, 0, 0, 0, 0, 0, 0, 0, 0, 0, 0,
      0, 0, 0, 0, 0, 0, 0, 0, 0, 0, 0, 0, 0, 0, 0, 0, 0, 0, 0, 0, 0, 0, 0, 0, 0, 0, 0, 0, 0, 0, 0, 0,
      0, 0, 0, 0, 0, 0, 0, 0, 0, 0, 0, 0, 0, 0, 0, 0, 0, 0, 0, 0, 0, 0, 0, 0, 0, 0, 0, 0, 0, 0, 0, 0]"

definition xdigit_chars :: "byte list" where
  "xdigit_chars =
     [0, 0, 0, 0, 0, 0, 0, 0, 0, 0, 0, 0, 0, 0, 0, 0, 0, 0, 0, 0, 0, 0, 0, 0, 0, 0, 0, 0, 0, 0, 0, 0,
      0, 0, 0, 0, 0, 0, 0, 0, 0, 0, 0, 0, 0, 0, 0, 0, 0, 1, 2, 3, 4, 5, 6, 7, 8, 9, 0, 0, 0, 0, 0, 0,
      0, 10, 11, 12, 13, 14, 15, 0, 0, 0, 0, 0, 0, 0, 0, 0, 0, 0, 0, 0, 0, 0, 0, 0, 0, 0, 0, 0, 0, 0, 0, 0,
      0, 10, 11, 12, 13, 14, 15, 0, 0, 0, 0, 0, 0, 0, 0, 0, 0, 0, 0, 0, 0, 0, 0, 0, 0, 0, 0, 0, 0, 0, 0, 0,
      0, 0, 0, 0, 0, 0, 0, 0, 0, 0, 0, 0, 0, 0, 0, 0, 0, 0, 0, 0, 0, 0, 0, 0, 0, 0, 0, 0, 0, 0, 0, 0,
      0, 0, 0, 0, 0, 0, 0, 0, 0, 0, 0, 0, 0, 0, 0, 0, 0, 0, 0, 0, 0, 0, 0, 0, 0, 0, 0, 0, 0, 0, 0, 0,
      0, 0, 0, 0, 0, 0, 0, 0, 0, 0, 0, 0, 0, 0, 0, 0, 0, 0, 0, 0, 0, 0, 0, 0, 0, 0, 0, 0, 0, 0, 0, 0,
      0, 0, 0, 0, 0, 0, 0, 0, 0, 0, 0, 0, 0, 0, 0, 0, 0, 0, 0, 0, 0, 0, 0, 0, 0, 0, 0, 0, 0, 0, 0, 0]"

definition CHAR_IS_UNRESERVED :: "byte \<Rightarrow> bool" where
  "CHAR_IS_UNRESERVED c \<longleftrightarrow> uri_chars ! unat c \<noteq> 0"

definition hexdigits :: bytes where
  "hexdigits = str ''0123456789ABCDEF''"

text \<open>
  The loops of \<open>UrlEncode\<close> and \<open>UrlDecode\<close>. \<open>seen\<close> is the part of the string before the current
  character and \<open>ss\<close> the result so far, null as long as nothing had to be replaced.
\<close>

fun url_encode_loop :: "bool \<Rightarrow> bytes \<Rightarrow> bytes \<Rightarrow> bytes option \<Rightarrow> bytes option" where
  "url_encode_loop space_as_plus seen [] ss = ss"
| "url_encode_loop space_as_plus seen (c # cs) ss =
     url_encode_loop space_as_plus (seen @ [c]) cs
       (if \<not> CHAR_IS_UNRESERVED c then
          let s = (case ss of None \<Rightarrow> seen | Some s \<Rightarrow> s) in
          if c = 32 \<and> space_as_plus then Some (s @ [43])
          else Some (s @ [37] @ [hexdigits ! unat (drop_bit 4 c)] @ [hexdigits ! unat (c AND 0xf)])
        else case ss of None \<Rightarrow> None | Some s \<Rightarrow> Some (s @ [c]))"

definition UrlEncode :: "bytes \<Rightarrow> bool \<Rightarrow> bytes" where
  "UrlEncode s space_as_plus =
     (case url_encode_loop space_as_plus [] s None of None \<Rightarrow> s | Some r \<Rightarrow> r)"

fun url_decode_loop :: "bool \<Rightarrow> bytes \<Rightarrow> bytes \<Rightarrow> bytes option \<Rightarrow> bytes option" where
  "url_decode_loop space_as_plus seen [] ss = ss"
| "url_decode_loop space_as_plus seen (c # cs) ss =
     (if c = 43 \<and> space_as_plus then
        url_decode_loop space_as_plus (seen @ [c]) cs
          (Some ((case ss of None \<Rightarrow> seen | Some s \<Rightarrow> s) @ [32]))
      else if c = 37 \<and> 2 \<le> length cs \<and> isxdigit (cs ! 0) \<and> isxdigit (cs ! 1) then
        url_decode_loop space_as_plus (seen @ c # take 2 cs) (drop 2 cs)
          (Some ((case ss of None \<Rightarrow> seen | Some s \<Rightarrow> s)
                 @ [push_bit 4 (xdigit_chars ! unat (cs ! 0)) OR xdigit_chars ! unat (cs ! 1)]))
      else
        url_decode_loop space_as_plus (seen @ [c]) cs
          (case ss of None \<Rightarrow> None | Some s \<Rightarrow> Some (s @ [c])))"

definition UrlDecode :: "bytes \<Rightarrow> bool \<Rightarrow> bytes" where
  "UrlDecode s space_as_plus =
     (case url_decode_loop space_as_plus [] s None of None \<Rightarrow> s | Some r \<Rightarrow> r)"

section \<open>Base64, hexadecimal dumps and JSON escaping\<close>

definition base64_chars :: "bool \<Rightarrow> bytes" where
  "base64_chars url =
     (if url then str ''ABCDEFGHIJKLMNOPQRSTUVWXYZabcdefghijklmnopqrstuvwxyz0123456789-_''
      else str ''ABCDEFGHIJKLMNOPQRSTUVWXYZabcdefghijklmnopqrstuvwxyz0123456789+/'')"

function base64encode_loop :: "bool \<Rightarrow> bytes \<Rightarrow> bytes \<Rightarrow> bytes" where
  "base64encode_loop url ptr ret =
     (if ptr = [] then ret
      else
        let i = length (take 3 ptr);
            packed = foldl (\<lambda>packed c. push_bit 8 packed OR ucast c) (0 :: 32 word) (take 3 ptr);
            padding = (if i = 2 then 1 else if i = 1 then 2 else 0 :: nat);
            packed' = (push_bit 8 ^^ (3 - i)) packed;
            digit = (\<lambda>v. base64_chars url ! unat (v :: 32 word))
        in base64encode_loop url (drop 3 ptr)
             (ret @ [digit (drop_bit 18 packed')] @ [digit (drop_bit 12 packed' AND 0x3f)]
              @ (if padding \<noteq> 2 then [digit (drop_bit 6 packed' AND 0x3f)] else [])
              @ (if padding = 0 then [digit (packed' AND 0x3f)] else [])
              @ replicate padding 61))"
  by pat_completeness auto

termination base64encode_loop
  by (relation "measure (\<lambda>(url, ptr, ret). length ptr)") simp_all

declare base64encode_loop.simps [simp del]

definition base64encode :: "bytes \<Rightarrow> bool \<Rightarrow> bytes" where
  "base64encode dat url = base64encode_loop url dat []"

text \<open>The value of a digit; \<open>None\<close> for an invalid character.\<close>

definition base64_value :: "bool \<Rightarrow> byte \<Rightarrow> 32 word option" where
  "base64_value url c =
     (let c62 = (if url then 45 else 43); c63 = (if url then 95 else 47) in
      if 65 \<le> c \<and> c \<le> 90 then Some (ucast c - 65)
      else if 97 \<le> c \<and> c \<le> 122 then Some (ucast c - 97 + 26)
      else if 48 \<le> c \<and> c \<le> 57 then Some (ucast c - 48 + 52)
      else if c = c62 then Some 62
      else if c = c63 then Some 63
      else None)"

text \<open>
  The inner loop of \<open>base64decode\<close> over at most four characters: \<open>i\<close>, \<open>padding\<close>, \<open>packed\<close> and the
  pointer after it, \<open>None\<close> where it returns the empty string.
\<close>

fun base64_group ::
    "bool \<Rightarrow> nat \<Rightarrow> nat \<Rightarrow> 32 word \<Rightarrow> bytes \<Rightarrow> (nat \<times> nat \<times> 32 word \<times> bytes) option" where
  "base64_group url i padding packed [] = Some (i, padding, packed, [])"
| "base64_group url i padding packed (c # cs) =
     (if \<not> i < 4 then Some (i, padding, packed, c # cs)
      else if c = 61 then base64_group url (i + 1) (padding + 1) (push_bit 6 packed) cs
      else if padding > 0 then None
      else case base64_value url c of
             None \<Rightarrow> None
           | Some val \<Rightarrow> base64_group url (i + 1) padding (push_bit 6 packed OR val) cs)"

lemma base64_group_shorter:
  "base64_group url i padding packed cs = Some (i', padding', packed', cs') \<Longrightarrow>
     length cs' \<le> length cs \<and> (i < 4 \<longrightarrow> cs \<noteq> [] \<longrightarrow> length cs' < length cs)"
proof (induction url i padding packed cs rule: base64_group.induct)
  case (2 url i padding packed c cs)
  then show ?case by (fastforce split: if_splits option.splits)
qed simp

text \<open>
  The outer loop; \<open>room\<close> is the size the result was given before it and \<open>out\<close> what \<open>writeBuf\<close> has
  written. Writing past the end of the result is \<open>Bad_index\<close>.
\<close>

function base64decode_loop :: "bool \<Rightarrow> nat \<Rightarrow> bytes \<Rightarrow> bytes \<Rightarrow> error + bytes" where
  "base64decode_loop url room ptr out =
     (if ptr = [] then Inr out
      else case base64_group url 0 0 0 ptr of
        None \<Rightarrow> Inr []
      | Some (i, padding, packed, ptr') \<Rightarrow>
          if i \<noteq> 4 \<or> padding > 0 \<and> ptr' \<noteq> [] \<or> padding > 2 then Inr []
          else
            let out' = out @ [ucast (drop_bit 16 packed AND 0xff)]
                  @ (if padding \<noteq> 2 then [ucast (drop_bit 8 packed AND 0xff)] else [])
                  @ (if padding = 0 then [ucast (packed AND 0xff)] else [])
            in if length out' > room then Inl Bad_index else base64decode_loop url room ptr' out')"
  by pat_completeness auto

termination base64decode_loop
  by (relation "measure (\<lambda>(url, room, ptr, out). length ptr)") (auto dest: base64_group_shorter)

declare base64decode_loop.simps [simp del]

definition base64decode :: "bytes \<Rightarrow> bool \<Rightarrow> error + bytes" where
  "base64decode src url = base64decode_loop url (length src * 3 div 4) src []"

definition hex_nibble :: "byte \<Rightarrow> byte" where
  "hex_nibble c = (if c > 9 then c + 97 - 10 else c + 48)"

definition hexstring_from_data :: "bytes \<Rightarrow> bytes" where
  "hexstring_from_data dat =
     concat (map (\<lambda>b. [hex_nibble (drop_bit 4 b AND 0xf), hex_nibble (b AND 0xf)]) dat)"

text \<open>The characters that JSON escapes, with the letter that follows the backslash.\<close>

definition json_escapes :: "(byte \<times> byte) list" where
  "json_escapes = [(12, 102), (9, 116), (13, 114), (10, 110), (8, 98), (34, 34), (92, 92)]"

fun NeedEscape :: "bytes \<Rightarrow> bool" where
  "NeedEscape [] = False"
| "NeedEscape (c # cs) = (if map_of json_escapes c \<noteq> None then True else NeedEscape cs)"

text \<open>The result string is resized to the final length and then appended to.\<close>

definition Escape :: "bytes \<Rightarrow> bytes" where
  "Escape v =
     (let sz = sum_list (map (\<lambda>c. if map_of json_escapes c \<noteq> None then 2 else 1 :: nat) v) in
      if sz = length v then v
      else foldl (\<lambda>rt c. rt @ (case map_of json_escapes c of Some e \<Rightarrow> [92, e] | None \<Rightarrow> [c]))
             (replicate sz 0) v)"

section \<open>Percent encoding is inverted by decoding\<close>

text \<open>The reference: each byte is encoded by itself, and decoded without the lazily built result.\<close>

definition url_byte :: "bool \<Rightarrow> byte \<Rightarrow> bytes" where
  "url_byte b c =
     (if CHAR_IS_UNRESERVED c then [c] else if c = 32 \<and> b then [43]
      else [37, hexdigits ! unat (drop_bit 4 c), hexdigits ! unat (c AND 0xf)])"

fun url_decode :: "bool \<Rightarrow> bytes \<Rightarrow> bytes" where
  "url_decode b [] = []"
| "url_decode b (c # cs) =
     (if c = 43 \<and> b then 32 # url_decode b cs
      else if c = 37 \<and> 2 \<le> length cs \<and> isxdigit (cs ! 0) \<and> isxdigit (cs ! 1)
      then (push_bit 4 (xdigit_chars ! unat (cs ! 0)) OR xdigit_chars ! unat (cs ! 1))
             # url_decode b (drop 2 cs)
      else c # url_decode b cs)"

lemma url_encode_step:
  "url_encode_loop b seen (c # s) (Some r) = url_encode_loop b (seen @ [c]) s (Some (r @ url_byte b c))"
  "url_encode_loop b seen (c # s) None =
     url_encode_loop b (seen @ [c]) s
       (if CHAR_IS_UNRESERVED c then None else Some (seen @ url_byte b c))"
  by (simp_all add: url_byte_def)

lemma url_encode_loop_Some:
  "url_encode_loop b seen s (Some r) = Some (r @ concat (map (url_byte b) s))"
  by (induction s arbitrary: seen r) (simp_all add: url_encode_step del: url_encode_loop.simps(2))

lemma url_encode_loop_None:
  "(case url_encode_loop b seen s None of None \<Rightarrow> seen @ s | Some r \<Rightarrow> r)
     = seen @ concat (map (url_byte b) s)"
proof (induction s arbitrary: seen)
  case Nil
  then show ?case by simp
next
  case (Cons c s)
  show ?case
  proof (cases "CHAR_IS_UNRESERVED c")
    case True
    moreover from this have "url_byte b c = [c]" by (simp add: url_byte_def)
    ultimately show ?thesis
      using Cons.IH [of "seen @ [c]"]
      by (simp add: url_encode_step del: url_encode_loop.simps(2) split: option.splits)
  next
    case False
    then show ?thesis
      by (simp add: url_encode_step url_encode_loop_Some del: url_encode_loop.simps(2))
  qed
qed

lemma UrlEncode_eq: "UrlEncode s b = concat (map (url_byte b) s)"
  using url_encode_loop_None [of "[]" s b] by (simp add: UrlEncode_def split: option.splits)

lemma url_decode_loop_Some: "url_decode_loop b seen s (Some r) = Some (r @ url_decode b s)"
proof (induction b s arbitrary: seen r rule: url_decode.induct)
  case (1 b)
  then show ?case by simp
next
  case (2 b c cs)
  then show ?case by (cases b) simp_all
qed

lemma url_decode_loop_None:
  "(case url_decode_loop b seen s None of None \<Rightarrow> seen @ s | Some r \<Rightarrow> r) = seen @ url_decode b s"
proof (induction b s arbitrary: seen rule: url_decode.induct)
  case (1 b)
  then show ?case by simp
next
  case (2 b c cs)
  show ?case
    using "2.IH"(3) [where seen = "seen @ [c]"]
    by (cases b) (auto simp: url_decode_loop_Some split: option.splits)
qed

lemma UrlDecode_eq: "UrlDecode s b = url_decode b s"
  using url_decode_loop_None [of "[]" s b] by (simp add: UrlDecode_def split: option.splits)

definition isalnum :: "byte \<Rightarrow> bool" where
  "isalnum c \<longleftrightarrow> 48 \<le> c \<and> c \<le> 57 \<or> 65 \<le> c \<and> c \<le> 90 \<or> 97 \<le> c \<and> c \<le> 122"

lemma unreserved_iff:
  "CHAR_IS_UNRESERVED c \<longleftrightarrow> isalnum c \<or> c = 45 \<or> c = 46 \<or> c = 61 \<or> c = 95 \<or> c = 126"
proof -
  have table: "uri_chars = replicate 45 0 @ [1, 1, 0] @ replicate 10 1 @ [0, 0, 0, 1, 0, 0, 0]
      @ replicate 26 1 @ [0, 0, 0, 0, 1, 0] @ replicate 26 1 @ [0, 0, 0, 1] @ replicate 129 0"
    by code_simp
  have "unat c < 256" using unsigned_less [of c, where 'a = nat] by simp
  then have "(uri_chars ! unat c \<noteq> 0) =
      (48 \<le> unat c \<and> unat c \<le> 57 \<or> 65 \<le> unat c \<and> unat c \<le> 90 \<or> 97 \<le> unat c \<and> unat c \<le> 122
       \<or> unat c = 45 \<or> unat c = 46 \<or> unat c = 61 \<or> unat c = 95 \<or> unat c = 126)"
    unfolding table by (auto simp: nth_append nth_Cons')
  then show ?thesis
    by (simp add: CHAR_IS_UNRESERVED_def isalnum_def word_le_nat_alt word_unat_eq_iff)
qed

lemma hex_digit:
  "n < 16 \<Longrightarrow> isxdigit (hexdigits ! n) \<and> xdigit_chars ! unat (hexdigits ! n) = of_nat n
     \<and> isalnum (hexdigits ! n)"
proof -
  have "list_all (\<lambda>n. isxdigit (hexdigits ! n) \<and> xdigit_chars ! unat (hexdigits ! n) = of_nat n
      \<and> isalnum (hexdigits ! n)) [0..<16]"
    by (simp add: upt_conv_Cons hexdigits_def str_def isxdigit_def isalnum_def xdigit_chars_def)
  then show "n < 16 \<Longrightarrow> ?thesis" by (simp add: list_all_iff)
qed

lemma nibbles:
  fixes c :: byte
  shows "unat (drop_bit 4 c) < 16" "unat (c AND 0xf) < 16"
    "push_bit 4 (drop_bit 4 c) OR (c AND 0xf) = c"
proof -
  show "unat (drop_bit 4 c) < 16"
    using unsigned_less [of c, where 'a = nat] by (simp add: unat_drop_bit_eq drop_bit_nat_def)
  have "c AND 0xf \<le> 0xf" by (rule word_and_le1)
  then show "unat (c AND 0xf) < 16" by (simp add: word_le_nat_alt)
  have "(c AND 0xf) = take_bit 4 c" by (simp add: take_bit_eq_mask mask_numeral)
  moreover have "push_bit 4 (drop_bit 4 c) OR take_bit 4 c = c"
    by (rule bit_word_eqI) (auto simp: bit_simps)
  ultimately show "push_bit 4 (drop_bit 4 c) OR (c AND 0xf) = c" by simp
qed

lemma url_decode_byte:
  assumes "b \<longrightarrow> b'"
  shows "url_decode b' (url_byte b c @ s) = c # url_decode b' s"
proof -
  note hi = hex_digit [OF nibbles(1) [of c]] and lo = hex_digit [OF nibbles(2) [of c]]
  consider "CHAR_IS_UNRESERVED c" | "\<not> CHAR_IS_UNRESERVED c" "c = 32" "b"
    | "\<not> CHAR_IS_UNRESERVED c" "\<not> (c = 32 \<and> b)" by blast
  then show ?thesis
  proof cases
    case 1
    then have "c \<noteq> 43" "c \<noteq> 37" by (auto simp: unreserved_iff isalnum_def)
    with 1 show ?thesis by (simp add: url_byte_def)
  next
    case 2
    with assms show ?thesis by (simp add: url_byte_def)
  next
    case 3
    then show ?thesis using hi lo nibbles(3) [of c] by (simp add: url_byte_def)
  qed
qed

lemma UrlDecode_UrlEncode: "(b \<longrightarrow> b') \<Longrightarrow> UrlDecode (UrlEncode s b) b' = s"
  by (induction s) (simp_all add: UrlDecode_eq UrlEncode_eq url_decode_byte)

lemma UrlEncode_chars:
  "list_all (\<lambda>c. isalnum c \<or> c \<in> set (str ''-._~%='') \<or> c = 43 \<and> b) (UrlEncode s b)"
proof -
  have "list_all (\<lambda>c. isalnum c \<or> c \<in> set (str ''-._~%='') \<or> c = 43 \<and> b) (url_byte b c)" for c
    using hex_digit [OF nibbles(1), of c] hex_digit [OF nibbles(2), of c]
    by (auto simp: url_byte_def unreserved_iff str_def)
  then show ?thesis by (induction s) (simp_all add: UrlEncode_eq)
qed

lemma length_UrlEncode: "length (UrlEncode s b) \<le> 3 * length s"
proof -
  have "length (url_byte b c) \<le> 3" for c by (simp add: url_byte_def)
  then show ?thesis by (induction s) (simp_all add: UrlEncode_eq add_mono)
qed


section \<open>Base64 decoding inverts encoding\<close>

lemma base64_digit:
  "n < 64 \<Longrightarrow> base64_value url (base64_chars url ! n) = Some (of_nat n) \<and> base64_chars url ! n \<noteq> 61"
proof -
  have "list_all (\<lambda>n. base64_value True (base64_chars True ! n) = Some (of_nat n)
      \<and> base64_chars True ! n \<noteq> 61) [0..<64]"
    by (simp add: upt_conv_Cons base64_chars_def str_def base64_value_def)
  moreover have "list_all (\<lambda>n. base64_value False (base64_chars False ! n) = Some (of_nat n)
      \<and> base64_chars False ! n \<noteq> 61) [0..<64]"
    by (simp add: upt_conv_Cons base64_chars_def str_def base64_value_def)
  ultimately show "n < 64 \<Longrightarrow> ?thesis" by (cases url) (simp_all add: list_all_iff)
qed

lemma mask6_less: "unat (v AND 0x3f :: 32 word) < 64"
proof -
  have "v AND 0x3f \<le> 0x3f" by (rule word_and_le1)
  then show ?thesis by (simp add: word_le_nat_alt)
qed

definition digit_at :: "bool \<Rightarrow> 32 word \<Rightarrow> byte" where
  "digit_at url v = base64_chars url ! unat v"

lemma group_digit:
  "unat v < 64 \<Longrightarrow> i < 4 \<Longrightarrow> base64_group url i 0 packed (digit_at url v # cs)
     = base64_group url (i + 1) 0 (push_bit 6 packed OR v) cs"
  using base64_digit [of "unat v" url] by (simp add: digit_at_def)

lemma group_padding:
  "i < 4 \<Longrightarrow> base64_group url i padding packed (61 # cs)
     = base64_group url (i + 1) (padding + 1) (push_bit 6 packed) cs"
  by simp

declare base64_group.simps(2) [simp del]

text \<open>Three bytes and their four digits.\<close>

definition pack3 :: "byte \<Rightarrow> byte \<Rightarrow> byte \<Rightarrow> 32 word" where
  "pack3 a b c = push_bit 8 (push_bit 8 (ucast a) OR ucast b) OR ucast c"

lemma bit_pack3:
  "bit (pack3 a b c) n \<longleftrightarrow>
     (if n < 8 then bit c n else if n < 16 then bit b (n - 8) else n < 24 \<and> bit a (n - 16))"
  by (auto simp: pack3_def bit_simps dest: bit_imp_le_length)

lemma unpack3:
  "ucast (drop_bit 16 (pack3 a b c) AND 0xff) = a"
  "ucast (drop_bit 8 (pack3 a b c) AND 0xff) = b"
  "ucast (pack3 a b c AND 0xff) = c"
proof -
  have mask: "(0xff :: 32 word) = mask 8" by (simp add: mask_numeral)
  show "ucast (drop_bit 16 (pack3 a b c) AND 0xff) = a"
    by (rule bit_word_eqI) (simp add: mask bit_pack3 bit_simps)
  show "ucast (drop_bit 8 (pack3 a b c) AND 0xff) = b"
    by (rule bit_word_eqI) (simp add: mask bit_pack3 bit_simps)
  show "ucast (pack3 a b c AND 0xff) = c"
    by (rule bit_word_eqI) (simp add: mask bit_pack3 bit_simps)
qed

lemma high_pack3: "bit (pack3 a b c) n \<Longrightarrow> n < 24"
  by (auto simp: bit_pack3 split: if_splits)

lemma join_low: "push_bit k (drop_bit k x) OR take_bit k x = (x :: 'a::len word)"
  by (rule bit_word_eqI) (auto simp: bit_simps)

lemma mask6: "v AND 0x3f = take_bit 6 (v :: 32 word)"
  by (simp add: take_bit_eq_mask mask_numeral)

lemma top_digit: "unat (drop_bit 18 (pack3 a b c)) < 64"
proof -
  have "take_bit 6 (drop_bit 18 (pack3 a b c)) = drop_bit 18 (pack3 a b c)"
    by (rule bit_word_eqI) (auto simp: bit_simps dest: high_pack3)
  then show ?thesis using mask6_less [of "drop_bit 18 (pack3 a b c)"] by (simp add: mask6)
qed

text \<open>The first two, the third and the fourth digit of a group.\<close>

lemma group_two:
  assumes "p = pack3 a b c"
  shows "base64_group url 0 0 0 (digit_at url (drop_bit 18 p) # digit_at url (drop_bit 12 p AND 0x3f) # cs)
         = base64_group url 2 0 (drop_bit 12 p) cs"
  using assms top_digit [of a b c] mask6_less join_low [of 6 "drop_bit 12 p"]
  by (simp add: group_digit mask6 numeral_2_eq_2)

lemma group_three:
  "base64_group url 2 0 (drop_bit 12 p) (digit_at url (drop_bit 6 p AND 0x3f) # cs)
     = base64_group url 3 0 (drop_bit 6 p) cs"
  using mask6_less join_low [of 6 "drop_bit 6 p"] by (simp add: group_digit mask6)

lemma group_four:
  "base64_group url 3 0 (drop_bit 6 p) (digit_at url (p AND 0x3f) # cs) = base64_group url 4 0 p cs"
  using mask6_less join_low [of 6 p] by (simp add: group_digit mask6)

lemma group_end: "base64_group url 4 padding packed cs = Some (4, padding, packed, cs)"
  by (cases cs) (simp_all add: base64_group.simps(2))

lemma unpack_padded:
  "ucast (drop_bit 16 (push_bit 6 (drop_bit 6 (pack3 a b c))) AND 0xff) = a"
  "ucast (drop_bit 8 (push_bit 6 (drop_bit 6 (pack3 a b c))) AND 0xff) = b"
  "ucast (drop_bit 16 (push_bit 12 (drop_bit 12 (pack3 a b c))) AND 0xff) = a"
proof -
  have "drop_bit 16 (push_bit 6 (drop_bit 6 (pack3 a b c))) = drop_bit 16 (pack3 a b c)"
    "drop_bit 8 (push_bit 6 (drop_bit 6 (pack3 a b c))) = drop_bit 8 (pack3 a b c)"
    "drop_bit 16 (push_bit 12 (drop_bit 12 (pack3 a b c))) = drop_bit 16 (pack3 a b c)"
    using high_pack3 [of a b c "16 + n" for n] high_pack3 [of a b c "8 + n" for n]
    by (fastforce intro!: bit_word_eqI simp: bit_simps)+
  then show "ucast (drop_bit 16 (push_bit 6 (drop_bit 6 (pack3 a b c))) AND 0xff) = a"
    "ucast (drop_bit 8 (push_bit 6 (drop_bit 6 (pack3 a b c))) AND 0xff) = b"
    "ucast (drop_bit 16 (push_bit 12 (drop_bit 12 (pack3 a b c))) AND 0xff) = a"
    by (simp_all only: unpack3)
qed

text \<open>The text of the encoder, group by group.\<close>

fun base64_spec :: "bool \<Rightarrow> bytes \<Rightarrow> bytes" where
  "base64_spec url [] = []"
| "base64_spec url [a] =
     (let p = pack3 a 0 0 in
      [digit_at url (drop_bit 18 p), digit_at url (drop_bit 12 p AND 0x3f), 61, 61])"
| "base64_spec url [a, b] =
     (let p = pack3 a b 0 in
      [digit_at url (drop_bit 18 p), digit_at url (drop_bit 12 p AND 0x3f),
       digit_at url (drop_bit 6 p AND 0x3f), 61])"
| "base64_spec url (a # b # c # cs) =
     (let p = pack3 a b c in
      [digit_at url (drop_bit 18 p), digit_at url (drop_bit 12 p AND 0x3f),
       digit_at url (drop_bit 6 p AND 0x3f), digit_at url (p AND 0x3f)] @ base64_spec url cs)"

lemma base64encode_loop_spec: "base64encode_loop url dat ret = ret @ base64_spec url dat"
proof (induction url dat arbitrary: ret rule: base64_spec.induct)
  case (1 url)
  then show ?case by (simp add: base64encode_loop.simps)
next
  case (2 url a)
  then show ?case
    by (subst base64encode_loop.simps) (simp add: Let_def pack3_def digit_at_def numeral_2_eq_2 base64encode_loop.simps)
next
  case (3 url a b)
  then show ?case
    by (subst base64encode_loop.simps) (simp add: Let_def pack3_def digit_at_def base64encode_loop.simps)
next
  case (4 url a b c cs)
  then show ?case
    by (subst base64encode_loop.simps) (simp add: Let_def pack3_def digit_at_def)
qed

lemma base64decode_loop_spec:
  "length out + length dat \<le> room \<Longrightarrow>
     base64decode_loop url room (base64_spec url dat) out = Inr (out @ dat)"
proof (induction url dat arbitrary: out rule: base64_spec.induct)
  case (1 url)
  then show ?case by (simp add: base64decode_loop.simps)
next
  case (2 url a)
  then show ?case
    by (subst base64decode_loop.simps)
      (simp add: Let_def group_two group_padding group_end unpack_padded base64decode_loop.simps)
next
  case (3 url a b)
  then show ?case
    by (subst base64decode_loop.simps)
      (simp add: Let_def group_two group_three group_padding group_end unpack_padded base64decode_loop.simps)
next
  case (4 url a b c cs)
  then show ?case
    by (subst base64decode_loop.simps)
      (simp add: Let_def group_two group_three group_four group_end unpack3)
qed

lemma length_base64_spec: "length (base64_spec url dat) = 4 * ((length dat + 2) div 3)"
  by (induction url dat rule: base64_spec.induct) (simp_all add: Let_def, presburger)

lemma base64_group_consumes:
  "base64_group url i padding packed cs = Some (i', padding', packed', cs') \<Longrightarrow>
     i \<le> i' \<and> length cs = length cs' + (i' - i)"
proof (induction url i padding packed cs rule: base64_group.induct)
  case (2 url i padding packed c cs)
  then show ?case by (fastforce simp: base64_group.simps(2) split: if_splits option.splits)
qed simp

lemma base64decode_loop_bounds:
  assumes "4 * length out + 3 * length ptr \<le> 3 * n"
  shows "\<exists>out'. base64decode_loop url (n * 3 div 4) ptr out = Inr out' \<and> 4 * length out' \<le> 3 * n"
  using assms
proof (induction url "n * 3 div 4" ptr out rule: base64decode_loop.induct)
  case (1 url ptr out)
  show ?case
  proof (cases "base64_group url 0 0 0 ptr")
    case None
    with "1.prems" show ?thesis by (simp add: base64decode_loop.simps)
  next
    case (Some g)
    then obtain i padding packed ptr' where g: "base64_group url 0 0 0 ptr = Some (i, padding, packed, ptr')"
      by (cases g) auto
    show ?thesis
    proof (cases "ptr = [] \<or> i \<noteq> 4 \<or> padding > 0 \<and> ptr' \<noteq> [] \<or> padding > 2")
      case True
      with g "1.prems" show ?thesis by (auto simp: base64decode_loop.simps)
    next
      case False
      define out' where "out' = out @ [ucast (drop_bit 16 packed AND 0xff)]
                  @ (if padding \<noteq> 2 then [ucast (drop_bit 8 packed AND 0xff)] else [])
                  @ (if padding = 0 then [ucast (packed AND 0xff)] else [])"
      have "length ptr = length ptr' + 4" using base64_group_consumes [OF g] False by simp
      moreover have "length out' \<le> length out + 3" by (simp add: out'_def)
      ultimately have le: "4 * length out' + 3 * length ptr' \<le> 3 * n" using "1.prems" by linarith
      have "base64decode_loop url (n * 3 div 4) ptr out =
          (if length out' > n * 3 div 4 then Inl Bad_index
           else base64decode_loop url (n * 3 div 4) ptr' out')"
        using False g by (subst base64decode_loop.simps) (auto simp: Let_def out'_def)
      moreover have "\<not> length out' > n * 3 div 4" using le by linarith
      ultimately have "base64decode_loop url (n * 3 div 4) ptr out
          = base64decode_loop url (n * 3 div 4) ptr' out'"
        by simp
      with "1.hyps" [OF _ g refl refl refl _ out'_def] False le show ?thesis by simp
    qed
  qed
qed

text \<open>C34. Decoding inverts base64 encoding in both alphabets, for every byte string, and the encoder
  produces four characters for every three bytes begun.\<close>

theorem base64_roundtrip:
  "base64decode (base64encode dat url) url = Inr dat
   \<and> length (base64encode dat url) = 4 * ((length dat + 2) div 3)"
  using base64decode_loop_spec [of "[]" dat "length (base64_spec url dat) * 3 div 4" url]
  by (simp add: base64decode_def base64encode_def base64encode_loop_spec length_base64_spec)

text \<open>\<open>base64decode\<close> never writes past the \<open>size * 3 / 4\<close> bytes it has reserved, whatever text it is
  given.\<close>

theorem base64decode_in_bounds:
  "\<exists>out. base64decode src url = Inr out \<and> length out \<le> length src * 3 div 4"
  using base64decode_loop_bounds [of "[]" src "length src" url] by (auto simp: base64decode_def)

section \<open>Splitting, trimming and escaping\<close>

lemma first_index_None: "first_index P xs = None \<longleftrightarrow> (\<forall>x \<in> set xs. \<not> P x)"
  by (induction xs) auto

lemma first_index_Some:
  "first_index P xs = Some i \<Longrightarrow>
     takeWhile (\<lambda>x. \<not> P x) xs = take i xs \<and> dropWhile (\<lambda>x. \<not> P x) xs = drop i xs \<and> P (xs ! i) \<and> i < length xs"
  by (induction xs arbitrary: i) (auto split: if_splits)

lemma last_index_Some:
  assumes "last_index P xs = Some i"
  shows "i < length xs \<and> P (xs ! i) \<and> (\<forall>j. i < j \<longrightarrow> j < length xs \<longrightarrow> \<not> P (xs ! j))"
proof -
  obtain k where k: "first_index P (rev xs) = Some k" "i = length xs - 1 - k"
    using assms by (auto simp: last_index_def)
  note f = first_index_Some [OF k(1)]
  have "\<not> P (xs ! j)" if "i < j" "j < length xs" for j
  proof -
    have "length xs - 1 - j < k" using f k(2) that by simp
    then have "rev xs ! (length xs - 1 - j) \<in> set (takeWhile (\<lambda>x. \<not> P x) (rev xs))"
      using f that by (auto simp: in_set_conv_nth)
    then show ?thesis using that by (auto simp: rev_nth dest: set_takeWhileD)
  qed
  then show ?thesis using f k(2) by (auto simp: rev_nth)
qed

text \<open>Pieces joined by a delimiter.\<close>

fun join_with :: "'a \<Rightarrow> 'a list list \<Rightarrow> 'a list" where
  "join_with d [] = []"
| "join_with d [x] = x"
| "join_with d (x # y # ys) = x @ d # join_with d (y # ys)"

lemma join_with_Cons: "ys \<noteq> [] \<Longrightarrow> join_with d (x # ys) = x @ d # join_with d ys"
  by (cases ys) simp_all

lemma split_loop_prepend: "split_loop P rest mx (r @ result) = r @ split_loop P rest mx result"
proof (induction P rest mx result rule: split_loop.induct)
  case (1 P rest mx result)
  show ?case
  proof (cases "first_index P rest")
    case None
    then show ?thesis by (simp add: split_loop.simps [of P rest])
  next
    case (Some pos)
    show ?thesis
      using "1.IH" [OF Some refl refl refl] Some
      by (simp add: split_loop.simps [of P rest] Let_def)
  qed
qed

lemmas split_loop_append = split_loop_prepend [where result = "[]", simplified]

lemma split_loop_pieces:
  assumes "length rest + 1 < unat mx"
  shows "split_loop ((=) d) rest mx [] \<noteq> []
    \<and> join_with d (split_loop ((=) d) rest mx []) = rest
    \<and> (\<forall>x \<in> set (split_loop ((=) d) rest mx []). d \<notin> set x)"
  using assms
proof (induction rest arbitrary: mx rule: length_induct)
  case (1 rest)
  show ?case
  proof (cases "first_index ((=) d) rest")
    case None
    then show ?thesis by (simp add: split_loop.simps [of _ rest]) (auto simp: first_index_None)
  next
    case (Some pos)
    note f = first_index_Some [OF Some]
    have m: "unat (mx - 1) = unat mx - 1" using "1.prems" by (intro unat_minus_one) auto
    then have "mx - 1 \<noteq> 1" using "1.prems" f by auto
    then have eq: "split_loop ((=) d) rest mx [] = take pos rest # split_loop ((=) d) (drop (pos + 1) rest) (mx - 1) []"
      using Some split_loop_append [of "(=) d" "drop (pos + 1) rest" "mx - 1" "[take pos rest]"]
      by (simp add: split_loop.simps [of _ rest] Let_def)
    have IH: "split_loop ((=) d) (drop (pos + 1) rest) (mx - 1) [] \<noteq> []
      \<and> join_with d (split_loop ((=) d) (drop (pos + 1) rest) (mx - 1) []) = drop (pos + 1) rest
      \<and> (\<forall>x \<in> set (split_loop ((=) d) (drop (pos + 1) rest) (mx - 1) []). d \<notin> set x)"
    proof (rule "1.IH" [rule_format])
      show "length (drop (pos + 1) rest) < length rest" using f by auto
      show "length (drop (pos + 1) rest) + 1 < unat (mx - 1)" using "1.prems" f m by auto
    qed
    have "d \<notin> set (take pos rest)" using f by (metis (full_types) set_takeWhileD)
    moreover have "take pos rest @ d # drop (pos + 1) rest = rest" using f id_take_nth_drop [of pos rest] by simp
    ultimately show ?thesis using IH by (simp add: eq join_with_Cons)
  qed
qed

text \<open>
  \<open>Trim\<close> removes the delimiters at both ends: what is left starts and ends with another character,
  and only delimiters were removed.
\<close>

lemma Trim_parts:
  "\<exists>l r. s = l @ Trim s delimit @ r \<and> set l \<subseteq> set delimit \<and> set r \<subseteq> set delimit
     \<and> (Trim s delimit \<noteq> [] \<longrightarrow> hd (Trim s delimit) \<notin> set delimit \<and> last (Trim s delimit) \<notin> set delimit)"
proof (cases "first_index (\<lambda>c. c \<notin> set delimit) s")
  case None
  then have "s = s @ Trim s delimit @ [] \<and> set s \<subseteq> set delimit \<and> Trim s delimit = []"
    by (simp add: Trim_def) (auto simp: first_index_None)
  then show ?thesis by (metis empty_subsetI list.set(1))
next
  case (Some i)
  note f = first_index_Some [OF Some]
  have "first_index (\<lambda>c. c \<notin> set delimit) (rev s) \<noteq> None"
    using f by (auto simp: first_index_None)
  then obtain j where j: "last_index (\<lambda>c. c \<notin> set delimit) s = Some j"
    by (auto simp: last_index_def)
  note l = last_index_Some [OF j]
  have le: "i \<le> j" using f l by (meson not_le)
  have t: "Trim s delimit = take (j + 1 - i) (drop i s)" by (simp add: Trim_def substr_def Some j)
  have split: "s = take i s @ Trim s delimit @ drop (j + 1) s"
    using le by (metis append_take_drop_id drop_drop le_add_diff_inverse2 t trans_le_add1)
  moreover have "set (take i s) \<subseteq> set delimit" using f by (metis (mono_tags, lifting) set_takeWhileD subsetI)
  moreover have "set (drop (j + 1) s) \<subseteq> set delimit" using l by (auto simp: in_set_conv_nth)
  moreover have "hd (Trim s delimit) = s ! i" using f le by (simp add: t hd_drop_conv_nth)
  moreover have "last (Trim s delimit) = s ! j"
  proof -
    have "length (take (j + 1 - i) (drop i s)) = j + 1 - i" using l le by auto
    then show ?thesis using f l le by (subst t, subst last_conv_nth) auto
  qed
  ultimately show ?thesis using f l by metis
qed

lemma TrimRight_drops_one:
  "last_index (\<lambda>c. c \<notin> set delimit) s = Some j \<Longrightarrow>
     TrimRight s delimit = butlast (take (j + 1) s)"
  by (auto simp: TrimRight_def substr_def butlast_take dest: last_index_Some)

definition json_byte :: "byte \<Rightarrow> bytes" where
  "json_byte c = (case map_of json_escapes c of Some e \<Rightarrow> [92, e] | None \<Rightarrow> [c])"

lemma Escape_zero_prefix:
  "Escape v = (if NeedEscape v
     then replicate (length (concat (map json_byte v))) 0 @ concat (map json_byte v) else v)"
proof -
  have len: "sum_list (map (\<lambda>c. if map_of json_escapes c \<noteq> None then 2 else 1 :: nat) v)
      = length (concat (map json_byte v))"
    by (induction v) (auto simp: json_byte_def split: option.splits)
  have ge: "length v \<le> length (concat (map json_byte v))
      \<and> (length (concat (map json_byte v)) = length v \<longleftrightarrow> \<not> NeedEscape v)"
    by (induction v) (auto simp: json_byte_def split: option.splits)
  have "foldl (\<lambda>rt c. rt @ (case map_of json_escapes c of Some e \<Rightarrow> [92, e] | None \<Rightarrow> [c])) r v
      = r @ concat (map json_byte v)" for r
    by (induction v arbitrary: r) (simp_all add: json_byte_def)
  then show ?thesis using ge unfolding Escape_def len Let_def by simp
qed

end
