(* ===== verification/OrderedMap.thy ===== *)
theory OrderedMap
  imports Main
begin

text \<open>
  \<open>std::map\<close> with a user-defined comparator, as the list of its entries in iteration order. The
  comparator of a map is a strict weak order: keys that are not ordered either way are the same key
  for the container. The locale states that requirement and proves what the operations then do.
\<close>

definition same_key :: "('k \<Rightarrow> 'k \<Rightarrow> bool) \<Rightarrow> 'k \<Rightarrow> 'k \<Rightarrow> bool" where
  "same_key lt k l \<longleftrightarrow> \<not> lt k l \<and> \<not> lt l k"

fun omap_find :: "('k \<Rightarrow> 'k \<Rightarrow> bool) \<Rightarrow> 'k \<Rightarrow> ('k \<times> 'v) list \<Rightarrow> 'v option" where
  "omap_find lt k [] = None"
| "omap_find lt k ((l, w) # m) = (if same_key lt k l then Some w else omap_find lt k m)"

text \<open>\<open>m[k] = v\<close>: the key already in the map is kept, its value replaced.\<close>

fun omap_set :: "('k \<Rightarrow> 'k \<Rightarrow> bool) \<Rightarrow> 'k \<Rightarrow> 'v \<Rightarrow> ('k \<times> 'v) list \<Rightarrow> ('k \<times> 'v) list" where
  "omap_set lt k v [] = [(k, v)]"
| "omap_set lt k v ((l, w) # m) =
     (if lt k l then (k, v) # (l, w) # m
      else if lt l k then (l, w) # omap_set lt k v m
      else (l, v) # m)"

text \<open>\<open>m.insert(make_pair(k, v))\<close>: an entry that is already there stays.\<close>

definition omap_insert :: "('k \<Rightarrow> 'k \<Rightarrow> bool) \<Rightarrow> 'k \<Rightarrow> 'v \<Rightarrow> ('k \<times> 'v) list \<Rightarrow> ('k \<times> 'v) list" where
  "omap_insert lt k v m = (if omap_find lt k m = None then omap_set lt k v m else m)"

fun omap_erase :: "('k \<Rightarrow> 'k \<Rightarrow> bool) \<Rightarrow> 'k \<Rightarrow> ('k \<times> 'v) list \<Rightarrow> ('k \<times> 'v) list" where
  "omap_erase lt k [] = []"
| "omap_erase lt k ((l, w) # m) = (if same_key lt k l then m else (l, w) # omap_erase lt k m)"

definition omap_ok :: "('k \<Rightarrow> 'k \<Rightarrow> bool) \<Rightarrow> ('k \<times> 'v) list \<Rightarrow> bool" where
  "omap_ok lt m \<longleftrightarrow> sorted_wrt lt (map fst m)"

locale key_order =
  fixes lt :: "'k \<Rightarrow> 'k \<Rightarrow> bool"
  assumes lt_irrefl: "\<not> lt k k"
    and lt_trans: "lt k l \<Longrightarrow> lt l n \<Longrightarrow> lt k n"
    and same_trans: "same_key lt k l \<Longrightarrow> same_key lt l n \<Longrightarrow> same_key lt k n"
begin

lemma same_refl: "same_key lt k k"
  by (simp add: same_key_def lt_irrefl)

lemma same_sym: "same_key lt k l \<Longrightarrow> same_key lt l k"
  by (auto simp: same_key_def)

lemma lt_same: "lt k l \<Longrightarrow> same_key lt l n \<Longrightarrow> lt k n"
  using lt_irrefl lt_trans same_trans unfolding same_key_def by metis

lemma same_lt: "same_key lt k l \<Longrightarrow> lt l n \<Longrightarrow> lt k n"
  using lt_irrefl lt_trans same_trans unfolding same_key_def by metis

lemma find_set: "omap_find lt l (omap_set lt k v m) = (if same_key lt l k then Some v else omap_find lt l m)"
proof (induction m)
  case (Cons e m)
  obtain k' w where e: "e = (k', w)" by (cases e)
  have same: "same_key lt k k' \<Longrightarrow> same_key lt l k' = same_key lt l k"
    using same_trans same_sym by blast
  have less: "lt k' k \<Longrightarrow> \<not> (same_key lt l k' \<and> same_key lt l k)"
    using same_trans same_sym unfolding same_key_def by blast
  show ?case using Cons.IH same less by (auto simp: e same_key_def)
qed simp

lemma keys_set: "fst ` set (omap_set lt k v m) \<subseteq> insert k (fst ` set m)"
  by (induction lt k v m rule: omap_set.induct) auto

lemma ok_set: "omap_ok lt m \<Longrightarrow> omap_ok lt (omap_set lt k v m)"
proof (induction m)
  case (Cons e m)
  obtain k' w where e: "e = (k', w)" by (cases e)
  from Cons.prems have ok: "omap_ok lt m" and least: "\<forall>x \<in> fst ` set m. lt k' x"
    by (auto simp: omap_ok_def e)
  have "\<forall>x \<in> fst ` set (omap_set lt k v m). lt k' x" if "lt k' k"
    using keys_set [of k v m] least that by blast
  then show ?case
    using Cons.IH [OF ok] Cons.prems least lt_trans by (auto simp: omap_ok_def e)
qed (simp add: omap_ok_def)

lemma find_insert:
  "omap_find lt l (omap_insert lt k v m) =
     (if same_key lt l k \<and> omap_find lt k m = None then Some v else omap_find lt l m)"
  by (auto simp: omap_insert_def find_set)

lemma ok_insert: "omap_ok lt m \<Longrightarrow> omap_ok lt (omap_insert lt k v m)"
  by (simp add: omap_insert_def ok_set)

lemma find_same:
  assumes "same_key lt k l"
  shows "omap_find lt k m = omap_find lt l m"
proof (induction m)
  case (Cons e m)
  have "same_key lt k n = same_key lt l n" for n
    using assms same_trans same_sym by blast
  with Cons show ?case by (cases e) simp
qed simp

lemma find_absent: "\<forall>x \<in> fst ` set m. lt k x \<Longrightarrow> omap_find lt k m = None"
  by (induction m) (auto simp: same_key_def)

lemma find_erase:
  "omap_ok lt m \<Longrightarrow> omap_find lt l (omap_erase lt k m) = (if same_key lt l k then None else omap_find lt l m)"
proof (induction m)
  case (Cons e m)
  obtain k' w where e: "e = (k', w)" by (cases e)
  from Cons.prems have ok: "omap_ok lt m" and least: "\<forall>x \<in> fst ` set m. lt k' x"
    by (auto simp: omap_ok_def e)
  have "omap_find lt l m = None" if "same_key lt l k'"
    using least same_lt [OF that] by (intro find_absent) blast
  moreover have "same_key lt k k' \<Longrightarrow> same_key lt l k = same_key lt l k'"
      "same_key lt l k' \<Longrightarrow> same_key lt l k \<Longrightarrow> same_key lt k k'"
    using same_trans same_sym by blast+
  ultimately show ?case using Cons.IH [OF ok] by (auto simp: e)
qed simp

lemma ok_erase: "omap_ok lt m \<Longrightarrow> omap_ok lt (omap_erase lt k m)"
proof (induction m)
  case (Cons e m)
  have "set (omap_erase lt k m) \<subseteq> set m" for m :: "('k \<times> 'v) list"
    by (induction lt k m rule: omap_erase.induct) auto
  then have "\<forall>x \<in> set (omap_erase lt k m). x \<in> set m" by blast
  with Cons show ?case by (cases e) (auto simp: omap_ok_def)
qed (simp add: omap_ok_def)

text \<open>Assigning the entries of a map one after the other, and leaving entries out.\<close>

lemma find_fold_set:
  assumes "omap_ok lt fs"
  shows "omap_find lt l (fold (\<lambda>(k, v). omap_set lt k v) fs m) = (case omap_find lt l fs of Some v \<Rightarrow> Some v | None \<Rightarrow> omap_find lt l m)"
  using assms
proof (induction fs arbitrary: m)
  case (Cons e fs)
  obtain k' w where e: "e = (k', w)" by (cases e)
  from Cons.prems have ok: "omap_ok lt fs" and least: "\<forall>x \<in> fst ` set fs. lt k' x"
    by (auto simp: omap_ok_def e)
  have "omap_find lt l fs = None" if "same_key lt l k'"
    using least same_lt [OF that] by (intro find_absent) blast
  then show ?case using Cons.IH [OF ok] by (auto simp: e find_set split: option.split)
qed simp

lemma find_kept: "(\<And>k v. same_key lt l k \<Longrightarrow> P (k, v)) \<Longrightarrow> omap_find lt l (filter P m) = omap_find lt l m"
  by (induction m) auto

lemma ok_filter: "omap_ok lt m \<Longrightarrow> omap_ok lt (filter P m)"
  by (simp add: omap_ok_def sorted_wrt_map sorted_wrt_filter)

end

end
