(* ===== verification/Http.thy ===== *)
theory Http
  imports Util OrderedMap
begin

text \<open>
  \<^verbatim>\<open>src/chat/http/http.cc\<close> and \<^verbatim>\<open>http.h\<close>: requests and responses. Header, parameter and cookie maps are
  \<open>std::map\<close>s ordered by \<open>CaseInsensitiveLess\<close>, modelled by the ordered maps of \<open>OrderedMap\<close>, whose
  locale is interpreted on that comparator here. The records keep the fields of the classes; a status
  is its number, because any number is cast to \<open>HttpStatus\<close>.
\<close>

section \<open>Methods and status codes\<close>

datatype HttpMethod =
    M_DELETE | M_GET | M_HEAD | M_POST | M_PUT | M_CONNECT | M_OPTIONS | M_TRACE | M_COPY |
    M_LOCK | M_MKCOL | M_MOVE | M_PROPFIND | M_PROPPATCH | M_SEARCH | M_UNLOCK | M_BIND |
    M_REBIND | M_UNBIND | M_ACL | M_REPORT | M_MKACTIVITY | M_CHECKOUT | M_MERGE |
    M_MSEARCH | M_NOTIFY | M_SUBSCRIBE | M_UNSUBSCRIBE | M_PATCH | M_PURGE | M_MKCALENDAR |
    M_LINK | M_UNLINK | M_SOURCE | M_INVALID_METHOD

definition method_names :: "(HttpMethod \<times> string) list" where
  "method_names =
     [(M_DELETE, ''DELETE''), (M_GET, ''GET''), (M_HEAD, ''HEAD''), (M_POST, ''POST''),
      (M_PUT, ''PUT''), (M_CONNECT, ''CONNECT''), (M_OPTIONS, ''OPTIONS''),
      (M_TRACE, ''TRACE''), (M_COPY, ''COPY''), (M_LOCK, ''LOCK''), (M_MKCOL, ''MKCOL''),
      (M_MOVE, ''MOVE''), (M_PROPFIND, ''PROPFIND''), (M_PROPPATCH, ''PROPPATCH''),
      (M_SEARCH, ''SEARCH''), (M_UNLOCK, ''UNLOCK''), (M_BIND, ''BIND''),
      (M_REBIND, ''REBIND''), (M_UNBIND, ''UNBIND''), (M_ACL, ''ACL''),
      (M_REPORT, ''REPORT''), (M_MKACTIVITY, ''MKACTIVITY''), (M_CHECKOUT, ''CHECKOUT''),
      (M_MERGE, ''MERGE''), (M_MSEARCH, ''M-SEARCH''), (M_NOTIFY, ''NOTIFY''),
      (M_SUBSCRIBE, ''SUBSCRIBE''), (M_UNSUBSCRIBE, ''UNSUBSCRIBE''), (M_PATCH, ''PATCH''),
      (M_PURGE, ''PURGE''), (M_MKCALENDAR, ''MKCALENDAR''), (M_LINK, ''LINK''),
      (M_UNLINK, ''UNLINK''), (M_SOURCE, ''SOURCE'')]"

definition HTTP_METHOD_MAP :: "(HttpMethod \<times> bytes) list" where
  "HTTP_METHOD_MAP = map (\<lambda>(name, string). (name, str string)) method_names"

text \<open>\<open>strcmp\<close> compares whole C strings, \<open>strncmp(s, m, strlen(s))\<close> tests for a prefix.\<close>

definition StringToHttpMethod :: "bytes \<Rightarrow> HttpMethod" where
  "StringToHttpMethod m =
     (case find (\<lambda>(name, s). s = c_str m) HTTP_METHOD_MAP of
        None \<Rightarrow> M_INVALID_METHOD | Some (name, s) \<Rightarrow> name)"

definition CharsToHttpMethod :: "bytes \<Rightarrow> HttpMethod" where
  "CharsToHttpMethod m =
     (case find (\<lambda>(name, s). take (length s) (c_str m) = s) HTTP_METHOD_MAP of
        None \<Rightarrow> M_INVALID_METHOD | Some (name, s) \<Rightarrow> name)"

text \<open>The number of an enumerator: its place in the list, the invalid method after the others.\<close>

definition method_index :: "HttpMethod \<Rightarrow> nat" where
  "method_index m =
     (case first_index (\<lambda>(name, s). name = m) HTTP_METHOD_MAP of
        None \<Rightarrow> length HTTP_METHOD_MAP | Some i \<Rightarrow> i)"

definition HttpMethodToString :: "HttpMethod \<Rightarrow> bytes" where
  "HttpMethodToString m =
     (let idx = method_index m in
      if idx \<ge> length HTTP_METHOD_MAP then str ''<unknown>'' else snd (HTTP_METHOD_MAP ! idx))"

definition HTTP_STATUS_MAP :: "(int \<times> bytes) list" where
  "HTTP_STATUS_MAP =
     [(100, str ''Continue''), (101, str ''Switching Protocols''),
      (102, str ''Processing''), (200, str ''OK''), (201, str ''Created''),
      (202, str ''Accepted''), (203, str ''Non-Authoritative Information''),
      (204, str ''No Content''), (205, str ''Reset Content''),
      (206, str ''Partial Content''), (207, str ''Multi-Status''),
      (208, str ''Already Reported''), (226, str ''IM Used''),
      (300, str ''Multiple Choices''), (301, str ''Moved Permanently''),
      (302, str ''Found''), (303, str ''See Other''), (304, str ''Not Modified''),
      (305, str ''Use Proxy''), (307, str ''Temporary Redirect''),
      (308, str ''Permanent Redirect''), (400, str ''Bad Request''),
      (401, str ''Unauthorized''), (402, str ''Payment Required''),
      (403, str ''Forbidden''), (404, str ''Not Found''),
      (405, str ''Method Not Allowed''), (406, str ''Not Acceptable''),
      (407, str ''Proxy Authentication Required''), (408, str ''Request Timeout''),
      (409, str ''Conflict''), (410, str ''Gone''), (411, str ''Length Required''),
      (412, str ''Precondition Failed''), (413, str ''Payload Too Large''),
      (414, str ''URI Too Long''), (415, str ''Unsupported Media Type''),
      (416, str ''Range Not Satisfiable''), (417, str ''Expectation Failed''),
      (421, str ''Misdirected Request''), (422, str ''Unprocessable Entity''),
      (423, str ''Locked''), (424, str ''Failed Dependency''),
      (426, str ''Upgrade Required''), (428, str ''Precondition Required''),
      (429, str ''Too Many Requests''), (431, str ''Request Header Fields Too Large''),
      (451, str ''Unavailable For Legal Reasons''), (500, str ''Internal Server Error''),
      (501, str ''Not Implemented''), (502, str ''Bad Gateway''),
      (503, str ''Service Unavailable''), (504, str ''Gateway Timeout''),
      (505, str ''HTTP Version Not Supported''), (506, str ''Variant Also Negotiates''),
      (507, str ''Insufficient Storage''), (508, str ''Loop Detected''),
      (510, str ''Not Extended''), (511, str ''Network Authentication Required'')]"

definition HttpStatusToString :: "int \<Rightarrow> bytes" where
  "HttpStatusToString s =
     (case map_of HTTP_STATUS_MAP s of None \<Rightarrow> str ''<unknown>'' | Some msg \<Rightarrow> msg)"

section \<open>Case-insensitive maps\<close>

text \<open>\<open>strcasecmp\<close> on two C strings.\<close>

fun strcasecmp :: "bytes \<Rightarrow> bytes \<Rightarrow> int" where
  "strcasecmp [] [] = 0"
| "strcasecmp [] (y # ys) = - uint (tolower y)"
| "strcasecmp (x # xs) [] = uint (tolower x)"
| "strcasecmp (x # xs) (y # ys) =
     (if tolower x = tolower y then strcasecmp xs ys else uint (tolower x) - uint (tolower y))"

text \<open>Whether \<open>strcasestr\<close> finds the second C string in the first.\<close>

fun strcasestr :: "bytes \<Rightarrow> bytes \<Rightarrow> bool" where
  "strcasestr [] needle = (needle = [])"
| "strcasestr (x # xs) needle =
     (strcasecmp (take (length needle) (x # xs)) needle = 0 \<or> strcasestr xs needle)"

definition CaseInsensitiveLess :: "bytes \<Rightarrow> bytes \<Rightarrow> bool" where
  "CaseInsensitiveLess lhs rhs \<longleftrightarrow> strcasecmp (c_str lhs) (c_str rhs) < 0"

type_synonym MapType = "(bytes \<times> bytes) list"

abbreviation map_find :: "bytes \<Rightarrow> MapType \<Rightarrow> bytes option" where
  "map_find \<equiv> omap_find CaseInsensitiveLess"

abbreviation map_set :: "bytes \<Rightarrow> bytes \<Rightarrow> MapType \<Rightarrow> MapType" where
  "map_set \<equiv> omap_set CaseInsensitiveLess"

abbreviation map_insert :: "bytes \<Rightarrow> bytes \<Rightarrow> MapType \<Rightarrow> MapType" where
  "map_insert \<equiv> omap_insert CaseInsensitiveLess"

abbreviation map_erase :: "bytes \<Rightarrow> MapType \<Rightarrow> MapType" where
  "map_erase \<equiv> omap_erase CaseInsensitiveLess"

text \<open>\<open>MapJoin\<close> of \<open>util.h\<close>; it writes an equals sign whatever its \<open>tag1\<close> is.\<close>

fun MapJoin :: "MapType \<Rightarrow> bytes \<Rightarrow> bytes" where
  "MapJoin [] tag2 = []"
| "MapJoin [(k, v)] tag2 = k @ [61] @ v"
| "MapJoin ((k, v) # e # m) tag2 = k @ [61] @ v @ tag2 @ MapJoin (e # m) tag2"

section \<open>HttpRequest\<close>

record HttpRequest =
  rq_method :: HttpMethod
  rq_version :: byte
  rq_close :: bool
  rq_websocket :: bool
  rq_parserParamFlag :: byte
  rq_streamId :: "32 word"
  rq_path :: bytes
  rq_query :: bytes
  rq_fragment :: bytes
  rq_body :: bytes
  rq_headers :: MapType
  rq_params :: MapType
  rq_cookies :: MapType

definition HttpRequest_new :: "byte \<Rightarrow> bool \<Rightarrow> HttpRequest" where
  "HttpRequest_new version close =
     \<lparr>rq_method = M_GET, rq_version = version, rq_close = close, rq_websocket = False,
      rq_parserParamFlag = 0, rq_streamId = 0, rq_path = str ''/'', rq_query = [], rq_fragment = [],
      rq_body = [], rq_headers = [], rq_params = [], rq_cookies = []\<rparr>"

definition get_or :: "bytes \<Rightarrow> bytes option \<Rightarrow> bytes" where
  "get_or def it = (case it of None \<Rightarrow> def | Some v \<Rightarrow> v)"

definition req_getHeader :: "bytes \<Rightarrow> bytes \<Rightarrow> HttpRequest \<Rightarrow> bytes" where
  "req_getHeader key def r = get_or def (map_find key (rq_headers r))"

definition setUri :: "bytes \<Rightarrow> HttpRequest \<Rightarrow> HttpRequest" where
  "setUri uri r =
     (case first_index ((=) 63) uri of
        None \<Rightarrow>
          (case first_index ((=) 35) uri of
             None \<Rightarrow> r\<lparr>rq_path := uri\<rparr>
           | Some pos2 \<Rightarrow> r\<lparr>rq_path := substr 0 pos2 uri, rq_fragment := drop (pos2 + 1) uri\<rparr>)
      | Some pos \<Rightarrow>
          (let r' = r\<lparr>rq_path := substr 0 pos uri\<rparr>; tail = drop (pos + 1) uri in
           case first_index ((=) 35) tail of
             None \<Rightarrow> r'\<lparr>rq_query := tail\<rparr>
           | Some n \<Rightarrow> r'\<lparr>rq_query := substr 0 n tail, rq_fragment := drop (n + 1) tail\<rparr>))"

definition getUri :: "HttpRequest \<Rightarrow> bytes" where
  "getUri r =
     rq_path r @ (if rq_query r = [] then [] else [63] @ rq_query r)
       @ (if rq_fragment r = [] then [] else [35] @ rq_fragment r)"

definition paramToQuery :: "HttpRequest \<Rightarrow> HttpRequest" where
  "paramToQuery r = r\<lparr>rq_query := MapJoin (rq_params r) [38]\<rparr>"

definition req_setHeader :: "bytes \<Rightarrow> bytes \<Rightarrow> HttpRequest \<Rightarrow> HttpRequest" where
  "req_setHeader key val r = r\<lparr>rq_headers := map_set key val (rq_headers r)\<rparr>"

definition setParam :: "bytes \<Rightarrow> bytes \<Rightarrow> HttpRequest \<Rightarrow> HttpRequest" where
  "setParam key val r = r\<lparr>rq_params := map_set key val (rq_params r)\<rparr>"

definition req_setCookie :: "bytes \<Rightarrow> bytes \<Rightarrow> HttpRequest \<Rightarrow> HttpRequest" where
  "req_setCookie key val r = r\<lparr>rq_cookies := map_set key val (rq_cookies r)\<rparr>"

definition req_delHeader :: "bytes \<Rightarrow> HttpRequest \<Rightarrow> HttpRequest" where
  "req_delHeader key r = r\<lparr>rq_headers := map_erase key (rq_headers r)\<rparr>"

definition delParam :: "bytes \<Rightarrow> HttpRequest \<Rightarrow> HttpRequest" where
  "delParam key r = r\<lparr>rq_params := map_erase key (rq_params r)\<rparr>"

definition delCookie :: "bytes \<Rightarrow> HttpRequest \<Rightarrow> HttpRequest" where
  "delCookie key r = r\<lparr>rq_cookies := map_erase key (rq_cookies r)\<rparr>"

text \<open>
  The loop of \<open>PARSE_PARAM\<close>; \<open>rest\<close> is the string from \<open>pos\<close> on. The separator is searched from the
  equals sign, so a part without one becomes part of the next key.
\<close>

function parse_param :: "byte \<Rightarrow> (bytes \<Rightarrow> bytes) \<Rightarrow> bytes \<Rightarrow> MapType \<Rightarrow> MapType" where
  "parse_param flag trim rest m =
     (case first_index ((=) 61) rest of
        None \<Rightarrow> m
      | Some key \<Rightarrow>
          (case first_index ((=) flag) (drop (key + 1) rest) of
             None \<Rightarrow> map_insert (trim (take key rest)) (UrlDecode (drop (key + 1) rest) True) m
           | Some n \<Rightarrow>
               parse_param flag trim (drop (n + 1) (drop (key + 1) rest))
                 (map_insert (trim (take key rest)) (UrlDecode (substr (key + 1) n rest) True) m)))"
  by pat_completeness auto

termination parse_param
  by (relation "measure (\<lambda>(flag, trim, rest, m). length rest)") (auto dest!: first_index_less)

declare parse_param.simps [simp del]

definition initQueryParam :: "HttpRequest \<Rightarrow> HttpRequest" where
  "initQueryParam r =
     (if rq_parserParamFlag r AND 0x1 \<noteq> 0 then r
      else r\<lparr>rq_params := parse_param 38 id (rq_query r) (rq_params r),
             rq_parserParamFlag := rq_parserParamFlag r OR 0x1\<rparr>)"

definition initBodyParam :: "HttpRequest \<Rightarrow> HttpRequest" where
  "initBodyParam r =
     (if rq_parserParamFlag r AND 0x2 \<noteq> 0 then r
      else if \<not> strcasestr (c_str (req_getHeader (str ''content-type'') [] r))
                (str ''application/x-www-form-urlencoded'')
      then r\<lparr>rq_parserParamFlag := rq_parserParamFlag r OR 0x2\<rparr>
      else r\<lparr>rq_params := parse_param 38 id (rq_body r) (rq_params r),
             rq_parserParamFlag := rq_parserParamFlag r OR 0x2\<rparr>)"

definition initCookies :: "HttpRequest \<Rightarrow> HttpRequest" where
  "initCookies r =
     (if rq_parserParamFlag r AND 0x4 \<noteq> 0 then r
      else let cookie = req_getHeader (str ''cookie'') [] r in
        if cookie = [] then r\<lparr>rq_parserParamFlag := rq_parserParamFlag r OR 0x4\<rparr>
        else r\<lparr>rq_cookies := parse_param 59 (\<lambda>s. Trim s WHITESPACE) cookie (rq_cookies r),
               rq_parserParamFlag := rq_parserParamFlag r OR 0x4\<rparr>)"

definition initParam :: "HttpRequest \<Rightarrow> HttpRequest" where
  "initParam r = initCookies (initBodyParam (initQueryParam r))"

definition getParam :: "bytes \<Rightarrow> bytes \<Rightarrow> HttpRequest \<Rightarrow> bytes \<times> HttpRequest" where
  "getParam key def r =
     (let r' = initBodyParam (initQueryParam r) in (get_or def (map_find key (rq_params r')), r'))"

definition getCookie :: "bytes \<Rightarrow> bytes \<Rightarrow> HttpRequest \<Rightarrow> bytes \<times> HttpRequest" where
  "getCookie key def r =
     (let r' = initCookies r in (get_or def (map_find key (rq_cookies r')), r'))"

text \<open>The \<open>has\<close> functions: what they store through \<open>val\<close>, \<open>None\<close> when they return false.\<close>

definition req_hasHeader :: "bytes \<Rightarrow> HttpRequest \<Rightarrow> bytes option" where
  "req_hasHeader key r = map_find key (rq_headers r)"

definition hasParam :: "bytes \<Rightarrow> HttpRequest \<Rightarrow> bytes option \<times> HttpRequest" where
  "hasParam key r =
     (let r' = initBodyParam (initQueryParam r) in (map_find key (rq_params r'), r'))"

definition hasCookie :: "bytes \<Rightarrow> HttpRequest \<Rightarrow> bytes option \<times> HttpRequest" where
  "hasCookie key r = (let r' = initCookies r in (map_find key (rq_cookies r'), r'))"

definition req_init :: "HttpRequest \<Rightarrow> HttpRequest" where
  "req_init r =
     (let conn = req_getHeader (str ''connection'') [] r in
      if conn \<noteq> [] then
        if strcasecmp (c_str conn) (str ''keep-alive'') = 0 then r\<lparr>rq_close := False\<rparr>
        else r\<lparr>rq_close := True\<rparr>
      else r)"

definition CRLF :: bytes where
  "CRLF = [13, 10]"

definition version_text :: "byte \<Rightarrow> bytes" where
  "version_text v = str ''HTTP/'' @ str (dec (unat (drop_bit 4 v))) @ str ''.'' @ str (dec (unat (v AND 0x0F)))"

definition same_name :: "bytes \<Rightarrow> bytes \<Rightarrow> bool" where
  "same_name a b \<longleftrightarrow> strcasecmp (c_str a) b = 0"

definition req_dump :: "HttpRequest \<Rightarrow> bytes" where
  "req_dump r =
     HttpMethodToString (rq_method r) @ str '' '' @ rq_path r
     @ (if rq_query r = [] then [] else [63]) @ rq_query r
     @ (if rq_fragment r = [] then [] else [35]) @ rq_fragment r
     @ str '' '' @ version_text (rq_version r) @ CRLF
     @ (if \<not> rq_websocket r
        then str ''connection: '' @ (if rq_close r then str ''close'' else str ''keep-alive'') @ CRLF
        else [])
     @ concat (map (\<lambda>(k, v).
         if \<not> rq_websocket r \<and> same_name k (str ''connection'') then []
         else if same_name k (str ''content-length'') then []
         else k @ str '': '' @ v @ CRLF) (rq_headers r))
     @ (if rq_body r \<noteq> []
        then str ''content-length: '' @ str (dec (length (rq_body r))) @ CRLF @ CRLF @ rq_body r
        else CRLF)"

section \<open>HttpResponse\<close>

record HttpResponse =
  rs_status :: int
  rs_version :: byte
  rs_close :: bool
  rs_websocket :: bool
  rs_body :: bytes
  rs_reason :: bytes
  rs_headers :: MapType
  rs_cookies :: "bytes list"

definition HttpResponse_new :: "byte \<Rightarrow> bool \<Rightarrow> HttpResponse" where
  "HttpResponse_new version close =
     \<lparr>rs_status = 200, rs_version = version, rs_close = close, rs_websocket = False, rs_body = [],
      rs_reason = [], rs_headers = [], rs_cookies = []\<rparr>"

definition createResponse :: "HttpRequest \<Rightarrow> HttpResponse" where
  "createResponse r = HttpResponse_new (rq_version r) (rq_close r)"

definition rsp_getHeader :: "bytes \<Rightarrow> bytes \<Rightarrow> HttpResponse \<Rightarrow> bytes" where
  "rsp_getHeader key def r = get_or def (map_find key (rs_headers r))"

definition rsp_setHeader :: "bytes \<Rightarrow> bytes \<Rightarrow> HttpResponse \<Rightarrow> HttpResponse" where
  "rsp_setHeader key val r = r\<lparr>rs_headers := map_set key val (rs_headers r)\<rparr>"

definition rsp_delHeader :: "bytes \<Rightarrow> HttpResponse \<Rightarrow> HttpResponse" where
  "rsp_delHeader key r = r\<lparr>rs_headers := map_erase key (rs_headers r)\<rparr>"

definition setRedirect :: "bytes \<Rightarrow> HttpResponse \<Rightarrow> HttpResponse" where
  "setRedirect uri r = rsp_setHeader (str ''Location'') uri (r\<lparr>rs_status := 302\<rparr>)"

text \<open>\<open>time2str\<close> is \<open>Time2Str\<close> with the cookie format, which asks the C library for the local time.\<close>

definition rsp_setCookie ::
    "(int \<Rightarrow> bytes) \<Rightarrow> bytes \<Rightarrow> bytes \<Rightarrow> int \<Rightarrow> bytes \<Rightarrow> bytes \<Rightarrow> bool \<Rightarrow> HttpResponse \<Rightarrow> HttpResponse" where
  "rsp_setCookie time2str key val expired path domain secure r =
     r\<lparr>rs_cookies := rs_cookies r @
        [key @ [61] @ val
         @ (if expired > 0 then str '';expires='' @ time2str expired @ str '' GMT'' else [])
         @ (if domain \<noteq> [] then str '';domain='' @ domain else [])
         @ (if path \<noteq> [] then str '';path='' @ path else [])
         @ (if secure then str '';secure'' else [])]\<rparr>"

definition initConnection :: "HttpResponse \<Rightarrow> HttpResponse" where
  "initConnection r =
     (let conn = rsp_getHeader (str ''connection'') [] r in
      if conn \<noteq> [] then
        if strcasecmp (c_str conn) (str ''keep-alive'') = 0 then r\<lparr>rs_close := False\<rparr>
        else r\<lparr>rs_close := rs_version r = 0x10\<rparr>
      else r)"

text \<open>The loop over the headers, with the flag \<open>has_content_length\<close> it sets.\<close>

fun dump_headers :: "bool \<Rightarrow> MapType \<Rightarrow> bool \<Rightarrow> bytes \<times> bool" where
  "dump_headers websocket [] has_cl = ([], has_cl)"
| "dump_headers websocket ((k, v) # m) has_cl =
     (if \<not> websocket \<and> same_name k (str ''connection'') then dump_headers websocket m has_cl
      else
        let (out, has_cl') = dump_headers websocket m (has_cl \<or> same_name k (str ''content-length''))
        in (k @ str '': '' @ v @ CRLF @ out, has_cl'))"

definition rsp_dump :: "HttpResponse \<Rightarrow> bytes" where
  "rsp_dump r =
     (let (headers, has_content_length) = dump_headers (rs_websocket r) (rs_headers r) False in
      version_text (rs_version r) @ str '' '' @ str (dec (nat (rs_status r mod 2 ^ 32))) @ str '' ''
      @ (if rs_reason r = [] then HttpStatusToString (rs_status r) else rs_reason r) @ CRLF
      @ headers
      @ concat (map (\<lambda>c. str ''Set-Cookie: '' @ c @ CRLF) (rs_cookies r))
      @ (if \<not> rs_websocket r
         then str ''connection: '' @ (if rs_close r then str ''close'' else str ''keep-alive'') @ CRLF
         else [])
      @ (if rs_body r \<noteq> [] then
           if \<not> has_content_length
           then str ''content-length: '' @ str (dec (length (rs_body r))) @ CRLF @ CRLF @ rs_body r
           else CRLF @ rs_body r
         else CRLF))"

section \<open>The comparator is a strict weak order\<close>

lemma zero_notin_c_str: "0 \<notin> set (c_str s)"
  by (auto simp: c_str_def dest: set_takeWhileD)

lemma c_str_id: "0 \<notin> set s \<Longrightarrow> c_str s = s"
  by (induction s) (auto simp: c_str_def)

lemma tolower_eq_0 [simp]: "tolower c = 0 \<longleftrightarrow> c = 0"
  by (auto simp: tolower_def word_le_nat_alt unat_word_ariths word_unat_eq_iff)

lemma uint_tolower_eq_0 [simp]: "uint (tolower c) = 0 \<longleftrightarrow> c = 0"
  by (simp add: unsigned_eq_0_iff)

lemma strcasecmp_antisym: "strcasecmp b a = - strcasecmp a b"
  by (induction a b rule: strcasecmp.induct) auto

lemma strcasecmp_eq_0:
  "0 \<notin> set a \<Longrightarrow> 0 \<notin> set b \<Longrightarrow> strcasecmp a b = 0 \<longleftrightarrow> map tolower a = map tolower b"
  by (induction a b rule: strcasecmp.induct) (auto dest: unsigned_word_eqI)

lemma strcasecmp_trans:
  "0 \<notin> set b \<Longrightarrow> 0 \<notin> set c \<Longrightarrow> strcasecmp a b < 0 \<Longrightarrow> strcasecmp b c < 0 \<Longrightarrow> strcasecmp a c < 0"
proof (induction a b arbitrary: c rule: strcasecmp.induct)
  case (2 y ys)
  then show ?case by (cases c) (auto split: if_splits)
next
  case (3 x xs)
  then show ?case using unsigned_greater_eq [of "tolower x"] by simp
next
  case (4 x xs y ys)
  then show ?case by (cases c) (auto split: if_splits)
qed simp

definition key_of :: "bytes \<Rightarrow> bytes" where
  "key_of s = map tolower (c_str s)"

lemma same_key_iff: "same_key CaseInsensitiveLess k l \<longleftrightarrow> key_of k = key_of l"
  using strcasecmp_eq_0 [OF zero_notin_c_str zero_notin_c_str, of k l]
    strcasecmp_antisym [of "c_str l" "c_str k"]
  by (auto simp: same_key_def CaseInsensitiveLess_def key_of_def)

interpretation header_map: key_order CaseInsensitiveLess
proof unfold_locales
  fix k l n
  show "\<not> CaseInsensitiveLess k k"
    using strcasecmp_eq_0 [OF zero_notin_c_str zero_notin_c_str, of k k]
    by (simp add: CaseInsensitiveLess_def)
  show "CaseInsensitiveLess k l \<Longrightarrow> CaseInsensitiveLess l n \<Longrightarrow> CaseInsensitiveLess k n"
    unfolding CaseInsensitiveLess_def
    by (rule strcasecmp_trans [OF zero_notin_c_str zero_notin_c_str])
  show "same_key CaseInsensitiveLess k l \<Longrightarrow> same_key CaseInsensitiveLess l n
      \<Longrightarrow> same_key CaseInsensitiveLess k n"
    by (simp add: same_key_iff)
qed

section \<open>Headers\<close>

definition rq_ok :: "HttpRequest \<Rightarrow> bool" where
  "rq_ok r \<longleftrightarrow> omap_ok CaseInsensitiveLess (rq_headers r) \<and> omap_ok CaseInsensitiveLess (rq_params r)
     \<and> omap_ok CaseInsensitiveLess (rq_cookies r)"

lemma parse_param_ok:
  "omap_ok CaseInsensitiveLess m \<Longrightarrow> omap_ok CaseInsensitiveLess (parse_param flag trim rest m)"
proof (induction flag trim rest m rule: parse_param.induct)
  case (1 flag trim rest m)
  then show ?case
    by (subst parse_param.simps) (simp add: header_map.ok_insert split: option.split)
qed

lemma rq_ok_new: "rq_ok (HttpRequest_new version close)"
  by (simp add: rq_ok_def HttpRequest_new_def omap_ok_def)

lemma rq_ok_setUri: "rq_ok r \<Longrightarrow> rq_ok (setUri uri r)"
  by (auto simp: rq_ok_def setUri_def Let_def split: option.split)

lemma rq_ok_init:
  "rq_ok r \<Longrightarrow> rq_ok (initQueryParam r)"
  "rq_ok r \<Longrightarrow> rq_ok (initBodyParam r)"
  "rq_ok r \<Longrightarrow> rq_ok (initCookies r)"
  by (simp_all add: rq_ok_def initQueryParam_def initBodyParam_def initCookies_def parse_param_ok Let_def)

lemma rq_ok_edit:
  assumes "rq_ok r"
  shows "rq_ok (req_setHeader k v r)" "rq_ok (setParam k v r)" "rq_ok (req_setCookie k v r)"
    "rq_ok (req_delHeader k r)" "rq_ok (delParam k r)" "rq_ok (delCookie k r)"
  using assms
  by (simp_all add: rq_ok_def req_setHeader_def setParam_def req_setCookie_def req_delHeader_def
      delParam_def delCookie_def header_map.ok_set header_map.ok_erase)

text \<open>Headers are found whatever the case of their name: after \<open>setHeader\<close> a header is read back
  under every spelling of its name and all other headers are as before; after \<open>delHeader\<close> it is gone
  under every spelling. Names that agree up to a zero byte count as the same name.\<close>

theorem header_lookup:
  assumes "rq_ok r"
  shows "req_getHeader l def (req_setHeader k v r) = (if key_of l = key_of k then v else req_getHeader l def r)
    \<and> req_hasHeader l (req_delHeader k r) = (if key_of l = key_of k then None else req_hasHeader l r)
    \<and> rq_ok (req_setHeader k v r) \<and> rq_ok (req_delHeader k r)"
  using assms rq_ok_edit [OF assms]
  by (simp add: req_getHeader_def req_setHeader_def req_hasHeader_def req_delHeader_def get_or_def
      header_map.find_set header_map.find_erase same_key_iff rq_ok_def)

theorem header_lookup_witness:
  "req_getHeader (str ''HOST'') [] (req_setHeader (str ''Host'') (str ''a.b'') (HttpRequest_new 0x11 True)) = str ''a.b''"
  using header_lookup [OF rq_ok_new [of "0x11" True], of "str ''HOST''" "[]" "str ''Host''" "str ''a.b''"]
  by (simp add: key_of_def c_str_def str_def tolower_def)

section \<open>Methods and URIs\<close>

lemma of_char_byte_eq_iff: "(of_char c :: byte) = of_char d \<longleftrightarrow> c = d"
proof
  assume "(of_char c :: byte) = of_char d"
  then have "(of_nat (of_char c) :: byte) = of_nat (of_char d)" by (simp add: of_nat_of_char)
  then have "unat (of_nat (of_char c) :: byte) = unat (of_nat (of_char d) :: byte)"
    by (simp only:)
  then have "(of_char c :: nat) mod 256 = of_char d mod 256" by (simp add: unat_of_nat)
  then have "(of_char c :: nat) = of_char d" using nat_of_char_less_256 by simp
  then show "c = d" by simp
qed simp

lemma str_eq_iff [simp]: "str s = str t \<longleftrightarrow> s = t"
  by (simp add: str_def inj_map_eq_map inj_def of_char_byte_eq_iff)

lemma c_str_str: "CHR 0x00 \<notin> set s \<Longrightarrow> c_str (str s) = str s"
proof (rule c_str_id)
  assume "CHR 0x00 \<notin> set s"
  moreover have "(of_char x :: byte) = 0 \<Longrightarrow> x = CHR 0x00" for x
    using of_char_byte_eq_iff [of x "CHR 0x00"] by simp
  ultimately show "0 \<notin> set (str s)" by (force simp: str_def)
qed

lemma names_unlike:
  "sorted_wrt (\<lambda>s t. take (length s) t \<noteq> s \<and> take (length t) s \<noteq> t) (map snd method_names)"
  by code_simp

lemma names_distinct: "distinct (map fst method_names)"
  by code_simp

lemma names_all: "m = M_INVALID_METHOD \<or> m \<in> set (map fst method_names)"
  by (cases m) (simp_all add: method_names_def)

lemma names_nonzero: "list_all (\<lambda>s. CHR 0x00 \<notin> set s) (map snd method_names)"
  by code_simp

lemma invalid_unnamed: "M_INVALID_METHOD \<notin> set (map fst method_names)"
  by code_simp

text \<open>A list in which the searched entry comes first.\<close>

lemma find_first:
  assumes "i < length xs" and "P (xs ! i)" and "\<forall>j < i. \<not> P (xs ! j)"
  shows "find P xs = Some (xs ! i)" and "first_index P xs = Some i"
proof -
  from assms show "find P xs = Some (xs ! i)"
    by (auto simp: find_Some_iff)
  from assms show "first_index P xs = Some i"
  proof (induction xs arbitrary: i)
    case (Cons x xs)
    show ?case
    proof (cases i)
      case 0
      with Cons.prems show ?thesis by simp
    next
      case (Suc n)
      have "\<forall>j < n. \<not> P (xs ! j)" using Cons.prems(3) Suc by (metis Suc_less_eq nth_Cons_Suc)
      moreover have "\<not> P x" using Cons.prems(3) Suc by (metis nth_Cons_0 zero_less_Suc)
      ultimately show ?thesis using Cons.IH [of n] Cons.prems Suc by simp
    qed
  qed simp
qed

lemma length_str [simp]: "length (str s) = length s"
  by (simp add: str_def)

lemma prefix_unlike:
  assumes "take (length t) (str s @ r) = str t"
  shows "take (length t) s = t \<or> take (length s) t = s"
proof (cases "length t \<le> length s")
  case True
  with assms have "str (take (length t) s) = str t" by (simp add: str_def take_map)
  then show ?thesis by simp
next
  case False
  with assms have "take (length s) (str t) = str s" by (metis length_str nat_le_linear take_all_iff take_append take_take min.absorb1 append_eq_conv_conj)
  then have "str (take (length s) t) = str s" by (simp add: str_def take_map)
  then show ?thesis by simp
qed

lemma method_at:
  assumes i: "i < length method_names" and e: "method_names ! i = (m, s)"
  shows "HttpMethodToString m = str s"
    and "StringToHttpMethod (str s) = m"
    and "CharsToHttpMethod (str s @ rest) = m"
proof -
  have map_at: "HTTP_METHOD_MAP ! j = (fst (method_names ! j), str (snd (method_names ! j)))"
    if "j < length method_names" for j
    using that by (simp add: HTTP_METHOD_MAP_def case_prod_beta)
  have len: "length HTTP_METHOD_MAP = length method_names" by (simp add: HTTP_METHOD_MAP_def)
  have unlike: "take (length t) s \<noteq> t \<and> take (length s) t \<noteq> s \<and> t \<noteq> s" if "j < i" "t = snd (method_names ! j)" for j t
    using sorted_wrt_nth_less [OF names_unlike, of j i] that i e by auto
  have nz: "c_str (str s) = str s"
    using names_nonzero i e by (intro c_str_str) (auto simp: list_all_length)
  show "HttpMethodToString m = str s"
  proof -
    have "\<forall>j < i. fst (method_names ! j) \<noteq> m"
    proof (intro allI impI)
      fix j
      assume "j < i"
      then have "map fst method_names ! j \<noteq> map fst method_names ! i"
        using names_distinct i by (subst nth_eq_iff_index_eq) auto
      then show "fst (method_names ! j) \<noteq> m" using \<open>j < i\<close> i e by simp
    qed
    then have "method_index m = i"
      using find_first(2) [of i HTTP_METHOD_MAP "\<lambda>(name, s). name = m"] i e
      by (simp add: method_index_def len map_at)
    then show ?thesis using i e by (simp add: HttpMethodToString_def len map_at)
  qed
  show "StringToHttpMethod (str s) = m"
    using find_first(1) [of i HTTP_METHOD_MAP "\<lambda>(name, t). t = str s"] i e unlike
    by (simp add: StringToHttpMethod_def nz len map_at)
  have pre: "c_str (str s @ rest) = str s @ c_str rest"
    using nz by (metis c_str_def takeWhile_append2 takeWhile_eq_all_conv)
  have "take (length t) (str s @ c_str rest) \<noteq> str t" if "j < i" "t = snd (method_names ! j)" for j t
    using unlike [OF that] prefix_unlike [of t s "c_str rest"] by blast
  then show "CharsToHttpMethod (str s @ rest) = m"
    using find_first(1) [of i HTTP_METHOD_MAP "\<lambda>(name, t). take (length t) (str s @ c_str rest) = t"] i e
    by (simp add: CharsToHttpMethod_def pre len map_at)
qed

text \<open>Every method is printed as a name that both parsers read back as that method, the second one
  also when more text follows the name.\<close>

theorem method_roundtrip:
  assumes "m \<noteq> M_INVALID_METHOD"
  shows "StringToHttpMethod (HttpMethodToString m) = m
    \<and> CharsToHttpMethod (HttpMethodToString m @ rest) = m"
proof -
  obtain i where "i < length method_names" "fst (method_names ! i) = m"
    using names_all [of m] assms by (auto simp: in_set_conv_nth)
  then have e: "i < length method_names" "method_names ! i = (m, snd (method_names ! i))" by auto
  show ?thesis using method_at(1,2) [OF e] method_at(3) [OF e, of rest] by simp
qed

theorem method_roundtrip_witness:
  "CharsToHttpMethod (HttpMethodToString M_POST @ str '' /x HTTP/1.1'') = M_POST"
  using method_roundtrip [of M_POST] by simp

lemma first_index_append:
  "first_index P (xs @ y # ys) = Some (length xs)" if "\<forall>x \<in> set xs. \<not> P x" "P y"
  using that by (induction xs) auto

lemma first_index_at: "c \<notin> set xs \<Longrightarrow> first_index ((=) c) (xs @ c # ys) = Some (length xs)"
  by (intro first_index_append) auto

lemma first_index_absent: "c \<notin> set xs \<Longrightarrow> first_index ((=) c) xs = None"
  by (auto simp: first_index_None)



section \<open>Query parameters\<close>

text \<open>A query string of names and percent-encoded values.\<close>

fun query_of :: "MapType \<Rightarrow> bytes" where
  "query_of [] = []"
| "query_of [(k, v)] = k @ 61 # UrlEncode v True"
| "query_of ((k, v) # e # m) = k @ 61 # UrlEncode v True @ 38 # query_of (e # m)"

definition plain_key :: "bytes \<Rightarrow> bool" where
  "plain_key k \<longleftrightarrow> 61 \<notin> set k \<and> 38 \<notin> set k"

lemma UrlEncode_no_amp: "38 \<notin> set (UrlEncode v b)"
  using UrlEncode_chars [of b v] by (auto simp: list_all_iff isalnum_def str_def)

lemma parse_param_query:
  "\<forall>e \<in> set kvs. 61 \<notin> set (fst e) \<Longrightarrow>
     parse_param 38 id (query_of kvs) m = fold (\<lambda>(k, v). map_insert k v) kvs m"
proof (induction kvs arbitrary: m rule: query_of.induct)
  case 1
  then show ?case by (simp add: parse_param.simps)
next
  case (2 k v)
  have "first_index ((=) 61) (k @ 61 # UrlEncode v True) = Some (length k)"
    using "2.prems" by (simp add: first_index_at)
  moreover have "first_index ((=) 38) (UrlEncode v True) = None"
    by (rule first_index_absent) (rule UrlEncode_no_amp)
  ultimately show ?case by (simp add: parse_param.simps UrlDecode_UrlEncode)
next
  case (3 k v e m')
  have "first_index ((=) 61) (query_of ((k, v) # e # m')) = Some (length k)"
    using "3.prems" by (simp add: first_index_at)
  moreover have "first_index ((=) 38) (UrlEncode v True @ 38 # query_of (e # m')) = Some (length (UrlEncode v True))"
    by (rule first_index_at) (rule UrlEncode_no_amp)
  ultimately show ?case
    using "3.IH" "3.prems"
    by (subst parse_param.simps) (simp add: UrlDecode_UrlEncode substr_def id_def)
qed

lemma fold_insert_find:
  "map_find key (fold (\<lambda>(k, v). map_insert k v) kvs m) =
     (case map_find key m of Some v \<Rightarrow> Some v
      | None \<Rightarrow> map_option snd (find (\<lambda>e. key_of (fst e) = key_of key) kvs))"
proof (induction kvs arbitrary: m)
  case Nil
  then show ?case by (simp split: option.split)
next
  case (Cons e kvs)
  obtain k v where e: "e = (k, v)" by (cases e)
  have "key_of key = key_of k \<Longrightarrow> map_find k m = map_find key m"
    by (rule header_map.find_same) (simp add: same_key_iff)
  with Cons show ?case by (auto simp: e header_map.find_insert same_key_iff split: option.split)
qed

text \<open>The parameters of a query string are the ones it was built from: when names without \<open>=\<close> are
  joined to percent-encoded values with \<open>&\<close>, \<open>getParam\<close> returns for a name, in any spelling, the
  value of its first occurrence, and the default when the query does not have it. A second call
  does not parse again.\<close>

theorem query_params:
  assumes "\<forall>e \<in> set kvs. 61 \<notin> set (fst e)"
    and "rq_query r = query_of kvs" and "rq_params r = []" and "rq_parserParamFlag r = 0"
    and "\<not> strcasestr (c_str (req_getHeader (str ''content-type'') [] r))
           (str ''application/x-www-form-urlencoded'')"
  shows "fst (getParam key def r) =
      get_or def (map_option snd (find (\<lambda>e. key_of (fst e) = key_of key) kvs))
    \<and> getParam key' def' (snd (getParam key def r)) =
      (get_or def' (map_option snd (find (\<lambda>e. key_of (fst e) = key_of key') kvs)), snd (getParam key def r))"
proof -
  define r' where "r' = r\<lparr>rq_params := fold (\<lambda>(k, v). map_insert k v) kvs [], rq_parserParamFlag := 3\<rparr>"
  have "initBodyParam (initQueryParam r) = r'"
    using assms
    by (simp add: initQueryParam_def initBodyParam_def parse_param_query req_getHeader_def r'_def)
  moreover have "initBodyParam (initQueryParam r') = r'"
    by (simp add: initQueryParam_def initBodyParam_def r'_def)
  moreover have "map_find k (rq_params r') = map_option snd (find (\<lambda>e. key_of (fst e) = key_of k) kvs)" for k
    by (simp add: r'_def fold_insert_find)
  ultimately show ?thesis by (simp add: getParam_def Let_def)
qed

theorem query_params_witness:
  "fst (getParam (str ''Q'') [] (HttpRequest_new 0x11 True\<lparr>rq_query := query_of [(str ''q'', str ''a&b=c'')]\<rparr>))
     = str ''a&b=c''"
  using query_params [of "[(str ''q'', str ''a&b=c'')]"
      "HttpRequest_new 0x11 True\<lparr>rq_query := query_of [(str ''q'', str ''a&b=c'')]\<rparr>" "str ''Q''" "[]" "[]" "[]"]
  by (simp add: HttpRequest_new_def key_of_def c_str_def str_def tolower_def req_getHeader_def get_or_def)

end
