(* ===== verification/Http2Stream.thy ===== *)
theory Http2Stream
  imports Frame Http
begin

text \<open>
  \<^verbatim>\<open>src/chat/http2/http2_protocol.cc\<close> and the state of one HTTP/2 stream of
  \<^verbatim>\<open>src/chat/http2/http2_stream.cc\<close>: settings, error codes, the conversions between requests or responses
  and header lists, and the handlers of the frames a stream receives. The receive table belongs to the
  connection and is passed in and out. The operations that send are in \<open>Http2Socket\<close>.
\<close>

section \<open>Protocol constants and settings\<close>

definition DEFAULT_MAX_FRAME_SIZE :: "32 word" where "DEFAULT_MAX_FRAME_SIZE = 16384"
definition MAX_MAX_FRAME_SIZE :: "32 word" where "MAX_MAX_FRAME_SIZE = 0xFFFFFF"
definition DEFAULT_HEADER_TABLE_SIZE :: "32 word" where "DEFAULT_HEADER_TABLE_SIZE = 4096"
definition DEFAULT_MAX_HEADER_LIST_SIZE :: "32 word" where "DEFAULT_MAX_HEADER_LIST_SIZE = 0x400000"
definition DEFAULT_INITIAL_WINDOW_SIZE :: "32 word" where "DEFAULT_INITIAL_WINDOW_SIZE = 65535"
definition MAX_INITIAL_WINDOW_SIZE :: "32 word" where "MAX_INITIAL_WINDOW_SIZE = 0x7FFFFFFF"
definition DEFAULT_MAX_CONCURRENT_STREAMS :: "32 word" where "DEFAULT_MAX_CONCURRENT_STREAMS = 0xFFFFFFFF"

datatype Http2Error =
    E_OK | E_PROTOCOL_ERROR | E_INTERNAL_ERROR | E_FLOW_CONTROL_ERROR | E_SETTINGS_TIMEOUT_ERROR
  | E_STREAM_CLOSED_ERROR | E_FRAME_SIZE_ERROR | E_REFUSED_STREAM_ERROR | E_CANCEL_ERROR
  | E_COMPRESSION_ERROR | E_CONNECT_ERROR | E_ENHANCE_YOUR_CALM_ERROR | E_INADEQUATE_SECURITY_ERROR
  | E_HTTP11_REQUIRED_ERROR

primrec error_code :: "Http2Error \<Rightarrow> 32 word" where
  "error_code E_OK = 0x0"
| "error_code E_PROTOCOL_ERROR = 0x1"
| "error_code E_INTERNAL_ERROR = 0x2"
| "error_code E_FLOW_CONTROL_ERROR = 0x3"
| "error_code E_SETTINGS_TIMEOUT_ERROR = 0x4"
| "error_code E_STREAM_CLOSED_ERROR = 0x5"
| "error_code E_FRAME_SIZE_ERROR = 0x6"
| "error_code E_REFUSED_STREAM_ERROR = 0x7"
| "error_code E_CANCEL_ERROR = 0x8"
| "error_code E_COMPRESSION_ERROR = 0x9"
| "error_code E_CONNECT_ERROR = 0xa"
| "error_code E_ENHANCE_YOUR_CALM_ERROR = 0xb"
| "error_code E_INADEQUATE_SECURITY_ERROR = 0xc"
| "error_code E_HTTP11_REQUIRED_ERROR = 0xd"

definition s_http2error_strings :: "string list" where
  "s_http2error_strings =
     [''OK'', ''PROTOCOL_ERROR'', ''INTERNAL_ERROR'', ''FLOW_CONTROL_ERROR'', ''SETTINGS_TIMEOUT_ERROR'',
      ''STREAM_CLOSED_ERROR'', ''FRAME_SIZE_ERROR'', ''REFUSED_STREAM_ERROR'', ''CANCEL_ERROR'',
      ''COMPRESSION_ERROR'', ''CONNECT_ERROR'', ''ENHANCE_YOUR_CALM_ERROR'',
      ''INADEQUATE_SECURITY_ERROR'', ''HTTP11_REQUIRED_ERROR'']"

text \<open>The code is any number of the wire; only its low byte is looked at.\<close>

definition Http2ErrorToString :: "32 word \<Rightarrow> string" where
  "Http2ErrorToString err =
     (let v = unat (ucast err :: byte) in
      if v < length s_http2error_strings then s_http2error_strings ! v
      else ''UNKNOW('' @ dec v @ '')'')"

record Http2Settings =
  header_table_size :: "32 word"
  max_header_list_size :: "32 word"
  max_concurrent_streams :: "32 word"
  max_frame_size :: "32 word"
  initial_window_size :: "32 word"
  enable_push :: bool

definition Http2Settings_new :: Http2Settings where
  "Http2Settings_new =
     \<lparr>header_table_size = DEFAULT_HEADER_TABLE_SIZE, max_header_list_size = DEFAULT_MAX_HEADER_LIST_SIZE,
      max_concurrent_streams = DEFAULT_MAX_CONCURRENT_STREAMS, max_frame_size = DEFAULT_MAX_FRAME_SIZE,
      initial_window_size = DEFAULT_INITIAL_WINDOW_SIZE, enable_push = False\<rparr>"

section \<open>Requests and responses as header lists\<close>

definition Http2InitRequestForWrite :: "bool \<Rightarrow> HttpRequest \<Rightarrow> HttpRequest" where
  "Http2InitRequestForWrite ssl req =
     (let r1 = req_setHeader (str '':scheme'') (if ssl then str ''https'' else str ''http'') req;
          r2 = (if req_hasHeader (str '':path'') r1 = None
                then req_setHeader (str '':path'') (getUri r1) r1 else r1)
      in req_setHeader (str '':method'') (HttpMethodToString (rq_method r2)) r2)"

definition Http2InitResponseForWrite :: "HttpResponse \<Rightarrow> HttpResponse" where
  "Http2InitResponseForWrite rsp =
     rsp_setHeader (str '':status'') (str (dec (nat (rs_status rsp mod 2 ^ 32)))) rsp"

definition Http2InitRequestForRead :: "HttpRequest \<Rightarrow> HttpRequest" where
  "Http2InitRequestForRead req =
     (let r1 = req\<lparr>rq_method := StringToHttpMethod (req_getHeader (str '':method'') [] req)\<rparr>
      in if req_hasHeader (str '':path'') r1 \<noteq> None
         then setUri (req_getHeader (str '':path'') [] r1) r1 else r1)"

definition Http2InitResponseForRead :: "HttpResponse \<Rightarrow> HttpResponse" where
  "Http2InitResponseForRead rsp =
     rsp\<lparr>rs_status := sint (ucast (Atoi (rsp_getHeader (str '':status'') [] rsp)) :: 32 word)\<rparr>"

section \<open>The state of a stream\<close>

datatype State =
    IDLE | OPEN | CLOSED | RESERVED_LOCAL | RESERVED_REMOTE | HALF_CLOSE_LOCAL | HALF_CLOSE_REMOTE

definition stream_states :: "State list" where
  "stream_states =
     [IDLE, OPEN, CLOSED, RESERVED_LOCAL, RESERVED_REMOTE, HALF_CLOSE_LOCAL, HALF_CLOSE_REMOTE]"

definition s_state_strings :: "string list" where
  "s_state_strings =
     [''IDLE'', ''OPEN'', ''CLOSED'', ''RESERVED_LOCAL'', ''RESERVED_REMOTE'', ''HALF_CLOSE_LOCAL'',
      ''HALF_CLOSE_REMOTE'']"

definition StateToString :: "State \<Rightarrow> string" where
  "StateToString state =
     (case first_index ((=) state) stream_states of
        Some v \<Rightarrow> if v < 7 then s_state_strings ! v else ''UNKNOW('' @ dec v @ '')''
      | None \<Rightarrow> '''')"

text \<open>
  The members of \<open>Http2Stream\<close>. \<open>st_handler\<close> tells whether a frame handler is set and \<open>st_calls\<close> records
  its calls (\<open>None\<close> is a call with a null frame). \<open>st_data\<close> is the blocking queue of data frames, with
  \<open>None\<close> for a null pointer. \<open>st_recvHPack\<close> is the list of headers parsed so far; the table it refers to
  is the connection's. Windows are 32-bit signed numbers.
\<close>

record Http2Stream =
  st_state :: State
  st_handleCount :: byte
  st_isStream :: bool
  st_id :: "32 word"
  st_request :: "HttpRequest option"
  st_response :: "HttpResponse option"
  st_recvHPack :: "HeaderField list option"
  st_handler :: bool
  st_calls :: "Frame option list"
  st_data :: "DataFrame option list"
  st_sendWindow :: "32 word"
  st_recvWindow :: "32 word"

text \<open>The constructor, given the settings of the connection.\<close>

definition Http2Stream_new :: "Http2Settings \<Rightarrow> Http2Settings \<Rightarrow> 32 word \<Rightarrow> Http2Stream" where
  "Http2Stream_new peer owner sid =
     \<lparr>st_state = IDLE, st_handleCount = 0, st_isStream = False, st_id = sid, st_request = None,
      st_response = None, st_recvHPack = None, st_handler = False, st_calls = [], st_data = [],
      st_sendWindow = initial_window_size peer, st_recvWindow = initial_window_size owner\<rparr>"

definition addHandleCount :: "Http2Stream \<Rightarrow> Http2Stream" where
  "addHandleCount st = st\<lparr>st_handleCount := st_handleCount st + 1\<rparr>"

definition stream_getHeader :: "bytes \<Rightarrow> Http2Stream \<Rightarrow> bytes" where
  "stream_getHeader name st =
     (case st_recvHPack st of
        None \<Rightarrow> []
      | Some hs \<Rightarrow> (case find (\<lambda>i. hf_name i = name) hs of None \<Rightarrow> [] | Some i \<Rightarrow> hf_value i))"

definition call_handler :: "Frame option \<Rightarrow> Http2Stream \<Rightarrow> Http2Stream" where
  "call_handler f st = (if st_handler st then st\<lparr>st_calls := st_calls st @ [f]\<rparr> else st)"

definition data_push :: "DataFrame option \<Rightarrow> Http2Stream \<Rightarrow> Http2Stream" where
  "data_push d st = st\<lparr>st_data := st_data st @ [d]\<rparr>"

definition stream_close :: "Http2Stream \<Rightarrow> Http2Stream" where
  "stream_close st = data_push None (call_handler None st)"

text \<open>\<open>recvData\<close> pops the queue and blocks while it is empty (\<open>None\<close>).\<close>

definition recvData :: "Http2Stream \<Rightarrow> (DataFrame option \<times> Http2Stream) option" where
  "recvData st = (case st_data st of [] \<Rightarrow> None | d # ds \<Rightarrow> Some (d, st\<lparr>st_data := ds\<rparr>))"

text \<open>\<open>getDataBody\<close> empties the queue; a null entry is dereferenced.\<close>

fun data_body :: "DataFrame option list \<Rightarrow> error + bytes" where
  "data_body [] = Inr []"
| "data_body (None # ds) = Inl Null_deref"
| "data_body (Some d # ds) = map_sum id (\<lambda>rest. df_data d @ rest) (data_body ds)"

definition getDataBody :: "Http2Stream \<Rightarrow> error + bytes \<times> Http2Stream" where
  "getDataBody st = map_sum id (\<lambda>body. (body, st\<lparr>st_data := []\<rparr>)) (data_body (st_data st))"

text \<open>\<open>updateWindowSizeByDiff\<close>: an invalid new value is only logged, and 0 is returned always.\<close>

definition updateWindowSizeByDiff :: "32 word \<Rightarrow> 32 word \<Rightarrow> int \<times> 32 word" where
  "updateWindowSizeByDiff window diff = (0, window + diff)"

definition stream_updateSendWindowByDiff :: "32 word \<Rightarrow> Http2Stream \<Rightarrow> int \<times> Http2Stream" where
  "stream_updateSendWindowByDiff diff st =
     (let (rt, w) = updateWindowSizeByDiff (st_sendWindow st) diff in (rt, st\<lparr>st_sendWindow := w\<rparr>))"

definition stream_updateRecvWindowByDiff :: "32 word \<Rightarrow> Http2Stream \<Rightarrow> int \<times> Http2Stream" where
  "stream_updateRecvWindowByDiff diff st =
     (let (rt, w) = updateWindowSizeByDiff (st_recvWindow st) diff in (rt, st\<lparr>st_recvWindow := w\<rparr>))"

section \<open>Received frames\<close>

definition handleRstStreamFrame :: "Http2Stream \<Rightarrow> int \<times> Http2Stream" where
  "handleRstStreamFrame st = (0, st\<lparr>st_state := CLOSED\<rparr>)"

text \<open>\<open>dynamic_pointer_cast\<close> fails for a frame whose data has another type or is missing.\<close>

definition handleHeadersFrame ::
    "Frame \<Rightarrow> DynamicTable \<Rightarrow> Http2Stream \<Rightarrow> error + int \<times> DynamicTable \<times> Http2Stream" where
  "handleHeadersFrame frame recvTable st =
     (case frame_data frame of
        Some (Headers headers) \<Rightarrow>
          (let hs = (case st_recvHPack st of None \<Rightarrow> [] | Some hs \<Rightarrow> hs) in
           map_sum id (\<lambda>(rt, hp). (rt, m_table hp, st\<lparr>st_recvHPack := Some (m_headers hp)\<rparr>))
             (HPack_parse_string (hd_data headers) \<lparr>m_headers = hs, m_table = recvTable\<rparr>))
      | _ \<Rightarrow> Inr (-1, recvTable, st))"

definition handleDataFrame :: "Frame \<Rightarrow> Http2Stream \<Rightarrow> int \<times> Http2Stream" where
  "handleDataFrame frame st =
     (case frame_data frame of
        Some (Data dat) \<Rightarrow> (0, data_push (Some dat) st)
      | _ \<Rightarrow> (-1, st))"

definition recv_headers :: "Http2Stream \<Rightarrow> HeaderField list" where
  "recv_headers st = (case st_recvHPack st of None \<Rightarrow> [] | Some hs \<Rightarrow> hs)"

definition initRequest :: "Http2Stream \<Rightarrow> error + Http2Stream" where
  "initRequest st =
     (let req = (case st_request st of None \<Rightarrow> HttpRequest_new 0x20 True | Some r \<Rightarrow> r) in
      case (if st_isStream st then Inr (req, st)
            else map_sum id (\<lambda>(body, st'). (req\<lparr>rq_body := body\<rparr>, st')) (getDataBody st)) of
        Inl e \<Rightarrow> Inl e
      | Inr (req1, st1) \<Rightarrow>
          (let req2 = fold (\<lambda>i r. req_setHeader (hf_name i) (hf_value i) r) (recv_headers st1) req1
           in Inr (st1\<lparr>st_request := Some (Http2InitRequestForRead req2)\<rparr>)))"

text \<open>The corresponding part of \<open>handleFrame\<close> on the client's side.\<close>

definition initResponse :: "Http2Stream \<Rightarrow> error + Http2Stream" where
  "initResponse st =
     (let rsp = (case st_response st of None \<Rightarrow> HttpResponse_new 0x20 True | Some r \<Rightarrow> r) in
      case (if st_isStream st then Inr (rsp, st)
            else map_sum id (\<lambda>(body, st'). (rsp\<lparr>rs_body := body\<rparr>, st')) (getDataBody st)) of
        Inl e \<Rightarrow> Inl e
      | Inr (rsp1, st1) \<Rightarrow>
          (let rsp2 = fold (\<lambda>i r. rsp_setHeader (hf_name i) (hf_value i) r) (recv_headers st1) rsp1
           in Inr (st1\<lparr>st_response := Some (Http2InitResponseForRead rsp2)\<rparr>)))"

definition frame_type :: "Frame \<Rightarrow> FrameType option" where
  "frame_type frame = FrameType_of (fh_type (header frame))"

definition dispatch_frame ::
    "Frame \<Rightarrow> DynamicTable \<Rightarrow> Http2Stream \<Rightarrow> error + int \<times> DynamicTable \<times> Http2Stream" where
  "dispatch_frame frame recvTable st =
     (if frame_type frame = Some HEADERS then
        (case handleHeadersFrame frame recvTable st of
           Inl e \<Rightarrow> Inl e
         | Inr (rt, t, st') \<Rightarrow> if rt = -1 then Inl Assert_failed else Inr (rt, t, st'))
      else if frame_type frame = Some DATA then
        (let (rt, st') = handleDataFrame frame st in Inr (rt, recvTable, st'))
      else if frame_type frame = Some RST_STREAM then
        (let (rt, st') = handleRstStreamFrame st in Inr (rt, recvTable, st'))
      else Inr (0, recvTable, st))"

definition end_of_stream :: "bool \<Rightarrow> Http2Stream \<Rightarrow> error + Http2Stream" where
  "end_of_stream is_client st =
     (let st1 = st\<lparr>st_state := CLOSED\<rparr>;
          st2 = (if st_isStream st1 then data_push None st1 else st1)
      in if is_client then initResponse st2 else initRequest st2)"

definition stream_handleFrame ::
    "Frame \<Rightarrow> bool \<Rightarrow> DynamicTable \<Rightarrow> Http2Stream \<Rightarrow> error + int \<times> DynamicTable \<times> Http2Stream" where
  "stream_handleFrame frame is_client recvTable st =
     (case dispatch_frame frame recvTable st of
        Inl e \<Rightarrow> Inl e
      | Inr (rt, t, st1) \<Rightarrow>
          (let st2 = call_handler (Some frame) st1 in
           if fh_flags (header frame) AND FLAG_END_STREAM \<noteq> 0
           then map_sum id (\<lambda>st3. (rt, t, st3)) (end_of_stream is_client st2)
           else Inr (rt, t, st2)))"

end
