(* ===== verification/OrderedSet.thy ===== *)
theory OrderedSet
  imports Main
begin

text \<open>
  \<open>std::set\<close> with a user-defined comparator, as the list of its elements in iteration order. Two
  elements are the same for the container when neither is less than the other. The locale states
  what the comparator of a set must be (a strict total order) and what the operations then do.
\<close>

fun oset_insert :: "('a \<Rightarrow> 'a \<Rightarrow> bool) \<Rightarrow> 'a \<Rightarrow> 'a list \<Rightarrow> 'a list" where
  "oset_insert lt x [] = [x]"
| "oset_insert lt x (y # ys) =
     (if lt x y then x # y # ys else if lt y x then y # oset_insert lt x ys else y # ys)"

definition oset_find :: "('a \<Rightarrow> 'a \<Rightarrow> bool) \<Rightarrow> 'a \<Rightarrow> 'a list \<Rightarrow> 'a option" where
  "oset_find lt x ys = find (\<lambda>y. \<not> lt x y \<and> \<not> lt y x) ys"

definition oset_erase :: "'a \<Rightarrow> 'a list \<Rightarrow> 'a list" where
  "oset_erase x ys = remove1 x ys"

text \<open>The part of the set before and the part from \<open>lower_bound(x)\<close> on.\<close>

definition oset_before :: "('a \<Rightarrow> 'a \<Rightarrow> bool) \<Rightarrow> 'a \<Rightarrow> 'a list \<Rightarrow> 'a list" where
  "oset_before lt x ys = takeWhile (\<lambda>y. lt y x) ys"

definition oset_from :: "('a \<Rightarrow> 'a \<Rightarrow> bool) \<Rightarrow> 'a \<Rightarrow> 'a list \<Rightarrow> 'a list" where
  "oset_from lt x ys = dropWhile (\<lambda>y. lt y x) ys"

lemma find_None_iff_ball: "find P xs = None \<longleftrightarrow> (\<forall>x \<in> set xs. \<not> P x)"
  by (auto simp: find_None_iff)

lemma sorted_wrt_cong_set:
  "(\<And>x y. x \<in> set xs \<Longrightarrow> y \<in> set xs \<Longrightarrow> P x y = Q x y) \<Longrightarrow> sorted_wrt P xs = sorted_wrt Q xs"
  by (induction xs) auto

locale comparator =
  fixes lt :: "'a \<Rightarrow> 'a \<Rightarrow> bool"
  assumes lt_irrefl: "\<not> lt x x"
    and lt_trans: "lt x y \<Longrightarrow> lt y z \<Longrightarrow> lt x z"
    and lt_total: "x \<noteq> y \<Longrightarrow> lt x y \<or> lt y x"
begin

lemma equivalent_iff: "\<not> lt x y \<and> \<not> lt y x \<longleftrightarrow> x = y"
  using lt_irrefl lt_total by blast

lemma set_insert: "set (oset_insert lt x ys) = insert x (set ys)"
proof (induction ys)
  case (Cons y ys)
  then show ?case using equivalent_iff [of x y] by auto
qed simp

lemma sorted_insert: "sorted_wrt lt ys \<Longrightarrow> sorted_wrt lt (oset_insert lt x ys)"
proof (induction ys)
  case (Cons y ys)
  then show ?case using lt_trans by (auto simp: set_insert)
qed simp

lemma find_iff: "oset_find lt x ys = (if x \<in> set ys then Some x else None)"
proof (induction ys)
  case (Cons y ys)
  then show ?case using equivalent_iff [of x y] by (auto simp: oset_find_def)
qed (simp add: oset_find_def)

lemma sorted_distinct: "sorted_wrt lt ys \<Longrightarrow> distinct ys"
  using lt_irrefl by (induction ys) auto

lemma set_erase: "sorted_wrt lt ys \<Longrightarrow> set (oset_erase x ys) = set ys - {x}"
  by (simp add: oset_erase_def sorted_distinct)

lemma sorted_erase: "sorted_wrt lt ys \<Longrightarrow> sorted_wrt lt (oset_erase x ys)"
  by (induction ys) (auto simp: oset_erase_def dest: notin_set_remove1 in_set_remove1 [THEN iffD1, rotated] set_remove1_subset [THEN subsetD])

lemma lt_asym: "lt x y \<Longrightarrow> \<not> lt y x"
  using lt_irrefl lt_trans by blast

lemma head_least: "sorted_wrt lt (y # ys) \<Longrightarrow> z \<in> set (y # ys) \<Longrightarrow> \<not> lt z y"
  using lt_irrefl lt_asym by auto

end

end
