(* ===== verification/Http2Socket.thy ===== *)
theory Http2Socket
  imports Http2Stream OrderedSet "HOL-Library.AList"
begin

text \<open>
  \<^verbatim>\<open>src/chat/http2/http2_socket_stream.cc\<close>, the sending half of \<^verbatim>\<open>http2_stream.cc\<close>, and the parts of
  \<^verbatim>\<open>http2_session.cc\<close>, \<^verbatim>\<open>http2_connection.cc\<close> and \<^verbatim>\<open>streams/async_socket_stream.cc\<close> they use: an HTTP/2
  connection. Stream objects live in \<open>h2_objs\<close> and are named by their index, because the manager, the
  caller and the worker share them; the manager's map holds such names. A frame sent asynchronously
  is appended to \<open>h2_queue\<close>, which \<open>doWrite\<close> empties. The socket is a \<open>SocketStream\<close> over the kernel
  operations; \<open>wr\<close>, \<open>rd\<close> and \<open>mx\<close> are its read, its write and the configured buffer size. The locks order
  the calls, which are taken one after the other, and every call runs on a connection that is alive,
  so the weak pointer of a stream is never expired.
\<close>

section \<open>State\<close>

type_synonym stream_ptr = nat

text \<open>
  A request context, shared by the table, the queue, the timer and the caller, and named by its index as
  well. \<open>cx_scheduler\<close> says that the pointer to the scheduler is set, which it is together with the fiber
  that waits; \<open>cx_timer\<close> that the timer is set. The result is the signed reading of the code's 32 bits.
\<close>

type_synonym ctx_ptr = nat

record RequestCtx =
  cx_sn :: "32 word"
  cx_result :: int
  cx_timed :: bool
  cx_scheduler :: bool
  cx_timer :: bool
  cx_resultStr :: string
  cx_request :: HttpRequest
  cx_response :: "HttpResponse option"

datatype SendCtx =
    FrameSendCtx Frame
  | RequestSendCtx ctx_ptr
  | StreamSendCtx "32 word" HttpRequest

text \<open>
  \<open>h2_streams\<close> and \<open>h2_ctxs\<close> are the hash maps in iteration order. \<open>h2_done\<close> lists the contexts whose
  fiber was scheduled again, \<open>h2_worker\<close> the requests handed to the worker.
\<close>

record 'k Http2SocketStream =
  h2_stream :: "'k SocketStream"
  h2_sendTable :: DynamicTable
  h2_recvTable :: DynamicTable
  h2_sn :: "32 word"
  h2_isClient :: bool
  h2_ssl :: bool
  h2_owner :: Http2Settings
  h2_peer :: Http2Settings
  h2_streams :: "(32 word \<times> stream_ptr) list"
  h2_objs :: "Http2Stream list"
  h2_sendWindow :: "32 word"
  h2_recvWindow :: "32 word"
  h2_queue :: "SendCtx list"
  h2_ctxs :: "(32 word \<times> ctx_ptr) list"
  h2_ctxobjs :: "RequestCtx list"
  h2_done :: "ctx_ptr list"
  h2_worker :: "stream_ptr list"

type_synonym ('a, 'k) h2 = "('a, 'k Http2SocketStream) action"

text \<open>The operations of the socket: \<open>read\<close> and the two \<open>write\<close>s of its stream, and \<open>socket.buff_size\<close>.\<close>

record 'k h2_io =
  io_read :: "'k SocketStream mover"
  io_write :: "'k SocketStream mover"
  io_write_raw :: "'k SocketStream raw_writer"
  io_mx :: int

definition Http2SocketStream_new :: "'k SocketStream \<Rightarrow> bool \<Rightarrow> 'k Http2SocketStream" where
  "Http2SocketStream_new sock client =
     \<lparr>h2_stream = sock, h2_sendTable = DynamicTable_new, h2_recvTable = DynamicTable_new,
      h2_sn = (if client then -1 else 0), h2_isClient = client, h2_ssl = False,
      h2_owner = Http2Settings_new, h2_peer = Http2Settings_new, h2_streams = [], h2_objs = [],
      h2_sendWindow = DEFAULT_INITIAL_WINDOW_SIZE, h2_recvWindow = DEFAULT_INITIAL_WINDOW_SIZE,
      h2_queue = [], h2_ctxs = [], h2_ctxobjs = [], h2_done = [], h2_worker = []\<rparr>"

section \<open>The stream manager\<close>

definition getStream :: "32 word \<Rightarrow> 'k Http2SocketStream \<Rightarrow> stream_ptr option" where
  "getStream sid c = map_of (h2_streams c) sid"

definition stream_at :: "stream_ptr \<Rightarrow> 'k Http2SocketStream \<Rightarrow> Http2Stream" where
  "stream_at sp c = h2_objs c ! sp"

definition on_stream :: "stream_ptr \<Rightarrow> (Http2Stream \<Rightarrow> Http2Stream) \<Rightarrow> 'k Http2SocketStream \<Rightarrow> 'k Http2SocketStream" where
  "on_stream sp f c = c\<lparr>h2_objs := (h2_objs c)[sp := f (h2_objs c ! sp)]\<rparr>"

definition mgr_add :: "stream_ptr \<Rightarrow> 'k Http2SocketStream \<Rightarrow> 'k Http2SocketStream" where
  "mgr_add sp c = c\<lparr>h2_streams := AList.update (st_id (stream_at sp c)) sp (h2_streams c)\<rparr>"

definition mgr_del :: "32 word \<Rightarrow> 'k Http2SocketStream \<Rightarrow> 'k Http2SocketStream" where
  "mgr_del sid c = c\<lparr>h2_streams := AList.delete sid (h2_streams c)\<rparr>"

text \<open>\<open>clear\<close> closes the streams of a copy of the map and leaves the map as it is.\<close>

definition mgr_clear :: "'k Http2SocketStream \<Rightarrow> 'k Http2SocketStream" where
  "mgr_clear c = fold (\<lambda>sp. on_stream sp stream_close) (map snd (h2_streams c)) c"

definition alloc_stream :: "32 word \<Rightarrow> 'k Http2SocketStream \<Rightarrow> stream_ptr \<times> 'k Http2SocketStream" where
  "alloc_stream sid c =
     (let sp = length (h2_objs c)
      in (sp, mgr_add sp (c\<lparr>h2_objs := h2_objs c @ [Http2Stream_new (h2_peer c) (h2_owner c) sid]\<rparr>)))"

definition newStream_id :: "32 word \<Rightarrow> 'k Http2SocketStream \<Rightarrow> stream_ptr option \<times> 'k Http2SocketStream" where
  "newStream_id sid c =
     (if sid \<le> h2_sn c then (None, c)
      else let (sp, c') = alloc_stream sid (c\<lparr>h2_sn := sid\<rparr>) in (Some sp, c'))"

definition newStream :: "'k Http2SocketStream \<Rightarrow> stream_ptr \<times> 'k Http2SocketStream" where
  "newStream c = (let sid = h2_sn c + 2 in alloc_stream sid (c\<lparr>h2_sn := sid\<rparr>))"

definition delStream :: "32 word \<Rightarrow> 'k Http2SocketStream \<Rightarrow> 'k Http2SocketStream" where
  "delStream sid c =
     mgr_del sid (case getStream sid c of Some sp \<Rightarrow> on_stream sp stream_close c | None \<Rightarrow> c)"

section \<open>Sending\<close>

definition enqueue :: "SendCtx \<Rightarrow> 'k Http2SocketStream \<Rightarrow> 'k Http2SocketStream" where
  "enqueue ctx c = c\<lparr>h2_queue := h2_queue c @ [ctx]\<rparr>"

definition isConnected :: "'k Http2SocketStream \<Rightarrow> bool" where
  "isConnected c = SocketStream_isConnected (h2_stream c)"

text \<open>The \<open>HPack\<close> of a frame refers to the table of the connection, which it finds when it is packed.\<close>

definition attach_table :: "DynamicTable \<Rightarrow> Frame \<Rightarrow> Frame" where
  "attach_table t f =
     (case frame_data f of
        Some (Headers d) \<Rightarrow>
          f\<lparr>frame_data := Some (Headers (d\<lparr>hd_hpack := map_option (\<lambda>hp. hp\<lparr>m_table := t\<rparr>) (hd_hpack d)\<rparr>))\<rparr>
      | _ \<Rightarrow> f)"

definition table_of :: "DynamicTable \<Rightarrow> Frame \<Rightarrow> DynamicTable" where
  "table_of t f =
     (case frame_data f of
        Some (Headers d) \<Rightarrow> (case hd_hpack d of Some hp \<Rightarrow> m_table hp | None \<Rightarrow> t)
      | _ \<Rightarrow> t)"

definition sendFrame :: "'k h2_io \<Rightarrow> Frame \<Rightarrow> bool \<Rightarrow> (int, 'k) h2" where
  "sendFrame io frame async c =
     (if isConnected c then
        if async then Inr (1, enqueue (FrameSendCtx frame) c)
        else (case serializeTo (io_write io) (io_mx io) (attach_table (h2_sendTable c) frame) (h2_stream c) of
                Inl e \<Rightarrow> Inl e
              | Inr (rt, frame', s) \<Rightarrow>
                  Inr (rt, c\<lparr>h2_stream := s, h2_sendTable := table_of (h2_sendTable c) frame'\<rparr>))
      else Inr (-1, c))"

definition type_byte :: "FrameType \<Rightarrow> byte" where
  "type_byte t = (case first_index ((=) t) frame_types of Some i \<Rightarrow> of_nat i | None \<Rightarrow> 0)"

definition make_frame :: "FrameType \<Rightarrow> byte \<Rightarrow> 32 word \<Rightarrow> IFrame option \<Rightarrow> Frame" where
  "make_frame t flags sid d =
     \<lparr>header = FrameHeader_new\<lparr>fh_type := type_byte t, fh_flags := flags, fh_identifier := ucast sid\<rparr>,
      frame_data = d\<rparr>"

definition sendGoAway :: "'k h2_io \<Rightarrow> 32 word \<Rightarrow> 32 word \<Rightarrow> bytes \<Rightarrow> (int, 'k) h2" where
  "sendGoAway io last_stream_id err debug =
     sendFrame io (make_frame GOAWAY 0 0 (Some (GoAway
       \<lparr>ga_last_stream_id = ucast last_stream_id, ga_r = 0, ga_error_code = err, ga_data = debug\<rparr>))) True"

definition sendSettingsAck :: "'k h2_io \<Rightarrow> (int, 'k) h2" where
  "sendSettingsAck io = sendFrame io (make_frame SETTINGS FLAG_ACK 0 None) True"

definition sendRstStream :: "'k h2_io \<Rightarrow> 32 word \<Rightarrow> 32 word \<Rightarrow> (int, 'k) h2" where
  "sendRstStream io sid err =
     sendFrame io (make_frame RST_STREAM 0 sid (Some (RstStream \<lparr>rs_error_code = err\<rparr>))) True"

definition sendPing :: "'k h2_io \<Rightarrow> bool \<Rightarrow> 64 word \<Rightarrow> (int, 'k) h2" where
  "sendPing io ack v =
     sendFrame io (make_frame PING (if ack then FLAG_ACK else 0) 0 (Some (Ping \<lparr>pg_uint64 = v\<rparr>))) True"

definition sendWindowUpdate :: "'k h2_io \<Rightarrow> 32 word \<Rightarrow> 32 word \<Rightarrow> (int, 'k) h2" where
  "sendWindowUpdate io sid n =
     then_action
       (modify_action (\<lambda>c.
          if sid = 0 then c\<lparr>h2_recvWindow := h2_recvWindow c + n\<rparr>
          else case getStream sid c of
                 Some sp \<Rightarrow> on_stream sp (\<lambda>st. snd (stream_updateRecvWindowByDiff n st)) c
               | None \<Rightarrow> c))
       (sendFrame io (make_frame WINDOW_UPDATE 0 sid (Some (WindowUpdate
          \<lparr>wu_increment = ucast n, wu_r = 0\<rparr>))) True)"

section \<open>Settings\<close>

text \<open>\<open>Http2SocketStream::updateSendWindowByDiff\<close> and \<open>updateRecvWindowByDiff\<close>: the loop over the streams.\<close>

fun update_windows ::
    "'k h2_io \<Rightarrow> (Http2Stream \<Rightarrow> int \<times> Http2Stream) \<Rightarrow> stream_ptr list \<Rightarrow> (unit, 'k) h2" where
  "update_windows io upd [] = return_action ()"
| "update_windows io upd (sp # sps) =
     bind_action (gets_action (stream_at sp)) (\<lambda>st.
     then_action (modify_action (on_stream sp (\<lambda>_. snd (upd st))))
     (then_action (if fst (upd st) \<noteq> 0
                   then sendRstStream io (st_id st) (error_code E_FLOW_CONTROL_ERROR)
                   else return_action 0)
       (update_windows io upd sps)))"

definition updateSendWindowByDiff :: "'k h2_io \<Rightarrow> 32 word \<Rightarrow> (unit, 'k) h2" where
  "updateSendWindowByDiff io diff c =
     update_windows io (stream_updateSendWindowByDiff diff) (map snd (h2_streams c)) c"

definition updateRecvWindowByDiff :: "'k h2_io \<Rightarrow> 32 word \<Rightarrow> (unit, 'k) h2" where
  "updateRecvWindowByDiff io diff c =
     update_windows io (stream_updateRecvWindowByDiff diff) (map snd (h2_streams c)) c"

text \<open>Which of its two settings a connection updates: \<open>m_owner\<close> or \<open>m_peer\<close>.\<close>

datatype which = Owner | Peer

fun settings_of :: "which \<Rightarrow> 'k Http2SocketStream \<Rightarrow> Http2Settings" where
  "settings_of Owner c = h2_owner c"
| "settings_of Peer c = h2_peer c"

fun set_settings :: "which \<Rightarrow> (Http2Settings \<Rightarrow> Http2Settings) \<Rightarrow> 'k Http2SocketStream \<Rightarrow> 'k Http2SocketStream" where
  "set_settings Owner f c = c\<lparr>h2_owner := f (h2_owner c)\<rparr>"
| "set_settings Peer f c = c\<lparr>h2_peer := f (h2_peer c)\<rparr>"

fun set_table_size :: "which \<Rightarrow> 32 word \<Rightarrow> 'k Http2SocketStream \<Rightarrow> 'k Http2SocketStream" where
  "set_table_size Owner v c = c\<lparr>h2_sendTable := setMaxDataSize (sint v) (h2_sendTable c)\<rparr>"
| "set_table_size Peer v c = c\<lparr>h2_recvTable := setMaxDataSize (sint v) (h2_recvTable c)\<rparr>"

definition protocol_error :: "'k h2_io \<Rightarrow> (int, 'k) h2" where
  "protocol_error io c = sendGoAway io (h2_sn c) (error_code E_PROTOCOL_ERROR) [] c"

definition updateSetting :: "'k h2_io \<Rightarrow> which \<Rightarrow> SettingsItem \<Rightarrow> (unit, 'k) h2" where
  "updateSetting io w i =
     (let v = si_value i; ident = si_identifier i in
      if ident = 0x1 then
        modify_action (\<lambda>c. set_table_size w v (set_settings w (header_table_size_update (\<lambda>_. v)) c))
      else if ident = 0x2 then
        then_action (if v \<noteq> 0 \<and> v \<noteq> 1 then protocol_error io else return_action 0)
          (modify_action (set_settings w (enable_push_update (\<lambda>_. v \<noteq> 0))))
      else if ident = 0x3 then
        modify_action (set_settings w (max_concurrent_streams_update (\<lambda>_. v)))
      else if ident = 0x4 then
        (if v > MAX_INITIAL_WINDOW_SIZE then bind_action (protocol_error io) (\<lambda>_. return_action ())
         else bind_action (gets_action (\<lambda>c. v - initial_window_size (settings_of w c))) (\<lambda>diff.
           then_action (modify_action (set_settings w (initial_window_size_update (\<lambda>_. v))))
             (if w = Peer then updateRecvWindowByDiff io diff else updateSendWindowByDiff io diff)))
      else if ident = 0x5 then
        then_action (modify_action (set_settings w (max_frame_size_update (\<lambda>_. v))))
          (if v < DEFAULT_MAX_FRAME_SIZE \<or> v > MAX_MAX_FRAME_SIZE
           then bind_action (protocol_error io) (\<lambda>_. return_action ()) else return_action ())
      else if ident = 0x6 then
        modify_action (set_settings w (max_header_list_size_update (\<lambda>_. v)))
      else return_action ())"

fun updateSettings :: "'k h2_io \<Rightarrow> which \<Rightarrow> SettingsItem list \<Rightarrow> (unit, 'k) h2" where
  "updateSettings io w [] = return_action ()"
| "updateSettings io w (i # is) = then_action (updateSetting io w i) (updateSettings io w is)"

text \<open>The cast of the frame's data fails for another kind of frame, and the null pointer is used.\<close>

definition settings_items :: "Frame \<Rightarrow> error + SettingsItem list" where
  "settings_items frame = (case frame_data frame of Some (Settings is) \<Rightarrow> Inr is | _ \<Rightarrow> Inl Null_deref)"

definition handleRecvSetting :: "'k h2_io \<Rightarrow> Frame \<Rightarrow> (unit, 'k) h2" where
  "handleRecvSetting io frame =
     (case settings_items frame of Inl e \<Rightarrow> throw_action e | Inr is \<Rightarrow> updateSettings io Owner is)"

definition handleSendSetting :: "'k h2_io \<Rightarrow> Frame \<Rightarrow> (unit, 'k) h2" where
  "handleSendSetting io frame =
     (case settings_items frame of Inl e \<Rightarrow> throw_action e | Inr is \<Rightarrow> updateSettings io Peer is)"

definition sendSettings :: "'k h2_io \<Rightarrow> SettingsItem list \<Rightarrow> (int, 'k) h2" where
  "sendSettings io is =
     (let frame = make_frame SETTINGS 0 0 (Some (Settings is)) in
      bind_action (sendFrame io frame True) (\<lambda>rt.
        if rt > 0 then then_action (handleSendSetting io frame) (return_action rt)
        else return_action rt))"

section \<open>Sending data and messages\<close>

text \<open>
  The loop of \<open>sendData\<close>; \<open>limit\<close> is the frame size limit, read before the loop. A negative count means
  the rest of the string for \<open>substr\<close>, and a limit of 0 makes the loop send empty frames for ever.
\<close>

definition data_frame :: "32 word \<Rightarrow> bool \<Rightarrow> bytes \<Rightarrow> Frame" where
  "data_frame sid fin piece =
     make_frame DATA (if fin then FLAG_END_STREAM else 0) sid
       (Some (Data \<lparr>df_pad = 0, df_data = piece, df_padding = []\<rparr>))"

function send_data_loop ::
    "'k h2_io \<Rightarrow> 32 word \<Rightarrow> stream_ptr \<Rightarrow> bytes \<Rightarrow> bool \<Rightarrow> bool \<Rightarrow> int \<Rightarrow> int \<Rightarrow> (int, 'k) h2" where
  "send_data_loop io limit sp dat async end_stream pos len c =
     (let n = (if len > sint limit then sint limit else len) in
      if pos < 0 \<or> pos > int (length dat) then Inl (Out_of_range ''substr'')
      else
        let rest = drop (nat pos) dat;
            piece = (if n < 0 then rest else take (nat n) rest)
        in case sendFrame io (data_frame (st_id (stream_at sp c)) (end_stream \<and> len = n) piece) async c of
             Inl e \<Rightarrow> Inl e
           | Inr (rt, c1) \<Rightarrow>
               if rt \<le> 0 then Inr (rt, c1)
               else
                 let d = - word_of_int n;
                     c2 = on_stream sp (\<lambda>st. snd (stream_updateSendWindowByDiff d st)) c1;
                     c3 = c2\<lparr>h2_sendWindow := h2_sendWindow c2 + d\<rparr>
                 in if len - n > 0
                    then if n = 0 then Inl Diverges
                         else send_data_loop io limit sp dat async end_stream (pos + n) (len - n) c3
                    else Inr (1, c3))"
  by pat_completeness auto

termination send_data_loop
  by (relation "measure (\<lambda>(io, limit, sp, dat, async, end_stream, pos, len, c).
       if sint limit < 0 then nat (pos + 1) else nat len)") (auto split: if_splits)

declare send_data_loop.simps [simp del]

definition sendData :: "'k h2_io \<Rightarrow> stream_ptr \<Rightarrow> bytes \<Rightarrow> bool \<Rightarrow> bool \<Rightarrow> (int, 'k) h2" where
  "sendData io sp dat async end_stream c =
     send_data_loop io (max_frame_size (h2_peer c) - 9) sp dat async end_stream 0
       (sint (of_nat (length dat) :: 32 word)) c"

definition endStream :: "'k h2_io \<Rightarrow> stream_ptr \<Rightarrow> (int, 'k) h2" where
  "endStream io sp = sendData io sp [] True True"

definition headers_frame :: "32 word \<Rightarrow> bool \<Rightarrow> header list \<Rightarrow> Frame" where
  "headers_frame sid fin kvs =
     make_frame HEADERS (if fin then FLAG_END_HEADERS OR FLAG_END_STREAM else FLAG_END_HEADERS) sid
       (Some (Headers \<lparr>hd_pad = 0, hd_priority = PriorityFrame_new, hd_data = [], hd_padding = [],
         hd_hpack = Some \<lparr>m_headers = [], m_table = DynamicTable_new\<rparr>, hd_kvs = kvs\<rparr>))"

definition lower_headers :: "MapType \<Rightarrow> header list" where
  "lower_headers m = map (\<lambda>(k, v). (ToLower k, v)) m"

definition sendRequest :: "'k h2_io \<Rightarrow> stream_ptr \<Rightarrow> HttpRequest \<Rightarrow> bool \<Rightarrow> bool \<Rightarrow> (int, 'k) h2" where
  "sendRequest io sp req0 end_stream async c =
     (let req = Http2InitRequestForWrite (h2_ssl c) req0;
          sid = st_id (stream_at sp c);
          kvs = lower_headers (rq_headers req) @ [(str ''stream_id'', str (dec (unat sid)))]
      in bind_action (sendFrame io (headers_frame sid (end_stream \<and> rq_body req = []) kvs) async) (\<lambda>ok.
           if ok < 0 then return_action ok
           else if rq_body req \<noteq> [] then sendData io sp (rq_body req) async True
           else return_action ok) c)"

definition sendHeaders :: "'k h2_io \<Rightarrow> stream_ptr \<Rightarrow> MapType \<Rightarrow> bool \<Rightarrow> bool \<Rightarrow> (int, 'k) h2" where
  "sendHeaders io sp m end_stream async c =
     sendFrame io (headers_frame (st_id (stream_at sp c)) end_stream (lower_headers m)) async c"

text \<open>\<open>std::set<std::string>\<close>: byte strings in lexicographic order.\<close>

fun string_less :: "bytes \<Rightarrow> bytes \<Rightarrow> bool" where
  "string_less _ [] = False"
| "string_less [] (_ # _) = True"
| "string_less (x # xs) (y # ys) = (x < y \<or> x = y \<and> string_less xs ys)"

definition trailer_names :: "HttpResponse \<Rightarrow> bytes list" where
  "trailer_names rsp =
     (let trailer = rsp_getHeader (str ''trailer'') [] rsp in
      if trailer = [] then []
      else fold (\<lambda>i. oset_insert string_less (Trim i WHITESPACE)) (split_char trailer 44 (- 1)) [])"

definition sendResponse :: "'k h2_io \<Rightarrow> stream_ptr \<Rightarrow> HttpResponse \<Rightarrow> bool \<Rightarrow> bool \<Rightarrow> (int, 'k) h2" where
  "sendResponse io sp rsp0 end_stream async c =
     (let rsp = Http2InitResponseForWrite rsp0;
          sid = st_id (stream_at sp c);
          trailers = trailer_names rsp;
          kvs = lower_headers (filter (\<lambda>(k, v). k \<notin> set trailers) (rs_headers rsp))
      in bind_action
           (sendFrame io (headers_frame sid (end_stream \<and> rs_body rsp = [] \<and> trailers = []) kvs) async) (\<lambda>ok.
           if ok < 0 then return_action ok
           else bind_action (if rs_body rsp \<noteq> [] then sendData io sp (rs_body rsp) async (trailers = [])
                             else return_action ok) (\<lambda>ok.
             if end_stream \<and> trailers \<noteq> [] then
               bind_action (sendFrame io (headers_frame sid True
                   (map (\<lambda>i. (ToLower i, rsp_getHeader i [] rsp)) trailers)) async) (\<lambda>rt.
                 return_action (if rt > 0 then ok else 0))
             else return_action ok)) c)"

section \<open>Closing and request contexts\<close>

definition close_socket :: "'k SocketStream \<Rightarrow> 'k SocketStream" where
  "close_socket s = s\<lparr>m_socket := map_option (\<lambda>sock. sock\<lparr>m_isConnected := False\<rparr>) (m_socket s)\<rparr>"

definition onClose :: "'k Http2SocketStream \<Rightarrow> 'k Http2SocketStream" where
  "onClose c = mgr_clear c"

definition ctx_at :: "ctx_ptr \<Rightarrow> 'k Http2SocketStream \<Rightarrow> RequestCtx" where
  "ctx_at p c = h2_ctxobjs c ! p"

definition on_ctx :: "ctx_ptr \<Rightarrow> (RequestCtx \<Rightarrow> RequestCtx) \<Rightarrow> 'k Http2SocketStream \<Rightarrow> 'k Http2SocketStream" where
  "on_ctx p f c = c\<lparr>h2_ctxobjs := (h2_ctxobjs c)[p := f (h2_ctxobjs c ! p)]\<rparr>"

text \<open>\<open>doRsp\<close> takes the scheduler out of the context first, so that it resumes the fiber only once.\<close>

definition Ctx_respond :: "RequestCtx \<Rightarrow> RequestCtx" where
  "Ctx_respond ctx =
     (let ctx1 = ctx\<lparr>cx_scheduler := False, cx_timer := False\<rparr>
      in if cx_timed ctx1 then ctx1\<lparr>cx_result := -1, cx_resultStr := ''timeout''\<rparr> else ctx1)"

definition doRsp :: "ctx_ptr \<Rightarrow> 'k Http2SocketStream \<Rightarrow> 'k Http2SocketStream" where
  "doRsp p c =
     (if \<not> cx_scheduler (ctx_at p c) then c
      else (on_ctx p Ctx_respond c)\<lparr>h2_done := h2_done c @ [p]\<rparr>)"

definition fail_ctx :: "ctx_ptr \<Rightarrow> 'k Http2SocketStream \<Rightarrow> 'k Http2SocketStream" where
  "fail_ctx p c = doRsp p (on_ctx p (\<lambda>ctx. ctx\<lparr>cx_result := -2, cx_resultStr := ''io_error''\<rparr>) c)"

text \<open>The connections of the two classes set no disconnect callback.\<close>

definition innerClose :: "'k Http2SocketStream \<Rightarrow> 'k Http2SocketStream" where
  "innerClose c0 =
     (let c = onClose c0
      in fold fail_ctx (map snd (h2_ctxs c))
           (c\<lparr>h2_stream := close_socket (h2_stream c), h2_ctxs := [], h2_queue := []\<rparr>))"

definition getCtx :: "32 word \<Rightarrow> 'k Http2SocketStream \<Rightarrow> ctx_ptr option" where
  "getCtx sn c = map_of (h2_ctxs c) sn"

definition getAndDelCtx :: "32 word \<Rightarrow> 'k Http2SocketStream \<Rightarrow> ctx_ptr option \<times> 'k Http2SocketStream" where
  "getAndDelCtx sn c =
     (case map_of (h2_ctxs c) sn of
        None \<Rightarrow> (None, c)
      | Some p \<Rightarrow> (Some p, c\<lparr>h2_ctxs := AList.delete sn (h2_ctxs c)\<rparr>))"

text \<open>\<open>insert\<close> keeps an entry that is already there.\<close>

definition addCtx :: "ctx_ptr \<Rightarrow> 'k Http2SocketStream \<Rightarrow> 'k Http2SocketStream" where
  "addCtx p c =
     (if map_of (h2_ctxs c) (cx_sn (ctx_at p c)) = None
      then c\<lparr>h2_ctxs := h2_ctxs c @ [(cx_sn (ctx_at p c), p)]\<rparr> else c)"

definition onTimeOut :: "ctx_ptr \<Rightarrow> 'k Http2SocketStream \<Rightarrow> 'k Http2SocketStream" where
  "onTimeOut p c =
     delStream (cx_sn (ctx_at p c))
       (doRsp p (on_ctx p (cx_timed_update (\<lambda>_. True))
         (c\<lparr>h2_ctxs := AList.delete (cx_sn (ctx_at p c)) (h2_ctxs c)\<rparr>)))"

text \<open>\<open>request\<close> up to the point where its fiber yields, and what it returns when it is resumed.\<close>

definition new_ctx :: "32 word \<Rightarrow> HttpRequest \<Rightarrow> RequestCtx" where
  "new_ctx sn req =
     \<lparr>cx_sn = sn, cx_result = 0, cx_timed = False, cx_scheduler = True, cx_timer = True,
      cx_resultStr = ''ok'', cx_request = req, cx_response = None\<rparr>"

definition add_request :: "32 word \<Rightarrow> HttpRequest \<Rightarrow> 'k Http2SocketStream \<Rightarrow> 'k Http2SocketStream" where
  "add_request sn req c =
     (let p = length (h2_ctxobjs c)
      in enqueue (RequestSendCtx p) (addCtx p (c\<lparr>h2_ctxobjs := h2_ctxobjs c @ [new_ctx sn req]\<rparr>)))"

definition request_start :: "HttpRequest \<Rightarrow> 'k Http2SocketStream \<Rightarrow> bool \<times> 'k Http2SocketStream" where
  "request_start req c =
     (if isConnected c then
        let (sp, c1) = newStream c in (True, add_request (st_id (stream_at sp c1)) req c1)
      else (False, c))"

definition request_result :: "RequestCtx \<Rightarrow> int \<times> HttpResponse option \<times> string" where
  "request_result ctx =
     (if cx_result ctx = 0 \<and> cx_response ctx = None then (-401, None, ''rst_stream'')
      else (cx_result ctx, cx_response ctx, cx_resultStr ctx))"

definition openStream :: "HttpRequest \<Rightarrow> 'k Http2SocketStream \<Rightarrow> stream_ptr option \<times> 'k Http2SocketStream" where
  "openStream req c =
     (if isConnected c then
        let (sp, c1) = newStream c;
            c2 = on_stream sp (st_isStream_update (\<lambda>_. True)) c1
        in (Some sp, enqueue (StreamSendCtx (st_id (stream_at sp c2)) req) c2)
      else (None, c))"

definition doSend :: "'k h2_io \<Rightarrow> SendCtx \<Rightarrow> (bool, 'k) h2" where
  "doSend io ctx c =
     (case ctx of
        FrameSendCtx frame \<Rightarrow> bind_action (sendFrame io frame False) (\<lambda>rt. return_action (rt > 0)) c
      | RequestSendCtx p \<Rightarrow>
          (case getStream (cx_sn (ctx_at p c)) c of
             None \<Rightarrow> Inr (False, c)
           | Some sp \<Rightarrow>
               bind_action (sendRequest io sp (cx_request (ctx_at p c)) True False) (\<lambda>rt. return_action (rt \<noteq> 0)) c)
      | StreamSendCtx sn req \<Rightarrow>
          (case getStream sn c of
             None \<Rightarrow> Inr (False, c)
           | Some sp \<Rightarrow> bind_action (sendRequest io sp req False False) (\<lambda>rt. return_action (rt \<noteq> 0)) c))"

text \<open>One round of \<open>doWrite\<close>: the queue is swapped out and its contexts are sent in order.\<close>

fun send_all :: "'k h2_io \<Rightarrow> SendCtx list \<Rightarrow> (unit, 'k) h2" where
  "send_all io [] = return_action ()"
| "send_all io (ctx # ctxs) = then_action (doSend io ctx) (send_all io ctxs)"

definition doWrite_round :: "'k h2_io \<Rightarrow> (unit, 'k) h2" where
  "doWrite_round io c = send_all io (h2_queue c) (c\<lparr>h2_queue := []\<rparr>)"

section \<open>Receiving\<close>

definition handleWindowUpdate :: "'k h2_io \<Rightarrow> Frame \<Rightarrow> (unit, 'k) h2" where
  "handleWindowUpdate io frame c =
     (case frame_data frame of
        Some (WindowUpdate wuf) \<Rightarrow>
          (let inc = ucast (wu_increment wuf) :: 32 word; sid = ucast (fh_identifier (header frame)) in
           if sid \<noteq> 0 then
             (case getStream sid c of
                None \<Rightarrow> bind_action (protocol_error io) (\<lambda>_. return_action ()) c
              | Some sp \<Rightarrow>
                  if sint (st_sendWindow (stream_at sp c)) + uint inc > uint MAX_INITIAL_WINDOW_SIZE
                  then bind_action (protocol_error io) (\<lambda>_. return_action ()) c
                  else Inr ((), on_stream sp (\<lambda>st. snd (stream_updateSendWindowByDiff inc st)) c))
           else if sint (h2_sendWindow c) + uint inc > uint MAX_INITIAL_WINDOW_SIZE
           then bind_action (protocol_error io) (\<lambda>_. return_action ()) c
           else Inr ((), c\<lparr>h2_sendWindow := h2_sendWindow c + inc\<rparr>))
      | _ \<Rightarrow> Inr ((), innerClose c))"

definition window_low :: "32 word \<Rightarrow> bool" where
  "window_low w \<longleftrightarrow> sint w < sint MAX_INITIAL_WINDOW_SIZE div 4"

definition handleRecvData :: "'k h2_io \<Rightarrow> Frame \<Rightarrow> stream_ptr \<Rightarrow> (unit, 'k) h2" where
  "handleRecvData io frame sp =
     (let len = ucast (fh_length (header frame)) :: 32 word in
      if len \<noteq> 0 then
        then_action (modify_action (\<lambda>c. c\<lparr>h2_recvWindow := h2_recvWindow c - len\<rparr>))
        (then_action (\<lambda>c. if window_low (h2_recvWindow c)
                         then sendWindowUpdate io 0 (MAX_INITIAL_WINDOW_SIZE - h2_recvWindow c) c
                         else Inr (0, c))
        (then_action (modify_action (on_stream sp (\<lambda>st. st\<lparr>st_recvWindow := st_recvWindow st - len\<rparr>)))
        (\<lambda>c. let st = stream_at sp c in
             if window_low (st_recvWindow st)
             then bind_action (sendWindowUpdate io (st_id st) (MAX_INITIAL_WINDOW_SIZE - st_recvWindow st))
                    (\<lambda>_. return_action ()) c
             else Inr ((), c))))
      else return_action ())"

text \<open>\<open>stream->handleFrame\<close> on the shared stream object and the receive table.\<close>

definition handleFrame :: "'k h2_io \<Rightarrow> Frame \<Rightarrow> stream_ptr \<Rightarrow> (int, 'k) h2" where
  "handleFrame io frame sp c =
     map_sum id (\<lambda>(rt, t, st). (rt, on_stream sp (\<lambda>_. st) (c\<lparr>h2_recvTable := t\<rparr>)))
       (stream_handleFrame frame (h2_isClient c) (h2_recvTable c) (stream_at sp c))"

text \<open>\<open>Http2Session::onStreamClose\<close> and \<open>Http2Connection::onStreamClose\<close>.\<close>

definition session_onStreamClose :: "'k h2_io \<Rightarrow> stream_ptr \<Rightarrow> (ctx_ptr option, 'k) h2" where
  "session_onStreamClose io sp c =
     (let st = stream_at sp c in
      case st_request st of
        None \<Rightarrow>
          bind_action (protocol_error io) (\<lambda>_.
            then_action (modify_action (delStream (st_id st))) (return_action None)) c
      | Some req \<Rightarrow>
          if st_handleCount st = 0 then Inr (None, c\<lparr>h2_worker := h2_worker c @ [sp]\<rparr>) else Inr (None, c))"

definition connection_onStreamClose :: "stream_ptr \<Rightarrow> (ctx_ptr option, 'k) h2" where
  "connection_onStreamClose sp c =
     (let sid = st_id (stream_at sp c); c1 = delStream sid c
      in case getAndDelCtx sid c1 of
           (None, c2) \<Rightarrow> Inr (None, c2)
         | (Some p, c2) \<Rightarrow>
             Inr (Some p, on_ctx p (cx_response_update (\<lambda>_. st_response (stream_at sp c2))) c2))"

definition onStreamClose :: "'k h2_io \<Rightarrow> stream_ptr \<Rightarrow> (ctx_ptr option, 'k) h2" where
  "onStreamClose io sp c =
     (if h2_isClient c then connection_onStreamClose sp c else session_onStreamClose io sp c)"

text \<open>The rest of \<open>doRecv\<close> once the stream of a frame is known; \<open>onHeaderEnd\<close> returns null in both classes.\<close>

definition recv_on_stream :: "'k h2_io \<Rightarrow> Frame \<Rightarrow> stream_ptr \<Rightarrow> (ctx_ptr option, 'k) h2" where
  "recv_on_stream io frame sp =
     then_action (if frame_type frame = Some DATA then handleRecvData io frame sp else return_action ())
     (then_action (handleFrame io frame sp)
     (\<lambda>c. if st_state (stream_at sp c) = CLOSED then onStreamClose io sp c else Inr (None, c)))"

definition recv_frame :: "'k h2_io \<Rightarrow> Frame \<Rightarrow> (ctx_ptr option, 'k) h2" where
  "recv_frame io frame c =
     (let sid = ucast (fh_identifier (header frame)) in
      if frame_type frame = Some WINDOW_UPDATE then then_action (handleWindowUpdate io frame) (return_action None) c
      else if sid \<noteq> 0 then
        (case getStream sid c of
           Some sp \<Rightarrow> recv_on_stream io frame sp c
         | None \<Rightarrow>
             if h2_isClient c then Inr (None, c)
             else (case newStream_id sid c of
                (Some sp, c1) \<Rightarrow> recv_on_stream io frame sp c1
              | (None, c1) \<Rightarrow>
                  if frame_type frame \<noteq> Some RST_STREAM
                  then then_action (sendRstStream io (h2_sn c1) (error_code E_STREAM_CLOSED_ERROR)) (return_action None) c1
                  else Inr (None, c1)))
      else if frame_type frame = Some SETTINGS then
        (if fh_flags (header frame) AND FLAG_ACK = 0
         then then_action (handleRecvSetting io frame) (then_action (sendSettingsAck io) (return_action None)) c
         else Inr (None, c))
      else if frame_type frame = Some PING then
        (if fh_flags (header frame) AND FLAG_ACK = 0
         then (case frame_data frame of
                 Some (Ping d) \<Rightarrow> then_action (sendPing io True (pg_uint64 d)) (return_action None) c
               | _ \<Rightarrow> Inl Null_deref)
         else Inr (None, c))
      else Inr (None, c))"

definition doRecv :: "'k h2_io \<Rightarrow> (ctx_ptr option, 'k) h2" where
  "doRecv io c =
     (case parseFrom (io_read io) (io_mx io) (h2_stream c) of
        Inl e \<Rightarrow> Inl e
      | Inr (None, s) \<Rightarrow> Inr (None, innerClose (c\<lparr>h2_stream := s\<rparr>))
      | Inr (Some frame, s) \<Rightarrow> recv_frame io frame (c\<lparr>h2_stream := s\<rparr>))"

text \<open>
  One round of the loop of \<open>doRead\<close>: the context of a finished request is answered. The loop ends, and
  closes the connection, when the socket is not connected any more or an exception is caught; a round
  that ends in an error of the model is one the program does not survive or catches.
\<close>

definition doRead_round :: "'k h2_io \<Rightarrow> (unit, 'k) h2" where
  "doRead_round io =
     bind_action (doRecv io) (\<lambda>ctx. modify_action (case ctx of None \<Rightarrow> id | Some p \<Rightarrow> doRsp p))"

section \<open>Sessions and connections\<close>

text \<open>
  \<open>Http2Session::handleRequest\<close>, run by the worker. \<open>dispatch\<close> is \<open>ServletDispatch::handle\<close>: it fills in the
  response of a request.
\<close>

definition handleRequest ::
    "'k h2_io \<Rightarrow> bytes \<Rightarrow> (HttpRequest \<Rightarrow> HttpResponse \<Rightarrow> HttpResponse) \<Rightarrow> HttpRequest \<Rightarrow> stream_ptr \<Rightarrow> (unit, 'k) h2" where
  "handleRequest io server_name dispatch req0 sp c =
     (let st = stream_at sp c in
      if st_handleCount st > 0 then Inr ((), c)
      else
        let req = req0\<lparr>rq_streamId := st_id st\<rparr>;
            c1 = on_stream sp (\<lambda>st. (addHandleCount st)\<lparr>st_request := Some req\<rparr>) c;
            rsp = rsp_setHeader (str ''server'') server_name (HttpResponse_new (rq_version req) False)
        in then_action (sendResponse io sp (dispatch req rsp) True True)
             (modify_action (delStream (st_id st))) c1)"

definition CLIENT_PREFACE :: bytes where
  "CLIENT_PREFACE = str ''PRI * HTTP/2.0'' @ CRLF @ CRLF @ str ''SM'' @ CRLF @ CRLF"

definition handleShakeClient :: "'k h2_io \<Rightarrow> (bool, 'k) h2" where
  "handleShakeClient io c =
     (if \<not> isConnected c then Inr (False, c)
      else
        let (rt, s) = writeFixSize_raw (io_write_raw io) (io_mx io) CLIENT_PREFACE (h2_stream c);
            c1 = c\<lparr>h2_stream := s\<rparr>;
            frame = make_frame SETTINGS 0 0 (Some (Settings
              [\<lparr>si_identifier = 0x2, si_value = 0\<rparr>, \<lparr>si_identifier = 0x4, si_value = 4194304\<rparr>,
               \<lparr>si_identifier = 0x6, si_value = 10485760\<rparr>]))
        in if rt \<le> 0 then Inr (False, c1)
           else then_action (handleSendSetting io frame)
             (bind_action (sendFrame io frame False) (\<lambda>rt.
                if rt \<le> 0 then return_action False
                else (\<lambda>c2. bind_action (sendWindowUpdate io 0 (MAX_INITIAL_WINDOW_SIZE - h2_recvWindow c2))
                       (\<lambda>_. return_action True) c2))) c1)"

definition handleShakeServer :: "'k h2_io \<Rightarrow> (bool, 'k) h2" where
  "handleShakeServer io c =
     (case readFixSize (io_read io) (io_mx io) (length CLIENT_PREFACE) (h2_stream c) (ByteArray_new 4096) of
        Inl e \<Rightarrow> Inl e
      | Inr (rt, s, ba) \<Rightarrow>
          if rt \<le> 0 then Inr (False, c\<lparr>h2_stream := s\<rparr>)
          else (case setPosition 0 ba of
             Inl e \<Rightarrow> Inl e
           | Inr (_, ba1) \<Rightarrow>
               (case ByteArray_toString ba1 of
                  Inl e \<Rightarrow> Inl e
                | Inr text \<Rightarrow>
                    if text \<noteq> CLIENT_PREFACE then Inr (False, c\<lparr>h2_stream := s\<rparr>)
                    else (case parseFrom (io_read io) (io_mx io) s of
                       Inl e \<Rightarrow> Inl e
                     | Inr (None, s1) \<Rightarrow> Inr (False, c\<lparr>h2_stream := s1\<rparr>)
                     | Inr (Some frame, s1) \<Rightarrow>
                         if frame_type frame \<noteq> Some SETTINGS then Inr (False, c\<lparr>h2_stream := s1\<rparr>)
                         else then_action (handleRecvSetting io frame)
                                (then_action (sendSettingsAck io)
                                (then_action (sendSettings io []) (return_action True)))
                                (c\<lparr>h2_stream := s1\<rparr>)))))"

definition connection_reset :: "'k Http2SocketStream \<Rightarrow> 'k Http2SocketStream" where
  "connection_reset c =
     mgr_clear (c\<lparr>h2_sendTable := DynamicTable_new, h2_recvTable := DynamicTable_new,
       h2_owner := Http2Settings_new, h2_peer := Http2Settings_new,
       h2_sendWindow := DEFAULT_INITIAL_WINDOW_SIZE, h2_recvWindow := DEFAULT_INITIAL_WINDOW_SIZE,
       h2_sn := (if h2_isClient c then -1 else 0)\<rparr>)"

definition onConnect :: "'k h2_io \<Rightarrow> (bool, 'k) h2" where
  "onConnect io c = handleShakeClient io (connection_reset c)"

section \<open>A connection over the loopback kernel\<close>

definition loop_socket :: "loopback SocketStream" where
  "loop_socket = \<lparr>m_socket = Some \<lparr>m_isConnected = True, m_sock = \<lparr>lb_in = [], lb_out = []\<rparr>\<rparr>\<rparr>"

definition loop_io :: "loopback h2_io" where
  "loop_io = \<lparr>io_read = SocketStream_read loop_recvmsg, io_write = SocketStream_write loop_sendmsg,
     io_write_raw = SocketStream_write_raw loop_sendmsg, io_mx = 4096\<rparr>"

definition loop_connection :: "loopback Http2SocketStream" where
  "loop_connection = snd (newStream (Http2SocketStream_new loop_socket True))"

lemma loop_connection_simps:
  "isConnected loop_connection" "h2_streams loop_connection = [(1, 0)]"
  "h2_objs loop_connection = [Http2Stream_new Http2Settings_new Http2Settings_new 1]"
  "h2_peer loop_connection = Http2Settings_new" "h2_recvWindow loop_connection = DEFAULT_INITIAL_WINDOW_SIZE"
  "h2_sendWindow loop_connection = DEFAULT_INITIAL_WINDOW_SIZE" "h2_queue loop_connection = []"
  by (simp_all add: loop_connection_def newStream_def alloc_stream_def mgr_add_def loop_socket_def stream_at_def
      Http2SocketStream_new_def isConnected_def SocketStream_isConnected_def Http2Stream_new_def Let_def)

end
