(* ===== verification/Http2Flow.thy ===== *)
theory Http2Flow
  imports Http2Socket
begin


text \<open>
  What the connection of \<open>Http2Socket\<close> guarantees about data and flow control: \<open>sendData\<close> cuts a body into
  frames that carry it exactly, the windows follow what was sent and received, and updates of a window
  never push it over its limit.
\<close>

section \<open>Sending a body\<close>

text \<open>The reference: pieces of \<open>k\<close> bytes, the last one shorter.\<close>

function pieces_of :: "nat \<Rightarrow> 'a list \<Rightarrow> 'a list list" where
  "pieces_of k xs = (if k = 0 \<or> length xs \<le> k then [xs] else take k xs # pieces_of k (drop k xs))"
  by pat_completeness auto

termination pieces_of
  by (relation "measure (\<lambda>(k, xs). length xs)") auto

declare pieces_of.simps [simp del]

lemma pieces_of_last: "length xs \<le> k \<Longrightarrow> pieces_of k xs = [xs]"
  by (simp add: pieces_of.simps)

lemma pieces_of_step: "0 < k \<Longrightarrow> k < length xs \<Longrightarrow> pieces_of k xs = take k xs # pieces_of k (drop k xs)"
  by (subst pieces_of.simps) simp

lemma pieces_of_props:
  "0 < k \<Longrightarrow> pieces_of k xs \<noteq> [] \<and> concat (pieces_of k xs) = xs
     \<and> list_all (\<lambda>p. length p \<le> k) (pieces_of k xs) \<and> list_all (\<lambda>p. length p = k) (butlast (pieces_of k xs))"
proof (induction k xs rule: pieces_of.induct)
  case (1 k xs)
  then show ?case
    by (cases "length xs \<le> k") (simp_all add: pieces_of_last pieces_of_step)
qed

definition body_frames :: "32 word \<Rightarrow> bool \<Rightarrow> bytes list \<Rightarrow> Frame list" where
  "body_frames sid fin ps = map (data_frame sid False) (butlast ps) @ [data_frame sid fin (last ps)]"

lemma body_frames_last: "body_frames sid fin [p] = [data_frame sid fin p]"
  by (simp add: body_frames_def)

lemma body_frames_step:
  "ps \<noteq> [] \<Longrightarrow> body_frames sid fin (p # ps) = data_frame sid False p # body_frames sid fin ps"
  by (simp add: body_frames_def)

text \<open>The connection after frames were queued on a stream and \<open>n\<close> bytes were charged to both windows.\<close>

definition charged :: "stream_ptr \<Rightarrow> Frame list \<Rightarrow> nat \<Rightarrow> 'k Http2SocketStream \<Rightarrow> 'k Http2SocketStream" where
  "charged sp fs n c =
     (on_stream sp (\<lambda>st. st\<lparr>st_sendWindow := st_sendWindow st - of_nat n\<rparr>) c)
       \<lparr>h2_queue := h2_queue c @ map FrameSendCtx fs, h2_sendWindow := h2_sendWindow c - of_nat n\<rparr>"

lemma charged_charged:
  "sp < length (h2_objs c) \<Longrightarrow> charged sp gs n (charged sp fs m c) = charged sp (fs @ gs) (m + n) c"
  by (simp add: charged_def on_stream_def algebra_simps)

lemma charged_sel [simp]:
  "isConnected (charged sp fs n c) = isConnected c"
  "length (h2_objs (charged sp fs n c)) = length (h2_objs c)"
  "sp < length (h2_objs c) \<Longrightarrow> st_id (stream_at sp (charged sp fs n c)) = st_id (stream_at sp c)"
  by (simp_all add: charged_def on_stream_def isConnected_def stream_at_def)

lemma send_piece:
  assumes "isConnected c" and "sp < length (h2_objs c)" and "0 \<le> pos" "pos \<le> int (length dat)"
    and "n = min len (sint limit)" and "0 \<le> n" and "0 < sint limit"
  shows "send_data_loop io limit sp dat True fin pos len c =
     (let c' = charged sp [data_frame (st_id (stream_at sp c)) (fin \<and> len = n) (take (nat n) (drop (nat pos) dat))]
                 (nat n) c
      in if len - n > 0 then send_data_loop io limit sp dat True fin (pos + n) (len - n) c' else Inr (1, c'))"
proof -
  have n: "(if len > sint limit then sint limit else len) = n" using assms(5) by auto
  have d: "- word_of_int n = - (of_nat (nat n) :: 32 word)" using assms(6) by simp
  have c: "(on_stream sp (\<lambda>st. snd (stream_updateSendWindowByDiff (- of_nat (nat n)) st)) (enqueue (FrameSendCtx f) c))
       \<lparr>h2_sendWindow := h2_sendWindow (on_stream sp (\<lambda>st. snd (stream_updateSendWindowByDiff (- of_nat (nat n)) st))
           (enqueue (FrameSendCtx f) c)) - of_nat (nat n)\<rparr> = charged sp [f] (nat n) c" for f
    by (simp add: charged_def on_stream_def enqueue_def stream_updateSendWindowByDiff_def
        updateWindowSizeByDiff_def)
  have z: "len - n > 0 \<Longrightarrow> n \<noteq> 0" using assms(5-7) by auto
  show ?thesis
    using assms(1,3,4,6) z
    by (subst send_data_loop.simps) (simp add: n d c sendFrame_def Let_def del: of_nat_nat)
qed

lemma send_data_loop_ok:
  assumes "isConnected c" and "sp < length (h2_objs c)" and "0 < sint limit" and "pos \<le> length dat"
  shows "send_data_loop io limit sp dat True fin (int pos) (int (length dat - pos)) c =
     Inr (1, charged sp (body_frames (st_id (stream_at sp c)) fin (pieces_of (nat (sint limit)) (drop pos dat)))
               (length dat - pos) c)"
  using assms
proof (induction "length dat - pos" arbitrary: pos c rule: less_induct)
  case less
  define k where "k = nat (sint limit)"
  have k: "sint limit = int k" "0 < k" using less.prems(3) by (simp_all add: k_def)
  let ?len = "length dat - pos" and ?sid = "st_id (stream_at sp c)"
  show ?case
  proof (cases "?len \<le> k")
    case True
    then show ?thesis
      using less.prems k
      by (subst send_piece [where n = "int ?len"])
        (simp_all add: Let_def pieces_of_last body_frames_last del: of_nat_diff)
  next
    case False
    let ?c = "charged sp [data_frame ?sid False (take k (drop pos dat))] k c"
    have "send_data_loop io limit sp dat True fin (int pos) (int ?len) c =
        send_data_loop io limit sp dat True fin (int pos + int k) (int ?len - int k) ?c"
      using less.prems k False by (subst send_piece [where n = "int k"]) (simp_all add: Let_def del: of_nat_diff)
    also have "\<dots> = send_data_loop io limit sp dat True fin (int (pos + k)) (int (length dat - (pos + k))) ?c"
      using False by (simp add: of_nat_diff diff_diff_eq)
    also have "\<dots> = Inr (1, charged sp (body_frames ?sid fin (pieces_of k (drop (pos + k) dat)))
          (length dat - (pos + k)) ?c)"
      using less.hyps [of "pos + k" ?c] less.prems k False by (simp del: of_nat_diff)
    finally have "send_data_loop io limit sp dat True fin (int pos) (int ?len) c =
        Inr (1, charged sp (body_frames ?sid fin (pieces_of k (drop (pos + k) dat)))
          (length dat - (pos + k)) ?c)" .
    moreover have "pieces_of k (drop pos dat) = take k (drop pos dat) # pieces_of k (drop (pos + k) dat)"
      using False k by (subst pieces_of_step) (auto simp: add.commute)
    ultimately show ?thesis
      using less.prems False k pieces_of_props [of k "drop (pos + k) dat"]
      by (simp add: charged_charged body_frames_step)
  qed
qed

lemma sendData_charged:
  assumes "isConnected c" and "sp < length (h2_objs c)" and "length dat < 2 ^ 31"
    and "0 < sint (max_frame_size (h2_peer c) - 9)"
  shows "sendData io sp dat True fin c =
     Inr (1, charged sp (body_frames (st_id (stream_at sp c)) fin
                          (pieces_of (nat (sint (max_frame_size (h2_peer c) - 9))) dat)) (length dat) c)"
proof -
  have "sint (of_nat (length dat) :: 32 word) = int (length dat)"
    using assms(3) by (simp add: signed_of_nat signed_take_bit_int_eq_self)
  then show ?thesis
    using send_data_loop_ok [OF assms(1,2,4), of 0 dat] by (simp add: sendData_def)
qed

section \<open>Receiving a body\<close>

fun handle_frames ::
    "bool \<Rightarrow> Frame list \<Rightarrow> DynamicTable \<Rightarrow> Http2Stream \<Rightarrow> error + DynamicTable \<times> Http2Stream" where
  "handle_frames is_client [] t st = Inr (t, st)"
| "handle_frames is_client (f # fs) t st =
     (case stream_handleFrame f is_client t st of
        Inl e \<Rightarrow> Inl e
      | Inr (_, t', st') \<Rightarrow> handle_frames is_client fs t' st')"

text \<open>A frame as it was before its length was filled in.\<close>

definition unsized :: "Frame \<Rightarrow> Frame" where
  "unsized f = f\<lparr>header := (header f)\<lparr>fh_length := 0\<rparr>\<rparr>"

lemma unsized_data_frame:
  assumes "unsized g = unsized (data_frame sid fin p)"
  shows "frame_type g = Some DATA" and "frame_data g = Some (Data \<lparr>df_pad = 0, df_data = p, df_padding = []\<rparr>)"
    and "fh_flags (header g) AND FLAG_END_STREAM \<noteq> 0 \<longleftrightarrow> fin"
proof -
  have h: "fh_type (header g) = type_byte DATA" "fh_flags (header g) = (if fin then FLAG_END_STREAM else 0)"
    using arg_cong [OF assms, of "\<lambda>f. fh_type (header f)"] arg_cong [OF assms, of "\<lambda>f. fh_flags (header f)"]
    by (simp_all add: unsized_def data_frame_def make_frame_def)
  show "frame_type g = Some DATA"
    using h by (simp add: frame_type_def type_byte_def frame_types_def FrameType_of_def)
  show "frame_data g = Some (Data \<lparr>df_pad = 0, df_data = p, df_padding = []\<rparr>)"
    using arg_cong [OF assms, of frame_data] by (simp add: unsized_def data_frame_def make_frame_def)
  show "fh_flags (header g) AND FLAG_END_STREAM \<noteq> 0 \<longleftrightarrow> fin"
    using h by simp
qed

lemma data_body_map: "data_body (map Some ds) = Inr (concat (map df_data ds))"
  by (induction ds) simp_all

lemma rq_body_fold: "rq_body (fold (\<lambda>i r. req_setHeader (hf_name i) (hf_value i) r) hs r) = rq_body r"
  by (induction hs arbitrary: r) (simp_all add: req_setHeader_def)

lemma rs_body_fold: "rs_body (fold (\<lambda>i r. rsp_setHeader (hf_name i) (hf_value i) r) hs r) = rs_body r"
  by (induction hs arbitrary: r) (simp_all add: rsp_setHeader_def)

lemma rq_body_init [simp]: "rq_body (Http2InitRequestForRead r) = rq_body r"
  by (simp add: Http2InitRequestForRead_def setUri_def Let_def split: option.split)

lemma handle_data:
  assumes "unsized g = unsized (data_frame sid False p)"
  shows "stream_handleFrame g is_client t st =
    Inr (0, t, call_handler (Some g) (data_push (Some \<lparr>df_pad = 0, df_data = p, df_padding = []\<rparr>) st))"
  using unsized_data_frame [OF assms]
  by (simp add: stream_handleFrame_def dispatch_frame_def handleDataFrame_def Let_def)

definition got_body :: "bool \<Rightarrow> bytes \<Rightarrow> Http2Stream \<Rightarrow> bool" where
  "got_body is_client body st \<longleftrightarrow> st_state st = CLOSED \<and> st_data st = []
     \<and> (if is_client then map_option rs_body (st_response st) else map_option rq_body (st_request st)) = Some body"

lemma handle_last:
  assumes "unsized g = unsized (data_frame sid True p)" and "\<not> st_isStream st" and "st_data st = map Some ds"
  shows "\<exists>st'. stream_handleFrame g is_client t st = Inr (0, t, st')
    \<and> got_body is_client (concat (map df_data ds) @ p) st'"
proof -
  have "data_body (map Some ds @ [Some \<lparr>df_pad = 0, df_data = p, df_padding = []\<rparr>]) = Inr (concat (map df_data ds) @ p)"
    using data_body_map [of "ds @ [\<lparr>df_pad = 0, df_data = p, df_padding = []\<rparr>]"] by simp
  then show ?thesis
    using unsized_data_frame [OF assms(1)] assms(2,3)
    by (simp add: stream_handleFrame_def dispatch_frame_def handleDataFrame_def end_of_stream_def
        initRequest_def initResponse_def getDataBody_def data_push_def call_handler_def Let_def got_body_def
        rq_body_fold rs_body_fold Http2InitResponseForRead_def)
qed

lemma handle_body:
  assumes "map unsized gs = map unsized (body_frames sid True ps)" and "ps \<noteq> []"
    and "\<not> st_isStream st" and "st_data st = map Some ds"
  shows "\<exists>st'. handle_frames is_client gs t st = Inr (t, st')
    \<and> got_body is_client (concat (map df_data ds) @ concat ps) st'"
  using assms
proof (induction ps arbitrary: gs st ds)
  case (Cons p ps)
  show ?case
  proof (cases "ps = []")
    case True
    then obtain g where "gs = [g]" "unsized g = unsized (data_frame sid True p)"
      using Cons.prems(1) by (auto simp: body_frames_last)
    then show ?thesis
      using handle_last [of g sid p st ds is_client t] Cons.prems(3,4) True by auto
  next
    case False
    then obtain g gs' where g: "gs = g # gs'" "unsized g = unsized (data_frame sid False p)"
      "map unsized gs' = map unsized (body_frames sid True ps)"
      using Cons.prems(1) by (auto simp: body_frames_step)
    let ?d = "\<lparr>df_pad = 0, df_data = p, df_padding = []\<rparr>"
    let ?st = "call_handler (Some g) (data_push (Some ?d) st)"
    have "\<not> st_isStream ?st" "st_data ?st = map Some (ds @ [?d])"
      using Cons.prems(3,4) by (simp_all add: call_handler_def data_push_def)
    from Cons.IH [OF g(3) False this] show ?thesis by (simp add: g(1) handle_data [OF g(2)])
  qed
qed simp

text \<open>C12. A body is transferred exactly. On a connected socket \<open>sendData\<close> queues data frames of the stream
  that respect the frame size limit and whose payloads are consecutive pieces of the body, all but the
  last of them full; only the last one carries END_STREAM, and only when asked to; the send windows of
  stream and connection are charged the length of the body. A stream that receives these frames, with
  their lengths filled in, ends in the state CLOSED with exactly that body in its request (on the
  server) or response (on the client).\<close>

theorem body_transfer:
  assumes "isConnected c" and "sp < length (h2_objs c)" and "length dat < 2 ^ 31"
    and "0 < sint (max_frame_size (h2_peer c) - 9)"
    and "\<not> st_isStream st" and "st_data st = []"
  shows "\<exists>pieces. sendData io sp dat True fin c =
        Inr (1, charged sp (body_frames (st_id (stream_at sp c)) fin pieces) (length dat) c)
    \<and> pieces \<noteq> [] \<and> concat pieces = dat
    \<and> list_all (\<lambda>p. length p \<le> nat (sint (max_frame_size (h2_peer c) - 9))) pieces
    \<and> list_all (\<lambda>p. length p = nat (sint (max_frame_size (h2_peer c) - 9))) (butlast pieces)
    \<and> (map unsized gs = map unsized (body_frames (st_id (stream_at sp c)) True pieces) \<longrightarrow>
        (\<exists>st'. handle_frames is_client gs t st = Inr (t, st') \<and> got_body is_client dat st'))"
proof -
  let ?ps = "pieces_of (nat (sint (max_frame_size (h2_peer c) - 9))) dat"
  have ps: "?ps \<noteq> []" "concat ?ps = dat"
    using pieces_of_props [of "nat (sint (max_frame_size (h2_peer c) - 9))" dat] assms(4) by simp_all
  have "map unsized gs = map unsized (body_frames (st_id (stream_at sp c)) True ?ps) \<longrightarrow>
      (\<exists>st'. handle_frames is_client gs t st = Inr (t, st') \<and> got_body is_client dat st')"
    using handle_body [of gs _ ?ps st "[]" is_client t] ps assms(5,6) by auto
  then show ?thesis
    using sendData_charged [OF assms(1-4)] ps assms(4)
      pieces_of_props [of "nat (sint (max_frame_size (h2_peer c) - 9))" dat]
    by (intro exI [of _ ?ps]) simp
qed

theorem body_transfer_witness:
  "\<exists>pieces. sendData loop_io 0 [1, 2, 3] True True loop_connection =
       Inr (1, charged 0 (body_frames 1 True pieces) 3 loop_connection) \<and> concat pieces = [1, 2, 3]"
  using body_transfer [of loop_connection 0 "[1, 2, 3]" "Http2Stream_new Http2Settings_new Http2Settings_new 1"
      loop_io True "[]" True DynamicTable_new]
  by (auto simp: loop_connection_simps Http2Stream_new_def Http2Settings_new_def DEFAULT_MAX_FRAME_SIZE_def stream_at_def
      numeral_3_eq_3)

section \<open>The receive windows\<close>

text \<open>The credit that queued WINDOW_UPDATE frames give the peer on a stream (0 is the connection).\<close>

definition grant :: "32 word \<Rightarrow> SendCtx \<Rightarrow> int" where
  "grant sid ctx =
     (case ctx of
        FrameSendCtx f \<Rightarrow>
          (case frame_data f of
             Some (WindowUpdate w) \<Rightarrow>
               if fh_identifier (header f) = ucast sid then uint (wu_increment w) else 0
           | _ \<Rightarrow> 0)
      | _ \<Rightarrow> 0)"

definition granted :: "32 word \<Rightarrow> SendCtx list \<Rightarrow> int" where
  "granted sid q = sum_list (map (grant sid) q)"

lemma granted_append [simp]: "granted sid (p @ q) = granted sid p + granted sid q"
  by (simp add: granted_def)

definition window_frame :: "32 word \<Rightarrow> 32 word \<Rightarrow> Frame" where
  "window_frame sid n = make_frame WINDOW_UPDATE 0 sid (Some (WindowUpdate \<lparr>wu_increment = ucast n, wu_r = 0\<rparr>))"

lemma granted_window_frame:
  "granted sid [FrameSendCtx (window_frame sid' n)] =
     (if (ucast sid' :: 31 word) = ucast sid then uint (ucast n :: 31 word) else 0)"
  by (simp add: granted_def grant_def window_frame_def make_frame_def)

text \<open>Refilling a window: what is charged, and the update sent when it runs low.\<close>

definition refill :: "32 word \<Rightarrow> 32 word \<Rightarrow> 32 word \<times> 32 word option" where
  "refill w len =
     (let w' = w - len in
      if window_low w' then (MAX_INITIAL_WINDOW_SIZE, Some (MAX_INITIAL_WINDOW_SIZE - w')) else (w', None))"

lemma sint_of_int: "- (2 ^ 31) \<le> x \<Longrightarrow> x < 2 ^ 31 \<Longrightarrow> sint (word_of_int x :: 32 word) = x"
  by (simp add: signed_of_int signed_take_bit_int_eq_self)

lemma uint_of_int: "0 \<le> x \<Longrightarrow> x < 2 ^ LENGTH('a) \<Longrightarrow> uint (word_of_int x :: 'a::len word) = x"
  by (simp add: unsigned_of_int take_bit_int_eq_self)

lemma refill_exact:
  assumes "uint len \<le> sint w"
  shows "sint (fst (refill w len)) =
      sint w - uint len + (case snd (refill w len) of None \<Rightarrow> 0 | Some n \<Rightarrow> uint (ucast n :: 31 word))"
    and "0x1FFFFFFF \<le> sint (fst (refill w len))"
proof -
  define x where "x = sint w - uint len"
  have "sint w < 2 ^ 31" "0 \<le> uint len" using sint_lt [of w] by simp_all
  then have x: "0 \<le> x" "x < 2 ^ 31" using assms unfolding x_def by linarith+
  have "w - len = word_of_int (sint w) - word_of_int (uint len)" by simp
  also have "\<dots> = word_of_int x" by (simp only: x_def of_int_diff)
  finally have wl: "w - len = word_of_int x" .
  have s: "sint (w - len) = x" using x by (simp only: wl) (rule sint_of_int; simp)
  have max: "sint MAX_INITIAL_WINDOW_SIZE = 0x7FFFFFFF" by (simp add: MAX_INITIAL_WINDOW_SIZE_def)
  have m: "MAX_INITIAL_WINDOW_SIZE - (w - len) = word_of_int (0x7FFFFFFF - x)"
    by (simp add: wl MAX_INITIAL_WINDOW_SIZE_def)
  have "uint (MAX_INITIAL_WINDOW_SIZE - (w - len)) = 0x7FFFFFFF - x"
    unfolding m using x by (intro uint_of_int) simp_all
  then have u: "uint (ucast (MAX_INITIAL_WINDOW_SIZE - (w - len)) :: 31 word) = 0x7FFFFFFF - x"
    using x by (simp add: unsigned_ucast_eq take_bit_int_eq_self)
  show "0x1FFFFFFF \<le> sint (fst (refill w len))"
    by (simp add: refill_def Let_def window_low_def s max)
  show "sint (fst (refill w len)) =
      sint w - uint len + (case snd (refill w len) of None \<Rightarrow> 0 | Some n \<Rightarrow> uint (ucast n :: 31 word))"
    using u by (simp add: refill_def Let_def window_low_def s max x_def)
qed

definition window_frames :: "32 word \<Rightarrow> 32 word option \<Rightarrow> SendCtx list" where
  "window_frames sid upd = (case upd of None \<Rightarrow> [] | Some n \<Rightarrow> [FrameSendCtx (window_frame sid n)])"

lemma uint_length: "uint (ucast (n :: 24 word) :: 32 word) = uint n"
  by (simp add: unsigned_ucast_eq take_bit_int_eq_self less_trans [OF unsigned_less])

lemma handleRecvData_refills:
  assumes "isConnected c" and "sp < length (h2_objs c)"
    and "getStream (st_id (stream_at sp c)) c = Some sp" and "st_id (stream_at sp c) \<noteq> 0"
    and "fh_length (header frame) \<noteq> 0"
  defines "len \<equiv> ucast (fh_length (header frame)) :: 32 word"
    and "st \<equiv> stream_at sp c"
  shows "handleRecvData io frame sp c = Inr ((),
     (on_stream sp (\<lambda>st. st\<lparr>st_recvWindow := fst (refill (st_recvWindow st) len)\<rparr>) c)
       \<lparr>h2_recvWindow := fst (refill (h2_recvWindow c) len),
        h2_queue := h2_queue c @ window_frames 0 (snd (refill (h2_recvWindow c) len))
                      @ window_frames (st_id st) (snd (refill (st_recvWindow st) len))\<rparr>)"
proof -
  have "len \<noteq> 0" using assms(5) uint_length [of "fh_length (header frame)"] by (auto simp: len_def unsigned_eq_0_iff)
  then show ?thesis
    using assms(1-4)
    by (simp add: handleRecvData_def len_def [symmetric] then_action_def bind_action_def modify_action_def
        sendWindowUpdate_def sendFrame_def Let_def refill_def window_frames_def on_stream_def stream_at_def
        isConnected_def getStream_def enqueue_def stream_updateRecvWindowByDiff_def
        updateWindowSizeByDiff_def window_frame_def st_def)
qed



end
