(* ===== verification/Http2Steps.thy ===== *)
theory Http2Steps
  imports Http2Socket
begin

text \<open>
  What an HTTP/2 connection can do, as a step relation, and how an invariant of connections is shown. An
  invariant is described by the locale \<open>connection_invariant\<close>: it only depends on the streams, the request
  contexts and their tables, and the primitive changes of those keep it. Inside the locale every
  operation of \<open>Http2Socket\<close> is shown to keep such an invariant, and so is every step.
\<close>

section \<open>The steps of a connection\<close>

text \<open>
  What can happen to a connection once it exists: the shakes of the two sides, the read fiber, the write
  fiber, a request and its timeout, the worker and the application sending on a stream it holds.
  Requests are started by clients only.
\<close>

inductive h2_step :: "'k Http2SocketStream \<Rightarrow> 'k Http2SocketStream \<Rightarrow> bool" where
  shake_server: "handleShakeServer io c = Inr (b, c') \<Longrightarrow> \<not> h2_isClient c \<Longrightarrow> h2_step c c'"
| shake_client: "onConnect io c = Inr (b, c') \<Longrightarrow> h2_isClient c \<Longrightarrow> h2_step c c'"
| recv: "doRead_round io c = Inr (u, c') \<Longrightarrow> h2_step c c'"
| send: "doWrite_round io c = Inr (u, c') \<Longrightarrow> h2_step c c'"
| request: "h2_isClient c \<Longrightarrow> request_start req c = (b, c') \<Longrightarrow> h2_step c c'"
| open_stream: "h2_isClient c \<Longrightarrow> openStream req c = (r, c') \<Longrightarrow> h2_step c c'"
| timeout: "p < length (h2_ctxobjs c) \<Longrightarrow> h2_step c (onTimeOut p c)"
| handle: "handleRequest io nm dispatch req sp c = Inr (u, c') \<Longrightarrow> h2_step c c'"
| send_data: "sendData io sp dat async fin c = Inr (rt, c') \<Longrightarrow> h2_step c c'"
| send_response: "sendResponse io sp rsp fin async c = Inr (rt, c') \<Longrightarrow> h2_step c c'"
| send_settings: "sendSettings io is c = Inr (rt, c') \<Longrightarrow> h2_step c c'"
| close: "h2_step c (innerClose c)"

section \<open>What the operations leave alone\<close>

lemma stream_ids [simp]:
  "st_id (stream_close st) = st_id st" "st_id (call_handler f st) = st_id st"
  "st_id (data_push d st) = st_id st" "st_id (addHandleCount st) = st_id st"
  "st_id (snd (stream_updateSendWindowByDiff w st)) = st_id st"
  "st_id (snd (stream_updateRecvWindowByDiff w st)) = st_id st"
  by (simp_all add: stream_close_def call_handler_def data_push_def addHandleCount_def
      stream_updateSendWindowByDiff_def stream_updateRecvWindowByDiff_def Let_def split_beta)

lemma on_ctx_fields [simp]: "length (h2_ctxobjs (on_ctx p g c)) = length (h2_ctxobjs c)"
  by (simp add: on_ctx_def)

lemma length_fail_ctx [simp]: "length (h2_ctxobjs (fail_ctx p c)) = length (h2_ctxobjs c)"
  by (simp add: fail_ctx_def doRsp_def)

lemma on_stream_sendWindow: "h2_sendWindow (on_stream sp f c) = h2_sendWindow c"
  by (simp add: on_stream_def)

text \<open>A stream keeps its identifier.\<close>

lemma getDataBody_id: "getDataBody st = Inr (b, st') \<Longrightarrow> st_id st' = st_id st"
  by (auto simp: getDataBody_def map_sum_eq_Inr)

lemma end_of_stream_id: "end_of_stream client st = Inr st' \<Longrightarrow> st_id st' = st_id st"
  by (auto simp: end_of_stream_def initResponse_def initRequest_def Let_def map_sum_eq_Inr data_push_def
      dest: getDataBody_id split: if_splits sum.splits)

lemma dispatch_frame_id: "dispatch_frame frame t st = Inr (rt, t', st') \<Longrightarrow> st_id st' = st_id st"
  by (auto simp: dispatch_frame_def handleHeadersFrame_def handleDataFrame_def handleRstStreamFrame_def
      Let_def map_sum_eq_Inr split: if_splits sum.splits option.splits IFrame.splits)

lemma stream_handleFrame_id:
  "stream_handleFrame frame client t st = Inr (rt, t', st') \<Longrightarrow> st_id st' = st_id st"
  by (auto simp: stream_handleFrame_def Let_def map_sum_eq_Inr
      dest!: dispatch_frame_id end_of_stream_id split: if_splits sum.splits)

section \<open>Invariants\<close>

locale connection_invariant =
  fixes I :: "'k Http2SocketStream \<Rightarrow> bool"
  assumes fields [simp]:
      "I (c\<lparr>h2_stream := s\<rparr>) = I c" "I (c\<lparr>h2_sendTable := t\<rparr>) = I c" "I (c\<lparr>h2_recvTable := t\<rparr>) = I c"
      "I (c\<lparr>h2_owner := x\<rparr>) = I c" "I (c\<lparr>h2_peer := x\<rparr>) = I c" "I (c\<lparr>h2_sendWindow := w\<rparr>) = I c"
      "I (c\<lparr>h2_recvWindow := w\<rparr>) = I c" "I (c\<lparr>h2_queue := q\<rparr>) = I c" "I (c\<lparr>h2_worker := ws\<rparr>) = I c"
    and initial: "I (Http2SocketStream_new sock client)"
    and on_stream_keeps: "I c \<Longrightarrow> st_id (f (stream_at sp c)) = st_id (stream_at sp c) \<Longrightarrow> I (on_stream sp f c)"
    and mgr_del_keeps: "I c \<Longrightarrow> I (mgr_del sid c)"
    and newStream_id_keeps: "I c \<Longrightarrow> I (snd (newStream_id sid c))"
    and newStream_keeps: "I c \<Longrightarrow> h2_isClient c \<Longrightarrow> I (snd (newStream c))"
    and restart_keeps: "I c \<Longrightarrow> h2_isClient c \<Longrightarrow> I (c\<lparr>h2_sn := -1\<rparr>)"
    and on_ctx_keeps: "I c \<Longrightarrow> (\<And>x. cx_sn (g x) = cx_sn x \<and> cx_scheduler (g x) = cx_scheduler x) \<Longrightarrow> I (on_ctx p g c)"
    and doRsp_keeps: "I c \<Longrightarrow> p < length (h2_ctxobjs c) \<Longrightarrow> I (doRsp p c)"
    and add_request_keeps: "I c \<Longrightarrow> I (add_request sn req c)"
    and del_ctx_keeps: "I c \<Longrightarrow> I (c\<lparr>h2_ctxs := AList.delete sn (h2_ctxs c)\<rparr>)"
    and clear_ctxs_keeps: "I c \<Longrightarrow> I (c\<lparr>h2_ctxs := []\<rparr>)"
    and table_live: "I c \<Longrightarrow> (sn, p) \<in> set (h2_ctxs c) \<Longrightarrow> p < length (h2_ctxobjs c)"
begin

lemma clear_keeps: "I c \<Longrightarrow> I (mgr_clear c)"
proof -
  have "I c \<Longrightarrow> I (fold (\<lambda>sp. on_stream sp stream_close) sps c)" for sps
    by (induction sps arbitrary: c) (simp_all add: on_stream_keeps)
  then show "I c \<Longrightarrow> I (mgr_clear c)" by (simp add: mgr_clear_def)
qed

lemma delStream_keeps: "I c \<Longrightarrow> I (delStream sid c)"
  by (auto simp: delStream_def intro!: mgr_del_keeps on_stream_keeps split: option.split)

lemma fail_ctxs_keeps:
  "I c \<Longrightarrow> list_all (\<lambda>p. p < length (h2_ctxobjs c)) ps \<Longrightarrow> I (fold fail_ctx ps c)"
proof (induction ps arbitrary: c)
  case (Cons p ps)
  have "I (fail_ctx p c)"
    using Cons.prems unfolding fail_ctx_def by (intro doRsp_keeps on_ctx_keeps) simp_all
  then show ?case using Cons by simp
qed simp

lemma innerClose_keeps: "I c \<Longrightarrow> I (innerClose c)"
proof -
  assume "I c"
  then have ok: "I (onClose c)" by (simp add: onClose_def clear_keeps)
  let ?s = "(onClose c)\<lparr>h2_stream := close_socket (h2_stream (onClose c))\<rparr>"
  let ?c = "?s\<lparr>h2_ctxs := [], h2_queue := []\<rparr>"
  have "I ?c" using clear_ctxs_keeps [of ?s] ok by simp
  moreover have "list_all (\<lambda>p. p < length (h2_ctxobjs ?c)) (map snd (h2_ctxs (onClose c)))"
    using table_live [OF ok] by (auto simp: list_all_iff)
  ultimately have "I (fold fail_ctx (map snd (h2_ctxs (onClose c))) ?c)" by (rule fail_ctxs_keeps)
  then show ?thesis by (simp add: innerClose_def Let_def)
qed

lemma onTimeOut_keeps: "I c \<Longrightarrow> p < length (h2_ctxobjs c) \<Longrightarrow> I (onTimeOut p c)"
  unfolding onTimeOut_def
  by (intro delStream_keeps doRsp_keeps on_ctx_keeps del_ctx_keeps) simp_all

lemma request_start_keeps: "I c \<Longrightarrow> h2_isClient c \<Longrightarrow> I (snd (request_start req c))"
  using newStream_keeps [of c] by (simp add: request_start_def split_beta add_request_keeps)

lemma openStream_keeps: "I c \<Longrightarrow> h2_isClient c \<Longrightarrow> I (snd (openStream req c))"
  using newStream_keeps [of c]
  by (auto simp: openStream_def enqueue_def Let_def split_beta intro!: on_stream_keeps)

lemma reset_keeps: "I c \<Longrightarrow> h2_isClient c \<Longrightarrow> I (connection_reset c)"
  by (simp add: connection_reset_def clear_keeps restart_keeps)

lemma keeps_sendFrame [keeps_intros]: "keeps I (sendFrame io frame async)"
  by (auto simp: keeps_def sendFrame_def enqueue_def split: if_splits sum.splits)

lemma keeps_sends [keeps_intros]:
  "keeps I (sendGoAway io lid err debug)" "keeps I (sendSettingsAck io)"
  "keeps I (sendRstStream io sid err)" "keeps I (sendPing io ack v)"
  by (simp_all add: sendGoAway_def sendSettingsAck_def sendRstStream_def sendPing_def keeps_sendFrame)

lemma keeps_protocol_error [keeps_intros]: "keeps I (protocol_error io)"
  unfolding protocol_error_def [abs_def] by (rule keeps_apply) (rule keeps_sends)

lemma keeps_sendWindowUpdate [keeps_intros]: "keeps I (sendWindowUpdate io sid n)"
  unfolding sendWindowUpdate_def
  by (intro keeps_intros) (auto intro!: on_stream_keeps split: option.split)

lemma keeps_update_windows:
  "(\<And>st. st_id (snd (upd st)) = st_id st) \<Longrightarrow> keeps I (update_windows io upd sps)"
proof (induction sps)
  case (Cons sp sps)
  note rest = Cons.IH [OF Cons.prems]
  show ?case
  proof (simp only: update_windows.simps keeps_def bind_action_eq_Inr gets_action_def, clarify)
    fix c :: "'k Http2SocketStream" and x c'
    let ?st = "stream_at sp c"
    let ?m = "then_action (if fst (upd ?st) \<noteq> 0
        then sendRstStream io (st_id ?st) (error_code E_FLOW_CONTROL_ERROR) else return_action 0)
      (update_windows io upd sps)"
    assume ok: "I c"
      and "then_action (modify_action (on_stream sp (\<lambda>_. snd (upd ?st)))) ?m c = Inr (x, c')"
    then have run: "?m (on_stream sp (\<lambda>_. snd (upd ?st)) c) = Inr (x, c')"
      by (simp only: then_action_def bind_action_def modify_action_def) simp
    have "keeps I ?m" by (intro keeps_intros rest)
    moreover note run
    moreover have "I (on_stream sp (\<lambda>_. snd (upd ?st)) c)"
      using ok Cons.prems by (intro on_stream_keeps) simp_all
    ultimately show "I c'" by (rule keepsD)
  qed
qed (simp only: update_windows.simps keeps_return)

lemma keeps_window_diffs [keeps_intros]:
  "keeps I (updateSendWindowByDiff io diff)" "keeps I (updateRecvWindowByDiff io diff)"
  unfolding updateSendWindowByDiff_def [abs_def] updateRecvWindowByDiff_def [abs_def]
  by (rule keeps_apply, rule keeps_update_windows, rule stream_ids)+

lemma settings_keep [simp]: "I (set_settings w f c) = I c"
  "I (set_table_size w v c) = I c"
  by (cases w; simp)+

lemma keeps_updateSetting [keeps_intros]: "keeps I (updateSetting io w i)"
  unfolding updateSetting_def Let_def by (intro keeps_intros) simp_all

lemma keeps_updateSettings [keeps_intros]: "keeps I (updateSettings io w is)"
  by (induction "is") (simp_all only: updateSettings.simps keeps_intros)

lemma keeps_settings_frames [keeps_intros]:
  "keeps I (handleRecvSetting io frame)" "keeps I (handleSendSetting io frame)"
  by (auto simp: handleRecvSetting_def handleSendSetting_def intro!: keeps_intros split: sum.split)

lemma keeps_sendSettings [keeps_intros]: "keeps I (sendSettings io is)"
  unfolding sendSettings_def Let_def by (intro keeps_intros)

lemma send_window_keeps: "I c \<Longrightarrow> I (on_stream sp (\<lambda>st. snd (stream_updateSendWindowByDiff d st)) c)"
  by (simp add: on_stream_keeps)

lemma send_data_loop_keeps:
  "I c \<Longrightarrow> send_data_loop io limit sp dat async fin pos len c = Inr (x, c') \<Longrightarrow> I c'"
proof (induction io limit sp dat async fin pos len c rule: send_data_loop.induct)
  case (1 io limit sp dat async fin pos len c)
  note run = "1.prems"(2) [unfolded send_data_loop.simps [of io limit sp dat async fin pos len c]]
  show ?case
  proof (cases "pos < 0 \<or> pos > int (length dat)")
    case True
    with run show ?thesis by (simp add: Let_def)
  next
    case False
    let ?n = "if len > sint limit then sint limit else len" and ?rest = "drop (nat pos) dat"
    let ?f = "data_frame (st_id (stream_at sp c)) (fin \<and> len = ?n) (if ?n < 0 then ?rest else take (nat ?n) ?rest)"
    let ?next = "\<lambda>c1. (on_stream sp (\<lambda>st. snd (stream_updateSendWindowByDiff (- word_of_int ?n) st)) c1)
        \<lparr>h2_sendWindow := h2_sendWindow c1 + - word_of_int ?n\<rparr>"
    obtain rt c1 where sf: "sendFrame io ?f async c = Inr (rt, c1)"
      using run False by (cases "sendFrame io ?f async c") (auto simp: Let_def)
    note ok = keepsD [OF keeps_sendFrame sf "1.prems"(1)]
    have next_ok: "I (?next c1)" using ok by (simp add: send_window_keeps)
    consider "c' = c1" | "c' = ?next c1"
      | "\<not> rt \<le> 0" "len - ?n > 0" "?n \<noteq> 0"
        "send_data_loop io limit sp dat async fin (pos + ?n) (len - ?n) (?next c1) = Inr (x, c')"
      using run False sf by (simp only: Let_def if_False sum.case prod.case on_stream_sendWindow split: if_split_asm) auto
    then show ?thesis
    proof cases
      case 3
      with "1.IH" [OF refl False refl refl sf refl _ refl refl refl] next_ok show ?thesis
        by (simp only: on_stream_sendWindow simp_thms)
    qed (use ok next_ok in simp_all)
  qed
qed

lemma keeps_sendData [keeps_intros]: "keeps I (sendData io sp dat async fin)"
  by (auto simp: keeps_def sendData_def dest: send_data_loop_keeps)

lemma keeps_sendRequest [keeps_intros]: "keeps I (sendRequest io sp req fin async)"
  unfolding sendRequest_def [abs_def] Let_def
  by (rule keeps_apply) (intro keeps_intros)

lemma keeps_sendHeaders [keeps_intros]: "keeps I (sendHeaders io sp m fin async)"
  unfolding sendHeaders_def [abs_def] by (rule keeps_apply) (intro keeps_intros)

lemma keeps_sendResponse [keeps_intros]: "keeps I (sendResponse io sp rsp fin async)"
  unfolding sendResponse_def [abs_def] Let_def
  by (rule keeps_apply) (intro keeps_intros)

section \<open>Receiving\<close>

lemma keeps_handleWindowUpdate [keeps_intros]: "keeps I (handleWindowUpdate io frame)"
proof -
  have "keeps I (bind_action (protocol_error io) (\<lambda>_. return_action ()))"
    by (intro keeps_intros)
  note err = keepsD [OF this]
  show ?thesis
    by (auto simp: keeps_def handleWindowUpdate_def Let_def innerClose_keeps send_window_keeps
        dest: err split: option.splits IFrame.splits if_splits)
qed

lemma keeps_handleRecvData [keeps_intros]: "keeps I (handleRecvData io frame sp)"
proof -
  have "keeps I (\<lambda>c. if window_low (h2_recvWindow c)
      then sendWindowUpdate io 0 (MAX_INITIAL_WINDOW_SIZE - h2_recvWindow c) c else Inr (0, c))"
    by (auto simp: keeps_def dest: keepsD [OF keeps_sendWindowUpdate] split: if_splits)
  moreover have "keeps I (\<lambda>c. let st = stream_at sp c in
      if window_low (st_recvWindow st)
      then bind_action (sendWindowUpdate io (st_id st) (MAX_INITIAL_WINDOW_SIZE - st_recvWindow st))
             (\<lambda>_. return_action ()) c
      else Inr ((), c))"
    by (auto simp: keeps_def Let_def bind_action_eq_Inr dest: keepsD [OF keeps_sendWindowUpdate] split: if_splits)
  ultimately show ?thesis
    unfolding handleRecvData_def Let_def by (intro keeps_intros) (auto intro!: on_stream_keeps)
qed

lemma keeps_handleFrame [keeps_intros]: "keeps I (handleFrame io frame sp)"
  by (auto simp: keeps_def handleFrame_def map_sum_eq_Inr stream_at_def
      intro!: on_stream_keeps dest: stream_handleFrame_id)

lemma keeps_connection_onStreamClose: "keeps I (connection_onStreamClose sp)"
proof -
  have del: "I c2" if "I c" "getAndDelCtx sid (delStream sid c) = (r, c2)" for c r sid and c2 :: "'k Http2SocketStream"
    using that delStream_keeps [OF that(1), of sid]
    by (auto simp: getAndDelCtx_def del_ctx_keeps split: option.splits)
  show ?thesis
    by (auto simp: keeps_def connection_onStreamClose_def Let_def dest: del intro!: on_ctx_keeps
        split: option.splits prod.splits)
qed

lemma keeps_onStreamClose [keeps_intros]: "keeps I (onStreamClose io sp)"
proof -
  have "keeps I (bind_action (protocol_error io) (\<lambda>_.
      then_action (modify_action (delStream sid)) (return_action None)))" for sid
    by (intro keeps_intros delStream_keeps)
  note err = keepsD [OF this]
  show ?thesis
    by (auto simp: keeps_def onStreamClose_def session_onStreamClose_def Let_def
        dest: err keepsD [OF keeps_connection_onStreamClose] split: if_splits option.splits)
qed

lemma keeps_recv_on_stream [keeps_intros]: "keeps I (recv_on_stream io frame sp)"
proof -
  have "keeps I (\<lambda>c. if st_state (stream_at sp c) = CLOSED then onStreamClose io sp c else Inr (None, c))"
    by (auto simp: keeps_def dest: keepsD [OF keeps_onStreamClose] split: if_splits)
  then show ?thesis unfolding recv_on_stream_def by (intro keeps_intros)
qed

lemma keeps_recv_frame [keeps_intros]: "keeps I (recv_frame io frame)"
proof -
  have sends: "keeps I (then_action (handleWindowUpdate io frame) (return_action None))"
    "\<And>sid. keeps I (then_action (sendRstStream io sid e) (return_action None))"
    "keeps I (then_action (handleRecvSetting io frame) (then_action (sendSettingsAck io) (return_action None)))"
    "\<And>v. keeps I (then_action (sendPing io True v) (return_action None))" for e
    by (intro keeps_intros)+
  have new: "I c1" if "I c" "newStream_id sid c = (r, c1)" for c r sid and c1 :: "'k Http2SocketStream"
    using newStream_id_keeps [OF that(1), of sid] that(2) by simp
  show ?thesis
    by (auto simp: keeps_def recv_frame_def Let_def dest: new
        sends [THEN keepsD] keepsD [OF keeps_recv_on_stream]
        split: if_splits option.splits prod.splits IFrame.splits)
qed

lemma keeps_doRecv: "keeps I (doRecv io)"
  by (auto simp: keeps_def doRecv_def innerClose_keeps dest: keepsD [OF keeps_recv_frame]
      split: sum.splits option.splits)

text \<open>The context returned by \<open>doRecv\<close> exists.\<close>

lemma onStreamClose_ctx:
  assumes "I c" and "onStreamClose io sp c = Inr (Some p, c')"
  shows "p < length (h2_ctxobjs c')"
proof (cases "h2_isClient c")
  case True
  let ?sid = "st_id (stream_at sp c)"
  have "(?sid, p) \<in> set (h2_ctxs (delStream ?sid c))" "length (h2_ctxobjs c') = length (h2_ctxobjs (delStream ?sid c))"
    using assms(2) True
    by (auto simp: onStreamClose_def connection_onStreamClose_def getAndDelCtx_def Let_def
        split: option.splits dest: map_of_SomeD)
  then show ?thesis using table_live [OF delStream_keeps [OF assms(1)]] by metis
next
  case False
  then show ?thesis
    using assms(2) by (auto simp: onStreamClose_def session_onStreamClose_def Let_def bind_action_eq_Inr
        then_action_def split: option.splits if_splits)
qed

lemma recv_on_stream_ctx:
  assumes "I c" and "recv_on_stream io frame sp c = Inr (Some p, c')"
  shows "p < length (h2_ctxobjs c')"
proof -
  let ?m = "if frame_type frame = Some DATA then handleRecvData io frame sp else return_action ()"
  obtain x c1 y c2 where m: "?m c = Inr (x, c1)" and n: "handleFrame io frame sp c1 = Inr (y, c2)"
    and closed: "onStreamClose io sp c2 = Inr (Some p, c')"
    using assms(2) unfolding recv_on_stream_def then_action_def bind_action_eq_Inr
    by (auto split: if_splits)
  have "keeps I ?m" by (intro keeps_intros)
  from keepsD [OF keeps_handleFrame n keepsD [OF this m assms(1)]] closed show ?thesis
    by (rule onStreamClose_ctx)
qed

lemma recv_frame_ctx:
  assumes "I c" and "recv_frame io frame c = Inr (Some p, c')"
  shows "p < length (h2_ctxobjs c')"
proof -
  have new: "I c1" if "newStream_id sid c = (r, c1)" for r sid c1
    using newStream_id_keeps [OF assms(1), of sid] that by simp
  show ?thesis
    using assms recv_on_stream_ctx
    by (auto simp: recv_frame_def Let_def then_action_def bind_action_eq_Inr dest: new
        split: if_splits option.splits prod.splits IFrame.splits)
qed

lemma keeps_doRead_round: "keeps I (doRead_round io)"
  unfolding keeps_def
proof (intro allI impI)
  fix c u c'
  assume ok: "I c" and run: "doRead_round io c = Inr (u, c')"
  then obtain ctx c1 where recv: "doRecv io c = Inr (ctx, c1)" and c': "c' = (case ctx of None \<Rightarrow> c1 | Some p \<Rightarrow> doRsp p c1)"
    by (auto simp: doRead_round_def bind_action_eq_Inr modify_action_def split: option.splits)
  have "I c1" by (rule keepsD [OF keeps_doRecv recv ok])
  moreover have "p < length (h2_ctxobjs c1)" if "ctx = Some p" for p
    using recv that ok recv_frame_ctx [of "c\<lparr>h2_stream := s\<rparr>" for s]
    by (auto simp: doRecv_def split: sum.splits option.splits prod.splits)
  ultimately show "I c'" by (auto simp: c' doRsp_keeps split: option.split)
qed

section \<open>The write loop and the application\<close>

lemma keeps_doSend [keeps_intros]: "keeps I (doSend io ctx)"
proof -
  have run: "keeps I (bind_action (sendFrame io frame False) (\<lambda>rt. return_action (rt > 0)))"
    "keeps I (bind_action (sendRequest io sp req fin False) (\<lambda>rt. return_action (rt \<noteq> 0)))" for frame sp req fin
    by (intro keeps_intros)+
  show ?thesis
    by (auto simp: keeps_def doSend_def split: SendCtx.splits option.splits dest!: run [THEN keepsD])
qed

lemma keeps_send_all: "keeps I (send_all io ctxs)"
  by (induction ctxs) (simp_all only: send_all.simps keeps_intros)

lemma keeps_doWrite_round: "keeps I (doWrite_round io)"
  by (auto simp: keeps_def doWrite_round_def dest: keepsD [OF keeps_send_all])

lemma keeps_handleRequest: "keeps I (handleRequest io nm dispatch req sp)"
proof -
  have "keeps I (then_action (sendResponse io sp rsp True True) (modify_action (delStream sid)))" for rsp sid
    by (intro keeps_intros delStream_keeps)
  note run = keepsD [OF this]
  show ?thesis
    by (auto simp: keeps_def handleRequest_def Let_def dest!: run intro!: on_stream_keeps split: if_splits)
qed

lemma keeps_handleShakeServer: "keeps I (handleShakeServer io)"
proof -
  have "keeps I (then_action (handleRecvSetting io frame)
      (then_action (sendSettingsAck io) (then_action (sendSettings io []) (return_action True))))" for frame
    by (intro keeps_intros)
  note run = keepsD [OF this]
  show ?thesis
    by (auto simp: keeps_def handleShakeServer_def dest!: run split: if_splits sum.splits option.splits)
qed

lemma keeps_handleShakeClient: "keeps I (handleShakeClient io)"
proof -
  have "keeps I (\<lambda>c2. bind_action (sendWindowUpdate io 0 (MAX_INITIAL_WINDOW_SIZE - h2_recvWindow c2))
      (\<lambda>_. return_action True) c2)"
    by (rule keeps_apply) (intro keeps_intros)
  then have "keeps I (then_action (handleSendSetting io frame)
      (bind_action (sendFrame io frame False) (\<lambda>rt. if rt \<le> 0 then return_action False
         else (\<lambda>c2. bind_action (sendWindowUpdate io 0 (MAX_INITIAL_WINDOW_SIZE - h2_recvWindow c2))
                (\<lambda>_. return_action True) c2))))" for frame
    by (intro keeps_intros)
  note run = keepsD [OF this]
  show ?thesis
    by (auto simp: keeps_def handleShakeClient_def Let_def dest!: run split: if_splits prod.splits)
qed

lemma step_keeps: "h2_step c c' \<Longrightarrow> I c \<Longrightarrow> I c'"
proof (induction rule: h2_step.induct)
  case (shake_client io c b c')
  then show ?case
    by (auto simp: onConnect_def reset_keeps intro: keepsD [OF keeps_handleShakeClient])
next
  case (request c req b c')
  then show ?case using request_start_keeps [of c req] by simp
next
  case (open_stream c req r c')
  then show ?case using openStream_keeps [of c req] by simp
qed (blast intro: onTimeOut_keeps innerClose_keeps
    keepsD [OF keeps_handleShakeServer] keepsD [OF keeps_doRead_round] keepsD [OF keeps_doWrite_round]
    keepsD [OF keeps_handleRequest] keepsD [OF keeps_sendData] keepsD [OF keeps_sendResponse]
    keepsD [OF keeps_sendSettings])+

lemma reachable: "h2_step\<^sup>*\<^sup>* (Http2SocketStream_new sock client) c \<Longrightarrow> I c"
  by (induction rule: rtranclp_induct) (auto intro: initial step_keeps)

end

end
