(* ===== verification/Http2Requests.thy ===== *)
theory Http2Requests
  imports Http2Steps
begin

text \<open>
  The requests of an HTTP/2 client: their contexts are found under their own stream identifier, the fiber
  that waits for one is resumed at most once, and closing the connection resumes every fiber that waits.
  \<open>ctx_ok\<close> is an invariant of connections in the sense of \<open>Http2Steps\<close>.
\<close>

section \<open>The invariant\<close>

definition ctx_ok :: "'k Http2SocketStream \<Rightarrow> bool" where
  "ctx_ok c \<longleftrightarrow> distinct (map fst (h2_ctxs c))
     \<and> list_all (\<lambda>(sn, p). p < length (h2_ctxobjs c) \<and> cx_sn (h2_ctxobjs c ! p) = sn) (h2_ctxs c)
     \<and> distinct (h2_done c)
     \<and> (\<forall>p. p \<in> set (h2_done c) \<longleftrightarrow> p < length (h2_ctxobjs c) \<and> \<not> cx_scheduler (h2_ctxobjs c ! p))"

lemma ctx_ok_same:
  "h2_ctxs c' = h2_ctxs c \<Longrightarrow> h2_ctxobjs c' = h2_ctxobjs c \<Longrightarrow> h2_done c' = h2_done c \<Longrightarrow> ctx_ok c' = ctx_ok c"
  by (simp add: ctx_ok_def)

lemma ctx_same [simp]:
  "h2_ctxs (on_stream sp f c) = h2_ctxs c" "h2_ctxobjs (on_stream sp f c) = h2_ctxobjs c"
  "h2_done (on_stream sp f c) = h2_done c"
  "h2_ctxs (mgr_del sid c) = h2_ctxs c" "h2_ctxobjs (mgr_del sid c) = h2_ctxobjs c"
  "h2_done (mgr_del sid c) = h2_done c"
  "h2_ctxs (snd (newStream_id sid c)) = h2_ctxs c" "h2_ctxobjs (snd (newStream_id sid c)) = h2_ctxobjs c"
  "h2_done (snd (newStream_id sid c)) = h2_done c"
  "h2_ctxs (snd (newStream c)) = h2_ctxs c" "h2_ctxobjs (snd (newStream c)) = h2_ctxobjs c"
  "h2_done (snd (newStream c)) = h2_done c"
  by (simp_all add: on_stream_def mgr_del_def newStream_id_def newStream_def alloc_stream_def mgr_add_def Let_def split_beta)

lemma ctx_ok_on_ctx:
  assumes "ctx_ok c" and g: "\<And>x. cx_sn (g x) = cx_sn x \<and> cx_scheduler (g x) = cx_scheduler x"
  shows "ctx_ok (on_ctx p g c)"
proof -
  have "cx_sn ((h2_ctxobjs c)[p := g (h2_ctxobjs c ! p)] ! q) = cx_sn (h2_ctxobjs c ! q)"
    "cx_scheduler ((h2_ctxobjs c)[p := g (h2_ctxobjs c ! p)] ! q) = cx_scheduler (h2_ctxobjs c ! q)" for q
    by (cases "p < length (h2_ctxobjs c)"; cases "q = p"; simp add: list_update_beyond g)+
  with assms(1) show ?thesis by (simp add: ctx_ok_def on_ctx_def)
qed

lemma Ctx_respond_simps [simp]:
  "cx_sn (Ctx_respond x) = cx_sn x" "cx_scheduler (Ctx_respond x) = False"
  "cx_result (Ctx_respond x) = (if cx_timed x then -1 else cx_result x)"
  by (simp_all add: Ctx_respond_def Let_def)

lemma ctx_ok_doRsp: "ctx_ok c \<Longrightarrow> p < length (h2_ctxobjs c) \<Longrightarrow> ctx_ok (doRsp p c)"
  by (auto simp: ctx_ok_def doRsp_def ctx_at_def on_ctx_def list_all_iff nth_list_update)

lemma ctx_ok_add: "ctx_ok c \<Longrightarrow> ctx_ok (add_request sn req c)"
  by (auto simp: ctx_ok_def add_request_def addCtx_def enqueue_def ctx_at_def new_ctx_def Let_def list_all_iff
      nth_append map_of_eq_None_iff less_Suc_eq)

lemma ctx_ok_delete: "ctx_ok c \<Longrightarrow> ctx_ok (c\<lparr>h2_ctxs := AList.delete sn (h2_ctxs c)\<rparr>)"
  by (auto simp: ctx_ok_def AList.delete_eq list_all_iff distinct_map_filter)

interpretation contexts: connection_invariant ctx_ok
proof unfold_locales
  show "ctx_ok (Http2SocketStream_new sock client)" for sock :: "'a SocketStream" and client
    by (simp add: ctx_ok_def Http2SocketStream_new_def)
  show "ctx_ok c \<Longrightarrow> ctx_ok (c\<lparr>h2_ctxs := []\<rparr>)" for c :: "'a Http2SocketStream"
    by (simp add: ctx_ok_def)
  show "ctx_ok c \<Longrightarrow> (sn, p) \<in> set (h2_ctxs c) \<Longrightarrow> p < length (h2_ctxobjs c)" for c :: "'a Http2SocketStream" and sn p
    by (auto simp: ctx_ok_def list_all_iff)
qed (auto simp: ctx_ok_on_ctx ctx_ok_doRsp ctx_ok_add ctx_ok_delete cong: ctx_ok_same)

section \<open>Answers\<close>

lemma ctx_ok_entry:
  "ctx_ok c \<Longrightarrow> getCtx sn c = Some p \<Longrightarrow> p < length (h2_ctxobjs c) \<and> cx_sn (ctx_at p c) = sn"
  by (auto simp: ctx_ok_def getCtx_def ctx_at_def list_all_iff dest: map_of_SomeD)

lemma ctx_ok_done: "ctx_ok c \<Longrightarrow> p \<in> set (h2_done c) \<longleftrightarrow> p < length (h2_ctxobjs c) \<and> \<not> cx_scheduler (ctx_at p c)"
  by (simp add: ctx_ok_def ctx_at_def)

lemma ctx_ok_mem: "ctx_ok c \<Longrightarrow> (sn, p) \<in> set (h2_ctxs c) \<Longrightarrow> cx_sn (h2_ctxobjs c ! p) = sn"
  by (auto simp: ctx_ok_def list_all_iff)

lemma ctx_ok_inj: "ctx_ok c \<Longrightarrow> inj_on snd (set (h2_ctxs c))"
  by (rule inj_onI) (metis ctx_ok_mem prod.collapse)

lemma distinct_ctxs: "ctx_ok c \<Longrightarrow> distinct (map snd (h2_ctxs c))"
  using ctx_ok_inj [of c] by (auto simp: ctx_ok_def distinct_map)

text \<open>C4. The fiber of a request is resumed at most once, in every state a connection can reach: no context
  occurs twice among those whose fiber was scheduled, exactly the contexts that still hold their
  scheduler have not been answered, and answering one that was answered does nothing. The table of
  contexts finds a request under the identifier of its own stream, so that the response of a stream is
  given to the request sent on it.\<close>

theorem requests_answered_once:
  assumes "h2_step\<^sup>*\<^sup>* (Http2SocketStream_new sock client) c"
  shows "distinct (h2_done c)
    \<and> (\<forall>p. p \<in> set (h2_done c) \<longleftrightarrow> p < length (h2_ctxobjs c) \<and> \<not> cx_scheduler (ctx_at p c))
    \<and> (\<forall>p \<in> set (h2_done c). doRsp p c = c)
    \<and> (\<forall>sn p. getCtx sn c = Some p \<longrightarrow> p < length (h2_ctxobjs c) \<and> cx_sn (ctx_at p c) = sn)"
proof -
  have ok: "ctx_ok c" by (rule contexts.reachable [OF assms])
  then have "distinct (h2_done c)" by (simp add: ctx_ok_def)
  moreover have "\<forall>p \<in> set (h2_done c). doRsp p c = c" using ctx_ok_done [OF ok] by (auto simp: doRsp_def)
  ultimately show ?thesis using ctx_ok_done [OF ok] ctx_ok_entry [OF ok] by blast
qed

text \<open>A client that sent one request which then timed out.\<close>

definition timed_out :: "loopback Http2SocketStream" where
  "timed_out = onTimeOut 0 (snd (request_start (HttpRequest_new 0x20 True) (Http2SocketStream_new loop_socket True)))"

lemma timed_out_reachable: "h2_step\<^sup>*\<^sup>* (Http2SocketStream_new loop_socket True) timed_out"
proof -
  let ?c = "Http2SocketStream_new loop_socket True" and ?req = "HttpRequest_new 0x20 True"
  have "h2_step ?c (snd (request_start ?req ?c))"
    by (rule h2_step.request [where req = ?req, OF _ prod.collapse [symmetric]])
      (simp add: Http2SocketStream_new_def)
  moreover have "h2_step (snd (request_start ?req ?c)) timed_out"
    unfolding timed_out_def
    by (rule h2_step.timeout)
      (simp add: request_start_def isConnected_def Http2SocketStream_new_def loop_socket_def newStream_def
        SocketStream_isConnected_def alloc_stream_def mgr_add_def add_request_def addCtx_def enqueue_def Let_def)
  ultimately show ?thesis by (meson r_into_rtranclp rtranclp_trans)
qed

theorem requests_answered_once_witness:
  "h2_done timed_out = [0] \<and> cx_result (ctx_at 0 timed_out) = -1 \<and> doRsp 0 timed_out = timed_out"
proof -
  have "h2_done timed_out = [0]" "cx_result (ctx_at 0 timed_out) = -1"
    by (simp_all add: timed_out_def onTimeOut_def delStream_def mgr_del_def doRsp_def on_ctx_def ctx_at_def new_ctx_def
        request_start_def isConnected_def Http2SocketStream_new_def loop_socket_def newStream_def
        SocketStream_isConnected_def alloc_stream_def mgr_add_def add_request_def addCtx_def enqueue_def Let_def
        getStream_def on_stream_def stream_at_def Http2Stream_new_def split: option.split)
  then show ?thesis using requests_answered_once [OF timed_out_reachable] by simp
qed

section \<open>Closing\<close>

lemma fail_ctx_other: "q \<noteq> p \<Longrightarrow> ctx_at q (fail_ctx p c) = ctx_at q c"
  by (simp add: fail_ctx_def doRsp_def ctx_at_def on_ctx_def)

lemma fail_ctx_done: "set (h2_done c) \<subseteq> set (h2_done (fail_ctx p c))"
  by (auto simp: fail_ctx_def doRsp_def on_ctx_def)

lemma fail_ctxs_done: "set (h2_done c) \<subseteq> set (h2_done (fold fail_ctx ps c))"
  by (induction ps arbitrary: c) (use fail_ctx_done in fastforce)+

lemma fail_ctxs_other: "q \<notin> set ps \<Longrightarrow> ctx_at q (fold fail_ctx ps c) = ctx_at q c"
  by (induction ps arbitrary: c) (simp_all add: fail_ctx_other)

lemma fail_ctx_answers:
  assumes "p < length (h2_ctxobjs c)" and "cx_scheduler (ctx_at p c)"
  shows "p \<in> set (h2_done (fail_ctx p c))"
    and "cx_result (ctx_at p (fail_ctx p c)) = (if cx_timed (ctx_at p c) then -1 else -2)"
  using assms by (simp_all add: fail_ctx_def doRsp_def ctx_at_def on_ctx_def)

lemma fail_ctxs_answer:
  assumes "distinct ps" and "p \<in> set ps" and "p < length (h2_ctxobjs c)" and "cx_scheduler (ctx_at p c)"
  shows "p \<in> set (h2_done (fold fail_ctx ps c))
    \<and> cx_result (ctx_at p (fold fail_ctx ps c)) = (if cx_timed (ctx_at p c) then -1 else -2)"
  using assms
proof (induction ps arbitrary: c)
  case (Cons q ps)
  show ?case
  proof (cases "q = p")
    case True
    then show ?thesis
      using Cons.prems fail_ctx_answers [of p c] fail_ctxs_done [of "fail_ctx p c" ps]
      by (auto simp: fail_ctxs_other)
  next
    case False
    then show ?thesis using Cons by (simp add: fail_ctx_other [OF not_sym])
  qed
qed simp

lemma clear_ctx_same [simp]:
  "h2_ctxs (mgr_clear c) = h2_ctxs c" "h2_ctxobjs (mgr_clear c) = h2_ctxobjs c" "h2_done (mgr_clear c) = h2_done c"
proof -
  have "h2_ctxs (fold (\<lambda>sp. on_stream sp stream_close) sps c) = h2_ctxs c"
    "h2_ctxobjs (fold (\<lambda>sp. on_stream sp stream_close) sps c) = h2_ctxobjs c"
    "h2_done (fold (\<lambda>sp. on_stream sp stream_close) sps c) = h2_done c" for sps
    by (induction sps arbitrary: c) simp_all
  then show "h2_ctxs (mgr_clear c) = h2_ctxs c" "h2_ctxobjs (mgr_clear c) = h2_ctxobjs c" "h2_done (mgr_clear c) = h2_done c"
    by (simp_all add: mgr_clear_def)
qed

lemma fail_ctxs_table: "h2_ctxs (fold fail_ctx ps c) = h2_ctxs c" "h2_queue (fold fail_ctx ps c) = h2_queue c"
  by (induction ps arbitrary: c) (simp_all add: fail_ctx_def doRsp_def on_ctx_def)

text \<open>C19. Closing a connection (\<open>innerClose\<close>) leaves no request behind: afterwards the table and the queue are
  empty, and every request that was in the table has been resumed; one that was still waiting returns
  IO_ERROR, or TIMEOUT when its timer had marked it.\<close>

theorem close_answers_all:
  assumes "h2_step\<^sup>*\<^sup>* (Http2SocketStream_new sock client) c" and "getCtx sn c = Some p"
  shows "h2_ctxs (innerClose c) = [] \<and> h2_queue (innerClose c) = [] \<and> p \<in> set (h2_done (innerClose c))
    \<and> (p \<notin> set (h2_done c) \<longrightarrow>
         fst (request_result (ctx_at p (innerClose c))) = (if cx_timed (ctx_at p c) then -1 else -2))"
proof -
  have ok: "ctx_ok c" by (rule contexts.reachable [OF assms(1)])
  let ?ps = "map snd (h2_ctxs c)"
  let ?c = "(onClose c)\<lparr>h2_stream := close_socket (h2_stream (onClose c)), h2_ctxs := [], h2_queue := []\<rparr>"
  have close: "innerClose c = fold fail_ctx ?ps ?c" by (simp add: innerClose_def onClose_def Let_def)
  have p: "p \<in> set ?ps" using assms(2) by (force simp: getCtx_def dest: map_of_SomeD)
  have same: "ctx_at p ?c = ctx_at p c" "h2_done ?c = h2_done c" "h2_ctxobjs ?c = h2_ctxobjs c"
    by (simp_all add: onClose_def ctx_at_def)
  have wait: "p \<notin> set (h2_done c) \<Longrightarrow> cx_scheduler (ctx_at p c)"
    using ctx_ok_done [OF ok] ctx_ok_entry [OF ok assms(2)] by blast
  have "p \<in> set (h2_done (innerClose c))"
    using fail_ctxs_answer [OF distinct_ctxs [OF ok] p, of ?c] fail_ctxs_done [of ?c ?ps]
      ctx_ok_entry [OF ok assms(2)] wait same by (auto simp: close)
  then show ?thesis
    using fail_ctxs_answer [OF distinct_ctxs [OF ok] p, of ?c] ctx_ok_entry [OF ok assms(2)] wait same
    by (auto simp: close fail_ctxs_table request_result_def)
qed

theorem close_answers_all_witness:
  "\<exists>c :: loopback Http2SocketStream. getCtx 1 c = Some 0 \<and> h2_done c = [] \<and> 0 \<in> set (h2_done (innerClose c))
     \<and> fst (request_result (ctx_at 0 (innerClose c))) = -2"
proof -
  let ?start = "Http2SocketStream_new loop_socket True" and ?req = "HttpRequest_new 0x20 True"
  let ?c = "snd (request_start ?req ?start)"
  have "h2_step ?start ?c"
    by (rule h2_step.request [where req = ?req, OF _ prod.collapse [symmetric]])
      (simp add: Http2SocketStream_new_def)
  moreover have c: "getCtx 1 ?c = Some 0" "h2_done ?c = []" "\<not> cx_timed (ctx_at 0 ?c)"
    by (simp_all add: getCtx_def ctx_at_def new_ctx_def request_start_def isConnected_def Http2SocketStream_new_def
        loop_socket_def newStream_def SocketStream_isConnected_def alloc_stream_def mgr_add_def add_request_def
        addCtx_def enqueue_def Let_def stream_at_def Http2Stream_new_def)
  ultimately show ?thesis
    using close_answers_all [of loop_socket True ?c 1 0] by (intro exI [of _ ?c]) (simp add: r_into_rtranclp)
qed

end
