(* ===== verification/Http2Registry.thy ===== *)
theory Http2Registry
  imports Http2Flow Http2Requests
begin

text \<open>
  The streams of an HTTP/2 connection: the manager's map only holds streams under their own identifier,
  through everything a connection can do (\<open>registry_ok\<close> is an invariant in the sense of \<open>Http2Steps\<close>), and
  a WINDOW_UPDATE changes exactly the send window it addresses.
\<close>

section \<open>The invariant\<close>

definition registry_ok :: "'k Http2SocketStream \<Rightarrow> bool" where
  "registry_ok c \<longleftrightarrow> distinct (map fst (h2_streams c))
     \<and> list_all (\<lambda>(sid, sp). sp < length (h2_objs c) \<and> st_id (h2_objs c ! sp) = sid) (h2_streams c)
     \<and> (\<not> h2_isClient c \<longrightarrow> list_all (\<lambda>(sid, sp). sid \<le> h2_sn c) (h2_streams c))"

lemma registry_new: "registry_ok (Http2SocketStream_new sock client)"
  by (simp add: registry_ok_def Http2SocketStream_new_def)

text \<open>What the invariant depends on.\<close>

lemma registry_fields [simp]:
  "registry_ok (c\<lparr>h2_stream := s\<rparr>) = registry_ok c"
  "registry_ok (c\<lparr>h2_sendTable := t\<rparr>) = registry_ok c"
  "registry_ok (c\<lparr>h2_recvTable := t\<rparr>) = registry_ok c"
  "registry_ok (c\<lparr>h2_owner := x\<rparr>) = registry_ok c"
  "registry_ok (c\<lparr>h2_peer := x\<rparr>) = registry_ok c"
  "registry_ok (c\<lparr>h2_sendWindow := w\<rparr>) = registry_ok c"
  "registry_ok (c\<lparr>h2_recvWindow := w\<rparr>) = registry_ok c"
  "registry_ok (c\<lparr>h2_queue := q\<rparr>) = registry_ok c"
  "registry_ok (c\<lparr>h2_ctxs := m\<rparr>) = registry_ok c"
  "registry_ok (c\<lparr>h2_done := ds\<rparr>) = registry_ok c"
  "registry_ok (c\<lparr>h2_worker := ws\<rparr>) = registry_ok c"
  by (simp_all add: registry_ok_def)

lemma registry_on_stream:
  assumes "registry_ok c" and "st_id (f (stream_at sp c)) = st_id (stream_at sp c)"
  shows "registry_ok (on_stream sp f c)"
proof -
  have "st_id ((h2_objs c)[sp := f (h2_objs c ! sp)] ! i) = st_id (h2_objs c ! i)" for i
    using assms(2) by (cases "sp < length (h2_objs c)"; cases "i = sp") (simp_all add: list_update_beyond stream_at_def)
  with assms(1) show ?thesis by (simp add: registry_ok_def on_stream_def)
qed

lemma registry_mgr_del: "registry_ok c \<Longrightarrow> registry_ok (mgr_del sid c)"
  by (auto simp: registry_ok_def mgr_del_def AList.delete_eq list_all_iff distinct_map_filter)

lemma registry_stream:
  assumes "registry_ok c" and "getStream sid c = Some sp"
  shows "sp < length (h2_objs c)" and "st_id (stream_at sp c) = sid"
  using assms map_of_SomeD [OF assms(2) [unfolded getStream_def]]
  by (auto simp: registry_ok_def list_all_iff stream_at_def)

lemma in_update: "e \<in> set (AList.update k v al) \<Longrightarrow> e = (k, v) \<or> e \<in> set al"
  by (induction al) (auto split: if_splits)

lemma registry_alloc:
  assumes "registry_ok c" and "\<not> h2_isClient c \<longrightarrow> sid \<le> h2_sn c"
  shows "registry_ok (snd (alloc_stream sid c))"
proof -
  let ?c = "snd (alloc_stream sid c)"
  have streams: "h2_streams ?c = AList.update sid (length (h2_objs c)) (h2_streams c)"
    and objs: "h2_objs ?c = h2_objs c @ [Http2Stream_new (h2_peer c) (h2_owner c) sid]"
    and other: "h2_isClient ?c = h2_isClient c" "h2_sn ?c = h2_sn c"
    by (simp_all add: alloc_stream_def mgr_add_def stream_at_def Http2Stream_new_def Let_def)
  have "sp < length (h2_objs ?c) \<and> st_id (h2_objs ?c ! sp) = k" if "(k, sp) \<in> set (h2_streams ?c)" for k sp
    using in_update [OF that [unfolded streams]] assms(1)
    by (auto simp: objs nth_append registry_ok_def list_all_iff Http2Stream_new_def)
  moreover have "k \<le> h2_sn ?c" if "\<not> h2_isClient ?c" "(k, sp) \<in> set (h2_streams ?c)" for k sp
    using in_update [OF that(2) [unfolded streams]] assms that(1)
    by (auto simp: other registry_ok_def list_all_iff)
  moreover have "distinct (map fst (h2_streams ?c))"
    using assms(1) by (simp add: streams registry_ok_def distinct_update)
  ultimately show ?thesis by (auto simp: registry_ok_def list_all_iff)
qed

lemma registry_sn: "registry_ok c \<Longrightarrow> h2_isClient c \<or> h2_sn c \<le> n \<Longrightarrow> registry_ok (c\<lparr>h2_sn := n\<rparr>)"
  by (fastforce simp: registry_ok_def list_all_iff)

lemma registry_newStream_id: "registry_ok c \<Longrightarrow> registry_ok (snd (newStream_id sid c))"
  using registry_alloc [of "c\<lparr>h2_sn := sid\<rparr>" sid] registry_sn [of c sid]
  by (cases "sid \<le> h2_sn c") (simp_all add: newStream_id_def Let_def split_beta not_le less_imp_le)

lemma registry_newStream: "registry_ok c \<Longrightarrow> h2_isClient c \<Longrightarrow> registry_ok (snd (newStream c))"
  using registry_alloc [of "c\<lparr>h2_sn := h2_sn c + 2\<rparr>" "h2_sn c + 2"] registry_sn [of c "h2_sn c + 2"]
  by (simp add: newStream_def Let_def)

text \<open>The contexts are part of the invariant because a step may answer one.\<close>

lemma registry_same:
  "h2_streams c' = h2_streams c \<Longrightarrow> h2_objs c' = h2_objs c \<Longrightarrow> h2_sn c' = h2_sn c \<Longrightarrow>
     h2_isClient c' = h2_isClient c \<Longrightarrow> registry_ok c' = registry_ok c"
  by (simp add: registry_ok_def)

lemma registry_contexts [simp]:
  "registry_ok (on_ctx p g c) = registry_ok c" "registry_ok (doRsp p c) = registry_ok c"
  "registry_ok (add_request sn req c) = registry_ok c"
  by (simp_all add: on_ctx_def doRsp_def add_request_def addCtx_def enqueue_def Let_def cong: registry_same)

interpretation registry: connection_invariant "\<lambda>c. registry_ok c \<and> ctx_ok c"
proof unfold_locales
qed (auto simp: registry_new registry_on_stream registry_mgr_del registry_newStream_id registry_newStream registry_sn
    contexts.initial contexts.on_stream_keeps contexts.mgr_del_keeps contexts.newStream_id_keeps
    contexts.newStream_keeps contexts.restart_keeps contexts.on_ctx_keeps contexts.doRsp_keeps
    contexts.add_request_keeps contexts.del_ctx_keeps contexts.clear_ctxs_keeps contexts.table_live)

lemma registry_reachable: "h2_step\<^sup>*\<^sup>* (Http2SocketStream_new sock client) c \<Longrightarrow> registry_ok c"
  using registry.reachable by blast

lemma registry_newest:
  "registry_ok c \<Longrightarrow> getStream sid c = Some sp \<Longrightarrow> \<not> h2_isClient c \<Longrightarrow> sid \<le> h2_sn c"
  by (auto simp: registry_ok_def getStream_def list_all_iff dest: map_of_SomeD)

lemma registry_inj: "registry_ok c \<Longrightarrow> getStream j c = Some sp \<Longrightarrow> getStream k c = Some sp \<Longrightarrow> k = j"
  using registry_stream(2) by metis

text \<open>C18. In every state a connection can reach, the stream manager finds streams under their own
  identifier: the pointer returned by \<open>getStream\<close> refers to a live object whose \<open>m_id\<close> is the identifier
  asked for, no other identifier leads to the same object, and on a server an identifier in use is never given to a second
  stream, because it is not above the newest one seen (\<open>newStream\<close> refuses it).\<close>

theorem streams_under_their_ids:
  assumes "h2_step\<^sup>*\<^sup>* (Http2SocketStream_new sock client) c" and "getStream sid c = Some sp"
  shows "sp < length (h2_objs c) \<and> st_id (stream_at sp c) = sid
    \<and> (\<forall>k. getStream k c = Some sp \<longrightarrow> k = sid)
    \<and> (\<not> h2_isClient c \<longrightarrow> newStream_id sid c = (None, c))"
proof -
  note ok = registry_reachable [OF assms(1)]
  have "\<forall>k. getStream k c = Some sp \<longrightarrow> k = sid" using registry_inj [OF ok assms(2)] by blast
  then show ?thesis
    using registry_stream [OF ok assms(2)] registry_newest [OF ok assms(2)] by (simp add: newStream_id_def)
qed

theorem streams_under_their_ids_witness:
  "st_id (stream_at 0 (snd (openStream (HttpRequest_new 0x20 True) (Http2SocketStream_new loop_socket True)))) = 1"
proof -
  let ?c = "snd (openStream (HttpRequest_new 0x20 True) (Http2SocketStream_new loop_socket True))"
  have "h2_step (Http2SocketStream_new loop_socket True) ?c"
    by (rule h2_step.open_stream [where req = "HttpRequest_new 0x20 True", OF _ prod.collapse [symmetric]])
      (simp add: Http2SocketStream_new_def)
  moreover have "getStream 1 ?c = Some 0"
    by (simp add: openStream_def isConnected_def Http2SocketStream_new_def loop_socket_def newStream_def
        SocketStream_isConnected_def alloc_stream_def mgr_add_def getStream_def on_stream_def enqueue_def
        stream_at_def Http2Stream_new_def)
  ultimately show ?thesis
    using streams_under_their_ids [of loop_socket True ?c 1 0] by (simp add: r_into_rtranclp)
qed

section \<open>The send windows\<close>

text \<open>What the peer allows to send on a stream, 0 being the connection.\<close>

definition send_window :: "32 word \<Rightarrow> 'k Http2SocketStream \<Rightarrow> int option" where
  "send_window sid c =
     (if sid = 0 then Some (sint (h2_sendWindow c))
      else map_option (\<lambda>sp. sint (st_sendWindow (stream_at sp c))) (getStream sid c))"

definition goaway_protocol_error :: "32 word \<Rightarrow> Frame" where
  "goaway_protocol_error sn = make_frame GOAWAY 0 0 (Some (GoAway
     \<lparr>ga_last_stream_id = ucast sn, ga_r = 0, ga_error_code = error_code E_PROTOCOL_ERROR, ga_data = []\<rparr>))"

lemma protocol_error_queues:
  "isConnected c \<Longrightarrow> bind_action (protocol_error io) (\<lambda>_. return_action ()) c =
     Inr ((), enqueue (FrameSendCtx (goaway_protocol_error (h2_sn c))) c)"
  by (simp add: bind_action_def protocol_error_def sendGoAway_def sendFrame_def goaway_protocol_error_def)

lemma sint_add:
  assumes "sint w + uint inc \<le> 0x7FFFFFFF"
  shows "sint (w + inc :: 32 word) = sint w + uint inc"
proof -
  have "w + inc = word_of_int (sint w) + word_of_int (uint inc)" by simp
  also have "\<dots> = word_of_int (sint w + uint inc)" by (simp only: of_int_add)
  finally have "w + inc = word_of_int (sint w + uint inc)" .
  moreover have "- (2 ^ 31) \<le> sint w + uint inc" using sint_ge [of w] by (simp add: add_increasing2)
  ultimately show ?thesis
    using assms by (simp only:) (rule sint_of_int; simp)
qed

lemma getStream_on_stream [simp]: "getStream k (on_stream sp f c) = getStream k c"
  by (simp add: getStream_def on_stream_def)

lemma send_window_other:
  assumes "registry_ok c" and "getStream sid c = Some sp" and "k \<noteq> sid"
  shows "send_window k (on_stream sp f c) = send_window k c"
proof -
  have "getStream k c \<noteq> Some sp" using registry_inj [OF assms(1,2), of k] assms(3) by blast
  then show ?thesis
    by (cases "getStream k c") (auto simp: send_window_def getStream_def stream_at_def on_stream_def nth_list_update)
qed

text \<open>C21. WINDOW_UPDATE: an increment that keeps the addressed send window (of the connection or of a known
  stream) at most \<open>2^31 - 1\<close> is added to it exactly, no other window changes and nothing is sent; any other increment, and an
  unknown stream, leave every window as it is and queue a GOAWAY with PROTOCOL_ERROR and the newest stream.\<close>

theorem window_update_exact:
  assumes "registry_ok c" and "isConnected c" and "frame_data frame = Some (WindowUpdate wuf)"
    and "sid = ucast (fh_identifier (header frame))"
  shows "\<exists>c'. handleWindowUpdate io frame c = Inr ((), c') \<and>
    (case send_window sid c of
       Some w \<Rightarrow>
         if w + uint (wu_increment wuf) \<le> 0x7FFFFFFF
         then send_window sid c' = Some (w + uint (wu_increment wuf)) \<and> h2_queue c' = h2_queue c
            \<and> (\<forall>k. k \<noteq> sid \<longrightarrow> send_window k c' = send_window k c)
         else c' = enqueue (FrameSendCtx (goaway_protocol_error (h2_sn c))) c
     | None \<Rightarrow> c' = enqueue (FrameSendCtx (goaway_protocol_error (h2_sn c))) c)"
proof -
  let ?inc = "ucast (wu_increment wuf) :: 32 word"
  have inc: "uint ?inc = uint (wu_increment wuf)"
    by (simp add: unsigned_ucast_eq take_bit_int_eq_self less_trans [OF unsigned_less])
  have limit: "uint MAX_INITIAL_WINDOW_SIZE = 0x7FFFFFFF" by (simp add: MAX_INITIAL_WINDOW_SIZE_def)
  show ?thesis
  proof (cases "send_window sid c")
    case None
    then show ?thesis
      using assms(2,3) by (auto simp: handleWindowUpdate_def Let_def protocol_error_queues send_window_def assms(4)
          split: if_splits)
  next
    case (Some w)
    show ?thesis
    proof (cases "w + uint (wu_increment wuf) \<le> 0x7FFFFFFF")
      case True
      show ?thesis
      proof (cases "sid = 0")
        case zero: True
        with True Some have "handleWindowUpdate io frame c = Inr ((), c\<lparr>h2_sendWindow := h2_sendWindow c + ?inc\<rparr>)"
          using assms(3) by (simp add: handleWindowUpdate_def Let_def assms(4) [symmetric] limit inc send_window_def)
        then show ?thesis
          using True Some zero sint_add [of "h2_sendWindow c" ?inc]
          by (auto simp: send_window_def inc stream_at_def getStream_def)
      next
        case stream: False
        then obtain sp where sp: "getStream sid c = Some sp" and w: "w = sint (st_sendWindow (stream_at sp c))"
          using Some by (auto simp: send_window_def)
        let ?c = "on_stream sp (\<lambda>st. snd (stream_updateSendWindowByDiff ?inc st)) c"
        have "handleWindowUpdate io frame c = Inr ((), ?c)"
          using assms(3) True stream sp w
          by (simp add: handleWindowUpdate_def Let_def assms(4) [symmetric] limit inc)
        moreover have "send_window sid ?c = Some (w + uint (wu_increment wuf))"
          using sint_add [of "st_sendWindow (stream_at sp c)" ?inc] True w stream sp
            registry_stream(1) [OF assms(1) sp]
          by (simp add: send_window_def inc) (simp add: stream_at_def on_stream_def stream_updateSendWindowByDiff_def updateWindowSizeByDiff_def)
        moreover have "h2_queue ?c = h2_queue c" by (simp add: on_stream_def)
        ultimately show ?thesis using True Some send_window_other [OF assms(1) sp] by auto
      qed
    next
      case False
      then show ?thesis
        using Some assms(2,3) by (auto simp: handleWindowUpdate_def Let_def protocol_error_queues send_window_def assms(4)
          limit inc split: if_splits option.splits)
    qed
  qed
qed

theorem window_update_exact_witness:
  "\<exists>c'. handleWindowUpdate loop_io (window_frame 1 100) loop_connection = Inr ((), c')
     \<and> send_window 1 c' = Some 65635 \<and> send_window 0 c' = Some 65535"
proof -
  have "registry_ok loop_connection"
    by (simp add: registry_ok_def loop_connection_simps Http2Stream_new_def loop_connection_def newStream_def
        alloc_stream_def mgr_add_def Http2SocketStream_new_def stream_at_def Let_def)
  moreover have "send_window 1 loop_connection = Some 65535" "send_window 0 loop_connection = Some 65535"
    by (simp_all add: send_window_def getStream_def stream_at_def loop_connection_simps Http2Stream_new_def
        Http2Settings_new_def DEFAULT_INITIAL_WINDOW_SIZE_def)
  ultimately show ?thesis
    using window_update_exact [of loop_connection "window_frame 1 100" "\<lparr>wu_increment = 100, wu_r = 0\<rparr>" 1 loop_io]
    by (auto simp: loop_connection_simps window_frame_def make_frame_def FrameHeader_new_def)
qed

end
