(* ===== verification/WebSocket.thy ===== *)
theory WebSocket
  imports SocketStream Http
begin

text \<open>
  \<^verbatim>\<open>src/chat/http/ws_session.cc\<close>: the frames of the WebSocket protocol, sending and receiving messages over
  a stream, and the answer to the upgrade request. The stream is given by its \<open>read\<close>, \<open>write\<close> and
  \<open>close\<close>; \<open>mx\<close> is \<open>socket.buff_size\<close> and \<open>limit\<close> is \<open>websocket.message.max_size\<close>. The signed length of the data
  received so far does not overflow for a limit of at most \<open>2 ^ 31\<close>, and is then the size of the data.
\<close>

section \<open>Frame heads\<close>

record WSFrameHead =
  ws_opcode :: "4 word"
  ws_rsv3 :: bool
  ws_rsv2 :: bool
  ws_rsv1 :: bool
  ws_fin :: bool
  ws_payload :: "7 word"
  ws_mask :: bool

definition OP_CONTINUE :: "4 word" where "OP_CONTINUE = 0"
definition OP_TEXT_FRAME :: "4 word" where "OP_TEXT_FRAME = 1"
definition OP_BIN_FRAME :: "4 word" where "OP_BIN_FRAME = 2"
definition OP_CLOSE :: "4 word" where "OP_CLOSE = 8"
definition OP_PING :: "4 word" where "OP_PING = 0x9"
definition OP_PONG :: "4 word" where "OP_PONG = 0xA"

lemmas opcodes = OP_CONTINUE_def OP_TEXT_FRAME_def OP_BIN_FRAME_def OP_CLOSE_def OP_PING_def OP_PONG_def

text \<open>The two bytes of the packed bit fields, the first declared in the lowest bits.\<close>

definition flag :: "nat \<Rightarrow> bool \<Rightarrow> byte" where
  "flag i b = push_bit i (of_bool b)"

definition head_image :: "WSFrameHead \<Rightarrow> bytes" where
  "head_image h =
     [ucast (ws_opcode h) OR flag 4 (ws_rsv3 h) OR flag 5 (ws_rsv2 h) OR flag 6 (ws_rsv1 h) OR flag 7 (ws_fin h),
      ucast (ws_payload h) OR flag 7 (ws_mask h)]"

definition head_of :: "bytes \<Rightarrow> WSFrameHead" where
  "head_of bs =
     \<lparr>ws_opcode = ucast (bs ! 0), ws_rsv3 = bit (bs ! 0) 4, ws_rsv2 = bit (bs ! 0) 5, ws_rsv1 = bit (bs ! 0) 6,
      ws_fin = bit (bs ! 0) 7, ws_payload = ucast (bs ! 1), ws_mask = bit (bs ! 1) 7\<rparr>"

definition make_head :: "bool \<Rightarrow> 4 word \<Rightarrow> 7 word \<Rightarrow> bool \<Rightarrow> WSFrameHead" where
  "make_head fin op payload masked =
     \<lparr>ws_opcode = op, ws_rsv3 = False, ws_rsv2 = False, ws_rsv1 = False, ws_fin = fin,
      ws_payload = payload, ws_mask = masked\<rparr>"

record WSFrameMessage =
  wm_opcode :: int
  wm_data :: bytes

section \<open>Pings\<close>

definition ws_control :: "4 word \<Rightarrow> 's raw_writer \<Rightarrow> ('s \<Rightarrow> 's) \<Rightarrow> int \<Rightarrow> 's \<Rightarrow> int \<times> 's" where
  "ws_control op wr cl mx s =
     (case writeFixSize_raw wr mx (head_image (make_head True op 0 False)) s of
        (v, s') \<Rightarrow> if v \<le> 0 then (v, cl s') else (v, s'))"

definition WSPing :: "'s raw_writer \<Rightarrow> ('s \<Rightarrow> 's) \<Rightarrow> int \<Rightarrow> 's \<Rightarrow> int \<times> 's" where
  "WSPing = ws_control OP_PING"

definition WSPong :: "'s raw_writer \<Rightarrow> ('s \<Rightarrow> 's) \<Rightarrow> int \<Rightarrow> 's \<Rightarrow> int \<times> 's" where
  "WSPong = ws_control OP_PONG"

section \<open>Receiving\<close>

definition apply_mask :: "bytes \<Rightarrow> bytes \<Rightarrow> bytes" where
  "apply_mask key bs = map (\<lambda>i. bs ! i XOR key ! (i mod 4)) [0..<length bs]"

text \<open>The extended length; \<open>None\<close> when it cannot be read.\<close>

definition ws_length :: "'s raw_reader \<Rightarrow> int \<Rightarrow> 7 word \<Rightarrow> 's \<Rightarrow> 64 word option \<times> 's" where
  "ws_length rd mx payload s =
     (if payload = 126 then
        (case readFixSize_raw rd mx 2 s of
           (rt, bs, s') \<Rightarrow>
             if rt \<le> 0 then (None, s')
             else (Some (ucast (byteswapOnLittleEndian (mem_value bs :: 16 word))), s'))
      else if payload = 127 then
        (case readFixSize_raw rd mx 8 s of
           (rt, bs, s') \<Rightarrow>
             if rt \<le> 0 then (None, s') else (Some (byteswapOnLittleEndian (mem_value bs)), s'))
      else (Some (ucast payload), s))"

text \<open>One round of the loop: it breaks, goes on with new values of \<open>opcode\<close> and \<open>data\<close>, or returns.\<close>

datatype 's ws_round = Break 's | Again int bytes 's | Return WSFrameMessage 's

definition next_opcode :: "int \<Rightarrow> 4 word \<Rightarrow> int" where
  "next_opcode opcode op = (if opcode = 0 \<and> op \<noteq> OP_CONTINUE then uint op else opcode)"

definition ws_data_frame ::
    "'s raw_reader \<Rightarrow> int \<Rightarrow> 32 word \<Rightarrow> bool \<Rightarrow> WSFrameHead \<Rightarrow> int \<Rightarrow> bytes \<Rightarrow> 's \<Rightarrow> 's ws_round" where
  "ws_data_frame rd mx limit client head opcode dat s =
     (if \<not> client \<and> \<not> ws_mask head then Break s
      else case ws_length rd mx (ws_payload head) s of
        (None, s1) \<Rightarrow> Break s1
      | (Some len, s1) \<Rightarrow>
          if of_nat (length dat) + len \<ge> ucast limit then Break s1
          else case (if ws_mask head then readFixSize_raw rd mx 4 s1 else (4, [0, 0, 0, 0], s1)) of
            (rt, key, s2) \<Rightarrow>
              if rt \<le> 0 then Break s2
              else case readFixSize_raw rd mx (unat len) s2 of
                (rt, bs, s3) \<Rightarrow>
                  if rt \<le> 0 then Break s3
                  else
                    let dat' = dat @ (if ws_mask head then apply_mask key bs else bs);
                        opcode' = next_opcode opcode (ws_opcode head)
                    in if ws_fin head then Return \<lparr>wm_opcode = opcode', wm_data = dat'\<rparr> s3
                       else Again opcode' dat' s3)"

definition ws_round ::
    "'s raw_reader \<Rightarrow> 's raw_writer \<Rightarrow> ('s \<Rightarrow> 's) \<Rightarrow> int \<Rightarrow> 32 word \<Rightarrow> bool \<Rightarrow> int \<Rightarrow> bytes \<Rightarrow> 's \<Rightarrow> 's ws_round" where
  "ws_round rd wr cl mx limit client opcode dat s =
     (case readFixSize_raw rd mx 2 s of
        (rt, bs, s1) \<Rightarrow>
          if rt \<le> 0 then Break s1
          else
            let head = head_of bs in
            if ws_opcode head = OP_PING then
              (case WSPong wr cl mx s1 of (v, s2) \<Rightarrow> if v \<le> 0 then Break s2 else Again opcode dat s2)
            else if ws_opcode head = OP_PONG then Again opcode dat s1
            else if ws_opcode head = OP_CONTINUE \<or> ws_opcode head = OP_TEXT_FRAME \<or> ws_opcode head = OP_BIN_FRAME
            then ws_data_frame rd mx limit client head opcode dat s1
            else Again opcode dat s1)"

text \<open>The loop ends only with a round that breaks or returns; \<open>None\<close> stands for a loop that goes on for ever.\<close>

partial_function (option) ws_recv_loop ::
    "'s raw_reader \<Rightarrow> 's raw_writer \<Rightarrow> ('s \<Rightarrow> 's) \<Rightarrow> int \<Rightarrow> 32 word \<Rightarrow> bool \<Rightarrow> int \<Rightarrow> bytes \<Rightarrow> 's \<Rightarrow>
     (WSFrameMessage option \<times> 's) option" where
  "ws_recv_loop rd wr cl mx limit client opcode dat s =
     (case ws_round rd wr cl mx limit client opcode dat s of
        Break s1 \<Rightarrow> Some (None, cl s1)
      | Return msg s1 \<Rightarrow> Some (Some msg, s1)
      | Again opcode' dat' s1 \<Rightarrow> ws_recv_loop rd wr cl mx limit client opcode' dat' s1)"

definition WSRecvMessage ::
    "'s raw_reader \<Rightarrow> 's raw_writer \<Rightarrow> ('s \<Rightarrow> 's) \<Rightarrow> int \<Rightarrow> 32 word \<Rightarrow> bool \<Rightarrow> 's \<Rightarrow> (WSFrameMessage option \<times> 's) option" where
  "WSRecvMessage rd wr cl mx limit client s = ws_recv_loop rd wr cl mx limit client 0 [] s"

section \<open>Sending\<close>

definition payload_field :: "nat \<Rightarrow> 7 word" where
  "payload_field n = (if n < 126 then of_nat n else if n < 65536 then 126 else 127)"

definition length_field :: "nat \<Rightarrow> bytes" where
  "length_field n =
     (if payload_field n = 126 then mem_image 2 (byteswapOnLittleEndian (of_nat n :: 16 word))
      else if payload_field n = 127 then mem_image 8 (byteswapOnLittleEndian (of_nat n :: 64 word))
      else [])"

text \<open>The parts are written one after the other; a part that fails ends the sending and closes the stream.\<close>

fun write_parts :: "'s raw_writer \<Rightarrow> int \<Rightarrow> bytes list \<Rightarrow> 's \<Rightarrow> bool \<times> 's" where
  "write_parts wr mx [] s = (True, s)"
| "write_parts wr mx (p # ps) s =
     (case writeFixSize_raw wr mx p s of (rt, s') \<Rightarrow> if rt \<le> 0 then (False, s') else write_parts wr mx ps s')"

text \<open>
  \<open>rnd\<close> is what \<open>rand()\<close> returns. A client masks the data of the message itself, which keeps the masked
  data; the length field is written only when there is one.
\<close>

definition WSSendMessage ::
    "'s raw_writer \<Rightarrow> ('s \<Rightarrow> 's) \<Rightarrow> int \<Rightarrow> 32 word \<Rightarrow> WSFrameMessage \<Rightarrow> bool \<Rightarrow> bool \<Rightarrow> 's \<Rightarrow> int \<times> WSFrameMessage \<times> 's" where
  "WSSendMessage wr cl mx rnd msg client fin s =
     (let n = length (wm_data msg);
          head = make_head fin (of_int (wm_opcode msg)) (payload_field n) client;
          fail = (\<lambda>msg s. (-1, msg, cl s))
      in case write_parts wr mx ([head_image head] @ (if n < 126 then [] else [length_field n])) s of
           (False, s1) \<Rightarrow> fail msg s1
         | (True, s1) \<Rightarrow>
             let key = mem_image 4 rnd;
                 msg' = (if client then msg\<lparr>wm_data := apply_mask key (wm_data msg)\<rparr> else msg)
             in case write_parts wr mx ((if client then [key] else []) @ [wm_data msg']) s1 of
                  (False, s2) \<Rightarrow> fail msg' s2
                | (True, s2) \<Rightarrow> (c_int (n + 2), msg', s2))"

text \<open>The methods of the two classes: a session is a server, a connection a client.\<close>

definition WSSession_recvMessage ::
    "'s raw_reader \<Rightarrow> 's raw_writer \<Rightarrow> ('s \<Rightarrow> 's) \<Rightarrow> int \<Rightarrow> 32 word \<Rightarrow> 's \<Rightarrow> (WSFrameMessage option \<times> 's) option" where
  "WSSession_recvMessage rd wr cl mx limit s = WSRecvMessage rd wr cl mx limit False s"

definition WSSession_sendMessage ::
    "'s raw_writer \<Rightarrow> ('s \<Rightarrow> 's) \<Rightarrow> int \<Rightarrow> 32 word \<Rightarrow> WSFrameMessage \<Rightarrow> bool \<Rightarrow> 's \<Rightarrow> int \<times> WSFrameMessage \<times> 's" where
  "WSSession_sendMessage wr cl mx rnd msg fin s = WSSendMessage wr cl mx rnd msg False fin s"

definition WSConnection_recvMessage ::
    "'s raw_reader \<Rightarrow> 's raw_writer \<Rightarrow> ('s \<Rightarrow> 's) \<Rightarrow> int \<Rightarrow> 32 word \<Rightarrow> 's \<Rightarrow> (WSFrameMessage option \<times> 's) option" where
  "WSConnection_recvMessage rd wr cl mx limit s = WSRecvMessage rd wr cl mx limit True s"

definition WSConnection_sendMessage ::
    "'s raw_writer \<Rightarrow> ('s \<Rightarrow> 's) \<Rightarrow> int \<Rightarrow> 32 word \<Rightarrow> WSFrameMessage \<Rightarrow> bool \<Rightarrow> 's \<Rightarrow> int \<times> WSFrameMessage \<times> 's" where
  "WSConnection_sendMessage wr cl mx rnd msg fin s = WSSendMessage wr cl mx rnd msg True fin s"

section \<open>The handshake\<close>

text \<open>
  What \<open>handleShake\<close> does with a request it received: the request, marked as a WebSocket, and the response it
  sends, or \<open>None\<close> for a request that is not an upgrade. \<open>sha1sum\<close> calls OpenSSL and \<open>as_int\<close> is
  \<open>boost::lexical_cast<int>\<close>, \<open>None\<close> when it throws.
\<close>

definition ws_upgrade ::
    "(bytes \<Rightarrow> bytes) \<Rightarrow> (bytes \<Rightarrow> int option) \<Rightarrow> HttpRequest \<Rightarrow> (HttpRequest \<times> HttpResponse) option" where
  "ws_upgrade sha1sum as_int req =
     (let version = (case req_hasHeader (str ''Sec-webSocket-Version'') req of
                       None \<Rightarrow> 0
                     | Some v \<Rightarrow> (case as_int v of None \<Rightarrow> 0 | Some n \<Rightarrow> n));
          key = req_getHeader (str ''Sec-WebSocket-Key'') [] req
      in if \<not> same_name (req_getHeader (str ''Upgrade'') [] req) (str ''websocket'') then None
         else if \<not> same_name (req_getHeader (str ''Connection'') [] req) (str ''Upgrade'') then None
         else if version \<noteq> 13 then None
         else if key = [] then None
         else
           let v = base64encode (sha1sum (key @ str ''258EAFA5-E914-47DA-95CA-C5AB0DC85B11'')) False;
               req' = req\<lparr>rq_websocket := True\<rparr>;
               rsp = (createResponse req')\<lparr>rs_status := 101, rs_websocket := True,
                       rs_reason := str ''Web Socket Protocol Handshake''\<rparr>
           in Some (req', rsp_setHeader (str ''Sec-WebSocket-Accept'') v
                (rsp_setHeader (str ''Connection'') (str ''Upgrade'')
                (rsp_setHeader (str ''Upgrade'') (str ''websocket'') rsp))))"

section \<open>The image of a frame\<close>

lemma head_of_image [simp]: "head_of (head_image (make_head fin op payload masked)) = make_head fin op payload masked"
proof -
  have "ucast (ucast op OR flag 7 fin :: byte) = op"
    by (rule bit_word_eqI) (auto simp: flag_def bit_ucast_iff bit_or_iff bit_push_bit_iff bit_of_bool_iff)
  moreover have "ucast (ucast payload OR flag 7 masked :: byte) = payload"
    by (rule bit_word_eqI) (auto simp: flag_def bit_ucast_iff bit_or_iff bit_push_bit_iff bit_of_bool_iff)
  moreover have "bit (ucast op OR flag 7 fin :: byte) 7 = fin" "bit (ucast payload OR flag 7 masked :: byte) 7 = masked"
    "\<not> bit (ucast op OR flag 7 fin :: byte) 4" "\<not> bit (ucast op OR flag 7 fin :: byte) 5"
    "\<not> bit (ucast op OR flag 7 fin :: byte) 6"
    by (auto simp: flag_def bit_ucast_iff bit_or_iff bit_push_bit_iff bit_of_bool_iff
        dest: bit_imp_le_length)
  ultimately show ?thesis
    by (simp add: head_of_def head_image_def make_head_def) (simp add: flag_def)
qed

lemma make_head_sel [simp]:
  "ws_opcode (make_head fin op payload masked) = op" "ws_fin (make_head fin op payload masked) = fin"
  "ws_payload (make_head fin op payload masked) = payload" "ws_mask (make_head fin op payload masked) = masked"
  by (simp_all add: make_head_def)

lemma length_head_image [simp]: "length (head_image h) = 2"
  by (simp add: head_image_def)

lemma apply_mask_twice [simp]: "apply_mask key (apply_mask key bs) = bs"
  by (rule nth_equalityI) (simp_all add: apply_mask_def xor.assoc)

lemma length_apply_mask [simp]: "length (apply_mask key bs) = length bs"
  by (simp add: apply_mask_def)

lemma apply_mask_Nil [simp]: "apply_mask key bs = [] \<longleftrightarrow> bs = []"
  by (simp add: apply_mask_def)

lemma mem_image_Nil [simp]: "mem_image n w = [] \<longleftrightarrow> n = 0"
  by (cases n) simp_all

definition frame_bytes :: "bool \<Rightarrow> bool \<Rightarrow> 4 word \<Rightarrow> bytes \<Rightarrow> bytes \<Rightarrow> bytes" where
  "frame_bytes client fin op key bs =
     head_image (make_head fin op (payload_field (length bs)) client) @ length_field (length bs)
       @ (if client then key @ apply_mask key bs else bs)"

text \<open>How the three forms of the length are told apart.\<close>

lemma payload_field_cases:
  "payload_field n = 126 \<longleftrightarrow> 126 \<le> n \<and> n < 65536" "payload_field n = 127 \<longleftrightarrow> 65536 \<le> n"
proof -
  have small: "uint (of_nat n :: 7 word) = int n" if "n < 126"
    using that by (simp add: unsigned_of_nat take_bit_nat_eq_self flip: of_nat_take_bit)
  have "(of_nat n :: 7 word) \<noteq> 126 \<and> (of_nat n :: 7 word) \<noteq> 127" if "n < 126"
    using small [OF that] that by (auto dest: arg_cong [where f = uint])
  then show "payload_field n = 126 \<longleftrightarrow> 126 \<le> n \<and> n < 65536" "payload_field n = 127 \<longleftrightarrow> 65536 \<le> n"
    by (auto simp: payload_field_def)
qed

lemma byteswap_twice16: "byteswap (byteswap w) = (w :: 16 word)"
  using mem_image_byteswap [of w] mem_value_image_full [of 2 w] by (simp add: byteswap_def)

lemma byteswap_twice64: "byteswap (byteswap w) = (w :: 64 word)"
  using mem_image_byteswap [of w] mem_value_image_full [of 8 w] by (simp add: byteswap_def)

lemma length_field_value:
  "126 \<le> n \<Longrightarrow> n < 65536 \<Longrightarrow> ucast (byteswapOnLittleEndian (mem_value (length_field n) :: 16 word)) = (of_nat n :: 64 word)"
  "65536 \<le> n \<Longrightarrow> byteswapOnLittleEndian (mem_value (length_field n)) = (of_nat n :: 64 word)"
proof -
  have "ucast (of_nat n :: 16 word) = (of_nat n :: 64 word)" if "n < 65536"
    using that by (intro word_uint_eqI) (simp add: unsigned_ucast_eq unsigned_of_nat take_bit_nat_eq_self flip: of_nat_take_bit)
  then show "126 \<le> n \<Longrightarrow> n < 65536 \<Longrightarrow> ucast (byteswapOnLittleEndian (mem_value (length_field n) :: 16 word)) = (of_nat n :: 64 word)"
    "65536 \<le> n \<Longrightarrow> byteswapOnLittleEndian (mem_value (length_field n)) = (of_nat n :: 64 word)"
    by (simp_all add: length_field_def payload_field_cases byteswapOnLittleEndian_def CHAT_BYTE_ORDER_def
        mem_value_image_full byteswap_twice16 byteswap_twice64)
qed

lemma length_length_field:
  "length (length_field n) = (if n < 126 then 0 else if n < 65536 then 2 else 8)"
  by (simp add: length_field_def payload_field_cases)

text \<open>A message in fragments: the pieces after the first have the opcode CONTINUE, the last one has FIN.\<close>

fun message_bytes :: "bool \<Rightarrow> 4 word \<Rightarrow> (32 word \<times> bytes) list \<Rightarrow> bytes" where
  "message_bytes client op [] = []"
| "message_bytes client op ((rnd, bs) # ps) =
     frame_bytes client (ps = []) op (mem_image 4 rnd) bs @ message_bytes client OP_CONTINUE ps"

fun send_fragments ::
    "'s raw_writer \<Rightarrow> ('s \<Rightarrow> 's) \<Rightarrow> int \<Rightarrow> bool \<Rightarrow> int \<Rightarrow> (32 word \<times> bytes) list \<Rightarrow> 's \<Rightarrow> bool \<times> 's" where
  "send_fragments wr cl mx client opcode [] s = (True, s)"
| "send_fragments wr cl mx client opcode ((rnd, bs) # ps) s =
     (case WSSendMessage wr cl mx rnd \<lparr>wm_opcode = opcode, wm_data = bs\<rparr> client (ps = []) s of
        (rt, _, s') \<Rightarrow> if rt \<le> 0 then (False, s') else send_fragments wr cl mx client 0 ps s')"

abbreviation fragments_ok :: "(32 word \<times> bytes) list \<Rightarrow> bool" where
  "fragments_ok ps \<equiv> list_all (\<lambda>(_, bs). bs \<noteq> [] \<and> length bs + 2 < 2 ^ 31) ps"

section \<open>Messages over a stream\<close>

context raw_stream
begin

lemma ws_length_reads:
  assumes "inc s = length_field n @ rest" and "n < 2 ^ 31"
  obtains s' where "ws_length rd mx (payload_field n) s = (Some (of_nat n), s')" "inc s' = rest"
proof (cases "n < 126")
  case True
  then have "inc s = rest" "ucast (payload_field n) = (of_nat n :: 64 word)"
    using assms(1) length_length_field [of n]
    by (auto simp: payload_field_def unsigned_ucast_eq unsigned_of_nat take_bit_nat_eq_self
        intro!: word_uint_eqI simp flip: of_nat_take_bit)
  moreover have "payload_field n \<noteq> 126" "payload_field n \<noteq> 127" using True by (simp_all add: payload_field_cases)
  ultimately show ?thesis by (intro that [of s]) (simp_all add: ws_length_def)
next
  case False
  obtain s' where r: "readFixSize_raw rd mx (length (length_field n)) s = (int (length (length_field n)), length_field n, s')"
    and i: "inc s' = rest"
    using raw_read_exact [OF assms(1)] length_length_field [of n] by (auto split: if_splits)
  show ?thesis
  proof (cases "n < 65536")
    case True
    with False r i show ?thesis
      by (intro that [of s']) (simp_all add: ws_length_def payload_field_cases length_length_field length_field_value)
  next
    case big: False
    then show ?thesis
      using r i by (intro that [of s']) (simp_all add: ws_length_def payload_field_cases length_length_field length_field_value)
  qed
qed

lemma write_parts_writes:
  assumes "up s" and "list_all (\<lambda>p. p \<noteq> [] \<and> length p < 2 ^ 31) ps"
  obtains s' where "write_parts wr mx ps s = (True, s')" "up s'" "out s' = out s @ concat ps"
proof -
  have "\<exists>s'. write_parts wr mx ps s = (True, s') \<and> up s' \<and> out s' = out s @ concat ps"
    using assms
  proof (induction ps arbitrary: s)
    case (Cons p ps)
    obtain s1 where 1: "writeFixSize_raw wr mx p s = (int (length p), s1)" "up s1" "out s1 = out s @ p"
      using raw_write_exact [of s p] Cons.prems by auto
    from Cons.IH [OF 1(2)] Cons.prems 1 show ?case by auto
  qed simp
  with that show ?thesis by blast
qed

lemma WSSendMessage_sends:
  assumes "up s" and "wm_data msg \<noteq> []" and "length (wm_data msg) + 2 < 2 ^ 31"
  obtains s' where "WSSendMessage wr cl mx rnd msg client fin s =
      (int (length (wm_data msg)) + 2,
       (if client then msg\<lparr>wm_data := apply_mask (mem_image 4 rnd) (wm_data msg)\<rparr> else msg), s')"
    "up s'" "out s' = out s @ frame_bytes client fin (of_int (wm_opcode msg)) (mem_image 4 rnd) (wm_data msg)"
proof -
  let ?n = "length (wm_data msg)" and ?key = "mem_image 4 rnd"
  let ?head = "make_head fin (of_int (wm_opcode msg)) (payload_field ?n) client"
  let ?msg = "if client then msg\<lparr>wm_data := apply_mask ?key (wm_data msg)\<rparr> else msg"
  let ?ps = "[head_image ?head] @ (if ?n < 126 then [] else [length_field ?n])"
  let ?qs = "(if client then [?key] else []) @ [wm_data ?msg]"
  have l: "length_field ?n = [] \<longleftrightarrow> ?n < 126" "length (length_field ?n) \<le> 8"
    using length_length_field [of ?n] by (auto simp flip: length_0_conv)
  have parts: "list_all (\<lambda>p. p \<noteq> [] \<and> length p < 2 ^ 31) ?ps"
    using l by (auto simp: head_image_def)
  have parts2: "list_all (\<lambda>p. p \<noteq> [] \<and> length p < 2 ^ 31) ?qs"
    using assms(2,3) by (cases client) simp_all
  obtain s1 where 1: "write_parts wr mx ?ps s = (True, s1)" "up s1" "out s1 = out s @ concat ?ps"
    using write_parts_writes [OF assms(1) parts] by blast
  obtain s2 where 2: "write_parts wr mx ?qs s1 = (True, s2)" "up s2" "out s2 = out s1 @ concat ?qs"
    using write_parts_writes [OF 1(2) parts2] by blast
  have "out s2 = out s @ frame_bytes client fin (of_int (wm_opcode msg)) ?key (wm_data msg)"
    using 1(3) 2(3) l(1) by (auto simp: frame_bytes_def)
  moreover have "WSSendMessage wr cl mx rnd msg client fin s = (int ?n + 2, ?msg, s2)"
    using 1(1) 2(1) c_int_small(1) [of "?n + 2"] assms(3) unfolding WSSendMessage_def Let_def by simp
  ultimately show ?thesis using that 2(2) by blast
qed

lemma ws_round_data:
  assumes "inc s = frame_bytes masked fin op key bs @ rest" and "op \<in> {OP_CONTINUE, OP_TEXT_FRAME, OP_BIN_FRAME}"
    and "length key = 4" and "bs \<noteq> []" and "int (length dat + length bs) < uint limit" and "length dat + length bs < 2 ^ 31"
    and "masked \<or> client"
  obtains s' where "ws_round rd wr cl mx limit client opcode dat s =
      (if fin then Return \<lparr>wm_opcode = next_opcode opcode op, wm_data = dat @ bs\<rparr> s' else Again (next_opcode opcode op) (dat @ bs) s')"
    "inc s' = rest"
proof -
  let ?n = "length bs" and ?head = "make_head fin op (payload_field (length bs)) masked"
  obtain s1 where 1: "readFixSize_raw rd mx 2 s = (2, head_image ?head, s1)"
    "inc s1 = length_field ?n @ (if masked then key @ apply_mask key bs else bs) @ rest"
    using raw_read_exact [of s "head_image ?head"] assms(1) by (auto simp: frame_bytes_def)
  obtain s2 where 2: "ws_length rd mx (payload_field ?n) s1 = (Some (of_nat ?n), s2)"
    "inc s2 = (if masked then key @ apply_mask key bs else bs) @ rest"
    using ws_length_reads [OF 1(2)] assms(6) by auto
  let ?key = "if masked then key else [0, 0, 0, 0]" and ?bs = "if masked then apply_mask key bs else bs"
  obtain s3 where 3: "(if masked then readFixSize_raw rd mx 4 s2 else (4, [0, 0, 0, 0], s2)) = (4, ?key, s3)"
    "inc s3 = ?bs @ rest"
    using raw_read_exact [of s2 key "apply_mask key bs @ rest"] 2(2) assms(3) by (auto split: if_splits)
  have lb: "length ?bs = ?n" by simp
  obtain s4 where 4: "readFixSize_raw rd mx ?n s3 = (int ?n, ?bs, s4)" "inc s4 = rest"
    using raw_read_exact [OF 3(2)] assms(6) unfolding lb by auto
  have small: "unat (of_nat ?n :: 64 word) = ?n" using assms(6) by (simp add: unsigned_of_nat take_bit_nat_eq_self)
  have "uint (of_nat (length dat) + of_nat ?n :: 64 word) = int (length dat + ?n)"
    using assms(6) by (simp add: unsigned_of_nat take_bit_nat_eq_self flip: of_nat_add of_nat_take_bit)
  moreover have "uint (ucast limit :: 64 word) = uint limit"
    by (simp add: unsigned_ucast_eq take_bit_int_eq_self less_trans [OF unsigned_less])
  ultimately have lim: "\<not> of_nat (length dat) + of_nat ?n \<ge> (ucast limit :: 64 word)"
    using assms(5) by (simp add: word_le_def)
  have data: "ws_data_frame rd mx limit client ?head opcode dat s1 =
      (if fin then Return \<lparr>wm_opcode = next_opcode opcode op, wm_data = dat @ bs\<rparr> s4 else Again (next_opcode opcode op) (dat @ bs) s4)"
    using 2(1) 3(1) 4(1) lim small assms(4,7)
    by (auto simp: ws_data_frame_def split: if_splits)
  have "ws_round rd wr cl mx limit client opcode dat s = ws_data_frame rd mx limit client ?head opcode dat s1"
    using 1(1) assms(2) by (auto simp: ws_round_def Let_def opcodes)
  with that [of s4] data 4(2) show ?thesis by simp
qed

lemma send_fragments_sends:
  assumes "up s" and "fragments_ok ps"
  shows "\<exists>s'. send_fragments wr cl mx client opcode ps s = (True, s') \<and> up s'
    \<and> out s' = out s @ message_bytes client (of_int opcode) ps"
  using assms
proof (induction ps arbitrary: opcode s)
  case (Cons p ps)
  obtain rnd bs where p: "p = (rnd, bs)" by (cases p)
  let ?m = "\<lparr>wm_opcode = opcode, wm_data = bs\<rparr>"
  have "wm_data ?m \<noteq> []" "length (wm_data ?m) + 2 < 2 ^ 31" using Cons.prems(2) p by simp_all
  from WSSendMessage_sends [OF Cons.prems(1) this, where cl = cl and rnd = rnd and client = client and fin = "ps = []"]
  obtain s1 msg where 1: "WSSendMessage wr cl mx rnd ?m client (ps = []) s = (int (length (wm_data ?m)) + 2, msg, s1)"
    "up s1" "out s1 = out s @ frame_bytes client (ps = []) (of_int (wm_opcode ?m)) (mem_image 4 rnd) (wm_data ?m)"
    by blast
  from Cons.IH [OF 1(2), of 0] Cons.prems(2) 1 show ?case by (auto simp: p OP_CONTINUE_def)
qed simp

lemma recv_fragments:
  assumes "inc s = message_bytes masked op ps @ rest" and "ps \<noteq> []" and "fragments_ok ps"
    and "op \<in> {OP_CONTINUE, OP_TEXT_FRAME, OP_BIN_FRAME}" and "masked \<or> client"
    and "int (length dat + length (concat (map snd ps))) < uint limit"
    and "length dat + length (concat (map snd ps)) < 2 ^ 31"
  shows "\<exists>s'. ws_recv_loop rd wr cl mx limit client opcode dat s =
      Some (Some \<lparr>wm_opcode = next_opcode opcode op, wm_data = dat @ concat (map snd ps)\<rparr>, s') \<and> inc s' = rest"
  using assms
proof (induction ps arbitrary: op opcode dat s)
  case (Cons p ps)
  obtain rnd bs where p: "p = (rnd, bs)" by (cases p)
  have "inc s = frame_bytes masked (ps = []) op (mem_image 4 rnd) bs @ message_bytes masked OP_CONTINUE ps @ rest"
    using Cons.prems(1) p by simp
  from ws_round_data [OF this Cons.prems(4), where dat = dat and limit = limit and client = client and cl = cl and opcode = opcode] Cons.prems(3,5,6,7) p
  obtain s1 where 1: "ws_round rd wr cl mx limit client opcode dat s =
      (if ps = [] then Return \<lparr>wm_opcode = next_opcode opcode op, wm_data = dat @ bs\<rparr> s1
       else Again (next_opcode opcode op) (dat @ bs) s1)" "inc s1 = message_bytes masked OP_CONTINUE ps @ rest"
    by auto
  show ?case
  proof (cases "ps = []")
    case True
    with 1 p show ?thesis by (simp add: ws_recv_loop.simps)
  next
    case False
    have "next_opcode x OP_CONTINUE = x" for x by (simp add: next_opcode_def)
    with Cons.IH [OF 1(2) False, of "dat @ bs" "next_opcode opcode op"] Cons.prems(3,5,6,7) 1(1) False p
    show ?thesis by (simp add: ws_recv_loop.simps [of _ _ _ _ _ _ opcode] add.assoc)
  qed
qed simp

end

text \<open>C16. WebSocket messages arrive as they were sent. A text or binary message of any number of non-empty
  fragments, whose total length is below the configured maximum (itself at most \<open>2 ^ 30\<close>), sent with \<open>WSSendMessage\<close> over a
  connected socket by a client (masked, with any random keys) or a server (not masked), is sent
  completely; the other side, however the kernel splits the data, returns from \<open>WSRecvMessage\<close> with one
  message that has the opcode of the first fragment and the fragments' data in order, and leaves
  what follows it unread.\<close>

theorem ws_message_roundtrip:
  assumes "receives recvmsg inc" and "sends sendmsg out" and "0 < mx" and "SocketStream_isConnected s"
    and "opcode \<in> {1, 2}" and "ps \<noteq> []" and "list_all (\<lambda>(_, bs). bs \<noteq> []) ps"
    and "int (length (concat (map snd ps))) < uint limit" and "uint limit \<le> 2 ^ 30"
  shows "\<exists>sent s'. send_fragments (SocketStream_write_raw sendmsg) cl mx client opcode ps s = (True, s')
    \<and> stream_out out s' = stream_out out s @ sent
    \<and> (\<forall>t rest. stream_in inc t = sent @ rest \<longrightarrow>
        (\<exists>t'. WSRecvMessage (SocketStream_read_raw recvmsg) (SocketStream_write_raw sendmsg) cl mx limit (\<not> client) t =
            Some (Some \<lparr>wm_opcode = opcode, wm_data = concat (map snd ps)\<rparr>, t') \<and> stream_in inc t' = rest))"
proof -
  note rs = socket_raw_stream [OF assms(1-3)]
  have len: "length bs \<le> length (concat (map snd ps))" if "(r, bs) \<in> set ps" for r bs
    using that by (force simp: length_concat intro: member_le_sum_list)
  have ok: "fragments_ok ps"
    using assms(7-9) len by (fastforce simp: list_all_iff)
  have op: "of_int opcode \<in> {OP_CONTINUE, OP_TEXT_FRAME, OP_BIN_FRAME}" "next_opcode 0 (of_int opcode) = opcode"
    using assms(5) by (auto simp: opcodes next_opcode_def)
  obtain s' where s': "send_fragments (SocketStream_write_raw sendmsg) cl mx client opcode ps s = (True, s')"
    "stream_out out s' = stream_out out s @ message_bytes client (of_int opcode) ps"
    using raw_stream.send_fragments_sends [OF rs assms(4) ok] by blast
  have "\<exists>t'. WSRecvMessage (SocketStream_read_raw recvmsg) (SocketStream_write_raw sendmsg) cl mx limit (\<not> client) t =
        Some (Some \<lparr>wm_opcode = opcode, wm_data = concat (map snd ps)\<rparr>, t') \<and> stream_in inc t' = rest"
    if "stream_in inc t = message_bytes client (of_int opcode) ps @ rest" for t rest
    using raw_stream.recv_fragments [OF rs that assms(6) ok op(1), where client = "\<not> client" and dat = "[]" and limit = limit and cl = cl and opcode = 0] assms(8,9) op(2)
    unfolding WSRecvMessage_def by simp
  with s' show ?thesis by blast
qed

theorem ws_message_roundtrip_witness:
  "\<exists>sent s'. send_fragments (SocketStream_write_raw loop_sendmsg) id 4096 True 1 [(7, [104, 105]), (9, [33])]
       \<lparr>m_socket = Some \<lparr>m_isConnected = True, m_sock = \<lparr>lb_in = [], lb_out = []\<rparr>\<rparr>\<rparr> = (True, s')
     \<and> (\<forall>t rest. stream_in lb_in t = sent @ rest \<longrightarrow>
         (\<exists>t'. WSRecvMessage (SocketStream_read_raw loop_recvmsg) (SocketStream_write_raw loop_sendmsg) id 4096 1000 False t =
             Some (Some \<lparr>wm_opcode = 1, wm_data = [104, 105, 33]\<rparr>, t') \<and> stream_in lb_in t' = rest))"
  using ws_message_roundtrip [OF loopback_laws, of 4096
      "\<lparr>m_socket = Some \<lparr>m_isConnected = True, m_sock = \<lparr>lb_in = [], lb_out = []\<rparr>\<rparr>\<rparr>" 1
      "[(7, [104, 105]), (9, [33])]" 1000 id True]
  by (fastforce simp: SocketStream_isConnected_def)

section \<open>Empty messages\<close>

lemma write_parts_empty: "\<exists>s'. write_parts wr mx (ps @ [[]]) s = (False, s')"
  by (induction ps arbitrary: s)
    (auto simp: writeFixSize_raw_def write_raw_loop.simps c_int_def split: prod.split)

text \<open>A transfer of zero bytes returns 0, which is taken for a failure: an empty message cannot be sent, and a
  masked empty frame makes the receiver close the stream.\<close>

theorem empty_message_not_sent:
  "\<exists>msg' s'. WSSendMessage wr cl mx rnd \<lparr>wm_opcode = opcode, wm_data = []\<rparr> client fin s = (-1, msg', cl s')"
proof -
  let ?msg = "\<lparr>wm_opcode = opcode, wm_data = []\<rparr>" and ?key = "mem_image 4 rnd"
  have key: "apply_mask ?key [] = []" by simp
  obtain b s1 where 1: "write_parts wr mx [head_image (make_head fin (of_int opcode) (payload_field 0) client)] s = (b, s1)"
    by (cases "write_parts wr mx [head_image (make_head fin (of_int opcode) (payload_field 0) client)] s")
  obtain s2 where 2: "write_parts wr mx ((if client then [?key] else []) @ [[]]) s1 = (False, s2)"
    using write_parts_empty [of wr mx "if client then [?key] else []" s1] by blast
  show ?thesis
    using 1 2 key unfolding WSSendMessage_def Let_def
    by (cases b; cases client) (auto simp del: write_parts.simps apply_mask_Nil)
qed

end
