(* ===== verification/Servlets.thy ===== *)
theory Servlets
  imports Http "HOL-Library.AList"
begin

text \<open>
  \<^verbatim>\<open>src/chat/http/servlet.cc\<close>: the servlets of a server and the dispatch of requests to them. A servlet is its
  name and what its \<open>handle\<close> does with a request and a response; pointers to servlets may be null.
  \<open>fnmatch\<close> is the function of the C library, \<open>True\<close> for a match (when it returns 0).
\<close>

section \<open>Servlets and their creators\<close>

record Servlet =
  sv_name :: bytes
  sv_handle :: "HttpRequest \<Rightarrow> HttpResponse \<Rightarrow> int \<times> HttpResponse"

definition FunctionServlet :: "(HttpRequest \<Rightarrow> HttpResponse \<Rightarrow> int \<times> HttpResponse) \<Rightarrow> Servlet" where
  "FunctionServlet cb = \<lparr>sv_name = str ''FunctionServlet'', sv_handle = cb\<rparr>"

definition not_found_content :: "bytes \<Rightarrow> bytes" where
  "not_found_content name =
     str ''<html><head><title>404 Not Found'' @ str ''</title></head><body><center><h1>404 Not Found</h1></center>''
       @ str ''<hr><center>'' @ name @ str ''</center></body></html>''"

definition NotFoundServlet :: "bytes \<Rightarrow> Servlet" where
  "NotFoundServlet name =
     \<lparr>sv_name = str ''NotFoundServlet'',
      sv_handle = (\<lambda>req rsp. (0, (rsp_setHeader (str ''Content-Type'') (str ''text/html'')
        (rsp_setHeader (str ''Server'') (str ''chat/1.0.0'') (rsp\<lparr>rs_status := 404\<rparr>)))
        \<lparr>rs_body := not_found_content name\<rparr>))\<rparr>"

text \<open>A \<open>ServletCreator<T>\<close> makes a new \<open>T\<close> for every request; the second component is what it makes.\<close>

datatype IServletCreator = HoldServletCreator "Servlet option" | ServletCreator bytes Servlet

primrec creator_get :: "IServletCreator \<Rightarrow> Servlet option" where
  "creator_get (HoldServletCreator slt) = slt"
| "creator_get (ServletCreator name slt) = Some slt"

section \<open>The dispatch\<close>

record ServletDispatch =
  sd_datas :: "(bytes \<times> IServletCreator) list"
  sd_globs :: "(bytes \<times> IServletCreator) list"
  sd_default :: "Servlet option"

definition ServletDispatch_new :: ServletDispatch where
  "ServletDispatch_new =
     \<lparr>sd_datas = [], sd_globs = [], sd_default = Some (NotFoundServlet (str ''chat/1.0.0''))\<rparr>"

definition addServletCreator :: "bytes \<Rightarrow> IServletCreator \<Rightarrow> ServletDispatch \<Rightarrow> ServletDispatch" where
  "addServletCreator uri creator d = d\<lparr>sd_datas := AList.update uri creator (sd_datas d)\<rparr>"

definition addServlet :: "bytes \<Rightarrow> Servlet option \<Rightarrow> ServletDispatch \<Rightarrow> ServletDispatch" where
  "addServlet uri slt = addServletCreator uri (HoldServletCreator slt)"

text \<open>The loops that erase the first glob with a name.\<close>

fun erase_glob :: "bytes \<Rightarrow> (bytes \<times> IServletCreator) list \<Rightarrow> (bytes \<times> IServletCreator) list" where
  "erase_glob uri [] = []"
| "erase_glob uri (g # gs) = (if fst g = uri then gs else g # erase_glob uri gs)"

definition addGlobServletCreator :: "bytes \<Rightarrow> IServletCreator \<Rightarrow> ServletDispatch \<Rightarrow> ServletDispatch" where
  "addGlobServletCreator uri creator d = d\<lparr>sd_globs := erase_glob uri (sd_globs d) @ [(uri, creator)]\<rparr>"

definition addGlobServlet :: "bytes \<Rightarrow> Servlet option \<Rightarrow> ServletDispatch \<Rightarrow> ServletDispatch" where
  "addGlobServlet uri slt = addGlobServletCreator uri (HoldServletCreator slt)"

definition delServlet :: "bytes \<Rightarrow> ServletDispatch \<Rightarrow> ServletDispatch" where
  "delServlet uri d = d\<lparr>sd_datas := AList.delete uri (sd_datas d)\<rparr>"

definition delGlobServlet :: "bytes \<Rightarrow> ServletDispatch \<Rightarrow> ServletDispatch" where
  "delGlobServlet uri d = d\<lparr>sd_globs := erase_glob uri (sd_globs d)\<rparr>"

definition setDefault :: "Servlet option \<Rightarrow> ServletDispatch \<Rightarrow> ServletDispatch" where
  "setDefault slt d = d\<lparr>sd_default := slt\<rparr>"

definition getServlet :: "bytes \<Rightarrow> ServletDispatch \<Rightarrow> Servlet option" where
  "getServlet uri d = Option.bind (map_of (sd_datas d) uri) creator_get"

definition getGlobServlet :: "bytes \<Rightarrow> ServletDispatch \<Rightarrow> Servlet option" where
  "getGlobServlet uri d = Option.bind (find (\<lambda>g. fst g = uri) (sd_globs d)) (\<lambda>g. creator_get (snd g))"

definition getMatchedServlet :: "(bytes \<Rightarrow> bytes \<Rightarrow> bool) \<Rightarrow> bytes \<Rightarrow> ServletDispatch \<Rightarrow> Servlet option" where
  "getMatchedServlet fnmatch uri d =
     (case map_of (sd_datas d) uri of
        Some creator \<Rightarrow> creator_get creator
      | None \<Rightarrow>
          (case find (\<lambda>g. fnmatch (fst g) uri) (sd_globs d) of
             Some g \<Rightarrow> creator_get (snd g)
           | None \<Rightarrow> sd_default d))"

definition ServletDispatch_handle ::
    "(bytes \<Rightarrow> bytes \<Rightarrow> bool) \<Rightarrow> ServletDispatch \<Rightarrow> HttpRequest \<Rightarrow> HttpResponse \<Rightarrow> int \<times> HttpResponse" where
  "ServletDispatch_handle fnmatch d req rsp =
     (case getMatchedServlet fnmatch (rq_path req) d of
        Some slt \<Rightarrow> sv_handle slt req rsp
      | None \<Rightarrow> (0, rsp))"

section \<open>The reference\<close>

text \<open>The changes of a dispatch, and what they amount to, looking from the end of their sequence.\<close>

datatype dispatch_op =
    AddServlet bytes IServletCreator
  | DelServlet bytes
  | AddGlob bytes IServletCreator
  | DelGlob bytes
  | SetDefault "Servlet option"

primrec run_op :: "dispatch_op \<Rightarrow> ServletDispatch \<Rightarrow> ServletDispatch" where
  "run_op (AddServlet uri c) d = addServletCreator uri c d"
| "run_op (DelServlet uri) d = delServlet uri d"
| "run_op (AddGlob uri c) d = addGlobServletCreator uri c d"
| "run_op (DelGlob uri) d = delGlobServlet uri d"
| "run_op (SetDefault slt) d = setDefault slt d"

text \<open>The last change of an exact entry decides.\<close>

definition names_exact :: "bytes \<Rightarrow> dispatch_op \<Rightarrow> bool" where
  "names_exact uri op = (case op of AddServlet u _ \<Rightarrow> u = uri | DelServlet u \<Rightarrow> u = uri | _ \<Rightarrow> False)"

fun exact_entry :: "bytes \<Rightarrow> dispatch_op list \<Rightarrow> IServletCreator option" where
  "exact_entry uri [] = None"
| "exact_entry uri (AddServlet u c # later) =
     (if u = uri \<and> list_all (\<lambda>op. \<not> names_exact uri op) later then Some c
      else exact_entry uri later)"
| "exact_entry uri (op # later) = exact_entry uri later"

text \<open>A pattern is live when no later change names it; live patterns are tried in the order they were added.\<close>

definition names_glob :: "bytes \<Rightarrow> dispatch_op \<Rightarrow> bool" where
  "names_glob p op = (case op of AddGlob q _ \<Rightarrow> q = p | DelGlob q \<Rightarrow> q = p | _ \<Rightarrow> False)"

fun live_globs :: "dispatch_op list \<Rightarrow> (bytes \<times> IServletCreator) list" where
  "live_globs [] = []"
| "live_globs (AddGlob p c # later) =
     (if list_all (\<lambda>op. \<not> names_glob p op) later then (p, c) # live_globs later else live_globs later)"
| "live_globs (op # later) = live_globs later"

definition default_entry :: "dispatch_op list \<Rightarrow> Servlet option" where
  "default_entry ops =
     (case find (\<lambda>op. case op of SetDefault _ \<Rightarrow> True | _ \<Rightarrow> False) (rev ops) of
        Some (SetDefault slt) \<Rightarrow> slt
      | _ \<Rightarrow> Some (NotFoundServlet (str ''chat/1.0.0'')))"

definition spec_matched :: "(bytes \<Rightarrow> bytes \<Rightarrow> bool) \<Rightarrow> bytes \<Rightarrow> dispatch_op list \<Rightarrow> Servlet option" where
  "spec_matched fnmatch uri ops =
     (case exact_entry uri ops of
        Some c \<Rightarrow> creator_get c
      | None \<Rightarrow>
          (case filter (\<lambda>(p, c). fnmatch p uri) (live_globs ops) of
             (p, c) # _ \<Rightarrow> creator_get c
           | [] \<Rightarrow> default_entry ops))"

lemma exact_entry_last: "exact_entry uri (ops @ [op]) =
    (case op of AddServlet u c \<Rightarrow> if u = uri then Some c else exact_entry uri ops
     | DelServlet u \<Rightarrow> if u = uri then None else exact_entry uri ops
     | _ \<Rightarrow> exact_entry uri ops)"
proof (induction ops)
  case Nil
  then show ?case by (cases op) simp_all
next
  case (Cons a ops)
  then show ?case by (cases a; cases op) (auto simp: names_exact_def)
qed

lemma live_globs_last: "live_globs (ops @ [op]) =
    (case op of AddGlob p c \<Rightarrow> filter (\<lambda>g. fst g \<noteq> p) (live_globs ops) @ [(p, c)]
     | DelGlob p \<Rightarrow> filter (\<lambda>g. fst g \<noteq> p) (live_globs ops)
     | _ \<Rightarrow> live_globs ops)"
  by (induction ops rule: live_globs.induct) (auto simp: names_glob_def split: dispatch_op.splits)

lemma live_globs_distinct: "distinct (map fst (live_globs ops))"
  by (induction ops rule: rev_induct)
    (auto simp: live_globs_last distinct_map_filter split: dispatch_op.splits)

lemma erase_glob_filter: "distinct (map fst gs) \<Longrightarrow> erase_glob uri gs = filter (\<lambda>g. fst g \<noteq> uri) gs"
  by (induction gs) (force intro!: filter_True [symmetric])+

lemma find_filter: "find P xs = (case filter P xs of [] \<Rightarrow> None | x # _ \<Rightarrow> Some x)"
  by (induction xs) auto

lemma run_ops:
  defines "d ops \<equiv> fold run_op ops ServletDispatch_new"
  shows "map_of (sd_datas (d ops)) = (\<lambda>uri. exact_entry uri ops)" and "sd_globs (d ops) = live_globs ops"
    and "sd_default (d ops) = default_entry ops"
proof (induction ops rule: rev_induct)
  case Nil
  show "map_of (sd_datas (d [])) = (\<lambda>uri. exact_entry uri [])" "sd_globs (d []) = live_globs []"
    "sd_default (d []) = default_entry []"
    by (simp_all add: d_def ServletDispatch_new_def default_entry_def fun_eq_iff)
next
  case (snoc op ops)
  show "map_of (sd_datas (d (ops @ [op]))) = (\<lambda>uri. exact_entry uri (ops @ [op]))"
    "sd_globs (d (ops @ [op])) = live_globs (ops @ [op])"
    "sd_default (d (ops @ [op])) = default_entry (ops @ [op])"
    using snoc
    by (auto simp: d_def exact_entry_last live_globs_last default_entry_def fun_eq_iff addServletCreator_def
        delServlet_def addGlobServletCreator_def delGlobServlet_def setDefault_def update_conv delete_conv
        erase_glob_filter live_globs_distinct split: dispatch_op.splits)
qed

text \<open>C17. Requests are dispatched by what was registered. After any sequence of registrations and removals,
  \<open>getMatchedServlet\<close> returns the servlet of the exact entry that was set last for the path and not
  removed since; without one, the servlet of the first pattern that matches among those still
  registered, in the order of their last registration; without one, the default servlet set last,
  which is at first the one that answers 404.\<close>

theorem dispatch_by_registration:
  "getMatchedServlet fnmatch uri (fold run_op ops ServletDispatch_new) = spec_matched fnmatch uri ops"
  by (simp add: getMatchedServlet_def spec_matched_def run_ops find_filter case_prod_unfold split: option.split list.split)

end
