(* ===== verification/Timers.thy ===== *)
theory Timers
  imports OrderedSet Prelude
begin

text \<open>
  \<^verbatim>\<open>src/chat/timer.cc\<close>: timers and the manager that keeps them ordered by due time. Timer objects live
  in a store indexed by their address, because the manager's \<open>std::set\<close> and the users of a timer
  share them; the set is the list of addresses in the order of \<open>Timer::Comparator\<close>. Times are
  64-bit unsigned milliseconds, sums wrap around. The clock and the address of a new object are
  arguments; a call of the virtual \<open>onTimerInsertedAtFront\<close> is a result.
\<close>

section \<open>Timers\<close>

text \<open>A callback is a plain function or one bound to a condition by \<open>addConditionTimer\<close>.\<close>

datatype callback = Cb nat | OnTimer nat nat

record Timer =
  t_ms :: "64 word"
  t_next :: "64 word"
  t_cb :: "callback option"
  t_recurring :: bool

type_synonym timer_store = "nat \<rightharpoonup> Timer"

record TimerManager =
  tm_store :: timer_store
  m_timers :: "nat list"
  m_tickled :: bool
  m_previousTime :: "64 word"

definition timer_at :: "timer_store \<Rightarrow> nat \<Rightarrow> Timer" where
  "timer_at st p = the (st p)"

text \<open>The comparator, on pointers that may be null.\<close>

definition Comparator :: "timer_store \<Rightarrow> nat option \<Rightarrow> nat option \<Rightarrow> bool" where
  "Comparator st lhs rhs =
     (case lhs of
        None \<Rightarrow> (case rhs of None \<Rightarrow> False | Some _ \<Rightarrow> True)
      | Some l \<Rightarrow>
          (case rhs of
             None \<Rightarrow> False
           | Some r \<Rightarrow>
               if t_next (timer_at st l) < t_next (timer_at st r) then True
               else if t_next (timer_at st l) > t_next (timer_at st r) then False
               else l < r))"

definition timer_lt :: "timer_store \<Rightarrow> nat \<Rightarrow> nat \<Rightarrow> bool" where
  "timer_lt st l r = Comparator st (Some l) (Some r)"

definition Timer_new :: "64 word \<Rightarrow> callback option \<Rightarrow> bool \<Rightarrow> 64 word \<Rightarrow> Timer" where
  "Timer_new ms cb recurring now = \<lparr>t_ms = ms, t_next = now + ms, t_cb = cb, t_recurring = recurring\<rparr>"

definition Timer_at_time :: "64 word \<Rightarrow> Timer" where
  "Timer_at_time next = \<lparr>t_ms = 0, t_next = next, t_cb = None, t_recurring = False\<rparr>"

text \<open>What a callback does when it is called: a bound one first locks its weak pointer.\<close>

definition run_callback :: "(nat \<Rightarrow> bool) \<Rightarrow> callback \<Rightarrow> nat option" where
  "run_callback alive c = (case c of Cb f \<Rightarrow> Some f | OnTimer w f \<Rightarrow> if alive w then Some f else None)"

definition put_timer :: "nat \<Rightarrow> Timer \<Rightarrow> TimerManager \<Rightarrow> TimerManager" where
  "put_timer p t tm = tm\<lparr>tm_store := (tm_store tm)(p \<mapsto> t)\<rparr>"

section \<open>The manager\<close>

definition TimerManager_new :: "64 word \<Rightarrow> TimerManager" where
  "TimerManager_new now = \<lparr>tm_store = Map.empty, m_timers = [], m_tickled = False, m_previousTime = now\<rparr>"

text \<open>The protected \<open>addTimer\<close>; the result says whether \<open>onTimerInsertedAtFront\<close> is called.\<close>

definition addTimer_lock :: "nat \<Rightarrow> TimerManager \<Rightarrow> bool \<times> TimerManager" where
  "addTimer_lock val tm =
     (let timers = oset_insert (timer_lt (tm_store tm)) val (m_timers tm);
          at_front = (hd timers = val \<and> \<not> m_tickled tm)
      in (at_front, tm\<lparr>m_timers := timers, m_tickled := (at_front \<or> m_tickled tm)\<rparr>))"

definition addTimer :: "64 word \<Rightarrow> callback option \<Rightarrow> bool \<Rightarrow> 64 word \<Rightarrow> nat \<Rightarrow> TimerManager \<Rightarrow> bool \<times> TimerManager" where
  "addTimer ms cb recurring now p tm = addTimer_lock p (put_timer p (Timer_new ms cb recurring now) tm)"

definition addConditionTimer ::
    "64 word \<Rightarrow> nat \<Rightarrow> nat \<Rightarrow> bool \<Rightarrow> 64 word \<Rightarrow> nat \<Rightarrow> TimerManager \<Rightarrow> bool \<times> TimerManager" where
  "addConditionTimer ms f weak_cond recurring now p tm =
     addTimer ms (Some (OnTimer weak_cond f)) recurring now p tm"

text \<open>\<open>Timer::cancel\<close> erases the position \<open>find\<close> returned; erasing \<open>end()\<close> is undefined.\<close>

definition Timer_cancel :: "nat \<Rightarrow> TimerManager \<Rightarrow> error + bool \<times> TimerManager" where
  "Timer_cancel p tm =
     (let t = timer_at (tm_store tm) p in
      if t_cb t \<noteq> None then
        let tm1 = put_timer p (t\<lparr>t_cb := None\<rparr>) tm in
        case oset_find (timer_lt (tm_store tm1)) p (m_timers tm1) of
          None \<Rightarrow> Inl Null_deref
        | Some q \<Rightarrow> Inr (True, tm1\<lparr>m_timers := oset_erase q (m_timers tm1)\<rparr>)
      else Inr (False, tm))"

definition Timer_refresh :: "64 word \<Rightarrow> nat \<Rightarrow> TimerManager \<Rightarrow> bool \<times> TimerManager" where
  "Timer_refresh now p tm =
     (let t = timer_at (tm_store tm) p in
      if t_cb t = None then (False, tm)
      else case oset_find (timer_lt (tm_store tm)) p (m_timers tm) of
        None \<Rightarrow> (False, tm)
      | Some q \<Rightarrow>
          let tm1 = put_timer p (t\<lparr>t_next := now + t_ms t\<rparr>) (tm\<lparr>m_timers := oset_erase q (m_timers tm)\<rparr>)
          in (True, tm1\<lparr>m_timers := oset_insert (timer_lt (tm_store tm1)) p (m_timers tm1)\<rparr>))"

text \<open>The value returned, whether the timer came to the front, and the manager.\<close>

definition Timer_reset :: "64 word \<Rightarrow> bool \<Rightarrow> 64 word \<Rightarrow> nat \<Rightarrow> TimerManager \<Rightarrow> bool \<times> bool \<times> TimerManager" where
  "Timer_reset ms from_now now p tm =
     (let t = timer_at (tm_store tm) p in
      if ms = t_ms t \<and> \<not> from_now then (True, False, tm)
      else if t_cb t = None then (False, False, tm)
      else case oset_find (timer_lt (tm_store tm)) p (m_timers tm) of
        None \<Rightarrow> (False, False, tm)
      | Some q \<Rightarrow>
          let tm1 = tm\<lparr>m_timers := oset_erase q (m_timers tm)\<rparr>;
              start = (if from_now then now else t_next t - t_ms t);
              (front, tm2) = addTimer_lock p (put_timer p (t\<lparr>t_ms := ms, t_next := start + ms\<rparr>) tm1)
          in (True, front, tm2))"

definition getNextTimer :: "64 word \<Rightarrow> TimerManager \<Rightarrow> 64 word \<times> TimerManager" where
  "getNextTimer now tm =
     (let tm1 = tm\<lparr>m_tickled := False\<rparr> in
      case m_timers tm of
        [] \<Rightarrow> (- 1, tm1)
      | p # _ \<Rightarrow>
          let next = t_next (timer_at (tm_store tm) p)
          in (if now \<ge> next then 0 else next - now, tm1))"

definition hasTimer :: "TimerManager \<Rightarrow> bool" where
  "hasTimer tm = (m_timers tm \<noteq> [])"

definition detectClockRollover :: "64 word \<Rightarrow> TimerManager \<Rightarrow> bool \<times> TimerManager" where
  "detectClockRollover now tm =
     (now < m_previousTime tm \<and> now < m_previousTime tm - 60 * 60 * 1000, tm\<lparr>m_previousTime := now\<rparr>)"

text \<open>The loop over the expired timers.\<close>

fun expire_loop ::
    "64 word \<Rightarrow> nat list \<Rightarrow> callback option list \<Rightarrow> TimerManager \<Rightarrow> callback option list \<times> TimerManager" where
  "expire_loop now [] cbs tm = (cbs, tm)"
| "expire_loop now (p # ps) cbs tm =
     (let t = timer_at (tm_store tm) p; cbs' = cbs @ [t_cb t] in
      if t_recurring t then
        let tm1 = put_timer p (t\<lparr>t_next := now + t_ms t\<rparr>) tm
        in expire_loop now ps cbs' (tm1\<lparr>m_timers := oset_insert (timer_lt (tm_store tm1)) p (m_timers tm1)\<rparr>)
      else expire_loop now ps cbs' (put_timer p (t\<lparr>t_cb := None\<rparr>) tm))"

text \<open>\<open>a\<close> is the address of the temporary timer whose position \<open>lower_bound\<close> looks for.\<close>

definition listExpiredCb ::
    "64 word \<Rightarrow> nat \<Rightarrow> callback option list \<Rightarrow> TimerManager \<Rightarrow> callback option list \<times> TimerManager" where
  "listExpiredCb now a cbs tm =
     (if m_timers tm = [] then (cbs, tm)
      else let (rollover, tm1) = detectClockRollover now tm; st = tm_store tm; ts = m_timers tm in
        if \<not> rollover \<and> t_next (timer_at st (hd ts)) > now then (cbs, tm1)
        else let lt = timer_lt (st(a \<mapsto> Timer_at_time now));
                 before = (if rollover then ts else oset_before lt a ts);
                 from = (if rollover then [] else oset_from lt a ts);
                 due_now = (\<lambda>p. t_next (timer_at st p) = now);
                 expired = before @ takeWhile due_now from
             in expire_loop now expired cbs (tm1\<lparr>m_timers := dropWhile due_now from\<rparr>))"

section \<open>The order of the timers\<close>

lemma timer_lt_iff:
  "timer_lt st l r \<longleftrightarrow>
     t_next (timer_at st l) < t_next (timer_at st r) \<or> t_next (timer_at st l) = t_next (timer_at st r) \<and> l < r"
  by (auto simp: timer_lt_def Comparator_def)

interpretation timer_order: comparator "timer_lt st" for st
  by unfold_locales (auto simp: timer_lt_iff)

lemma timer_lt_store: "st l = st' l \<Longrightarrow> st r = st' r \<Longrightarrow> timer_lt st l r = timer_lt st' l r"
  by (simp add: timer_lt_iff timer_at_def)

lemma sorted_timers_store:
  "\<forall>q \<in> set ts. t_next (timer_at st q) = t_next (timer_at st' q) \<Longrightarrow>
     sorted_wrt (timer_lt st) ts = sorted_wrt (timer_lt st') ts"
  by (rule sorted_wrt_cong_set) (simp add: timer_lt_iff)

text \<open>
  The invariant: the set is sorted, its elements exist, and a timer that still has its callback is
  in the set, so that \<open>cancel\<close> finds what it erases.
\<close>

definition timers_ok :: "timer_store \<Rightarrow> nat list \<Rightarrow> bool" where
  "timers_ok st ts \<longleftrightarrow>
     sorted_wrt (timer_lt st) ts \<and> set ts \<subseteq> dom st \<and>
     (\<forall>p t. st p = Some t \<longrightarrow> t_cb t \<noteq> None \<longrightarrow> p \<in> set ts)"

definition tm_ok :: "TimerManager \<Rightarrow> bool" where
  "tm_ok tm \<longleftrightarrow> timers_ok (tm_store tm) (m_timers tm)"

text \<open>A store in which the timer \<open>p\<close> is about to be inserted.\<close>

definition timers_but :: "nat \<Rightarrow> timer_store \<Rightarrow> nat list \<Rightarrow> bool" where
  "timers_but p st ts \<longleftrightarrow>
     sorted_wrt (timer_lt st) ts \<and> set ts \<subseteq> dom st \<and> p \<notin> set ts \<and>
     (\<forall>q t. q \<noteq> p \<longrightarrow> st q = Some t \<longrightarrow> t_cb t \<noteq> None \<longrightarrow> q \<in> set ts)"

lemma sorted_put: "p \<notin> set ts \<Longrightarrow> sorted_wrt (timer_lt (st(p \<mapsto> t))) ts = sorted_wrt (timer_lt st) ts"
  by (rule sorted_timers_store) (auto simp: timer_at_def)

lemma timers_but_put: "timers_but p st ts \<Longrightarrow> timers_but p (st(p \<mapsto> t)) ts"
  by (auto simp: timers_but_def sorted_put)

lemma timers_but_insert:
  assumes "timers_but p st ts" and "st p \<noteq> None"
  shows "timers_ok st (oset_insert (timer_lt st) p ts)"
  using assms timer_order.sorted_insert [of st ts p]
  by (auto simp: timers_but_def timers_ok_def timer_order.set_insert)

lemma timers_but_fresh: "timers_ok st ts \<Longrightarrow> p \<notin> set ts \<Longrightarrow> timers_but p st ts"
  by (auto simp: timers_but_def timers_ok_def)

lemma timers_but_erase:
  assumes "timers_ok st ts"
  shows "timers_but p st (oset_erase p ts)"
  using assms timer_order.sorted_erase [of st ts p]
  by (auto simp: timers_but_def timers_ok_def timer_order.set_erase)

lemma timers_but_drop:
  assumes "timers_but p st ts" and "st p = Some t" and "t_cb t = None"
  shows "timers_ok st ts"
  using assms unfolding timers_but_def timers_ok_def by (metis option.sel)

section \<open>Every operation keeps the invariant\<close>

lemma tm_ok_new: "tm_ok (TimerManager_new now)"
  by (simp add: tm_ok_def timers_ok_def TimerManager_new_def)

lemma tm_ok_frame:
  "tm_ok (tm\<lparr>m_tickled := b\<rparr>) = tm_ok tm" "tm_ok (tm\<lparr>m_previousTime := w\<rparr>) = tm_ok tm"
  by (simp_all add: tm_ok_def)

lemma addTimer_lock_ok:
  assumes "timers_but p (tm_store tm) (m_timers tm)" and "tm_store tm p \<noteq> None"
  shows "tm_ok (snd (addTimer_lock p tm))"
  using timers_but_insert [OF assms] by (simp add: addTimer_lock_def Let_def tm_ok_def)

lemma addTimer_ok:
  assumes "tm_ok tm" and "p \<notin> set (m_timers tm)"
  shows "tm_ok (snd (addTimer ms cb rec now p tm))"
  unfolding addTimer_def
  using assms by (intro addTimer_lock_ok) (auto simp: put_timer_def tm_ok_def timers_but_put timers_but_fresh)

lemma timers_ok_find: "timers_ok st ts \<Longrightarrow> st p = Some t \<Longrightarrow> t_cb t \<noteq> None \<Longrightarrow> p \<in> set ts"
  by (auto simp: timers_ok_def)

lemma cancel_ok:
  assumes "tm_ok tm" and "tm_store tm p = Some t"
  obtains tm' where "Timer_cancel p tm = Inr (t_cb t \<noteq> None, tm')" "tm_ok tm'"
    "tm_store tm' = (tm_store tm)(p \<mapsto> t\<lparr>t_cb := None\<rparr>)" "set (m_timers tm') \<subseteq> set (m_timers tm)"
    "t_cb t \<noteq> None \<Longrightarrow> p \<notin> set (m_timers tm')"
proof (cases "t_cb t = None")
  case True
  then have "t\<lparr>t_cb := None\<rparr> = t" by simp
  with True assms show ?thesis by (intro that [of tm]) (auto simp: Timer_cancel_def timer_at_def)
next
  case False
  let ?st = "(tm_store tm)(p \<mapsto> t\<lparr>t_cb := None\<rparr>)" and ?ts = "oset_erase p (m_timers tm)"
  have ok: "timers_ok (tm_store tm) (m_timers tm)" using assms(1) by (simp add: tm_ok_def)
  have mem: "p \<in> set (m_timers tm)" using timers_ok_find [OF ok assms(2) False] .
  have "timers_ok ?st ?ts"
    by (rule timers_but_drop [OF timers_but_put [OF timers_but_erase [OF ok]]], simp, simp)
  moreover have "set ?ts = set (m_timers tm) - {p}"
    using ok timer_order.set_erase [of "tm_store tm" "m_timers tm" p] by (simp add: timers_ok_def)
  ultimately show ?thesis
    using False assms(2) mem
    by (intro that [of "put_timer p (t\<lparr>t_cb := None\<rparr>) tm\<lparr>m_timers := ?ts\<rparr>"])
      (auto simp: Timer_cancel_def timer_at_def Let_def put_timer_def timer_order.find_iff tm_ok_def)
qed

lemma refresh_ok:
  assumes "tm_ok tm" and "tm_store tm p = Some t"
  shows "tm_ok (snd (Timer_refresh now p tm))"
proof (cases "t_cb t = None \<or> p \<notin> set (m_timers tm)")
  case True
  then show ?thesis
    using assms by (auto simp: Timer_refresh_def timer_at_def Let_def timer_order.find_iff)
next
  case False
  have ok: "timers_ok (tm_store tm) (m_timers tm)" using assms(1) by (simp add: tm_ok_def)
  show ?thesis
    using False assms(2) timers_but_insert [OF timers_but_put [OF timers_but_erase [OF ok]]]
    by (auto simp: Timer_refresh_def timer_at_def Let_def timer_order.find_iff tm_ok_def put_timer_def)
qed

lemma reset_ok:
  assumes "tm_ok tm" and "tm_store tm p = Some t"
  shows "tm_ok (snd (snd (Timer_reset ms from_now now p tm)))"
proof (cases "ms = t_ms t \<and> \<not> from_now \<or> t_cb t = None \<or> p \<notin> set (m_timers tm)")
  case True
  then show ?thesis
    using assms by (auto simp: Timer_reset_def timer_at_def Let_def timer_order.find_iff)
next
  case False
  have ok: "timers_ok (tm_store tm) (m_timers tm)" using assms(1) by (simp add: tm_ok_def)
  let ?tm = "put_timer p (t\<lparr>t_ms := ms, t_next := (if from_now then now else t_next t - t_ms t) + ms\<rparr>)
      (tm\<lparr>m_timers := oset_erase p (m_timers tm)\<rparr>)"
  have "tm_ok (snd (addTimer_lock p ?tm))"
    by (rule addTimer_lock_ok) (simp_all add: put_timer_def timers_but_put timers_but_erase ok)
  moreover have "snd (snd (Timer_reset ms from_now now p tm)) = snd (addTimer_lock p ?tm)"
    using False assms(2)
    by (auto simp: Timer_reset_def timer_at_def Let_def timer_order.find_iff split: prod.splits)
  ultimately show ?thesis by simp
qed

section \<open>Expiry\<close>

definition due :: "timer_store \<Rightarrow> bool \<Rightarrow> 64 word \<Rightarrow> nat \<Rightarrow> bool" where
  "due st rollover now p \<longleftrightarrow> rollover \<or> t_next (timer_at st p) \<le> now"

text \<open>In a sorted set the due timers are a prefix; \<open>lower_bound\<close> and the loop after it find its end.\<close>

lemma expired_prefix:
  assumes "sorted_wrt (timer_lt st) ts" and "a \<notin> set ts"
  shows "oset_before (timer_lt (st(a \<mapsto> Timer_at_time now))) a ts @
           takeWhile (\<lambda>p. t_next (timer_at st p) = now) (oset_from (timer_lt (st(a \<mapsto> Timer_at_time now))) a ts)
         = filter (\<lambda>p. t_next (timer_at st p) \<le> now) ts \<and>
         dropWhile (\<lambda>p. t_next (timer_at st p) = now) (oset_from (timer_lt (st(a \<mapsto> Timer_at_time now))) a ts)
         = filter (\<lambda>p. \<not> t_next (timer_at st p) \<le> now) ts"
  using assms
proof (induction ts)
  case Nil
  then show ?case by (simp add: oset_before_def oset_from_def)
next
  case (Cons p ts)
  let ?st = "st(a \<mapsto> Timer_at_time now)"
  have key: "t_next (timer_at ?st a) = now" "t_next (timer_at ?st p) = t_next (timer_at st p)"
    using Cons.prems(2) by (auto simp: timer_at_def Timer_at_time_def)
  have later: "t_next (timer_at st p) \<le> t_next (timer_at st q)" if "q \<in> set ts" for q
    using Cons.prems(1) that by (auto simp: timer_lt_iff)
  have all: "sorted_wrt (timer_lt st) ts" using Cons.prems(1) by simp
  show ?case
  proof (cases "timer_lt ?st p a")
    case True
    then have "t_next (timer_at st p) \<le> now" using key by (auto simp: timer_lt_iff)
    then show ?thesis using Cons True by (simp add: oset_before_def oset_from_def del: fun_upd_apply)
  next
    case False
    have *: "takeWhile (\<lambda>p. t_next (timer_at st p) = now) xs = filter (\<lambda>p. t_next (timer_at st p) \<le> now) xs \<and>
        dropWhile (\<lambda>p. t_next (timer_at st p) = now) xs = filter (\<lambda>p. \<not> t_next (timer_at st p) \<le> now) xs"
      if "sorted_wrt (timer_lt st) xs" and "\<forall>q \<in> set xs. now \<le> t_next (timer_at st q)" for xs
      using that
    proof (induction xs)
      case (Cons x xs)
      have "now < t_next (timer_at st q)" if "t_next (timer_at st x) \<noteq> now" "q \<in> set xs" for q
        using Cons.prems that by (force simp: timer_lt_iff)
      then show ?case
        using Cons by (cases "t_next (timer_at st x) = now") (auto simp: filter_empty_conv not_le)
    qed simp
    have "now \<le> t_next (timer_at st p)" using False key by (auto simp: timer_lt_iff)
    then have "\<forall>q \<in> set (p # ts). now \<le> t_next (timer_at st q)" using later by force
    with * [OF Cons.prems(1)] False show ?thesis
      by (simp add: oset_before_def oset_from_def del: fun_upd_apply)
  qed
qed

text \<open>The loop over expired timers that are no longer in the set.\<close>

fun all_but :: "nat list \<Rightarrow> timer_store \<Rightarrow> nat list \<Rightarrow> bool" where
  "all_but ps st ts \<longleftrightarrow>
     sorted_wrt (timer_lt st) ts \<and> set ts \<subseteq> dom st \<and> distinct ps \<and> set ps \<subseteq> dom st \<and> set ps \<inter> set ts = {} \<and>
     (\<forall>q t. q \<notin> set ps \<longrightarrow> st q = Some t \<longrightarrow> t_cb t \<noteq> None \<longrightarrow> q \<in> set ts)"

lemma all_but_step:
  assumes "all_but (p # ps) st ts"
  shows "all_but ps (st(p \<mapsto> t)) (oset_insert (timer_lt (st(p \<mapsto> t))) p ts)"
    and "t_cb t = None \<Longrightarrow> all_but ps (st(p \<mapsto> t)) ts"
proof -
  have s: "sorted_wrt (timer_lt (st(p \<mapsto> t))) ts" using assms by (simp add: sorted_put)
  show "all_but ps (st(p \<mapsto> t)) (oset_insert (timer_lt (st(p \<mapsto> t))) p ts)"
    using assms timer_order.sorted_insert [OF s, of p] by (auto simp: timer_order.set_insert)
  show "t_cb t = None \<Longrightarrow> all_but ps (st(p \<mapsto> t)) ts"
    using assms s by (auto split: if_splits)
qed

definition expired_timer :: "64 word \<Rightarrow> Timer \<Rightarrow> Timer" where
  "expired_timer now t =
     (if t_recurring t then t\<lparr>t_next := now + t_ms t\<rparr> else t\<lparr>t_cb := None\<rparr>)"

lemma expire_loop_ok:
  assumes "all_but ps (tm_store tm) (m_timers tm)"
  shows "\<exists>tm'. expire_loop now ps cbs tm = (cbs @ map (\<lambda>p. t_cb (timer_at (tm_store tm) p)) ps, tm') \<and>
           tm_ok tm' \<and>
           set (m_timers tm') = set (m_timers tm) \<union> {p \<in> set ps. t_recurring (timer_at (tm_store tm) p)} \<and>
           (\<forall>p. tm_store tm' p =
              (if p \<in> set ps then Some (expired_timer now (timer_at (tm_store tm) p)) else tm_store tm p))"
  using assms
proof (induction ps arbitrary: cbs tm)
  case Nil
  then show ?case by (auto simp: tm_ok_def timers_ok_def)
next
  case (Cons p ps)
  let ?t = "timer_at (tm_store tm) p"
  define tm1 where "tm1 = (if t_recurring ?t
     then (put_timer p (?t\<lparr>t_next := now + t_ms ?t\<rparr>) tm)\<lparr>m_timers :=
        oset_insert (timer_lt (tm_store (put_timer p (?t\<lparr>t_next := now + t_ms ?t\<rparr>) tm))) p (m_timers tm)\<rparr>
     else put_timer p (?t\<lparr>t_cb := None\<rparr>) tm)"
  have step: "expire_loop now (p # ps) cbs tm = expire_loop now ps (cbs @ [t_cb ?t]) tm1"
    by (simp add: tm1_def Let_def put_timer_def)
  have st1: "tm_store tm1 = (tm_store tm)(p \<mapsto> expired_timer now ?t)"
    by (simp add: tm1_def put_timer_def expired_timer_def)
  have "all_but ps (tm_store tm1) (m_timers tm1)"
    using all_but_step [OF Cons.prems] by (simp add: tm1_def put_timer_def del: all_but.simps)
  from Cons.IH [OF this, of "cbs @ [t_cb ?t]"] obtain tm' where
    IH: "expire_loop now ps (cbs @ [t_cb ?t]) tm1 =
         (cbs @ [t_cb ?t] @ map (\<lambda>p. t_cb (timer_at (tm_store tm1) p)) ps, tm')" "tm_ok tm'"
      "set (m_timers tm') = set (m_timers tm1) \<union> {p \<in> set ps. t_recurring (timer_at (tm_store tm1) p)}"
      "\<forall>p. tm_store tm' p =
         (if p \<in> set ps then Some (expired_timer now (timer_at (tm_store tm1) p)) else tm_store tm1 p)"
    by auto
  have ps: "p \<notin> set ps" using Cons.prems by simp
  then have same: "\<forall>q \<in> set ps. timer_at (tm_store tm1) q = timer_at (tm_store tm) q"
    by (auto simp: st1 timer_at_def)
  have "set (m_timers tm1) = set (m_timers tm) \<union> (if t_recurring ?t then {p} else {})"
    by (auto simp: tm1_def put_timer_def timer_order.set_insert)
  with IH ps same show ?case
    unfolding step by (intro exI [of _ tm']) (auto simp: st1)
qed

lemma listExpired_ok:
  fixes tm now
  defines "ro \<equiv> fst (detectClockRollover now tm)"
  assumes ok: "tm_ok tm" and a: "a \<notin> set (m_timers tm)"
  shows "\<exists>tm'. listExpiredCb now a cbs tm =
           (cbs @ map (\<lambda>p. t_cb (timer_at (tm_store tm) p)) (filter (due (tm_store tm) ro now) (m_timers tm)), tm') \<and>
         tm_ok tm' \<and>
         set (m_timers tm') = {p \<in> set (m_timers tm).
            due (tm_store tm) ro now p \<longrightarrow> t_recurring (timer_at (tm_store tm) p)} \<and>
         (\<forall>p. tm_store tm' p = (if p \<in> set (m_timers tm) \<and> due (tm_store tm) ro now p
            then Some (expired_timer now (timer_at (tm_store tm) p)) else tm_store tm p))"
proof -
  let ?st = "tm_store tm" and ?ts = "m_timers tm"
  define tm1 where "tm1 = tm\<lparr>m_previousTime := now\<rparr>"
  have det: "detectClockRollover now tm = (ro, tm1)"
    by (simp add: ro_def detectClockRollover_def tm1_def)
  have sorted: "sorted_wrt (timer_lt ?st) ?ts" using ok by (simp add: tm_ok_def timers_ok_def)
  consider (none) "?ts = []" | (early) "?ts \<noteq> []" "\<not> ro" "t_next (timer_at ?st (hd ?ts)) > now"
    | (late) "?ts \<noteq> []" "ro \<or> \<not> t_next (timer_at ?st (hd ?ts)) > now" by blast
  then show ?thesis
  proof cases
    case none
    with ok show ?thesis by (simp add: listExpiredCb_def)
  next
    case early
    have nodue: "\<not> due ?st ro now p" if "p \<in> set ?ts" for p
      using early sorted that by (cases ?ts) (auto simp: due_def timer_lt_iff)
    have "filter (due ?st ro now) ?ts = []" using nodue by (simp add: filter_empty_conv)
    moreover have "listExpiredCb now a cbs tm = (cbs, tm1)"
      using early by (simp add: listExpiredCb_def det)
    ultimately show ?thesis using ok nodue by (auto simp: tm1_def tm_ok_frame)
  next
    case late
    let ?E = "filter (due ?st ro now) ?ts" and ?R = "filter (\<lambda>p. \<not> due ?st ro now p) ?ts"
    define tm2 where "tm2 = tm1\<lparr>m_timers := ?R\<rparr>"
    have eq: "listExpiredCb now a cbs tm = expire_loop now ?E cbs tm2"
    proof (cases ro)
      case True
      have "due ?st ro now = (\<lambda>p. True)" using True by (simp add: due_def fun_eq_iff)
      with late True show ?thesis by (simp add: listExpiredCb_def det tm2_def Let_def)
    next
      case False
      have "due ?st ro now = (\<lambda>p. t_next (timer_at ?st p) \<le> now)" using False by (simp add: due_def fun_eq_iff)
      with late False expired_prefix [OF sorted a] show ?thesis
        by (simp add: listExpiredCb_def det tm2_def Let_def del: fun_upd_apply)
    qed
    have st2: "tm_store tm2 = ?st" "m_timers tm2 = ?R" by (simp_all add: tm2_def tm1_def)
    have "distinct ?ts" using sorted by (rule timer_order.sorted_distinct)
    then have "all_but ?E (tm_store tm2) (m_timers tm2)"
      using ok sorted by (auto simp: st2 tm_ok_def timers_ok_def sorted_wrt_filter)
    from expire_loop_ok [OF this, of now cbs] show ?thesis unfolding eq st2 by auto
  qed
qed

lemma expire_loop_state: "snd (expire_loop now ps cbs tm) = snd (expire_loop now ps cbs' tm)"
proof (induction ps arbitrary: cbs cbs' tm)
  case (Cons p ps)
  then show ?case unfolding expire_loop.simps Let_def by (simp split: if_splits)
qed simp

lemma listExpiredCb_state: "snd (listExpiredCb now a cbs tm) = snd (listExpiredCb now a cbs' tm)"
  unfolding listExpiredCb_def Let_def
  by (simp add: split_beta expire_loop_state [of now _ cbs _ cbs'])

section \<open>Runs of the manager\<close>

text \<open>
  Any sequence of calls, each with its own clock reading. A new timer object does not have the address of
  one that is still in the set, and operations on a timer need the object.
\<close>

inductive tm_step :: "TimerManager \<Rightarrow> TimerManager \<Rightarrow> bool" where
  step_add: "p \<notin> set (m_timers tm) \<Longrightarrow> tm_step tm (snd (addTimer ms cb rec now p tm))"
| step_cancel: "tm_store tm p \<noteq> None \<Longrightarrow> Timer_cancel p tm = Inr (b, tm') \<Longrightarrow> tm_step tm tm'"
| step_refresh: "tm_store tm p \<noteq> None \<Longrightarrow> tm_step tm (snd (Timer_refresh now p tm))"
| step_reset: "tm_store tm p \<noteq> None \<Longrightarrow> tm_step tm (snd (snd (Timer_reset ms from_now now p tm)))"
| step_next: "tm_step tm (snd (getNextTimer now tm))"
| step_expire: "a \<notin> set (m_timers tm) \<Longrightarrow> tm_step tm (snd (listExpiredCb now a [] tm))"

inductive tm_reach :: "TimerManager \<Rightarrow> bool" where
  reach_new: "tm_reach (TimerManager_new now)"
| reach_step: "tm_reach tm \<Longrightarrow> tm_step tm tm' \<Longrightarrow> tm_reach tm'"

lemma tm_step_ok: "tm_step tm tm' \<Longrightarrow> tm_ok tm \<Longrightarrow> tm_ok tm'"
proof (induction rule: tm_step.induct)
  case (step_cancel tm p b tm')
  then obtain t where t: "tm_store tm p = Some t" by blast
  from cancel_ok [OF step_cancel.prems t] step_cancel.hyps(2) show ?case by (metis Inr_inject prod.inject)
next
  case (step_next tm now)
  then show ?case by (auto simp: getNextTimer_def Let_def tm_ok_frame split: list.splits)
next
  case (step_expire a tm now)
  then show ?case using listExpired_ok [of tm a now "[]"] by auto
qed (auto intro: addTimer_ok refresh_ok reset_ok)

lemma tm_reach_ok: "tm_reach tm \<Longrightarrow> tm_ok tm"
  by (induction rule: tm_reach.induct) (auto intro: tm_ok_new tm_step_ok)

section \<open>What the manager guarantees\<close>

text \<open>C29. In every state any sequence of timer operations can reach, the set of timers is strictly
  ordered by due time and address and every timer that still has its callback is in it; so
  \<open>Timer::cancel\<close>, which erases the position \<open>find\<close> gave it without a test, never erases
  \<open>end()\<close>, reports whether there was a callback, and takes the timer out of the set.\<close>

theorem timer_cancel_safe:
  assumes "tm_reach tm" and "tm_store tm p = Some t"
  shows "sorted_wrt (timer_lt (tm_store tm)) (m_timers tm) \<and>
         (t_cb t \<noteq> None \<longrightarrow> p \<in> set (m_timers tm)) \<and>
         (\<exists>tm'. Timer_cancel p tm = Inr (t_cb t \<noteq> None, tm') \<and> tm_reach tm' \<and>
            (t_cb t \<noteq> None \<longrightarrow> p \<notin> set (m_timers tm')))"
proof -
  have ok: "tm_ok tm" using assms(1) by (rule tm_reach_ok)
  obtain tm' where c: "Timer_cancel p tm = Inr (t_cb t \<noteq> None, tm')" "t_cb t \<noteq> None \<Longrightarrow> p \<notin> set (m_timers tm')"
    using cancel_ok [OF ok assms(2)] by metis
  have "tm_step tm tm'" using assms(2) by (intro step_cancel [OF _ c(1)]) simp
  with ok assms c show ?thesis by (auto simp: tm_ok_def timers_ok_def intro: reach_step)
qed

theorem timer_cancel_safe_witness:
  "\<exists>tm'. Timer_cancel 7 (snd (addTimer 10 (Some (Cb 1)) False 100 7 (TimerManager_new 100))) = Inr (True, tm') \<and>
     7 \<notin> set (m_timers tm')"
proof -
  let ?tm = "snd (addTimer 10 (Some (Cb 1)) False 100 7 (TimerManager_new 100))"
  have "tm_reach ?tm" by (intro reach_step [OF reach_new step_add]) (simp add: TimerManager_new_def)
  moreover have "tm_store ?tm 7 = Some (Timer_new 10 (Some (Cb 1)) False 100)"
    by (simp add: addTimer_def addTimer_lock_def put_timer_def Let_def)
  ultimately show ?thesis
    using timer_cancel_safe [of ?tm 7 "Timer_new 10 (Some (Cb 1)) False 100"] by (auto simp: Timer_new_def)
qed

text \<open>C14. \<open>listExpiredCb\<close> takes exactly the timers that are due (all of them after the clock went back
  by more than an hour), whatever the address of its search key: it appends their callbacks in the
  order of the set, keeps the recurring ones with the new due time \<open>now + ms\<close>, takes the others out
  and drops their callbacks, and changes no other timer.\<close>

theorem listExpiredCb_exact:
  assumes "tm_reach tm" and "a \<notin> set (m_timers tm)" and "ro = fst (detectClockRollover now tm)"
    and "E = {p \<in> set (m_timers tm). ro \<or> t_next (timer_at (tm_store tm) p) \<le> now}"
  shows "\<exists>tm'. listExpiredCb now a cbs tm =
           (cbs @ map (\<lambda>p. t_cb (timer_at (tm_store tm) p)) (filter (\<lambda>p. p \<in> E) (m_timers tm)), tm') \<and>
         tm_reach tm' \<and>
         set (m_timers tm') = (set (m_timers tm) - E) \<union> {p \<in> E. t_recurring (timer_at (tm_store tm) p)} \<and>
         (\<forall>p \<in> E. t_recurring (timer_at (tm_store tm) p) \<longrightarrow>
            t_next (timer_at (tm_store tm') p) = now + t_ms (timer_at (tm_store tm) p)) \<and>
         (\<forall>p \<in> E. \<not> t_recurring (timer_at (tm_store tm) p) \<longrightarrow> t_cb (timer_at (tm_store tm') p) = None) \<and>
         (\<forall>p. p \<notin> E \<longrightarrow> tm_store tm' p = tm_store tm p)"
proof -
  have ok: "tm_ok tm" using assms(1) by (rule tm_reach_ok)
  obtain tm' where l: "listExpiredCb now a cbs tm =
      (cbs @ map (\<lambda>p. t_cb (timer_at (tm_store tm) p)) (filter (due (tm_store tm) ro now) (m_timers tm)), tm')"
      "set (m_timers tm') = {p \<in> set (m_timers tm).
            due (tm_store tm) ro now p \<longrightarrow> t_recurring (timer_at (tm_store tm) p)}"
      "\<forall>p. tm_store tm' p = (if p \<in> set (m_timers tm) \<and> due (tm_store tm) ro now p
            then Some (expired_timer now (timer_at (tm_store tm) p)) else tm_store tm p)"
    using listExpired_ok [OF ok assms(2), of now cbs] assms(3) by auto
  have E: "p \<in> E \<longleftrightarrow> p \<in> set (m_timers tm) \<and> due (tm_store tm) ro now p" for p
    using assms(4) by (simp add: due_def)
  have f: "filter (due (tm_store tm) ro now) (m_timers tm) = filter (\<lambda>p. p \<in> E) (m_timers tm)"
    by (rule filter_cong) (auto simp: E)
  have "snd (listExpiredCb now a [] tm) = tm'"
    using listExpiredCb_state [of now a "[]" tm cbs] l(1) by simp
  then have "tm_reach tm'" using reach_step [OF assms(1) step_expire [OF assms(2)], of now] by simp
  with l f show ?thesis
    by (intro exI [of _ tm']) (auto simp: E timer_at_def expired_timer_def)
qed

text \<open>The state with timers 7 (recurring, due at 110) and 3 (due at 120), used in the examples.\<close>

definition two_timers :: TimerManager where
  "two_timers = snd (addTimer 20 (Some (Cb 2)) False 100 3
     (snd (addTimer 10 (Some (Cb 1)) True 100 7 (TimerManager_new 100))))"

lemma two_timers: "tm_reach two_timers" "m_timers two_timers = [7, 3]"
  "tm_store two_timers = [7 \<mapsto> Timer_new 10 (Some (Cb 1)) True 100, 3 \<mapsto> Timer_new 20 (Some (Cb 2)) False 100]"
  "m_previousTime two_timers = 100"
proof -
  let ?t1 = "snd (addTimer 10 (Some (Cb 1)) True 100 7 (TimerManager_new 100))"
  have t1: "m_timers ?t1 = [7]" by (simp add: addTimer_def addTimer_lock_def put_timer_def TimerManager_new_def Let_def)
  have "tm_reach ?t1" by (intro reach_step [OF reach_new step_add]) (simp add: TimerManager_new_def)
  then show "tm_reach two_timers"
    unfolding two_timers_def by (rule reach_step [OF _ step_add]) (simp add: t1 del: One_nat_def)
qed (simp_all add: two_timers_def addTimer_def addTimer_lock_def put_timer_def TimerManager_new_def Let_def
    timer_lt_iff timer_at_def Timer_new_def)

theorem listExpiredCb_exact_witness:
  "\<exists>tm'. listExpiredCb 115 0 [] two_timers = ([Some (Cb 1)], tm') \<and> set (m_timers tm') = {3, 7} \<and>
     t_next (timer_at (tm_store tm') 7) = 125"
proof -
  have E: "{p \<in> set (m_timers two_timers). fst (detectClockRollover 115 two_timers) \<or>
      t_next (timer_at (tm_store two_timers) p) \<le> 115} = {7}"
    by (auto simp: two_timers detectClockRollover_def timer_at_def Timer_new_def)
  have "0 \<notin> set (m_timers two_timers)" by (simp add: two_timers)
  from listExpiredCb_exact [OF two_timers(1) this refl E [symmetric], of "[]"] show ?thesis
    by (auto simp: two_timers timer_at_def Timer_new_def)
qed

text \<open>No timer is slept through: when a manager that is not empty answers \<open>getNextTimer\<close> with \<open>d\<close>
  milliseconds, then \<open>listExpiredCb\<close> after exactly \<open>d\<close> milliseconds hands out the callback of the
  first timer of the set (and with \<open>d = 0\<close> it does so at once).\<close>

theorem next_timer_fires:
  assumes "tm_reach tm" and "m_timers tm = p # ps" and "a \<notin> set (m_timers tm)"
    and "getNextTimer now tm = (d, tm1)"
  shows "\<exists>rest tm'. listExpiredCb (now + d) a cbs tm1 =
           (cbs @ t_cb (timer_at (tm_store tm) p) # rest, tm')"
proof -
  have tm1: "tm1 = tm\<lparr>m_tickled := False\<rparr>" and d: "d = (if now \<ge> t_next (timer_at (tm_store tm) p) then 0
      else t_next (timer_at (tm_store tm) p) - now)"
    using assms(2,4) by (auto simp: getNextTimer_def Let_def)
  have ok: "tm_ok tm1" using tm_reach_ok [OF assms(1)] by (simp add: tm1 tm_ok_frame)
  have "due (tm_store tm1) ro (now + d) p" for ro by (simp add: due_def tm1 d)
  then show ?thesis
    using listExpired_ok [OF ok, of a "now + d" cbs] assms(2,3) by (auto simp: tm1)
qed

theorem next_timer_fires_witness:
  "\<exists>rest tm'. listExpiredCb (101 + 9) 0 [] (two_timers\<lparr>m_tickled := False\<rparr>) = ([] @ Some (Cb 1) # rest, tm')"
proof -
  have "getNextTimer 101 two_timers = (9, two_timers\<lparr>m_tickled := False\<rparr>)"
    by (simp add: getNextTimer_def two_timers timer_at_def Timer_new_def Let_def)
  from next_timer_fires [OF two_timers(1,2) _ this, of 0 "[]"] show ?thesis
    by (simp add: two_timers timer_at_def Timer_new_def)
qed

end
