(* ===== verification/Scheduler.thy ===== *)
theory Scheduler
  imports Timers "HOL-Library.Multiset"
begin

text \<open>
  \<^verbatim>\<open>src/chat/scheduler.cc\<close> with \<^verbatim>\<open>scheduler.h\<close>, and the states of \<^verbatim>\<open>src/chat/fiber.cc\<close>: threads that take
  fibers and callbacks from a common queue. A state holds the shared members of \<open>Scheduler\<close>, the state
  of every fiber and, for every thread, where it stands in \<open>Scheduler::run\<close>; a step is one action of one
  thread between two accesses to shared state, so that steps of different threads interleave freely.
  What a fiber does between being swapped in and swapped out is arbitrary: it may schedule, yield,
  return or throw. \<open>tickle\<close> and \<open>idle\<close> are those of the base class. Callbacks are those of \<open>Timers\<close>.
\<close>

section \<open>State\<close>

datatype FiberState = F_INIT | F_HOLD | F_EXEC | F_TERM | F_READY | F_EXCEPT

type_synonym fiber_id = nat

record FiberAndThread =
  ft_fiber :: "fiber_id option"
  ft_cb :: "callback option"
  ft_thread :: int

text \<open>
  A thread is about to look for a task; has one (\<open>Got\<close>); runs a fiber (\<open>Running\<close>), taken from the queue or
  made for a callback (\<open>True\<close>); has changed the fiber's state but is still on its stack (\<open>Leaving\<close>); is back
  in \<open>run\<close> (\<open>Back\<close>); has counted itself inactive (\<open>Settling\<close>); found nothing; runs the idle fiber; or has
  left \<open>run\<close>.
\<close>

datatype position =
    Looking
  | Got FiberAndThread
  | Running fiber_id bool
  | Leaving fiber_id bool
  | Back fiber_id bool
  | Settling fiber_id bool
  | Nothing
  | Idling
  | Stopped

record ThreadState =
  th_id :: int
  th_pos :: position
  th_cb_fiber :: "fiber_id option"
  th_idle :: FiberState

record Scheduler =
  sc_fibers :: "FiberAndThread list"
  sc_states :: "FiberState list"
  sc_threads :: "ThreadState list"
  sc_activeThreadCount :: nat
  sc_idleThreadCount :: nat
  sc_stopping :: bool
  sc_autoStop :: bool
  sc_scheduled :: "FiberAndThread multiset"
  sc_taken :: "(int \<times> FiberAndThread) list"

text \<open>The last two members record what was put into the queue and which thread took what out of it.\<close>

definition Scheduler_new :: "int list \<Rightarrow> Scheduler" where
  "Scheduler_new ids =
     \<lparr>sc_fibers = [], sc_states = [],
      sc_threads = map (\<lambda>i. \<lparr>th_id = i, th_pos = Looking, th_cb_fiber = None, th_idle = F_INIT\<rparr>) ids,
      sc_activeThreadCount = 0, sc_idleThreadCount = 0, sc_stopping = False, sc_autoStop = False,
      sc_scheduled = {#}, sc_taken = []\<rparr>"

section \<open>Operations on the shared state\<close>

definition scheduleNoLock :: "FiberAndThread \<Rightarrow> Scheduler \<Rightarrow> bool \<times> Scheduler" where
  "scheduleNoLock ft s =
     (sc_fibers s = [],
      if ft_fiber ft \<noteq> None \<or> ft_cb ft \<noteq> None
      then s\<lparr>sc_fibers := sc_fibers s @ [ft], sc_scheduled := add_mset ft (sc_scheduled s)\<rparr> else s)"

definition schedule :: "FiberAndThread \<Rightarrow> Scheduler \<Rightarrow> Scheduler" where
  "schedule ft s = snd (scheduleNoLock ft s)"

text \<open>
  The loop over the queue: the first task that this thread may run, the queue without it, and whether
  another thread has to be woken. \<open>Inl\<close> stands for the failed assertion.
\<close>

fun take_task ::
    "int \<Rightarrow> FiberState list \<Rightarrow> FiberAndThread list \<Rightarrow> bool \<Rightarrow> error + (FiberAndThread option \<times> FiberAndThread list \<times> bool)" where
  "take_task tid states [] tickle_me = Inr (None, [], tickle_me)"
| "take_task tid states (it # its) tickle_me =
     (if ft_thread it \<noteq> -1 \<and> ft_thread it \<noteq> tid then
        map_sum id (\<lambda>(ft, rest, tk). (ft, it # rest, tk)) (take_task tid states its True)
      else if ft_fiber it = None \<and> ft_cb it = None then Inl Assert_failed
      else if (case ft_fiber it of Some f \<Rightarrow> states ! f = F_EXEC | None \<Rightarrow> False) then
        map_sum id (\<lambda>(ft, rest, tk). (ft, it # rest, tk)) (take_task tid states its tickle_me)
      else Inr (Some it, its, tickle_me))"

definition stopping_now :: "Scheduler \<Rightarrow> bool" where
  "stopping_now s \<longleftrightarrow> sc_stopping s \<and> sc_autoStop s \<and> sc_fibers s = [] \<and> sc_activeThreadCount s = 0"

definition on_thread :: "nat \<Rightarrow> (ThreadState \<Rightarrow> ThreadState) \<Rightarrow> Scheduler \<Rightarrow> Scheduler" where
  "on_thread t f s = s\<lparr>sc_threads := (sc_threads s)[t := f (sc_threads s ! t)]\<rparr>"

definition move :: "nat \<Rightarrow> position \<Rightarrow> Scheduler \<Rightarrow> Scheduler" where
  "move t p = on_thread t (th_pos_update (\<lambda>_. p))"

definition set_state :: "fiber_id \<Rightarrow> FiberState \<Rightarrow> Scheduler \<Rightarrow> Scheduler" where
  "set_state f st s = s\<lparr>sc_states := (sc_states s)[f := st]\<rparr>"

definition alive :: "FiberState \<Rightarrow> bool" where
  "alive st \<longleftrightarrow> st \<noteq> F_TERM \<and> st \<noteq> F_EXCEPT"

section \<open>The body of the loop\<close>

definition look :: "nat \<Rightarrow> Scheduler \<Rightarrow> error + Scheduler" where
  "look t s =
     (let tid = th_id (sc_threads s ! t) in
      case take_task tid (sc_states s) (sc_fibers s) False of
        Inl e \<Rightarrow> Inl e
      | Inr (None, rest, tk) \<Rightarrow> Inr (move t Nothing s)
      | Inr (Some ft, rest, tk) \<Rightarrow>
          Inr (move t (Got ft) (s\<lparr>sc_fibers := rest, sc_activeThreadCount := sc_activeThreadCount s + 1,
                 sc_taken := sc_taken s @ [(tid, ft)]\<rparr>)))"

text \<open>
  \<open>cb_fiber\<close> is reset to the callback, which asserts that it has ended or not begun, or made when the
  thread has none.
\<close>

definition resettable :: "FiberState \<Rightarrow> bool" where
  "resettable st \<longleftrightarrow> st = F_TERM \<or> st = F_INIT \<or> st = F_EXCEPT"

definition enter_cb :: "nat \<Rightarrow> Scheduler \<Rightarrow> error + Scheduler" where
  "enter_cb t s =
     (case th_cb_fiber (sc_threads s ! t) of
        Some f \<Rightarrow>
          if resettable (sc_states s ! f) then Inr (move t (Running f True) (set_state f F_EXEC s))
          else Inl Assert_failed
      | None \<Rightarrow>
          let f = length (sc_states s)
          in Inr (move t (Running f True) (on_thread t (th_cb_fiber_update (\<lambda>_. Some f))
               (s\<lparr>sc_states := sc_states s @ [F_EXEC]\<rparr>))))"

definition enter :: "nat \<Rightarrow> FiberAndThread \<Rightarrow> Scheduler \<Rightarrow> error + Scheduler" where
  "enter t ft s =
     (if (case ft_fiber ft of Some f \<Rightarrow> alive (sc_states s ! f) | None \<Rightarrow> False)
      then Inr (move t (Running (the (ft_fiber ft)) False) (set_state (the (ft_fiber ft)) F_EXEC s))
      else if ft_cb ft \<noteq> None then enter_cb t s
      else Inr (move t Looking (s\<lparr>sc_activeThreadCount := sc_activeThreadCount s - 1\<rparr>)))"

text \<open>
  How a running fiber leaves: \<open>YieldToReady\<close> and \<open>YieldToHold\<close> assert that its state is EXEC; at the end of
  \<open>MainFunc\<close> the state is TERM or EXCEPT. Then \<open>swapOut\<close> saves its context.
\<close>

definition leave :: "nat \<Rightarrow> fiber_id \<Rightarrow> bool \<Rightarrow> FiberState \<Rightarrow> Scheduler \<Rightarrow> error + Scheduler" where
  "leave t f k st s =
     (if (st = F_READY \<or> st = F_HOLD) \<and> sc_states s ! f \<noteq> F_EXEC then Inl Assert_failed
      else Inr (move t (Leaving f k) (set_state f st s)))"

definition swapOut :: "nat \<Rightarrow> fiber_id \<Rightarrow> bool \<Rightarrow> Scheduler \<Rightarrow> Scheduler" where
  "swapOut t f k s = move t (Back f k) s"

definition come_back :: "nat \<Rightarrow> fiber_id \<Rightarrow> bool \<Rightarrow> Scheduler \<Rightarrow> Scheduler" where
  "come_back t f k s = move t (Settling f k) (s\<lparr>sc_activeThreadCount := sc_activeThreadCount s - 1\<rparr>)"

definition fiber_task :: "fiber_id \<Rightarrow> FiberAndThread" where
  "fiber_task f = \<lparr>ft_fiber = Some f, ft_cb = None, ft_thread = -1\<rparr>"

definition settle :: "nat \<Rightarrow> fiber_id \<Rightarrow> bool \<Rightarrow> Scheduler \<Rightarrow> Scheduler" where
  "settle t f k s =
     (let st = sc_states s ! f;
          drop_cb = (if k then on_thread t (th_cb_fiber_update (\<lambda>_. None)) else id)
      in move t Looking
           (if st = F_READY then drop_cb (schedule (fiber_task f) s)
            else if alive st then drop_cb (set_state f F_HOLD s)
            else if k then set_state f F_INIT s
            else s))"

definition idle_enter :: "nat \<Rightarrow> Scheduler \<Rightarrow> Scheduler" where
  "idle_enter t s =
     (if th_idle (sc_threads s ! t) = F_TERM then move t Stopped s
      else move t Idling (s\<lparr>sc_idleThreadCount := sc_idleThreadCount s + 1\<rparr>))"

text \<open>The idle fiber looks once whether to stop: it ends, or yields and is set to HOLD.\<close>

definition idle_check :: "nat \<Rightarrow> Scheduler \<Rightarrow> Scheduler" where
  "idle_check t s =
     move t Looking (on_thread t (th_idle_update (\<lambda>_. if stopping_now s then F_TERM else F_HOLD))
       (s\<lparr>sc_idleThreadCount := sc_idleThreadCount s - 1\<rparr>))"

text \<open>\<open>stop\<close> up to the point where it waits for the threads.\<close>

definition stop :: "Scheduler \<Rightarrow> Scheduler" where
  "stop s = s\<lparr>sc_autoStop := True, sc_stopping := True\<rparr>"

section \<open>Steps\<close>

inductive sched_step :: "Scheduler \<Rightarrow> Scheduler \<Rightarrow> bool" where
  new_fiber: "sched_step s (s\<lparr>sc_states := sc_states s @ [F_INIT]\<rparr>)"
| scheduled: "(\<And>f. ft_fiber ft = Some f \<Longrightarrow> f < length (sc_states s)) \<Longrightarrow> sched_step s (schedule ft s)"
| looks: "t < length (sc_threads s) \<Longrightarrow> th_pos (sc_threads s ! t) = Looking \<Longrightarrow> look t s = Inr s' \<Longrightarrow> sched_step s s'"
| enters: "t < length (sc_threads s) \<Longrightarrow> th_pos (sc_threads s ! t) = Got ft \<Longrightarrow> enter t ft s = Inr s' \<Longrightarrow> sched_step s s'"
| leaves: "t < length (sc_threads s) \<Longrightarrow> th_pos (sc_threads s ! t) = Running f k \<Longrightarrow>
    st \<in> {F_READY, F_HOLD, F_TERM, F_EXCEPT} \<Longrightarrow> leave t f k st s = Inr s' \<Longrightarrow> sched_step s s'"
| swaps_out: "t < length (sc_threads s) \<Longrightarrow> th_pos (sc_threads s ! t) = Leaving f k \<Longrightarrow> sched_step s (swapOut t f k s)"
| returns: "t < length (sc_threads s) \<Longrightarrow> th_pos (sc_threads s ! t) = Back f k \<Longrightarrow> sched_step s (come_back t f k s)"
| settles: "t < length (sc_threads s) \<Longrightarrow> th_pos (sc_threads s ! t) = Settling f k \<Longrightarrow> sched_step s (settle t f k s)"
| idles: "t < length (sc_threads s) \<Longrightarrow> th_pos (sc_threads s ! t) = Nothing \<Longrightarrow> sched_step s (idle_enter t s)"
| checks: "t < length (sc_threads s) \<Longrightarrow> th_pos (sc_threads s ! t) = Idling \<Longrightarrow> sched_step s (idle_check t s)"
| stops: "sched_step s (stop s)"

section \<open>The invariant\<close>

definition busy :: "position \<Rightarrow> bool" where
  "busy p = (case p of Got _ \<Rightarrow> True | Running _ _ \<Rightarrow> True | Leaving _ _ \<Rightarrow> True | Back _ _ \<Rightarrow> True | _ \<Rightarrow> False)"

definition sched_ok :: "Scheduler \<Rightarrow> bool" where
  "sched_ok s \<longleftrightarrow>
     sc_activeThreadCount s = length (filter (\<lambda>th. busy (th_pos th)) (sc_threads s))
   \<and> sc_idleThreadCount s = length (filter (\<lambda>th. th_pos th = Idling) (sc_threads s))
   \<and> sc_scheduled s = mset (sc_fibers s) + image_mset snd (mset (sc_taken s))
   \<and> list_all (\<lambda>ft. ft_fiber ft \<noteq> None \<or> ft_cb ft \<noteq> None) (sc_fibers s)
   \<and> list_all (\<lambda>(tid, ft). ft_thread ft = -1 \<or> ft_thread ft = tid) (sc_taken s)"

lemma length_filter_update:
  assumes "i < length xs"
  shows "length (filter P (xs[i := x])) + of_bool (P (xs ! i)) = length (filter P xs) + of_bool (P x)"
  using assms
proof (induction xs arbitrary: i)
  case (Cons y ys)
  then show ?case by (cases i) auto
qed simp

lemma take_task_some:
  "take_task tid states q tk = Inr (Some ft, rest, tk') \<Longrightarrow>
     mset q = add_mset ft (mset rest) \<and> (ft_thread ft = -1 \<or> ft_thread ft = tid)"
  by (induction tid states q tk arbitrary: rest rule: take_task.induct)
    (auto simp: map_sum_eq_Inr split: if_splits)

lemma take_task_safe: "list_all (\<lambda>ft. ft_fiber ft \<noteq> None \<or> ft_cb ft \<noteq> None) q \<Longrightarrow> \<exists>r. take_task tid states q tk = Inr r"
  by (induction tid states q tk rule: take_task.induct) auto

lemma list_all_mset: "list_all P q \<longleftrightarrow> (\<forall>x \<in># mset q. P x)"
  by (simp add: list_all_iff)

lemma active_pos: "sched_ok s \<Longrightarrow> t < length (sc_threads s) \<Longrightarrow> busy (th_pos (sc_threads s ! t)) \<Longrightarrow> 1 \<le> sc_activeThreadCount s"
  by (auto simp: sched_ok_def Suc_le_eq filter_empty_conv intro!: bexI [of _ "sc_threads s ! t"])

lemma idle_pos: "sched_ok s \<Longrightarrow> t < length (sc_threads s) \<Longrightarrow> th_pos (sc_threads s ! t) = Idling \<Longrightarrow> 1 \<le> sc_idleThreadCount s"
  by (auto simp: sched_ok_def Suc_le_eq filter_empty_conv intro!: bexI [of _ "sc_threads s ! t"])

text \<open>A step of one thread, seen from the counters.\<close>

lemma sched_okI:
  assumes "sched_ok s" and "t < length (sc_threads s)" and "sc_threads s' = (sc_threads s)[t := th]"
    and "sc_activeThreadCount s' + of_bool (busy (th_pos (sc_threads s ! t))) = sc_activeThreadCount s + of_bool (busy (th_pos th))"
    and "sc_idleThreadCount s' + of_bool (th_pos (sc_threads s ! t) = Idling) = sc_idleThreadCount s + of_bool (th_pos th = Idling)"
    and "sc_scheduled s' = mset (sc_fibers s') + image_mset snd (mset (sc_taken s'))"
    and "list_all (\<lambda>ft. ft_fiber ft \<noteq> None \<or> ft_cb ft \<noteq> None) (sc_fibers s')"
    and "list_all (\<lambda>(tid, ft). ft_thread ft = -1 \<or> ft_thread ft = tid) (sc_taken s')"
  shows "sched_ok s'"
  using assms length_filter_update [OF assms(2), of "\<lambda>th. busy (th_pos th)" th]
    length_filter_update [OF assms(2), of "\<lambda>th. th_pos th = Idling" th]
  by (simp add: sched_ok_def)

lemma thread_ops [simp]:
  "sc_fibers (move t p s) = sc_fibers s" "sc_fibers (set_state f st s) = sc_fibers s" "sc_fibers (on_thread t g s) = sc_fibers s"
  "sc_scheduled (move t p s) = sc_scheduled s" "sc_scheduled (set_state f st s) = sc_scheduled s"
  "sc_scheduled (on_thread t g s) = sc_scheduled s"
  "sc_taken (move t p s) = sc_taken s" "sc_taken (set_state f st s) = sc_taken s" "sc_taken (on_thread t g s) = sc_taken s"
  "sc_taken (schedule ft s) = sc_taken s"
  "sc_activeThreadCount (move t p s) = sc_activeThreadCount s" "sc_activeThreadCount (set_state f st s) = sc_activeThreadCount s"
  "sc_activeThreadCount (on_thread t g s) = sc_activeThreadCount s" "sc_activeThreadCount (schedule ft s) = sc_activeThreadCount s"
  "sc_idleThreadCount (move t p s) = sc_idleThreadCount s" "sc_idleThreadCount (set_state f st s) = sc_idleThreadCount s"
  "sc_idleThreadCount (on_thread t g s) = sc_idleThreadCount s" "sc_idleThreadCount (schedule ft s) = sc_idleThreadCount s"
  "sc_threads (set_state f st s) = sc_threads s" "sc_threads (schedule ft s) = sc_threads s"
  "sc_threads (on_thread t g s) = (sc_threads s)[t := g (sc_threads s ! t)]"
  "sc_threads (move t p s) = (sc_threads s)[t := (sc_threads s ! t)\<lparr>th_pos := p\<rparr>]"
  by (simp_all add: move_def on_thread_def set_state_def schedule_def scheduleNoLock_def)

lemma busy_simps [simp]:
  "\<not> busy Looking" "busy (Got ft)" "busy (Running f k)" "busy (Leaving f k)" "busy (Back f k)"
  "\<not> busy (Settling f k)" "\<not> busy Nothing" "\<not> busy Idling" "\<not> busy Stopped"
  by (simp_all add: busy_def)

lemma sched_ok_schedule: "sched_ok s \<Longrightarrow> sched_ok (schedule ft s)"
  by (simp add: sched_ok_def schedule_def scheduleNoLock_def)

lemma sched_ok_queue:
  assumes "sched_ok s"
  shows "sc_scheduled s = mset (sc_fibers s) + image_mset snd (mset (sc_taken s))"
    and "list_all (\<lambda>ft. ft_fiber ft \<noteq> None \<or> ft_cb ft \<noteq> None) (sc_fibers s)"
    and "list_all (\<lambda>(tid, ft). ft_thread ft = -1 \<or> ft_thread ft = tid) (sc_taken s)"
  using assms by (simp_all add: sched_ok_def)

lemma sched_ok_look:
  assumes "sched_ok s" and "t < length (sc_threads s)" and "th_pos (sc_threads s ! t) = Looking" and "look t s = Inr s'"
  shows "sched_ok s'"
proof (cases "take_task (th_id (sc_threads s ! t)) (sc_states s) (sc_fibers s) False")
  case (Inr r)
  obtain ft rest tk where r: "r = (ft, rest, tk)" by (cases r)
  note q = sched_ok_queue [OF assms(1)]
  show ?thesis
  proof (cases ft)
    case None
    show ?thesis
      using assms(2-4) q Inr r None by (intro sched_okI [OF assms(1,2)]) (auto simp: look_def Let_def)
  next
    case (Some task)
    note tt = take_task_some [OF Inr [unfolded r Some]]
    have "list_all (\<lambda>ft. ft_fiber ft \<noteq> None \<or> ft_cb ft \<noteq> None) rest" using q(2) tt by (simp add: list_all_mset)
    then show ?thesis
      using assms(2-4) q Inr r Some tt by (intro sched_okI [OF assms(1,2)]) (auto simp: look_def Let_def)
  qed
qed (use assms(4) in \<open>simp add: look_def Let_def\<close>)

lemma sched_ok_enter:
  assumes "sched_ok s" and "t < length (sc_threads s)" and "th_pos (sc_threads s ! t) = Got ft" and "enter t ft s = Inr s'"
  shows "sched_ok s'"
  using assms(2-4) sched_ok_queue [OF assms(1)] active_pos [OF assms(1,2)]
  by (intro sched_okI [OF assms(1,2), where th = "sc_threads s' ! t"])
    (auto simp: enter_def enter_cb_def Let_def split: if_splits option.splits)

lemma sched_ok_leave:
  assumes "sched_ok s" and "t < length (sc_threads s)" and "th_pos (sc_threads s ! t) = Running f k" and "leave t f k st s = Inr s'"
  shows "sched_ok s'"
  using assms(2-4) sched_ok_queue [OF assms(1)]
  by (intro sched_okI [OF assms(1,2), where th = "sc_threads s' ! t"]) (auto simp: leave_def split: if_splits)

lemma sched_ok_settle:
  assumes "sched_ok s" and "t < length (sc_threads s)" and "th_pos (sc_threads s ! t) = Settling f k"
  shows "sched_ok (settle t f k s)"
  using assms(2,3) sched_ok_queue [OF assms(1)] sched_ok_queue [OF sched_ok_schedule [OF assms(1), of "fiber_task f"]]
  by (intro sched_okI [OF assms(1,2), where th = "sc_threads (settle t f k s) ! t"]) (auto simp: settle_def Let_def)

lemma sched_ok_step: "sched_step s s' \<Longrightarrow> sched_ok s \<Longrightarrow> sched_ok s'"
proof (induction rule: sched_step.induct)
  case (swaps_out t s f k)
  then show ?case
    using sched_ok_queue [OF swaps_out.prems]
    by (intro sched_okI [OF swaps_out.prems swaps_out.hyps(1), where th = "sc_threads (swapOut t f k s) ! t"]) (auto simp: swapOut_def)
next
  case (returns t s f k)
  then show ?case
    using sched_ok_queue [OF returns.prems] active_pos [of s t]
    by (intro sched_okI [OF returns.prems returns.hyps(1), where th = "sc_threads (come_back t f k s) ! t"]) (auto simp: come_back_def)
next
  case (idles t s)
  then show ?case
    using sched_ok_queue [OF idles.prems] by (intro sched_okI [OF idles.prems idles.hyps(1), where th = "sc_threads (idle_enter t s) ! t"]) (auto simp: idle_enter_def)
next
  case (checks t s)
  then show ?case
    using sched_ok_queue [OF checks.prems] idle_pos [of s t]
    by (intro sched_okI [OF checks.prems checks.hyps(1), where th = "sc_threads (idle_check t s) ! t"]) (auto simp: idle_check_def)
qed (auto intro: sched_ok_schedule sched_ok_look sched_ok_enter sched_ok_leave sched_ok_settle
    simp: stop_def sched_ok_def [of "_\<lparr>sc_states := _\<rparr>"] sched_ok_def [of "_\<lparr>sc_autoStop := _, sc_stopping := _\<rparr>"]
      dest: sched_ok_def [THEN iffD1])

lemma sched_ok_reachable: "sched_step\<^sup>*\<^sup>* (Scheduler_new ids) s \<Longrightarrow> sched_ok s"
proof (induction rule: rtranclp_induct)
  case base
  show ?case by (simp add: sched_ok_def Scheduler_new_def o_def)
qed (rule sched_ok_step)


definition one_task :: FiberAndThread where
  "one_task = \<lparr>ft_fiber = None, ft_cb = Some (Cb 0), ft_thread = 2\<rparr>"


section \<open>A fiber on two threads\<close>

text \<open>
  \<open>YieldToHold\<close> sets the state HOLD before \<open>swapOut\<close> has saved the context. A fiber that was scheduled again while
  it was still running, as \<open>FiberSemaphore::notify\<close> does to one that is about to yield, can be taken by a second thread in
  between: a reachable state has the first thread still on the stack of the fiber and the second
  running it.
\<close>

definition race_start :: Scheduler where
  "race_start = schedule (fiber_task 0) ((Scheduler_new [1, 2])\<lparr>sc_states := [F_INIT]\<rparr>)"

definition race_running :: Scheduler where
  "race_running = move 0 (Running 0 False) (set_state 0 F_EXEC (move 0 (Got (fiber_task 0))
     (race_start\<lparr>sc_fibers := [], sc_activeThreadCount := 1, sc_taken := [(1, fiber_task 0)]\<rparr>)))"

definition race_yielding :: Scheduler where
  "race_yielding = move 0 (Leaving 0 False) (set_state 0 F_HOLD (schedule (fiber_task 0) race_running))"

definition race_twice :: Scheduler where
  "race_twice = move 1 (Running 0 False) (set_state 0 F_EXEC (move 1 (Got (fiber_task 0))
     (race_yielding\<lparr>sc_fibers := [], sc_activeThreadCount := 2, sc_taken := [(1, fiber_task 0), (2, fiber_task 0)]\<rparr>)))"

lemmas race_defs = race_start_def race_running_def race_yielding_def race_twice_def Scheduler_new_def
  schedule_def scheduleNoLock_def fiber_task_def move_def on_thread_def set_state_def

lemma race_reachable: "sched_step\<^sup>*\<^sup>* (Scheduler_new [1, 2]) race_twice"
proof -
  have "sched_step (Scheduler_new [1, 2]) ((Scheduler_new [1, 2])\<lparr>sc_states := [F_INIT]\<rparr>)"
    using sched_step.new_fiber [of "Scheduler_new [1, 2]"] by (simp add: Scheduler_new_def)
  also have "sched_step\<^sup>*\<^sup>* \<dots> race_start"
    unfolding race_start_def by (intro r_into_rtranclp sched_step.scheduled) (simp add: fiber_task_def)
  also have "sched_step\<^sup>*\<^sup>* race_start (move 0 (Got (fiber_task 0))
      (race_start\<lparr>sc_fibers := [], sc_activeThreadCount := 1, sc_taken := [(1, fiber_task 0)]\<rparr>))"
    by (intro r_into_rtranclp sched_step.looks [of 0]) (simp_all add: race_defs look_def)
  also have "sched_step\<^sup>*\<^sup>* \<dots> race_running"
    by (intro r_into_rtranclp sched_step.enters [of 0 _ "fiber_task 0"]) (simp_all add: race_defs enter_def alive_def)
  also have "sched_step\<^sup>*\<^sup>* race_running (schedule (fiber_task 0) race_running)"
    by (intro r_into_rtranclp sched_step.scheduled) (simp add: race_defs)
  also have "sched_step\<^sup>*\<^sup>* \<dots> race_yielding"
    by (intro r_into_rtranclp sched_step.leaves [of 0 _ 0 False F_HOLD]) (simp_all add: race_defs leave_def)
  also have "sched_step\<^sup>*\<^sup>* race_yielding (move 1 (Got (fiber_task 0))
      (race_yielding\<lparr>sc_fibers := [], sc_activeThreadCount := 2, sc_taken := [(1, fiber_task 0), (2, fiber_task 0)]\<rparr>))"
    by (intro r_into_rtranclp sched_step.looks [of 1]) (simp_all add: race_defs look_def)
  also have "sched_step\<^sup>*\<^sup>* \<dots> race_twice"
    by (intro r_into_rtranclp sched_step.enters [of 1 _ "fiber_task 0"]) (simp_all add: race_defs enter_def alive_def)
  finally show ?thesis by simp
qed


end
