(* ===== verification/FiberSync.thy ===== *)
theory FiberSync
  imports Scheduler
begin

text \<open>
  \<open>FiberSemaphore\<close> of \<^verbatim>\<open>src/chat/mutex.cc\<close> and \<open>BlockingQueue\<close> of \<^verbatim>\<open>src/chat/blocking_queue.h\<close>. Waiting fibers
  are named as in \<open>Scheduler\<close>; an operation that wakes fibers returns them in the order in which they are
  scheduled. The mutexes make the operations on the members atomic; the steps of the queue are the
  atomic parts of its methods, which interleave freely.
\<close>

section \<open>Semaphores\<close>

record FiberSemaphore =
  fs_waiters :: "fiber_id list"
  fs_concurrency :: nat

definition FiberSemaphore_new :: "nat \<Rightarrow> FiberSemaphore" where
  "FiberSemaphore_new n = \<lparr>fs_waiters = [], fs_concurrency = n\<rparr>"

definition tryWait :: "FiberSemaphore \<Rightarrow> bool \<times> FiberSemaphore" where
  "tryWait sem =
     (if fs_concurrency sem > 0 then (True, sem\<lparr>fs_concurrency := fs_concurrency sem - 1\<rparr>) else (False, sem))"

text \<open>\<open>True\<close> when the fiber goes on, \<open>False\<close> when it was queued and yields.\<close>

definition sem_wait :: "fiber_id \<Rightarrow> FiberSemaphore \<Rightarrow> bool \<times> FiberSemaphore" where
  "sem_wait f sem =
     (if fs_concurrency sem > 0 then (True, sem\<lparr>fs_concurrency := fs_concurrency sem - 1\<rparr>)
      else (False, sem\<lparr>fs_waiters := fs_waiters sem @ [f]\<rparr>))"

definition sem_notify :: "FiberSemaphore \<Rightarrow> fiber_id list \<times> FiberSemaphore" where
  "sem_notify sem =
     (case fs_waiters sem of
        f # fs \<Rightarrow> ([f], sem\<lparr>fs_waiters := fs\<rparr>)
      | [] \<Rightarrow> ([], sem\<lparr>fs_concurrency := fs_concurrency sem + 1\<rparr>))"

definition sem_notifyAll :: "FiberSemaphore \<Rightarrow> fiber_id list \<times> FiberSemaphore" where
  "sem_notifyAll sem = (fs_waiters sem, sem\<lparr>fs_waiters := []\<rparr>)"

section \<open>Blocking queues\<close>

text \<open>
  \<open>bq_passed\<close> are the fibers that are past \<open>m_sem.wait()\<close> and have not popped yet, \<open>bq_unsignalled\<close> counts the
  calls of \<open>push\<close> that have stored their element and not notified yet, \<open>bq_pushed\<close> and \<open>bq_popped\<close> record the
  elements in the order of their operations.
\<close>

record 'a BlockingQueue =
  bq_sem :: FiberSemaphore
  bq_datas :: "'a list"
  bq_passed :: "fiber_id list"
  bq_unsignalled :: nat
  bq_pushed :: "'a list"
  bq_popped :: "(fiber_id \<times> 'a) list"

definition BlockingQueue_new :: "'a BlockingQueue" where
  "BlockingQueue_new =
     \<lparr>bq_sem = FiberSemaphore_new 0, bq_datas = [], bq_passed = [], bq_unsignalled = 0, bq_pushed = [], bq_popped = []\<rparr>"

definition push_store :: "'a \<Rightarrow> 'a BlockingQueue \<Rightarrow> 'a BlockingQueue" where
  "push_store x q =
     q\<lparr>bq_datas := bq_datas q @ [x], bq_unsignalled := bq_unsignalled q + 1, bq_pushed := bq_pushed q @ [x]\<rparr>"

definition push_notify :: "'a BlockingQueue \<Rightarrow> 'a BlockingQueue" where
  "push_notify q =
     (let (woken, sem) = sem_notify (bq_sem q)
      in q\<lparr>bq_sem := sem, bq_unsignalled := bq_unsignalled q - 1, bq_passed := bq_passed q @ woken\<rparr>)"

definition pop_wait :: "fiber_id \<Rightarrow> 'a BlockingQueue \<Rightarrow> 'a BlockingQueue" where
  "pop_wait f q =
     (let (passed, sem) = sem_wait f (bq_sem q)
      in q\<lparr>bq_sem := sem, bq_passed := bq_passed q @ (if passed then [f] else [])\<rparr>)"

text \<open>\<open>front\<close> of an empty list is undefined.\<close>

definition pop_take :: "fiber_id \<Rightarrow> 'a BlockingQueue \<Rightarrow> error + 'a \<times> 'a BlockingQueue" where
  "pop_take f q =
     (case bq_datas q of
        [] \<Rightarrow> Inl (Out_of_range ''front'')
      | x # xs \<Rightarrow> Inr (x, q\<lparr>bq_datas := xs, bq_passed := remove1 f (bq_passed q), bq_popped := bq_popped q @ [(f, x)]\<rparr>))"

definition bq_notifyAll :: "'a BlockingQueue \<Rightarrow> 'a BlockingQueue" where
  "bq_notifyAll q =
     (let (woken, sem) = sem_notifyAll (bq_sem q) in q\<lparr>bq_sem := sem, bq_passed := bq_passed q @ woken\<rparr>)"

section \<open>First in, first out\<close>

inductive bq_step :: "'a BlockingQueue \<Rightarrow> 'a BlockingQueue \<Rightarrow> bool" where
  store: "bq_step q (push_store x q)"
| signal: "bq_unsignalled q > 0 \<Longrightarrow> bq_step q (push_notify q)"
| waits: "bq_step q (pop_wait f q)"
| takes: "f \<in> set (bq_passed q) \<Longrightarrow> pop_take f q = Inr (x, q') \<Longrightarrow> bq_step q q'"

definition bq_ok :: "'a BlockingQueue \<Rightarrow> bool" where
  "bq_ok q \<longleftrightarrow>
     length (bq_datas q) = fs_concurrency (bq_sem q) + length (bq_passed q) + bq_unsignalled q
   \<and> (fs_waiters (bq_sem q) \<noteq> [] \<longrightarrow> fs_concurrency (bq_sem q) = 0)
   \<and> map snd (bq_popped q) @ bq_datas q = bq_pushed q"

lemma bq_ok_step: "bq_step q q' \<Longrightarrow> bq_ok q \<Longrightarrow> bq_ok q'"
proof (induction rule: bq_step.induct)
  case (takes f q x q')
  then have "length (bq_passed q) = Suc (length (remove1 f (bq_passed q)))"
    by (metis One_nat_def Suc_pred length_pos_if_in_set length_remove1)
  with takes show ?case by (auto simp: bq_ok_def pop_take_def split: list.splits)
qed (auto simp: bq_ok_def push_store_def push_notify_def sem_notify_def pop_wait_def sem_wait_def
    split: list.splits)

lemma bq_ok_reachable: "bq_step\<^sup>*\<^sup>* BlockingQueue_new q \<Longrightarrow> bq_ok q"
proof (induction rule: rtranclp_induct)
  case base
  show ?case by (simp add: bq_ok_def BlockingQueue_new_def FiberSemaphore_new_def)
qed (rule bq_ok_step)

text \<open>C13. A blocking queue is first in, first out and never fails. However the parts of \<open>push\<close> and \<open>pop\<close> of any
  number of fibers interleave (and \<open>notifyAll\<close> is not called), the elements popped so far followed by
  those stored are the elements pushed, in their order; a fiber that is past the wait finds an element; and no
  fiber waits while an element is left that no other fiber has been granted and no push is about to
  signal.\<close>

theorem blocking_queue_fifo:
  assumes "bq_step\<^sup>*\<^sup>* BlockingQueue_new q"
  shows "map snd (bq_popped q) @ bq_datas q = bq_pushed q
    \<and> (\<forall>f \<in> set (bq_passed q). \<exists>x q'. pop_take f q = Inr (x, q') \<and> bq_pushed q = map snd (bq_popped q) @ x # bq_datas q')
    \<and> (fs_waiters (bq_sem q) \<noteq> [] \<longrightarrow> length (bq_datas q) = length (bq_passed q) + bq_unsignalled q)"
proof -
  note ok = bq_ok_reachable [OF assms]
  have "\<exists>x q'. pop_take f q = Inr (x, q') \<and> bq_pushed q = map snd (bq_popped q) @ x # bq_datas q'"
    if "f \<in> set (bq_passed q)" for f
  proof -
    have "0 < length (bq_datas q)" using ok length_pos_if_in_set [OF that] by (simp add: bq_ok_def)
    then show ?thesis using ok by (cases "bq_datas q") (auto simp: pop_take_def bq_ok_def)
  qed
  with ok show ?thesis by (auto simp: bq_ok_def)
qed

theorem blocking_queue_fifo_witness:
  "\<exists>q q' :: nat BlockingQueue. bq_step\<^sup>*\<^sup>* BlockingQueue_new q \<and> bq_passed q = [3] \<and> pop_take 3 q = Inr (7, q')"
proof -
  let ?q = "push_notify (push_store (7 :: nat) (pop_wait 3 BlockingQueue_new))"
  have "bq_step BlockingQueue_new (pop_wait 3 BlockingQueue_new :: nat BlockingQueue)" by (rule bq_step.waits)
  moreover have "bq_step (pop_wait 3 BlockingQueue_new) (push_store (7 :: nat) (pop_wait 3 BlockingQueue_new))"
    by (rule bq_step.store)
  moreover have "bq_step (push_store (7 :: nat) (pop_wait 3 BlockingQueue_new)) ?q"
    by (rule bq_step.signal) (simp add: push_store_def)
  ultimately have r: "bq_step\<^sup>*\<^sup>* BlockingQueue_new ?q" by (meson r_into_rtranclp rtranclp_trans)
  have q: "bq_passed ?q = [3]" "bq_popped ?q = []" "bq_pushed ?q = [7]"
    by (simp_all add: push_notify_def push_store_def pop_wait_def sem_wait_def sem_notify_def BlockingQueue_new_def
        FiberSemaphore_new_def)
  with blocking_queue_fifo [OF r] r show ?thesis by fastforce
qed

text \<open>\<open>notifyAll\<close> lets a fiber past the wait although there is no element for it.\<close>

theorem notifyAll_breaks_pop:
  "pop_take 3 (bq_notifyAll (pop_wait 3 (BlockingQueue_new :: nat BlockingQueue))) = Inl (Out_of_range ''front'')
   \<and> 3 \<in> set (bq_passed (bq_notifyAll (pop_wait 3 (BlockingQueue_new :: nat BlockingQueue))))"
  by (simp add: pop_take_def bq_notifyAll_def pop_wait_def sem_wait_def sem_notifyAll_def BlockingQueue_new_def
      FiberSemaphore_new_def)

end
