(* ===== verification/IOManager.thy ===== *)
theory IOManager
  imports Scheduler
begin

text \<open>
  \<^verbatim>\<open>src/chat/iomanager.cc\<close>: the scheduler that waits for file descriptors. A fiber or a callback is
  registered for an event of a descriptor (\<open>addEvent\<close>) and scheduled when \<open>epoll\<close> reports the event or when
  it is cancelled. An \<open>IOManager\<close> is a \<open>Scheduler\<close> and a \<open>TimerManager\<close>; the scheduler that an event belongs to
  may be another one, so that schedulers are found by their address. \<open>epoll_ctl\<close> is a parameter;
  the locale \<open>epoll_kernel\<close> holds its contract. The last three members of the record are the history of
  registrations: what was registered, scheduled, and dropped by \<open>delEvent\<close>.
\<close>

section \<open>State\<close>

definition EV_READ :: "32 word" where "EV_READ = 1"
definition EV_WRITE :: "32 word" where "EV_WRITE = 4"
definition EPOLLIN :: "32 word" where "EPOLLIN = 1"
definition EPOLLOUT :: "32 word" where "EPOLLOUT = 4"
definition EPOLLERR :: "32 word" where "EPOLLERR = 8"
definition EPOLLHUP :: "32 word" where "EPOLLHUP = 16"
definition EPOLLET :: "32 word" where "EPOLLET = 2147483648"

lemmas event_defs = EV_READ_def EV_WRITE_def EPOLLIN_def EPOLLOUT_def EPOLLERR_def EPOLLHUP_def EPOLLET_def

record EventContext =
  ec_scheduler :: "nat option"
  ec_fiber :: "fiber_id option"
  ec_cb :: "callback option"

record FdContext =
  fc_fd :: nat
  fc_read :: EventContext
  fc_write :: EventContext
  fc_events :: "32 word"

datatype epoll_op = EPOLL_CTL_ADD | EPOLL_CTL_MOD | EPOLL_CTL_DEL

type_synonym 'k epoll_ctl = "epoll_op \<Rightarrow> int \<Rightarrow> 32 word \<Rightarrow> 'k \<Rightarrow> int \<times> 'k"
type_synonym registration = "nat \<times> FiberAndThread"

record 'k IOManager =
  io_self :: nat
  io_schedulers :: "nat \<Rightarrow> Scheduler"
  io_timers :: TimerManager
  io_tickleFd :: int
  io_pipe :: nat
  io_kernel :: 'k
  io_pendingEventCount :: "64 word"
  io_fdcontexts :: "FdContext list"
  io_registered :: "registration multiset"
  io_woken :: "registration multiset"
  io_dropped :: "registration multiset"

definition EventContext_new :: EventContext where
  "EventContext_new = \<lparr>ec_scheduler = None, ec_fiber = None, ec_cb = None\<rparr>"

definition FdContext_new :: "nat \<Rightarrow> FdContext" where
  "FdContext_new i = \<lparr>fc_fd = i, fc_read = EventContext_new, fc_write = EventContext_new, fc_events = 0\<rparr>"

text \<open>\<open>resize\<close> keeps the front of the vector; every new slot gets a context.\<close>

definition contextResize :: "nat \<Rightarrow> 'k IOManager \<Rightarrow> 'k IOManager" where
  "contextResize n io =
     io\<lparr>io_fdcontexts := take n (io_fdcontexts io) @ map FdContext_new [length (io_fdcontexts io)..<n]\<rparr>"

definition IOManager_new :: "nat \<Rightarrow> (nat \<Rightarrow> Scheduler) \<Rightarrow> 64 word \<Rightarrow> int \<Rightarrow> 'k \<Rightarrow> 'k IOManager" where
  "IOManager_new self scheds now tickleFd k =
     contextResize 32
       \<lparr>io_self = self, io_schedulers = scheds, io_timers = TimerManager_new now, io_tickleFd = tickleFd, io_pipe = 0,
        io_kernel = k, io_pendingEventCount = 0, io_fdcontexts = [],
        io_registered = {#}, io_woken = {#}, io_dropped = {#}\<rparr>"

section \<open>Waking\<close>

text \<open>A byte in the pipe wakes a thread that waits in \<open>epoll_wait\<close>.\<close>

definition hasIdleThreads :: "Scheduler \<Rightarrow> bool" where
  "hasIdleThreads s = (sc_idleThreadCount s > 0)"

definition IOManager_tickle :: "'k IOManager \<Rightarrow> 'k IOManager" where
  "IOManager_tickle io =
     (if \<not> hasIdleThreads (io_schedulers io (io_self io)) then io else io\<lparr>io_pipe := io_pipe io + 1\<rparr>)"

text \<open>\<open>schedule\<close> on the scheduler at address \<open>k\<close>, and its \<open>tickle\<close> when that is this object.\<close>

definition io_schedule :: "nat \<Rightarrow> FiberAndThread \<Rightarrow> 'k IOManager \<Rightarrow> 'k IOManager" where
  "io_schedule k ft io =
     (let (need_tickle, s) = scheduleNoLock ft (io_schedulers io k);
          io1 = io\<lparr>io_schedulers := (io_schedulers io)(k := s)\<rparr>
      in if need_tickle \<and> k = io_self io then IOManager_tickle io1 else io1)"

fun schedule_all :: "callback option list \<Rightarrow> Scheduler \<Rightarrow> bool \<Rightarrow> bool \<times> Scheduler" where
  "schedule_all [] s need_tickle = (need_tickle, s)"
| "schedule_all (cb # cbs) s need_tickle =
     (let (b, s') = scheduleNoLock \<lparr>ft_fiber = None, ft_cb = cb, ft_thread = -1\<rparr> s
      in schedule_all cbs s' (b \<or> need_tickle))"

section \<open>Events\<close>

definition getContext :: "32 word \<Rightarrow> FdContext \<Rightarrow> error + EventContext" where
  "getContext event fc =
     (if event = EV_READ then Inr (fc_read fc) else if event = EV_WRITE then Inr (fc_write fc) else Inl Assert_failed)"

text \<open>\<open>getContext\<close> returns a reference; this is a write through it.\<close>

definition putContext :: "32 word \<Rightarrow> EventContext \<Rightarrow> FdContext \<Rightarrow> FdContext" where
  "putContext event ec fc = (if event = EV_READ then fc\<lparr>fc_read := ec\<rparr> else fc\<lparr>fc_write := ec\<rparr>)"

definition put_fd :: "nat \<Rightarrow> FdContext \<Rightarrow> 'k IOManager \<Rightarrow> 'k IOManager" where
  "put_fd i fc io = io\<lparr>io_fdcontexts := (io_fdcontexts io)[i := fc]\<rparr>"

text \<open>The task that an event context stands for: the callback, or the fiber when there is none.\<close>

definition event_task :: "EventContext \<Rightarrow> FiberAndThread" where
  "event_task ec =
     (if ec_cb ec \<noteq> None then \<lparr>ft_fiber = None, ft_cb = ec_cb ec, ft_thread = -1\<rparr>
      else \<lparr>ft_fiber = ec_fiber ec, ft_cb = None, ft_thread = -1\<rparr>)"

text \<open>\<open>schedule\<close> takes the callback or the fiber by swapping it out of the context.\<close>

definition swapped_out :: "EventContext \<Rightarrow> EventContext" where
  "swapped_out ec = (if ec_cb ec \<noteq> None then ec\<lparr>ec_cb := None\<rparr> else ec\<lparr>ec_fiber := None\<rparr>)"

definition triggerEvent :: "32 word \<Rightarrow> nat \<Rightarrow> 'k IOManager \<Rightarrow> error + 'k IOManager" where
  "triggerEvent event i io =
     (let fc = io_fdcontexts io ! i in
      if fc_events fc AND event = 0 then Inr io
      else case getContext event fc of
        Inl e \<Rightarrow> Inl e
      | Inr ec \<Rightarrow>
          (case ec_scheduler ec of
             None \<Rightarrow> Inl Null_deref
           | Some k \<Rightarrow>
               let io1 = put_fd i (putContext event ((swapped_out ec)\<lparr>ec_scheduler := None\<rparr>)
                           (fc\<lparr>fc_events := fc_events fc AND NOT event\<rparr>)) io
               in Inr (io_schedule k (event_task ec)
                    (io1\<lparr>io_woken := add_mset (k, event_task ec) (io_woken io1)\<rparr>))))"

text \<open>\<open>triggerEvent\<close> followed by \<open>--m_pendingEventCount\<close>.\<close>

definition trigger_counted :: "32 word \<Rightarrow> nat \<Rightarrow> 'k IOManager \<Rightarrow> error + 'k IOManager" where
  "trigger_counted event i io =
     map_sum id (\<lambda>io'. io'\<lparr>io_pendingEventCount := io_pendingEventCount io' - 1\<rparr>) (triggerEvent event i io)"

text \<open>
  \<open>addEvent\<close> after the context was found, under its lock. \<open>sched\<close> is \<open>Scheduler::GetThis()\<close>, \<open>fiber\<close> is
  \<open>Fiber::GetThis()\<close> with its state.
\<close>

definition addEvent_locked ::
    "'k epoll_ctl \<Rightarrow> nat \<Rightarrow> 32 word \<Rightarrow> callback option \<Rightarrow> nat option \<Rightarrow> fiber_id \<times> FiberState \<Rightarrow> 'k IOManager \<Rightarrow>
       error + int \<times> 'k IOManager" where
  "addEvent_locked epoll_ctl i event cb sched fiber io =
     (let fc = io_fdcontexts io ! i in
      if fc_events fc AND event \<noteq> 0 then Inl Assert_failed
      else
        let op = (if fc_events fc \<noteq> 0 then EPOLL_CTL_MOD else EPOLL_CTL_ADD);
            (rt, k) = epoll_ctl op (int i) (EPOLLET OR fc_events fc OR event) (io_kernel io);
            io1 = io\<lparr>io_kernel := k\<rparr>
        in if rt \<noteq> 0 then Inr (-1, io1)
           else case getContext event fc of
             Inl e \<Rightarrow> Inl e
           | Inr ec \<Rightarrow>
               if ec_scheduler ec \<noteq> None \<or> ec_fiber ec \<noteq> None \<or> ec_cb ec \<noteq> None then Inl Assert_failed
               else
                 let ec1 = (if cb \<noteq> None then ec\<lparr>ec_scheduler := sched, ec_cb := cb\<rparr>
                            else ec\<lparr>ec_scheduler := sched, ec_fiber := Some (fst fiber)\<rparr>)
                 in if cb = None \<and> snd fiber \<noteq> F_EXEC then Inl Assert_failed
                    else Inr (0, put_fd i (putContext event ec1 (fc\<lparr>fc_events := fc_events fc OR event\<rparr>))
                      (io1\<lparr>io_pendingEventCount := io_pendingEventCount io1 + 1,
                           io_registered := add_mset (the sched, event_task ec1) (io_registered io1)\<rparr>)))"

definition addEvent ::
    "'k epoll_ctl \<Rightarrow> int \<Rightarrow> 32 word \<Rightarrow> callback option \<Rightarrow> nat option \<Rightarrow> fiber_id \<times> FiberState \<Rightarrow> 'k IOManager \<Rightarrow>
       error + int \<times> 'k IOManager" where
  "addEvent epoll_ctl fd event cb sched fiber io =
     (let io1 = (if int (length (io_fdcontexts io)) > fd then io else contextResize (nat fd * 3 div 2) io) in
      if fd < 0 \<or> int (length (io_fdcontexts io1)) \<le> fd then Inl Bad_index
      else addEvent_locked epoll_ctl (nat fd) event cb sched fiber io1)"

text \<open>The change of registration that \<open>delEvent\<close> and \<open>cancelEvent\<close> begin with.\<close>

definition unregister :: "'k epoll_ctl \<Rightarrow> nat \<Rightarrow> 32 word \<Rightarrow> 'k IOManager \<Rightarrow> int \<times> 'k IOManager" where
  "unregister epoll_ctl i new_events io =
     (let op = (if new_events \<noteq> 0 then EPOLL_CTL_MOD else EPOLL_CTL_DEL);
          (rt, k) = epoll_ctl op (int i) (EPOLLET OR new_events) (io_kernel io)
      in (rt, io\<lparr>io_kernel := k\<rparr>))"

definition delEvent :: "'k epoll_ctl \<Rightarrow> int \<Rightarrow> 32 word \<Rightarrow> 'k IOManager \<Rightarrow> error + bool \<times> 'k IOManager" where
  "delEvent epoll_ctl fd event io =
     (if int (length (io_fdcontexts io)) \<le> fd then Inr (False, io)
      else if fd < 0 then Inl Bad_index
      else let i = nat fd; fc = io_fdcontexts io ! i in
        if fc_events fc AND event = 0 then Inr (False, io)
        else let new_events = fc_events fc AND NOT event; (rt, io1) = unregister epoll_ctl i new_events io in
          if rt \<noteq> 0 then Inr (False, io1)
          else case getContext event fc of
            Inl e \<Rightarrow> Inl e
          | Inr ec \<Rightarrow>
              Inr (True, put_fd i (putContext event EventContext_new (fc\<lparr>fc_events := new_events\<rparr>))
                (io1\<lparr>io_pendingEventCount := io_pendingEventCount io1 - 1,
                     io_dropped := add_mset (the (ec_scheduler ec), event_task ec) (io_dropped io1)\<rparr>)))"

definition cancelEvent :: "'k epoll_ctl \<Rightarrow> int \<Rightarrow> 32 word \<Rightarrow> 'k IOManager \<Rightarrow> error + bool \<times> 'k IOManager" where
  "cancelEvent epoll_ctl fd event io =
     (if int (length (io_fdcontexts io)) \<le> fd then Inr (False, io)
      else if fd < 0 then Inl Bad_index
      else let i = nat fd; fc = io_fdcontexts io ! i in
        if fc_events fc AND event = 0 then Inr (False, io)
        else let (rt, io1) = unregister epoll_ctl i (fc_events fc AND NOT event) io in
          if rt \<noteq> 0 then Inr (False, io1)
          else map_sum id (\<lambda>io2. (True, io2)) (trigger_counted event i io1))"

text \<open>\<open>if (events & event) { triggerEvent(event); --m_pendingEventCount; }\<close>\<close>

definition trigger_if :: "bool \<Rightarrow> 32 word \<Rightarrow> nat \<Rightarrow> 'k IOManager \<Rightarrow> error + 'k IOManager" where
  "trigger_if b event i io = (if b then trigger_counted event i io else Inr io)"

definition cancelAll :: "'k epoll_ctl \<Rightarrow> int \<Rightarrow> 'k IOManager \<Rightarrow> error + bool \<times> 'k IOManager" where
  "cancelAll epoll_ctl fd io =
     (if int (length (io_fdcontexts io)) \<le> fd then Inr (False, io)
      else if fd < 0 then Inl Bad_index
      else let i = nat fd; fc = io_fdcontexts io ! i in
        if fc_events fc = 0 then Inr (False, io)
        else let (rt, k) = epoll_ctl EPOLL_CTL_DEL (int i) 0 (io_kernel io); io1 = io\<lparr>io_kernel := k\<rparr> in
          if rt \<noteq> 0 then Inr (False, io1)
          else case trigger_if (fc_events fc AND EV_READ \<noteq> 0) EV_READ i io1 of
            Inl e \<Rightarrow> Inl e
          | Inr io2 \<Rightarrow>
              (case trigger_if (fc_events (io_fdcontexts io2 ! i) AND EV_WRITE \<noteq> 0) EV_WRITE i io2 of
                 Inl e \<Rightarrow> Inl e
               | Inr io3 \<Rightarrow>
                   if fc_events (io_fdcontexts io3 ! i) \<noteq> 0 then Inl Assert_failed else Inr (True, io3)))"

section \<open>The idle fiber\<close>

definition IOManager_stopping :: "64 word \<Rightarrow> 'k IOManager \<Rightarrow> 64 word \<times> bool \<times> 'k IOManager" where
  "IOManager_stopping now io =
     (let (timeout, tm) = getNextTimer now (io_timers io)
      in (timeout, timeout = -1 \<and> io_pendingEventCount io = 0 \<and> stopping_now (io_schedulers io (io_self io)),
          io\<lparr>io_timers := tm\<rparr>))"

text \<open>The milliseconds that \<open>epoll_wait\<close> is given, an \<open>int\<close>: a negative number waits for ever.\<close>

definition idle_timeout :: "64 word \<Rightarrow> int" where
  "idle_timeout next_timeout =
     (let capped =
        (if next_timeout \<noteq> -1
         then (if sint (ucast next_timeout :: 32 word) > 5000 then 5000 else next_timeout)
         else 5000)
      in sint (ucast capped :: 32 word))"

definition real_events :: "32 word \<Rightarrow> 32 word \<Rightarrow> 32 word" where
  "real_events events reported =
     (let ev = (if reported AND (EPOLLERR OR EPOLLHUP) \<noteq> 0
                then reported OR ((EPOLLIN OR EPOLLOUT) AND events) else reported)
      in (if ev AND EPOLLIN \<noteq> 0 then EV_READ else 0) OR (if ev AND EPOLLOUT \<noteq> 0 then EV_WRITE else 0))"

text \<open>One entry of the array that \<open>epoll_wait\<close> filled: the pipe, or the context of a descriptor.\<close>

datatype epoll_event = Tickled | Ready nat "32 word"

definition ready_event :: "'k epoll_ctl \<Rightarrow> nat \<Rightarrow> 32 word \<Rightarrow> 'k IOManager \<Rightarrow> error + 'k IOManager" where
  "ready_event epoll_ctl i reported io =
     (let fc = io_fdcontexts io ! i; real = real_events (fc_events fc) reported in
      if fc_events fc AND real = 0 then Inr io
      else
        let left_events = fc_events fc AND NOT real; (rt2, io1) = unregister epoll_ctl i left_events io in
        if rt2 \<noteq> 0 then Inr io1
        else case trigger_if (real AND EV_READ \<noteq> 0) EV_READ i io1 of
          Inl e \<Rightarrow> Inl e
        | Inr io2 \<Rightarrow> trigger_if (real AND EV_WRITE \<noteq> 0) EV_WRITE i io2)"

fun handle_events :: "'k epoll_ctl \<Rightarrow> epoll_event list \<Rightarrow> 'k IOManager \<Rightarrow> error + 'k IOManager" where
  "handle_events epoll_ctl [] io = Inr io"
| "handle_events epoll_ctl (Tickled # evs) io = handle_events epoll_ctl evs (io\<lparr>io_pipe := 0\<rparr>)"
| "handle_events epoll_ctl (Ready i reported # evs) io =
     (case ready_event epoll_ctl i reported io of Inl e \<Rightarrow> Inl e | Inr io' \<Rightarrow> handle_events epoll_ctl evs io')"

text \<open>The callbacks of the expired timers go to this scheduler. \<open>a\<close> is the address of a temporary timer.\<close>

definition run_expired :: "64 word \<Rightarrow> nat \<Rightarrow> 'k IOManager \<Rightarrow> 'k IOManager" where
  "run_expired now a io =
     (let (cbs, tm) = listExpiredCb now a [] (io_timers io); io1 = io\<lparr>io_timers := tm\<rparr> in
      if cbs = [] then io1
      else let (need_tickle, s) = schedule_all cbs (io_schedulers io1 (io_self io)) False;
               io2 = io1\<lparr>io_schedulers := (io_schedulers io1)(io_self io := s)\<rparr>
           in if need_tickle then IOManager_tickle io2 else io2)"

text \<open>A round of \<open>idle\<close>: \<open>None\<close> when the fiber ends; \<open>evs\<close> is what \<open>epoll_wait\<close> returned.\<close>

definition idle_round ::
    "'k epoll_ctl \<Rightarrow> 64 word \<Rightarrow> 64 word \<Rightarrow> nat \<Rightarrow> epoll_event list \<Rightarrow> 'k IOManager \<Rightarrow> error + 'k IOManager option" where
  "idle_round epoll_ctl now now' a evs io =
     (let (timeout, stop, io1) = IOManager_stopping now io in
      if stop then Inr None else map_sum id Some (handle_events epoll_ctl evs (run_expired now' a io1)))"

end
