(* ===== verification/IOEvents.thy ===== *)
theory IOEvents
  imports IOManager
begin

text \<open>
  What the event registrations of \<open>IOManager\<close> guarantee, as invariants of a step relation in which the
  operations, the reports of \<open>epoll\<close> and the threads of the schedulers interleave: a registered fiber or callback is scheduled at
  most once, and the kernel watches exactly the events that somebody waits for. The
  counter of pending events is exact as long as reports are not stale; the last section shows what happens
  when they are.
\<close>

section \<open>The contract of epoll\<close>

locale epoll_kernel =
  fixes epoll_ctl :: "'k epoll_ctl" and interest :: "'k \<Rightarrow> int \<Rightarrow> 32 word option"
  assumes ctl_fails: "epoll_ctl op fd ev k = (rt, k') \<Longrightarrow> rt \<noteq> 0 \<Longrightarrow> interest k' = interest k"
    and ctl_sets: "epoll_ctl op fd ev k = (0, k') \<Longrightarrow> op \<noteq> EPOLL_CTL_DEL \<Longrightarrow> interest k' = (interest k)(fd := Some ev)"
    and ctl_clears: "epoll_ctl EPOLL_CTL_DEL fd ev k = (0, k') \<Longrightarrow> interest k' = (interest k)(fd := None)"

text \<open>A kernel that meets it: the table of watched descriptors, with the errors EEXIST and ENOENT.\<close>

definition table_epoll_ctl :: "(int \<Rightarrow> 32 word option) epoll_ctl" where
  "table_epoll_ctl op fd ev k =
     (case op of
        EPOLL_CTL_ADD \<Rightarrow> if k fd \<noteq> None then (-1, k) else (0, k(fd := Some ev))
      | EPOLL_CTL_MOD \<Rightarrow> if k fd = None then (-1, k) else (0, k(fd := Some ev))
      | EPOLL_CTL_DEL \<Rightarrow> if k fd = None then (-1, k) else (0, k(fd := None)))"

interpretation epoll_table: epoll_kernel table_epoll_ctl id
  by unfold_locales (auto simp: table_epoll_ctl_def split: epoll_op.splits if_splits)

section \<open>Who waits\<close>

definition waits :: "bool \<Rightarrow> EventContext \<Rightarrow> registration list" where
  "waits on ec = (if on then [(the (ec_scheduler ec), event_task ec)] else [])"

definition fc_waiting :: "FdContext \<Rightarrow> registration list" where
  "fc_waiting fc = waits (fc_events fc AND EV_READ \<noteq> 0) (fc_read fc) @ waits (fc_events fc AND EV_WRITE \<noteq> 0) (fc_write fc)"

definition waiting :: "'k IOManager \<Rightarrow> registration multiset" where
  "waiting io = mset (concat (map fc_waiting (io_fdcontexts io)))"

definition fd_events :: "'k IOManager \<Rightarrow> nat \<Rightarrow> 32 word" where
  "fd_events io i = (if i < length (io_fdcontexts io) then fc_events (io_fdcontexts io ! i) else 0)"

text \<open>An event context in use has a scheduler and either a fiber or a callback; one not in use is empty.\<close>

definition ec_ok :: "bool \<Rightarrow> EventContext \<Rightarrow> bool" where
  "ec_ok on ec =
     (if on then ec_scheduler ec \<noteq> None \<and> (ec_cb ec = None \<longleftrightarrow> ec_fiber ec \<noteq> None) else ec = EventContext_new)"

definition fc_ok :: "FdContext \<Rightarrow> bool" where
  "fc_ok fc \<longleftrightarrow>
     fc_events fc \<in> {0, 1, 4, 5} \<and> ec_ok (fc_events fc AND EV_READ \<noteq> 0) (fc_read fc)
   \<and> ec_ok (fc_events fc AND EV_WRITE \<noteq> 0) (fc_write fc)"

text \<open>Whoever was woken was put into the queue of its scheduler.\<close>

definition delivered :: "'k IOManager \<Rightarrow> bool" where
  "delivered io \<longleftrightarrow>
     (\<forall>k. image_mset snd (filter_mset (\<lambda>r. fst r = k) (io_woken io)) \<subseteq># sc_scheduled (io_schedulers io k))"

definition io_ok :: "'k IOManager \<Rightarrow> bool" where
  "io_ok io \<longleftrightarrow>
     32 \<le> length (io_fdcontexts io) \<and> list_all fc_ok (io_fdcontexts io) \<and> delivered io
   \<and> io_registered io = waiting io + io_woken io + io_dropped io"

definition watch :: "32 word \<Rightarrow> 32 word option" where
  "watch ev = (if ev = 0 then None else Some (EPOLLET OR ev))"

definition watched :: "('k \<Rightarrow> int \<Rightarrow> 32 word option) \<Rightarrow> 'k IOManager \<Rightarrow> bool" where
  "watched interest io \<longleftrightarrow> (\<forall>i. int i \<noteq> io_tickleFd io \<longrightarrow> interest (io_kernel io) (int i) = watch (fd_events io i))"

definition pending_exact :: "'k IOManager \<Rightarrow> bool" where
  "pending_exact io \<longleftrightarrow> io_pendingEventCount io = of_nat (size (waiting io))"

section \<open>Changing one context\<close>

lemma mset_concat_update:
  assumes "i < length xs"
  shows "mset (concat (map f (xs[i := x]))) + mset (f (xs ! i)) = mset (concat (map f xs)) + mset (f x)"
  using assms
proof (induction xs arbitrary: i)
  case (Cons y ys)
  then show ?case by (cases i) (simp_all add: ac_simps)
qed simp

lemma waiting_put_fd:
  assumes "i < length (io_fdcontexts io)"
  shows "waiting (put_fd i fc io) + mset (fc_waiting (io_fdcontexts io ! i)) = waiting io + mset (fc_waiting fc)"
  using mset_concat_update [OF assms] by (simp add: waiting_def put_fd_def)

lemma put_fd_simps [simp]:
  "io_kernel (put_fd i fc io) = io_kernel io" "io_tickleFd (put_fd i fc io) = io_tickleFd io"
  "io_registered (put_fd i fc io) = io_registered io" "io_woken (put_fd i fc io) = io_woken io"
  "io_dropped (put_fd i fc io) = io_dropped io" "io_pendingEventCount (put_fd i fc io) = io_pendingEventCount io"
  "io_fdcontexts (put_fd i fc io) = (io_fdcontexts io)[i := fc]" "io_self (put_fd i fc io) = io_self io"
  by (simp_all add: put_fd_def)

lemma io_schedule_simps [simp]:
  "io_kernel (io_schedule k ft io) = io_kernel io" "io_tickleFd (io_schedule k ft io) = io_tickleFd io"
  "io_registered (io_schedule k ft io) = io_registered io" "io_woken (io_schedule k ft io) = io_woken io"
  "io_dropped (io_schedule k ft io) = io_dropped io" "io_pendingEventCount (io_schedule k ft io) = io_pendingEventCount io"
  "io_fdcontexts (io_schedule k ft io) = io_fdcontexts io" "io_self (io_schedule k ft io) = io_self io"
  by (simp_all add: io_schedule_def IOManager_tickle_def Let_def split: prod.split)

lemma run_expired_simps [simp]:
  "io_kernel (run_expired now a io) = io_kernel io" "io_tickleFd (run_expired now a io) = io_tickleFd io"
  "io_registered (run_expired now a io) = io_registered io" "io_woken (run_expired now a io) = io_woken io"
  "io_dropped (run_expired now a io) = io_dropped io" "io_pendingEventCount (run_expired now a io) = io_pendingEventCount io"
  "io_fdcontexts (run_expired now a io) = io_fdcontexts io"
  by (simp_all add: run_expired_def IOManager_tickle_def Let_def split: prod.split)

text \<open>The invariants only read some members.\<close>

lemma io_frame:
  assumes "io_fdcontexts io' = io_fdcontexts io"
  shows "waiting io' = waiting io" and "fd_events io' = fd_events io"
  using assms by (simp_all add: waiting_def fd_events_def fun_eq_iff)

lemma fd_events_put:
  "i < length (io_fdcontexts io) \<Longrightarrow> io_fdcontexts io' = (io_fdcontexts io)[i := fc] \<Longrightarrow> fd_events io' = (fd_events io)(i := fc_events fc)"
  by (auto simp: fd_events_def fun_eq_iff nth_list_update)

lemma fc_ok_nth: "io_ok io \<Longrightarrow> i < length (io_fdcontexts io) \<Longrightarrow> fc_ok (io_fdcontexts io ! i)"
  by (simp add: io_ok_def list_all_length)

lemma list_all_update: "list_all P xs \<Longrightarrow> P x \<Longrightarrow> list_all P (xs[i := x])"
  by (auto simp: list_all_iff dest: set_update_subset_insert [THEN subsetD])

lemma mset_balance:
  fixes W W' F F' R R' w w' d d' :: "'a multiset"
  assumes "W' + F = W + F'" and "R' + F + w + d = R + F' + w' + d'" and "R = W + w + d"
  shows "R' = W' + w' + d'"
proof (rule multiset_eqI)
  fix x
  show "count R' x = count (W' + w' + d') x"
    using assms [THEN arg_cong [where f = "\<lambda>M. count M x"]] by simp
qed

text \<open>
  What a change of one context keeps of the invariant, given what it moves between the members that record
  the history.
\<close>

lemma io_ok_put:
  assumes "io_ok io" and "i < length (io_fdcontexts io)" and "io_fdcontexts io' = (io_fdcontexts io)[i := fc]" and "fc_ok fc"
    and "io_registered io' + mset (fc_waiting (io_fdcontexts io ! i)) + io_woken io + io_dropped io
       = io_registered io + mset (fc_waiting fc) + io_woken io' + io_dropped io'"
    and "delivered io'"
  shows "io_ok io'"
proof -
  have "waiting io' + mset (fc_waiting (io_fdcontexts io ! i)) = waiting io + mset (fc_waiting fc)"
    using mset_concat_update [OF assms(2), of fc_waiting fc] assms(3) by (simp add: waiting_def)
  then have "io_registered io' = waiting io' + io_woken io' + io_dropped io'"
    using assms(1,5) unfolding io_ok_def by (blast intro: mset_balance)
  then show ?thesis
    using assms(1,3,4,6) by (simp add: io_ok_def list_all_update)
qed

section \<open>Triggering\<close>

text \<open>The context of an event that is not registered any more.\<close>

definition cleared :: "32 word \<Rightarrow> FdContext \<Rightarrow> FdContext" where
  "cleared event fc = putContext event EventContext_new (fc\<lparr>fc_events := fc_events fc AND NOT event\<rparr>)"

definition ctx_of :: "32 word \<Rightarrow> FdContext \<Rightarrow> EventContext" where
  "ctx_of event fc = (if event = EV_READ then fc_read fc else fc_write fc)"

lemma getContext_ctx_of: "event \<in> {EV_READ, EV_WRITE} \<Longrightarrow> getContext event fc = Inr (ctx_of event fc)"
  by (auto simp: getContext_def ctx_of_def)

lemma event_cases:
  assumes "event \<in> {EV_READ, EV_WRITE}"
  obtains "event = 1" | "event = 4"
  using assms by (auto simp: event_defs)

lemma fc_ok_cleared:
  assumes "fc_ok fc" and "event \<in> {EV_READ, EV_WRITE}"
  shows "fc_ok (cleared event fc)"
  using assms by (auto simp: fc_ok_def cleared_def putContext_def event_defs ec_ok_def)

lemma fc_waiting_cleared:
  assumes "fc_ok fc" and "event \<in> {EV_READ, EV_WRITE}" and "fc_events fc AND event \<noteq> 0"
  shows "mset (fc_waiting fc) = add_mset (the (ec_scheduler (ctx_of event fc)), event_task (ctx_of event fc)) (mset (fc_waiting (cleared event fc)))"
  using assms by (auto simp: fc_ok_def fc_waiting_def waits_def cleared_def putContext_def event_defs ctx_of_def)

lemma ec_ok_ctx_of:
  assumes "fc_ok fc" and "event \<in> {EV_READ, EV_WRITE}" and "fc_events fc AND event \<noteq> 0"
  shows "ec_ok True (ctx_of event fc)"
  using assms by (auto simp: fc_ok_def ctx_of_def event_defs)

lemma ec_swapped: "ec_ok True ec \<Longrightarrow> (swapped_out ec)\<lparr>ec_scheduler := None\<rparr> = EventContext_new"
  by (cases ec) (auto simp: ec_ok_def swapped_out_def EventContext_new_def)

lemma event_task_some: "ec_ok True ec \<Longrightarrow> ft_fiber (event_task ec) \<noteq> None \<or> ft_cb (event_task ec) \<noteq> None"
  by (auto simp: ec_ok_def event_task_def)

lemma io_schedule_schedulers: "io_schedulers (io_schedule k ft io) = (io_schedulers io)(k := schedule ft (io_schedulers io k))"
  by (simp add: io_schedule_def IOManager_tickle_def schedule_def Let_def split: prod.split)

lemma delivered_schedule:
  assumes "delivered io" and "ft_fiber ft \<noteq> None \<or> ft_cb ft \<noteq> None" and "io_woken io1 = add_mset (k, ft) (io_woken io)"
    and "io_schedulers io1 = io_schedulers io"
  shows "delivered (io_schedule k ft io1)"
  using assms by (auto simp: delivered_def io_schedule_schedulers schedule_def scheduleNoLock_def)

text \<open>A registered event is triggered: its waiter is scheduled and moves from waiting to woken.\<close>

lemma triggerEvent_registered:
  assumes "io_ok io" and "i < length (io_fdcontexts io)" and "event \<in> {EV_READ, EV_WRITE}"
    and "fd_events io i AND event \<noteq> 0"
  obtains io' where "triggerEvent event i io = Inr io'" and "io_ok io'"
    and "io_fdcontexts io' = (io_fdcontexts io)[i := cleared event (io_fdcontexts io ! i)]"
    and "io_kernel io' = io_kernel io" and "io_tickleFd io' = io_tickleFd io"
    and "io_pendingEventCount io' = io_pendingEventCount io"
proof -
  let ?fc = "io_fdcontexts io ! i" and ?ec = "ctx_of event (io_fdcontexts io ! i)"
  have ev: "fc_events ?fc AND event \<noteq> 0" using assms(2,4) by (simp add: fd_events_def)
  note ok = fc_ok_nth [OF assms(1,2)]
  note ec = ec_ok_ctx_of [OF ok assms(3) ev]
  then obtain k where k: "ec_scheduler ?ec = Some k" by (auto simp: ec_ok_def)
  let ?io1 = "put_fd i (cleared event ?fc) io"
  let ?io' = "io_schedule k (event_task ?ec) (?io1\<lparr>io_woken := add_mset (k, event_task ?ec) (io_woken ?io1)\<rparr>)"
  have "delivered ?io'"
    using assms(1) event_task_some [OF ec] by (intro delivered_schedule) (simp_all add: io_ok_def put_fd_def)
  then have "io_ok ?io'"
    using fc_waiting_cleared [OF ok assms(3) ev] k
    by (intro io_ok_put [OF assms(1,2) _ fc_ok_cleared [OF ok assms(3)]]) simp_all
  moreover have "triggerEvent event i io = Inr ?io'"
    using ev k by (simp add: triggerEvent_def Let_def getContext_ctx_of [OF assms(3)] ec_swapped [OF ec] cleared_def)
  ultimately show ?thesis by (intro that [of ?io']) simp_all
qed

lemma triggerEvent_unregistered:
  "i < length (io_fdcontexts io) \<Longrightarrow> fd_events io i AND event = 0 \<Longrightarrow> triggerEvent event i io = Inr io"
  by (simp add: triggerEvent_def fd_events_def Let_def)

lemma fd_events_cleared:
  "i < length (io_fdcontexts io) \<Longrightarrow> io_fdcontexts io' = (io_fdcontexts io)[i := cleared event (io_fdcontexts io ! i)] \<Longrightarrow>
     fd_events io' = (fd_events io)(i := fd_events io i AND NOT event)"
  by (simp add: fd_events_put) (simp add: fd_events_def cleared_def putContext_def fun_eq_iff)

text \<open>How far the counter is from the number of waiters.\<close>

definition drift :: "'k IOManager \<Rightarrow> 64 word" where
  "drift io = io_pendingEventCount io - of_nat (size (waiting io))"

lemma waiting_cleared:
  assumes "io_ok io" and "i < length (io_fdcontexts io)" and "event \<in> {EV_READ, EV_WRITE}"
    and "fd_events io i AND event \<noteq> 0" and "io_fdcontexts io' = (io_fdcontexts io)[i := cleared event (io_fdcontexts io ! i)]"
  shows "size (waiting io) = Suc (size (waiting io'))"
proof -
  let ?fc = "io_fdcontexts io ! i"
  have "fc_events ?fc AND event \<noteq> 0" using assms(2,4) by (simp add: fd_events_def)
  from fc_waiting_cleared [OF fc_ok_nth [OF assms(1,2)] assms(3) this]
  have "size (mset (fc_waiting ?fc)) = Suc (size (mset (fc_waiting (cleared event ?fc))))" by (metis size_add_mset)
  moreover have "waiting io' + mset (fc_waiting ?fc) = waiting io + mset (fc_waiting (cleared event ?fc))"
    using mset_concat_update [OF assms(2)] assms(5) by (simp add: waiting_def)
  ultimately show ?thesis
    by (metis add.commute add_Suc_right add_diff_cancel_left' size_union)
qed

text \<open>What an operation leaves of the state, apart from the schedulers: the invariant, the size of the table, the pipe's descriptor.\<close>

definition same_frame :: "'k IOManager \<Rightarrow> 'k IOManager \<Rightarrow> bool" where
  "same_frame io io' \<longleftrightarrow>
     io_ok io' \<and> length (io_fdcontexts io') = length (io_fdcontexts io) \<and> io_tickleFd io' = io_tickleFd io
   \<and> io_kernel io' = io_kernel io"

lemma same_frame_trans: "same_frame io io1 \<Longrightarrow> same_frame io1 io2 \<Longrightarrow> same_frame io io2"
  by (simp add: same_frame_def)

lemma trigger_if_registered:
  assumes "io_ok io" and "i < length (io_fdcontexts io)" and "event \<in> {EV_READ, EV_WRITE}"
    and "b \<Longrightarrow> fd_events io i AND event \<noteq> 0"
  obtains io' where "trigger_if b event i io = Inr io'" and "same_frame io io'" and "drift io' = drift io"
    and "fd_events io' = (fd_events io)(i := fd_events io i AND NOT (if b then event else 0))"
proof (cases b)
  case True
  note tr = triggerEvent_registered [OF assms(1-3) assms(4) [OF True]]
  obtain io' where io': "triggerEvent event i io = Inr io'" "io_ok io'"
      "io_fdcontexts io' = (io_fdcontexts io)[i := cleared event (io_fdcontexts io ! i)]"
      "io_kernel io' = io_kernel io" "io_tickleFd io' = io_tickleFd io" "io_pendingEventCount io' = io_pendingEventCount io"
    using tr by metis
  let ?io = "io'\<lparr>io_pendingEventCount := io_pendingEventCount io' - 1\<rparr>"
  have "io_ok ?io" using io'(2) by (simp add: io_ok_def waiting_def delivered_def)
  moreover have "drift ?io = drift io"
    using waiting_cleared [OF assms(1-3) assms(4) [OF True] io'(3)] io'(6) by (simp add: drift_def waiting_def)
  moreover have "fd_events ?io = (fd_events io)(i := fd_events io i AND NOT event)"
    by (rule fd_events_cleared [OF assms(2)]) (simp add: io'(3))
  ultimately show ?thesis
    using True io' by (intro that [of ?io]) (simp_all add: trigger_if_def trigger_counted_def same_frame_def)
qed (use assms(1) that in \<open>simp_all add: trigger_if_def same_frame_def\<close>)

text \<open>An event that is not registered is reported: nobody is scheduled, but the counter is decremented.\<close>

lemma trigger_if_stale:
  "i < length (io_fdcontexts io) \<Longrightarrow> fd_events io i AND event = 0 \<Longrightarrow>
     trigger_if True event i io = Inr (io\<lparr>io_pendingEventCount := io_pendingEventCount io - 1\<rparr>)"
  by (simp add: trigger_if_def trigger_counted_def triggerEvent_unregistered)

lemma trigger_if_ok:
  assumes "io_ok io" and "i < length (io_fdcontexts io)" and "event \<in> {EV_READ, EV_WRITE}"
  obtains io' where "trigger_if b event i io = Inr io'" and "same_frame io io'"
    and "fd_events io' = (fd_events io)(i := fd_events io i AND NOT (if b then event else 0))"
    and "(b \<longrightarrow> fd_events io i AND event \<noteq> 0) \<longrightarrow> drift io' = drift io"
proof (cases "b \<and> fd_events io i AND event = 0")
  case True
  let ?io = "io\<lparr>io_pendingEventCount := io_pendingEventCount io - 1\<rparr>"
  have "fc_ok (io_fdcontexts io ! i)" using fc_ok_nth [OF assms(1,2)] .
  then have "fd_events io i AND NOT event = fd_events io i"
    using True assms(2,3) by (auto simp: fd_events_def fc_ok_def event_defs)
  moreover have "io_ok ?io" using assms(1) by (simp add: io_ok_def waiting_def delivered_def)
  ultimately show ?thesis
    using True trigger_if_stale [OF assms(2)] by (intro that [of ?io]) (simp_all add: same_frame_def fd_events_def fun_eq_iff)
next
  case False
  then have "b \<Longrightarrow> fd_events io i AND event \<noteq> 0" by simp
  then show ?thesis using trigger_if_registered [OF assms, of b] that by metis
qed

text \<open>The two triggers that \<open>cancelAll\<close> and \<open>idle\<close> end with.\<close>

lemma trigger_both:
  assumes "io_ok io" and "i < length (io_fdcontexts io)"
  obtains io2 io3 where "trigger_if r EV_READ i io = Inr io2" and "trigger_if w EV_WRITE i io2 = Inr io3" and "same_frame io io3"
    and "fd_events io3 = (fd_events io)(i := (fd_events io i AND NOT (if r then EV_READ else 0)) AND NOT (if w then EV_WRITE else 0))"
    and "(r \<longrightarrow> fd_events io i AND EV_READ \<noteq> 0) \<Longrightarrow> (w \<longrightarrow> fd_events io i AND EV_WRITE \<noteq> 0) \<Longrightarrow> drift io3 = drift io"
    and "fc_events (io_fdcontexts io2 ! i) AND EV_WRITE = fd_events io i AND EV_WRITE"
proof -
  obtain io2 where io2: "trigger_if r EV_READ i io = Inr io2" "same_frame io io2"
      "fd_events io2 = (fd_events io)(i := fd_events io i AND NOT (if r then EV_READ else 0))"
      "(r \<longrightarrow> fd_events io i AND EV_READ \<noteq> 0) \<longrightarrow> drift io2 = drift io"
    by (rule trigger_if_ok [OF assms, of EV_READ r]) simp
  have ok2: "io_ok io2" "i < length (io_fdcontexts io2)" using io2(2) assms(2) by (simp_all add: same_frame_def)
  have w: "fd_events io2 i AND EV_WRITE = fd_events io i AND EV_WRITE"
    using fc_ok_nth [OF assms] assms(2) by (auto simp: io2(3) fc_ok_def fd_events_def event_defs)
  obtain io3 where "trigger_if w EV_WRITE i io2 = Inr io3" "same_frame io2 io3"
      "fd_events io3 = (fd_events io2)(i := fd_events io2 i AND NOT (if w then EV_WRITE else 0))"
      "(w \<longrightarrow> fd_events io2 i AND EV_WRITE \<noteq> 0) \<longrightarrow> drift io3 = drift io2"
    by (rule trigger_if_ok [OF ok2, of EV_WRITE w]) simp
  moreover have "fc_events (io_fdcontexts io2 ! i) = fd_events io2 i" using ok2(2) by (simp add: fd_events_def)
  ultimately show ?thesis using io2 w same_frame_trans by (intro that [of io2 io3]) (auto simp: fun_upd_def)
qed

section \<open>The operations\<close>

lemma fd_events_ok: "io_ok io \<Longrightarrow> fd_events io i \<in> {0, 1, 4, 5}"
  using fc_ok_nth [of io i] by (auto simp: fd_events_def fc_ok_def)

lemma real_events_cases: "real_events ev reported \<in> {0, 1, 4, 5}"
  by (simp add: real_events_def event_defs Let_def)

lemma io_ok_kernel [simp]: "io_ok (io\<lparr>io_kernel := k\<rparr>) = io_ok io" "fd_events (io\<lparr>io_kernel := k\<rparr>) = fd_events io"
  "drift (io\<lparr>io_kernel := k\<rparr>) = drift io"
  by (simp_all add: io_ok_def waiting_def delivered_def fd_events_def drift_def fun_eq_iff)

text \<open>Reports that are processed while the reported events are still registered.\<close>

definition fresh_report :: "32 word \<Rightarrow> 32 word \<Rightarrow> bool" where
  "fresh_report events reported \<longleftrightarrow> reported AND (EPOLLIN OR EPOLLOUT) AND NOT events = 0"

definition io_inv :: "('k \<Rightarrow> int \<Rightarrow> 32 word option) \<Rightarrow> 'k IOManager \<Rightarrow> bool" where
  "io_inv interest io \<longleftrightarrow> io_ok io \<and> watched interest io"

text \<open>What every operation does to the invariants; \<open>fresh\<close> says whether the counter stays as exact as it was.\<close>

definition preserves :: "('k \<Rightarrow> int \<Rightarrow> 32 word option) \<Rightarrow> bool \<Rightarrow> 'k IOManager \<Rightarrow> 'k IOManager \<Rightarrow> bool" where
  "preserves interest fresh io io' \<longleftrightarrow>
     (io_inv interest io \<longrightarrow> io_inv interest io' \<and> io_tickleFd io' = io_tickleFd io
        \<and> length (io_fdcontexts io) \<le> length (io_fdcontexts io') \<and> (fresh \<longrightarrow> drift io' = drift io))"

lemma clear_real:
  assumes "ev \<in> {0, 1, 4, 5}" and "real \<in> {0, 1, 4, 5}"
  shows "(ev AND NOT (if real AND EV_READ \<noteq> 0 then EV_READ else 0)) AND NOT (if real AND EV_WRITE \<noteq> 0 then EV_WRITE else 0)
    = ev AND NOT real"
  using assms by (auto simp: event_defs)

lemma and_bit:
  fixes x :: "32 word"
  shows "x AND 1 = 0 \<longleftrightarrow> \<not> bit x 0" and "x AND 4 = 0 \<longleftrightarrow> \<not> bit x 2"
  using bit_iff_and_push_bit_not_eq_0 [of x 0] bit_iff_and_push_bit_not_eq_0 [of x 2] by simp_all

lemma fresh_bits:
  assumes "fresh_report ev reported"
  shows "bit reported 0 \<Longrightarrow> bit ev 0" and "bit reported 2 \<Longrightarrow> bit ev 2"
proof -
  have "bit (reported AND 5 AND NOT ev) n = False" for n
    using assms by (simp add: fresh_report_def event_defs)
  from this [of 0] this [of 2] show "bit reported 0 \<Longrightarrow> bit ev 0" "bit reported 2 \<Longrightarrow> bit ev 2"
    by (simp_all add: bit_simps)
qed

lemma real_events_bits:
  "real_events ev reported AND EV_READ \<noteq> 0 \<Longrightarrow> bit reported 0 \<or> bit ev 0"
  "real_events ev reported AND EV_WRITE \<noteq> 0 \<Longrightarrow> bit reported 2 \<or> bit ev 2"
  by (auto simp: real_events_def event_defs Let_def and_bit bit_or_iff bit_and_iff split: if_splits)

lemma fresh_real:
  assumes "fresh_report ev reported"
  shows "real_events ev reported AND EV_READ \<noteq> 0 \<Longrightarrow> ev AND EV_READ \<noteq> 0"
    and "real_events ev reported AND EV_WRITE \<noteq> 0 \<Longrightarrow> ev AND EV_WRITE \<noteq> 0"
  using real_events_bits [of ev reported] fresh_bits [OF assms] by (auto simp: event_defs and_bit)

lemma fc_ok_new: "fc_ok (FdContext_new i)"
  by (simp add: fc_ok_def ec_ok_def FdContext_new_def)

text \<open>The table grows: the new contexts have no events.\<close>

lemma contextResize_grows:
  assumes "length (io_fdcontexts io) \<le> n"
  shows "io_ok io \<Longrightarrow> io_ok (contextResize n io)" and "fd_events (contextResize n io) = fd_events io"
    and "drift (contextResize n io) = drift io" and "length (io_fdcontexts (contextResize n io)) = n"
    and "io_kernel (contextResize n io) = io_kernel io" and "io_tickleFd (contextResize n io) = io_tickleFd io"
proof -
  have w: "waiting (contextResize n io) = waiting io"
    using assms by (simp add: waiting_def contextResize_def fc_waiting_def waits_def FdContext_new_def)
  then show "io_ok io \<Longrightarrow> io_ok (contextResize n io)"
    using assms by (simp add: io_ok_def contextResize_def delivered_def list_all_iff ball_Un fc_ok_new)
  show "drift (contextResize n io) = drift io" using w by (simp add: drift_def contextResize_def)
  show "fd_events (contextResize n io) = fd_events io"
    using assms by (auto simp: fd_events_def contextResize_def fun_eq_iff nth_append FdContext_new_def)
qed (use assms in \<open>simp_all add: contextResize_def\<close>)

text \<open>The context of an event that is being registered.\<close>

lemma registering:
  assumes "fc_ok fc" and "event \<in> {EV_READ, EV_WRITE}" and "fc_events fc AND event = 0" and "ec_ok True ec"
    and "fc' = putContext event ec (fc\<lparr>fc_events := fc_events fc OR event\<rparr>)"
  shows "fc_ok fc'" and "mset (fc_waiting fc') = add_mset (the (ec_scheduler ec), event_task ec) (mset (fc_waiting fc))"
    and "ctx_of event fc = EventContext_new" and "fc_events fc' = fc_events fc OR event"
  using assms by (auto simp: fc_ok_def fc_waiting_def waits_def putContext_def event_defs ctx_of_def ec_ok_def)

context epoll_kernel
begin

lemma unregister_interest:
  obtains rt k where "unregister epoll_ctl i new io = (rt, io\<lparr>io_kernel := k\<rparr>)"
    and "interest k = (if rt = 0 then (interest (io_kernel io))(int i := watch new) else interest (io_kernel io))"
proof -
  obtain op where op: "op = (if new \<noteq> 0 then EPOLL_CTL_MOD else EPOLL_CTL_DEL)" by simp
  obtain rt k where k: "epoll_ctl op (int i) (EPOLLET OR new) (io_kernel io) = (rt, k)" by fastforce
  have "interest k = (interest (io_kernel io))(int i := watch new)" if "rt = 0"
    using ctl_sets [of op] ctl_clears k op that by (auto simp: watch_def split: if_splits)
  then show ?thesis
    using ctl_fails [OF k] k op by (intro that [of rt k]) (auto simp: unregister_def)
qed

lemma preserves_failed: "interest k = interest (io_kernel io) \<Longrightarrow> preserves interest b io (io\<lparr>io_kernel := k\<rparr>)"
  by (simp add: preserves_def io_inv_def watched_def)

lemma preserves_watched:
  assumes "same_frame (io\<lparr>io_kernel := k\<rparr>) io'" and "fresh \<Longrightarrow> drift io' = drift io"
    and "interest k = (interest (io_kernel io))(int i := watch new)" and "fd_events io' = (fd_events io)(i := new)"
  shows "preserves interest fresh io io'"
  using assms by (auto simp: preserves_def io_inv_def watched_def same_frame_def)

lemma ready_event_ok:
  assumes "io_ok io" and "i < length (io_fdcontexts io)"
  obtains io' where "ready_event epoll_ctl i reported io = Inr io'"
    and "preserves interest (fresh_report (fd_events io i) reported) io io'"
proof -
  let ?ev = "fd_events io i" and ?real = "real_events (fd_events io i) reported"
  let ?r = "?real AND EV_READ \<noteq> 0" and ?w = "?real AND EV_WRITE \<noteq> 0"
  obtain rt k where u: "unregister epoll_ctl i (?ev AND NOT ?real) io = (rt, io\<lparr>io_kernel := k\<rparr>)"
    and k: "interest k = (if rt = 0 then (interest (io_kernel io))(int i := watch (?ev AND NOT ?real)) else interest (io_kernel io))"
    by (rule unregister_interest)
  have ev: "fc_events (io_fdcontexts io ! i) = ?ev" using assms(2) by (simp add: fd_events_def)
  consider "?ev AND ?real = 0" | "?ev AND ?real \<noteq> 0" "rt \<noteq> 0" | "?ev AND ?real \<noteq> 0" "rt = 0" by blast
  then show ?thesis
  proof cases
    case 1
    then show ?thesis by (intro that [of io]) (simp_all add: ready_event_def Let_def ev preserves_def)
  next
    case 2
    then show ?thesis
      using u k by (intro that [of "io\<lparr>io_kernel := k\<rparr>"]) (simp_all add: ready_event_def Let_def ev preserves_failed)
  next
    case 3
    let ?io1 = "io\<lparr>io_kernel := k\<rparr>"
    have ok1: "io_ok ?io1" "i < length (io_fdcontexts ?io1)" using assms by simp_all
    obtain io2 io3 where tr: "trigger_if ?r EV_READ i ?io1 = Inr io2" "trigger_if ?w EV_WRITE i io2 = Inr io3" "same_frame ?io1 io3"
        "fd_events io3 = (fd_events io)(i := (?ev AND NOT (if ?r then EV_READ else 0)) AND NOT (if ?w then EV_WRITE else 0))"
        "(?r \<longrightarrow> ?ev AND EV_READ \<noteq> 0) \<Longrightarrow> (?w \<longrightarrow> ?ev AND EV_WRITE \<noteq> 0) \<Longrightarrow> drift io3 = drift io"
      by (rule trigger_both [OF ok1, of ?r ?w]) simp
    have "preserves interest (fresh_report ?ev reported) io io3"
      using tr k 3(2) fresh_real [of ?ev reported] clear_real [OF fd_events_ok [OF assms(1)] real_events_cases]
      by (intro preserves_watched [where new = "?ev AND NOT ?real"]) simp_all
    then show ?thesis
      using 3 u tr by (intro that [of io3]) (simp_all add: ready_event_def Let_def ev)
  qed
qed

lemma cancelAll_ok:
  assumes "io_ok io" and "0 \<le> fd"
  shows "\<exists>b io'. cancelAll epoll_ctl fd io = Inr (b, io') \<and> preserves interest True io io'"
proof (cases "int (length (io_fdcontexts io)) \<le> fd \<or> fd_events io (nat fd) = 0")
  case True
  then show ?thesis
    using assms(2) by (auto simp: cancelAll_def Let_def fd_events_def preserves_def split: if_splits)
next
  case False
  let ?i = "nat fd" and ?ev = "fd_events io (nat fd)"
  let ?r = "?ev AND EV_READ \<noteq> 0" and ?w = "?ev AND EV_WRITE \<noteq> 0"
  have i: "?i < length (io_fdcontexts io)" using False assms(2) by linarith
  then have ev: "fc_events (io_fdcontexts io ! ?i) = ?ev" by (simp add: fd_events_def)
  obtain rt k where k: "epoll_ctl EPOLL_CTL_DEL fd 0 (io_kernel io) = (rt, k)" by fastforce
  show ?thesis
  proof (cases "rt = 0")
    case rt: True
    let ?io1 = "io\<lparr>io_kernel := k\<rparr>"
    have ok1: "io_ok ?io1" "?i < length (io_fdcontexts ?io1)" using assms(1) i by simp_all
    obtain io2 io3 where tr: "trigger_if ?r EV_READ ?i ?io1 = Inr io2" "trigger_if ?w EV_WRITE ?i io2 = Inr io3" "same_frame ?io1 io3"
        "fd_events io3 = (fd_events io)(?i := (?ev AND NOT (if ?r then EV_READ else 0)) AND NOT (if ?w then EV_WRITE else 0))"
        "drift io3 = drift io" and w: "fc_events (io_fdcontexts io2 ! ?i) AND EV_WRITE = ?ev AND EV_WRITE"
      by (rule trigger_both [OF ok1, of ?r ?w]) simp
    have zero: "(?ev AND NOT (if ?r then EV_READ else 0)) AND NOT (if ?w then EV_WRITE else 0) = 0"
      using fd_events_ok [OF assms(1), of ?i] by (auto simp: event_defs)
    have z3: "fd_events io3 = (fd_events io)(?i := 0)" using tr(4) zero by simp
    have len3: "?i < length (io_fdcontexts io3)" using tr(3) i by (simp add: same_frame_def)
    have "fc_events (io_fdcontexts io3 ! ?i) = 0" using fun_cong [OF z3, of ?i] len3 by (simp add: fd_events_def)
    moreover have "preserves interest True io io3"
      using tr(3,5) z3 ctl_clears k rt assms(2)
      by (intro preserves_watched [where k = k and new = 0 and i = ?i]) (auto simp: watch_def)
    ultimately show ?thesis
      using False assms(2) ev k rt tr(1,2) w by (auto simp: cancelAll_def Let_def)
  next
    case rt: False
    then show ?thesis
      using False assms(2) ev k preserves_failed [OF ctl_fails [OF k rt]] by (auto simp: cancelAll_def Let_def)
  qed
qed

lemma cancelEvent_ok:
  assumes "io_ok io" and "0 \<le> fd" and "event \<in> {EV_READ, EV_WRITE}"
  shows "\<exists>b io'. cancelEvent epoll_ctl fd event io = Inr (b, io') \<and> preserves interest True io io'"
proof (cases "int (length (io_fdcontexts io)) \<le> fd \<or> fd_events io (nat fd) AND event = 0")
  case True
  then show ?thesis
    using assms(2) by (auto simp: cancelEvent_def Let_def fd_events_def preserves_def split: if_splits)
next
  case False
  let ?i = "nat fd" and ?ev = "fd_events io (nat fd)"
  have i: "?i < length (io_fdcontexts io)" using False assms(2) by linarith
  then have ev: "fc_events (io_fdcontexts io ! ?i) = ?ev" by (simp add: fd_events_def)
  obtain rt k where u: "unregister epoll_ctl ?i (?ev AND NOT event) io = (rt, io\<lparr>io_kernel := k\<rparr>)"
    and k: "interest k = (if rt = 0 then (interest (io_kernel io))(int ?i := watch (?ev AND NOT event)) else interest (io_kernel io))"
    by (rule unregister_interest)
  let ?io1 = "io\<lparr>io_kernel := k\<rparr>"
  have ok1: "io_ok ?io1" "?i < length (io_fdcontexts ?io1)" using assms(1) i by simp_all
  obtain io' where tr: "trigger_if True event ?i ?io1 = Inr io'" "same_frame ?io1 io'"
      "fd_events io' = (fd_events io)(?i := ?ev AND NOT event)" "drift io' = drift io"
    using False by - (rule trigger_if_ok [OF ok1 assms(3), of True], simp)
  have "preserves interest True io io'" if "rt = 0"
    using tr that k by (intro preserves_watched [where k = k and new = "?ev AND NOT event" and i = ?i]) auto
  with tr(1) show ?thesis
    using False assms(2) ev u k preserves_failed [of k io True] by (cases "rt = 0") (auto simp: cancelEvent_def Let_def trigger_if_def)
qed

lemma delEvent_ok:
  assumes "io_ok io" and "0 \<le> fd" and "event \<in> {EV_READ, EV_WRITE}"
  shows "\<exists>b io'. delEvent epoll_ctl fd event io = Inr (b, io') \<and> preserves interest True io io'"
proof (cases "int (length (io_fdcontexts io)) \<le> fd \<or> fd_events io (nat fd) AND event = 0")
  case True
  then show ?thesis
    using assms(2) by (auto simp: delEvent_def Let_def fd_events_def preserves_def split: if_splits)
next
  case False
  let ?i = "nat fd" and ?ev = "fd_events io (nat fd)" and ?fc = "io_fdcontexts io ! nat fd"
  have i: "?i < length (io_fdcontexts io)" using False assms(2) by linarith
  then have ev: "fc_events ?fc = ?ev" by (simp add: fd_events_def)
  obtain rt k where u: "unregister epoll_ctl ?i (?ev AND NOT event) io = (rt, io\<lparr>io_kernel := k\<rparr>)"
    and k: "interest k = (if rt = 0 then (interest (io_kernel io))(int ?i := watch (?ev AND NOT event)) else interest (io_kernel io))"
    by (rule unregister_interest)
  let ?io' = "put_fd ?i (cleared event ?fc) (io\<lparr>io_kernel := k, io_pendingEventCount := io_pendingEventCount io - 1,
      io_dropped := add_mset (the (ec_scheduler (ctx_of event ?fc)), event_task (ctx_of event ?fc)) (io_dropped io)\<rparr>)"
  note ok = fc_ok_nth [OF assms(1) i]
  have "io_ok ?io'"
    using False fc_waiting_cleared [OF ok assms(3)] ev assms(1)
    by (intro io_ok_put [OF assms(1) i _ fc_ok_cleared [OF ok assms(3)]]) (simp_all add: io_ok_def delivered_def put_fd_def)
  then have "same_frame (io\<lparr>io_kernel := k\<rparr>) ?io'" by (simp add: same_frame_def)
  moreover have "drift ?io' = drift io"
    using False waiting_cleared [OF assms(1) i assms(3), of ?io'] by (simp add: drift_def)
  moreover have "fd_events ?io' = (fd_events io)(?i := ?ev AND NOT event)" by (rule fd_events_cleared [OF i]) simp
  ultimately have "preserves interest True io ?io'" if "rt = 0"
    using that k by (intro preserves_watched [where k = k and new = "?ev AND NOT event" and i = ?i]) auto
  then show ?thesis
    using False assms(2) ev u k preserves_failed [of k io True]
    by (cases "rt = 0") (auto simp: delEvent_def Let_def getContext_ctx_of [OF assms(3)] cleared_def)
qed

lemma addEvent_locked_ok:
  assumes "io_ok io" and "i < length (io_fdcontexts io)" and "event \<in> {EV_READ, EV_WRITE}" and "sched = Some s"
    and "fd_events io i AND event = 0" and "cb \<noteq> None \<or> snd fiber = F_EXEC"
  shows "\<exists>rt io'. addEvent_locked epoll_ctl i event cb sched fiber io = Inr (rt, io') \<and> preserves interest True io io'"
proof -
  let ?ev = "fd_events io i" and ?fc = "io_fdcontexts io ! i" and ?op = "if fd_events io i \<noteq> 0 then EPOLL_CTL_MOD else EPOLL_CTL_ADD"
  let ?ec = "if cb \<noteq> None then EventContext_new\<lparr>ec_scheduler := sched, ec_cb := cb\<rparr>
      else EventContext_new\<lparr>ec_scheduler := sched, ec_fiber := Some (fst fiber)\<rparr>"
  let ?fc' = "putContext event ?ec (?fc\<lparr>fc_events := ?ev OR event\<rparr>)"
  have ev: "fc_events ?fc = ?ev" using assms(2) by (simp add: fd_events_def)
  have ec: "ec_ok True ?ec" using assms(4) by (auto simp: ec_ok_def EventContext_new_def)
  obtain rt k where k: "epoll_ctl ?op (int i) (EPOLLET OR (?ev OR event)) (io_kernel io) = (rt, k)" by fastforce
  note reg = registering [OF fc_ok_nth [OF assms(1,2)] assms(3) _ ec, of ?fc', unfolded ev, OF assms(5) refl]
  show ?thesis
  proof (cases "rt = 0")
    case True
    let ?io' = "put_fd i ?fc' (io\<lparr>io_kernel := k, io_pendingEventCount := io_pendingEventCount io + 1,
        io_registered := add_mset (the sched, event_task ?ec) (io_registered io)\<rparr>)"
    have ecs: "the (ec_scheduler ?ec) = the sched" by simp
    have "io_ok ?io'" using reg(2) ecs assms(1) by (intro io_ok_put [OF assms(1,2) _ reg(1)]) (simp_all add: io_ok_def delivered_def put_fd_def)
    then have "same_frame (io\<lparr>io_kernel := k\<rparr>) ?io'" by (simp add: same_frame_def)
    moreover have "size (waiting ?io') = Suc (size (waiting io))"
      using arg_cong [OF mset_concat_update [OF assms(2), of fc_waiting ?fc'], of size] arg_cong [OF reg(2), of size]
      by (simp add: waiting_def)
    then have "drift ?io' = drift io" by (simp add: drift_def)
    moreover have "fd_events ?io' = (fd_events io)(i := ?ev OR event)"
      using fd_events_put [OF assms(2), of ?io' ?fc'] reg(4) by simp
    moreover have "interest k = (interest (io_kernel io))(int i := watch (?ev OR event))"
      using k True ctl_sets [of ?op] fd_events_ok [OF assms(1), of i] assms(3)
      by (auto simp: watch_def event_defs split: if_splits)
    ultimately have "preserves interest True io ?io'" by (intro preserves_watched [where k = k]) simp_all
    moreover have "addEvent_locked epoll_ctl i event cb sched fiber io = Inr (0, ?io')"
      using k True assms(5,6) reg(3)
      by (auto simp: addEvent_locked_def Let_def ev getContext_ctx_of [OF assms(3)] EventContext_new_def)
    ultimately show ?thesis by blast
  next
    case False
    then show ?thesis
      using k assms(5) preserves_failed [OF ctl_fails [OF k False]] by (auto simp: addEvent_locked_def Let_def ev)
  qed
qed

lemma addEvent_ok:
  assumes "io_ok io" and "0 \<le> fd" and "event \<in> {EV_READ, EV_WRITE}" and "sched = Some s"
    and "fd_events io (nat fd) AND event = 0" and "cb \<noteq> None \<or> snd fiber = F_EXEC"
  shows "\<exists>rt io'. addEvent epoll_ctl fd event cb sched fiber io = Inr (rt, io') \<and> preserves interest True io io'"
proof (cases "int (length (io_fdcontexts io)) > fd")
  case True
  then show ?thesis
    using assms addEvent_locked_ok [OF assms(1) _ assms(3,4,5,6)] by (auto simp: addEvent_def nat_less_iff)
next
  case False
  let ?n = "nat fd * 3 div 2" and ?io1 = "contextResize (nat fd * 3 div 2) io"
  have len: "length (io_fdcontexts io) \<le> ?n" "nat fd < ?n" using False assms(1) by (auto simp: io_ok_def)
  note grow = contextResize_grows [OF len(1)]
  obtain rt io' where a: "addEvent_locked epoll_ctl (nat fd) event cb sched fiber ?io1 = Inr (rt, io')" and p: "preserves interest True ?io1 io'"
    using addEvent_locked_ok [OF grow(1) [OF assms(1)], of "nat fd" event sched s cb fiber] grow assms len by auto
  have "io_inv interest io \<Longrightarrow> io_inv interest ?io1" using grow(1,2,5,6) by (simp add: io_inv_def watched_def)
  with p have "preserves interest True io io'" using grow(3,4,6) len(1) by (auto simp: preserves_def)
  then show ?thesis using a False assms(2) grow(4) len(2) by (auto simp: addEvent_def Let_def)
qed

text \<open>Only a second registration of an event, or a caller outside a running fiber, makes \<open>addEvent\<close> fail its assertions.\<close>

lemma addEvent_returns:
  assumes "0 \<le> fd" and "io_ok io" and "event \<in> {EV_READ, EV_WRITE}" and "addEvent epoll_ctl fd event cb sched fiber io = Inr (rt, io')"
  shows "fd_events io (nat fd) AND event = 0" and "rt = 0 \<Longrightarrow> cb \<noteq> None \<or> snd fiber = F_EXEC"
proof -
  let ?io1 = "if int (length (io_fdcontexts io)) > fd then io else contextResize (nat fd * 3 div 2) io"
  have "length (io_fdcontexts io) \<le> nat fd * 3 div 2" if "\<not> int (length (io_fdcontexts io)) > fd"
    using that assms(2) by (auto simp: io_ok_def)
  then have ev: "fd_events ?io1 = fd_events io" using contextResize_grows(2) by auto
  have "addEvent_locked epoll_ctl (nat fd) event cb sched fiber ?io1 = Inr (rt, io')" "nat fd < length (io_fdcontexts ?io1)"
    using assms(1,4) by (auto simp: addEvent_def Let_def split: if_splits)
  then show "fd_events io (nat fd) AND event = 0" "rt = 0 \<Longrightarrow> cb \<noteq> None \<or> snd fiber = F_EXEC"
    unfolding ev [symmetric]
    by (auto simp: addEvent_locked_def fd_events_def Let_def split: if_splits prod.splits sum.splits)
qed

end

section \<open>Steps\<close>

text \<open>
  The operations on descriptors, the reports of \<open>epoll\<close>, expired timers, and the threads of every scheduler. The
  descriptor of the pipe is not used by anybody else. With \<open>fresh\<close>, a report is handled before the
  registration of its descriptor changes.
\<close>

inductive io_step :: "'k epoll_ctl \<Rightarrow> bool \<Rightarrow> 'k IOManager \<Rightarrow> 'k IOManager \<Rightarrow> bool" for epoll_ctl fresh where
  adds: "0 \<le> fd \<Longrightarrow> fd \<noteq> io_tickleFd io \<Longrightarrow> event \<in> {EV_READ, EV_WRITE} \<Longrightarrow> snd fiber = F_EXEC \<Longrightarrow>
    addEvent epoll_ctl fd event cb (Some s) fiber io = Inr (rt, io') \<Longrightarrow> io_step epoll_ctl fresh io io'"
| dels: "0 \<le> fd \<Longrightarrow> fd \<noteq> io_tickleFd io \<Longrightarrow> event \<in> {EV_READ, EV_WRITE} \<Longrightarrow>
    delEvent epoll_ctl fd event io = Inr (b, io') \<Longrightarrow> io_step epoll_ctl fresh io io'"
| cancels: "0 \<le> fd \<Longrightarrow> fd \<noteq> io_tickleFd io \<Longrightarrow> event \<in> {EV_READ, EV_WRITE} \<Longrightarrow>
    cancelEvent epoll_ctl fd event io = Inr (b, io') \<Longrightarrow> io_step epoll_ctl fresh io io'"
| cancels_all: "0 \<le> fd \<Longrightarrow> fd \<noteq> io_tickleFd io \<Longrightarrow> cancelAll epoll_ctl fd io = Inr (b, io') \<Longrightarrow> io_step epoll_ctl fresh io io'"
| reports: "i < length (io_fdcontexts io) \<Longrightarrow> int i \<noteq> io_tickleFd io \<Longrightarrow> fresh \<longrightarrow> fresh_report (fd_events io i) reported \<Longrightarrow>
    ready_event epoll_ctl i reported io = Inr io' \<Longrightarrow> io_step epoll_ctl fresh io io'"
| drains: "io_step epoll_ctl fresh io (io\<lparr>io_pipe := 0\<rparr>)"
| expires: "io_step epoll_ctl fresh io (run_expired now a io)"
| sets_timers: "io_step epoll_ctl fresh io (io\<lparr>io_timers := tm\<rparr>)"
| threads: "sched_step (io_schedulers io k) s \<Longrightarrow> io_step epoll_ctl fresh io (io\<lparr>io_schedulers := (io_schedulers io)(k := s)\<rparr>)"

lemma schedule_grows: "sc_scheduled s \<subseteq># sc_scheduled (schedule ft s)"
  by (simp add: schedule_def scheduleNoLock_def)

lemma sched_step_grows: "sched_step s s' \<Longrightarrow> sc_scheduled s \<subseteq># sc_scheduled s'"
proof (induction rule: sched_step.induct)
  case (settles t s f k)
  then show ?case using schedule_grows by (simp add: settle_def Let_def)
qed (auto simp: look_def enter_def enter_cb_def leave_def swapOut_def come_back_def idle_enter_def idle_check_def stop_def
    schedule_grows Let_def split: sum.splits option.splits if_splits)

lemma schedule_all_grows: "sc_scheduled s \<subseteq># sc_scheduled (snd (schedule_all cbs s b))"
proof (induction cbs arbitrary: s b)
  case (Cons cb cbs)
  let ?ft = "\<lparr>ft_fiber = None, ft_cb = cb, ft_thread = -1\<rparr>"
  obtain b' s' where s': "scheduleNoLock ?ft s = (b', s')" by fastforce
  then have "sc_scheduled s \<subseteq># sc_scheduled s'" using schedule_grows [of s ?ft] by (simp add: schedule_def)
  then show ?case using Cons.IH [of s' "b' \<or> b"] s' by (simp add: subset_mset.order_trans)
qed simp

lemma run_expired_grows: "sc_scheduled (io_schedulers io k) \<subseteq># sc_scheduled (io_schedulers (run_expired now a io) k)"
  using schedule_all_grows [of "io_schedulers io (io_self io)"]
  by (auto simp: run_expired_def IOManager_tickle_def Let_def split: prod.splits) (metis snd_conv)+

text \<open>Steps that leave descriptors and history alone and only add to the queues.\<close>

lemma preserves_grows:
  assumes "io_fdcontexts io' = io_fdcontexts io" and "io_kernel io' = io_kernel io" and "io_tickleFd io' = io_tickleFd io"
    and "io_registered io' = io_registered io" and "io_woken io' = io_woken io" and "io_dropped io' = io_dropped io"
    and "io_pendingEventCount io' = io_pendingEventCount io"
    and "\<And>k. sc_scheduled (io_schedulers io k) \<subseteq># sc_scheduled (io_schedulers io' k)"
  shows "preserves interest fresh io io'"
proof -
  have "delivered io \<Longrightarrow> delivered io'"
    using assms(5,8) by (auto simp: delivered_def intro: subset_mset.order_trans)
  then show ?thesis
    using assms(1-4,6,7) io_frame [OF assms(1)] assms(5)
    by (simp add: preserves_def io_inv_def io_ok_def watched_def drift_def)
qed

context epoll_kernel
begin

lemma step_preserves:
  assumes "io_step epoll_ctl fresh io io'" and "io_inv interest io"
  shows "preserves interest fresh io io'"
  using assms
proof (induction rule: io_step.induct)
  case (adds fd io event fiber cb s rt io')
  have ok: "io_ok io" using adds.prems by (simp add: io_inv_def)
  have "fd_events io (nat fd) AND event = 0" using addEvent_returns(1) adds.hyps ok by blast
  then show ?case using addEvent_ok [OF ok, of fd event "Some s" s cb fiber] adds.hyps by (auto simp: preserves_def)
next
  case (dels fd io event b io')
  then show ?case using delEvent_ok [of io fd event] by (auto simp: io_inv_def preserves_def)
next
  case (cancels fd io event b io')
  then show ?case using cancelEvent_ok [of io fd event] by (auto simp: io_inv_def preserves_def)
next
  case (cancels_all fd io b io')
  then show ?case using cancelAll_ok [of io fd] by (auto simp: io_inv_def preserves_def)
next
  case (reports i io reported io')
  then show ?case using ready_event_ok [of io i reported] unfolding io_inv_def preserves_def by (metis sum.inject(2))
next
  case (expires io now a)
  then show ?case by (intro preserves_grows) (simp_all add: run_expired_grows)
next
  case (threads io k s)
  then show ?case by (intro preserves_grows) (simp_all add: sched_step_grows)
qed (intro preserves_grows; simp)+

lemma reachable_inv:
  assumes "(io_step epoll_ctl fresh)\<^sup>*\<^sup>* io io'" and "io_inv interest io"
  shows "io_inv interest io' \<and> io_tickleFd io' = io_tickleFd io \<and> (fresh \<longrightarrow> drift io' = drift io)"
  using assms
proof (induction rule: rtranclp_induct)
  case (step io1 io2)
  then show ?case using step_preserves [of fresh io1 io2] by (simp add: preserves_def)
qed simp

end

lemma io_inv_new:
  assumes "\<forall>fd. fd \<noteq> tickleFd \<longrightarrow> interest k fd = None"
  shows "io_inv interest (IOManager_new self scheds now tickleFd k)" and "drift (IOManager_new self scheds now tickleFd k) = 0"
proof -
  have w: "waiting (IOManager_new self scheds now tickleFd k) = {#}"
    by (simp add: waiting_def IOManager_new_def contextResize_def fc_waiting_def waits_def FdContext_new_def)
  then show "drift (IOManager_new self scheds now tickleFd k) = 0"
    by (simp add: drift_def IOManager_new_def contextResize_def)
  have "fd_events (IOManager_new self scheds now tickleFd k) i = 0" for i
    by (simp add: fd_events_def IOManager_new_def contextResize_def FdContext_new_def nth_append)
  moreover have "io_ok (IOManager_new self scheds now tickleFd k)"
    using w by (simp add: io_ok_def IOManager_new_def contextResize_def list_all_iff fc_ok_new delivered_def)
  ultimately show "io_inv interest (IOManager_new self scheds now tickleFd k)"
    using assms by (simp add: io_inv_def watched_def watch_def IOManager_new_def contextResize_def)
qed

section \<open>Registrations are conserved\<close>


text \<open>C37. As long as every report is handled before the registration of its descriptor changes, the counter
  \<open>m_pendingEventCount\<close> is the number of registered fibers and callbacks, so that \<open>stopping\<close> answers yes exactly when nobody waits
  for an event, no timer is set, and the scheduler itself may stop.\<close>

theorem pending_count_exact:
  assumes "epoll_kernel epoll_ctl interest" and "\<forall>fd. fd \<noteq> tickleFd \<longrightarrow> interest k fd = None"
    and "(io_step epoll_ctl True)\<^sup>*\<^sup>* (IOManager_new self scheds now tickleFd k) io" and "size (waiting io) < 2 ^ 64"
  shows "unat (io_pendingEventCount io) = size (waiting io)
    \<and> (fst (snd (IOManager_stopping t io)) \<longleftrightarrow>
         fst (getNextTimer t (io_timers io)) = - 1 \<and> waiting io = {#} \<and> stopping_now (io_schedulers io (io_self io)))"
proof -
  note new = io_inv_new [where interest = interest and k = k and self = self and scheds = scheds and now = now, OF assms(2)]
  from epoll_kernel.reachable_inv [OF assms(1,3)] new
  have "drift io = 0" by simp
  then have "io_pendingEventCount io = of_nat (size (waiting io))" by (simp add: drift_def)
  then have u: "unat (io_pendingEventCount io) = size (waiting io)" using assms(4) by (simp add: unsigned_of_nat take_bit_nat_eq_self)
  then have "io_pendingEventCount io = 0 \<longleftrightarrow> waiting io = {#}" by (metis size_eq_0_iff_empty unat_eq_0)
  with u show ?thesis by (auto simp: IOManager_stopping_def Let_def split: prod.split)
qed

section \<open>Stale reports\<close>

text \<open>
  A thread takes the report that descriptor 5 can be read and written; before it locks the context, the wait for
  writing is cancelled; then it handles the report.
\<close>

definition stale_start :: "(int \<Rightarrow> 32 word option) IOManager" where
  "stale_start = IOManager_new 0 (\<lambda>_. Scheduler_new []) 0 3 Map.empty"

definition stale_run :: "error + (int \<Rightarrow> 32 word option) IOManager" where
  "stale_run =
     (case addEvent table_epoll_ctl 5 EV_READ (Some (Cb 1)) (Some 0) (0, F_EXEC) stale_start of
        Inl e \<Rightarrow> Inl e
      | Inr (_, io1) \<Rightarrow>
          (case addEvent table_epoll_ctl 5 EV_WRITE (Some (Cb 2)) (Some 0) (0, F_EXEC) io1 of
             Inl e \<Rightarrow> Inl e
           | Inr (_, io2) \<Rightarrow>
               (case cancelEvent table_epoll_ctl 5 EV_WRITE io2 of
                  Inl e \<Rightarrow> Inl e
                | Inr (_, io3) \<Rightarrow> ready_event table_epoll_ctl 5 (EPOLLIN OR EPOLLOUT) io3)))"

lemmas stale_defs = addEvent_def addEvent_locked_def cancelEvent_def ready_event_def unregister_def trigger_if_def
  trigger_counted_def triggerEvent_def put_fd_def getContext_def putContext_def event_task_def swapped_out_def
  io_schedule_def scheduleNoLock_def IOManager_tickle_def hasIdleThreads_def real_events_def table_epoll_ctl_def event_defs

lemma stale_start_contexts: "io_fdcontexts stale_start = map FdContext_new [0..<32]"
  "io_kernel stale_start = Map.empty" "io_pendingEventCount stale_start = 0"
  by (simp_all add: stale_start_def IOManager_new_def contextResize_def)

lemma no_waiters: "fc_events fc = 0 \<Longrightarrow> \<forall>x \<in> set ((map FdContext_new xs)[i := fc]). fc_waiting x = []"
  by (auto simp: fc_waiting_def waits_def FdContext_new_def dest!: set_update_subset_insert [THEN subsetD])

lemma stale_run_result: "\<exists>io. stale_run = Inr io \<and> waiting io = {#} \<and> io_pendingEventCount io = - 1"
  unfolding stale_run_def
  by (simp add: stale_defs stale_start_contexts Let_def FdContext_new_def [of 5] EventContext_new_def nth_list_update waiting_def)
    (intro conjI impI no_waiters; simp)

lemma stale_run_steps:
  assumes "stale_run = Inr io"
  shows "(io_step table_epoll_ctl False)\<^sup>*\<^sup>* stale_start io"
proof -
  obtain rt1 io1 rt2 io2 b io3 where
    1: "addEvent table_epoll_ctl 5 EV_READ (Some (Cb 1)) (Some 0) (0, F_EXEC) stale_start = Inr (rt1, io1)" and
    2: "addEvent table_epoll_ctl 5 EV_WRITE (Some (Cb 2)) (Some 0) (0, F_EXEC) io1 = Inr (rt2, io2)" and
    3: "cancelEvent table_epoll_ctl 5 EV_WRITE io2 = Inr (b, io3)" and
    4: "ready_event table_epoll_ctl 5 (EPOLLIN OR EPOLLOUT) io3 = Inr io"
    using assms by (auto simp: stale_run_def split: sum.splits)
  have start: "io_inv id stale_start" "io_tickleFd stale_start = 3"
    by (simp_all add: stale_start_def io_inv_new) (simp add: IOManager_new_def contextResize_def)
  have tickle: "io_tickleFd io' = 3 \<and> 32 \<le> length (io_fdcontexts io')" if "(io_step table_epoll_ctl False)\<^sup>*\<^sup>* stale_start io'" for io'
    using epoll_table.reachable_inv [OF that start(1)] start(2) by (simp add: io_inv_def io_ok_def)
  have s1: "(io_step table_epoll_ctl False)\<^sup>*\<^sup>* stale_start io1"
    using start(2) by (intro r_into_rtranclp io_step.adds [OF _ _ _ _ 1]) simp_all
  have s2: "(io_step table_epoll_ctl False)\<^sup>*\<^sup>* stale_start io2"
    using tickle [OF s1] by (intro rtranclp.rtrancl_into_rtrancl [OF s1] io_step.adds [OF _ _ _ _ 2]) simp_all
  have s3: "(io_step table_epoll_ctl False)\<^sup>*\<^sup>* stale_start io3"
    using tickle [OF s2] by (intro rtranclp.rtrancl_into_rtrancl [OF s2] io_step.cancels [OF _ _ _ 3]) simp_all
  show ?thesis
    using tickle [OF s3] by (intro rtranclp.rtrancl_into_rtrancl [OF s3] io_step.reports [OF _ _ _ 4]) simp_all
qed


section \<open>Growing the table\<close>

text \<open>
  \<open>addEvent\<close> reads the size of the table under a read lock and resizes it under a write lock taken afterwards.
  When another thread has grown it in between, \<open>resize\<close> shrinks it: the waiter on descriptor 100 is lost.
\<close>

lemma fc_waiting_new [simp]: "fc_waiting (FdContext_new i) = []"
  by (simp add: fc_waiting_def waits_def FdContext_new_def)

lemma one_waiter: "i < n \<Longrightarrow> mset (concat (map fc_waiting ((map FdContext_new [0..<n])[i := fc]))) = mset (fc_waiting fc)"
  using mset_concat_update [of i "map FdContext_new [0..<n]" fc_waiting fc] by (simp add: o_def)

lemma resize_race_loses_waiter:
  "\<exists>io. addEvent table_epoll_ctl 100 EV_READ (Some (Cb 1)) (Some 0) (0, F_EXEC) stale_start = Inr (0, io)
     \<and> size (waiting io) = 1 \<and> waiting (contextResize (40 * 3 div 2) io) = {#}"
proof -
  let ?io1 = "contextResize 150 stale_start"
  have ctx: "io_fdcontexts ?io1 = map FdContext_new [0..<150]"
    using upt_add_eq_append [of 0 32 118] by (simp add: contextResize_def stale_start_contexts)
  have k: "io_kernel ?io1 = Map.empty" by (simp add: contextResize_def stale_start_contexts)
  obtain io fc where io: "addEvent table_epoll_ctl 100 EV_READ (Some (Cb 1)) (Some 0) (0, F_EXEC) stale_start = Inr (0, io)"
      "io_fdcontexts io = (map FdContext_new [0..<150])[100 := fc]" "fc_events fc = 1"
    by (simp add: addEvent_def stale_start_contexts)
      (simp add: addEvent_locked_def ctx k stale_defs Let_def FdContext_new_def [of 100] EventContext_new_def)
  have "size (waiting io) = 1" using io(2,3) by (simp add: waiting_def one_waiter) (simp add: fc_waiting_def waits_def event_defs)
  moreover have "waiting (contextResize 60 io) = {#}" using io(2) by (simp add: waiting_def contextResize_def take_map)
  ultimately show ?thesis using io(1) by simp
qed

section \<open>The time \<open>epoll_wait\<close> is given\<close>

lemma sint_low_half: "t < 2 ^ 31 \<Longrightarrow> sint (ucast (t :: 64 word) :: 32 word) = uint t"
proof -
  assume "t < 2 ^ 31"
  moreover have "- (2 ^ 31) \<le> uint t" using order_trans [of "- (2 ^ 31)" 0 "uint t"] by simp
  ultimately show ?thesis by (simp add: word_less_def signed_ucast_eq signed_take_bit_int_eq_self)
qed

text \<open>The idle fiber never waits longer than five seconds, provided the next timer is due within \<open>2 ^ 31\<close>
  milliseconds or there is none; when it is due in \<open>2 ^ 31\<close> milliseconds, the timeout passed to \<open>epoll_wait\<close> is negative,
  which means to wait for ever.\<close>

theorem idle_timeout_bounds:
  assumes "t < 2 ^ 31 \<or> t = - 1"
  shows "0 \<le> idle_timeout t \<and> idle_timeout t \<le> 5000 \<and> (t \<noteq> - 1 \<longrightarrow> idle_timeout t \<le> uint t) \<and> idle_timeout (2 ^ 31) < 0"
proof -
  have "idle_timeout (2 ^ 31) < 0" by (simp add: idle_timeout_def)
  moreover have "idle_timeout (- 1) = 5000" by (simp add: idle_timeout_def)
  moreover have "idle_timeout t = min (uint t) 5000" if "t < 2 ^ 31"
    using sint_low_half [OF that] that by (auto simp: idle_timeout_def Let_def)
  ultimately show ?thesis using assms by auto
qed


text \<open>Here a report that is handled in time.\<close>

theorem pending_count_exact_witness:
  "\<exists>io. (io_step table_epoll_ctl True)\<^sup>*\<^sup>* stale_start io \<and> size (waiting io) = 1 \<and> unat (io_pendingEventCount io) = 1"
proof -
  obtain io fc where io: "addEvent table_epoll_ctl 5 EV_READ (Some (Cb 1)) (Some 0) (0, F_EXEC) stale_start = Inr (0, io)"
      "io_fdcontexts io = (map FdContext_new [0..<32])[5 := fc]" "fc_events fc = 1"
    by (simp add: stale_defs stale_start_contexts Let_def FdContext_new_def [of 5] EventContext_new_def)
  have "io_tickleFd stale_start = 3" by (simp add: stale_start_def IOManager_new_def contextResize_def)
  then have reach: "(io_step table_epoll_ctl True)\<^sup>*\<^sup>* stale_start io"
    by (intro r_into_rtranclp io_step.adds [OF _ _ _ _ io(1)]) simp_all
  have "size (waiting io) = 1" using io(2,3) by (simp add: waiting_def one_waiter) (simp add: fc_waiting_def waits_def event_defs)
  with pending_count_exact [OF epoll_table.epoll_kernel_axioms _ reach [unfolded stale_start_def]] reach
  show ?thesis by (intro exI [of _ io]) simp
qed

theorem idle_timeout_bounds_witness: "(7000 :: 64 word) < 2 ^ 31 \<and> 0 \<le> idle_timeout 7000 \<and> idle_timeout 7000 \<le> 5000"
  using idle_timeout_bounds [of 7000] by simp

end
