(* ===== verification/CNumbers.thy ===== *)
theory CNumbers
  imports Util
begin

text \<open>
  Reading numbers from C strings as \<open>strtol\<close> and \<open>atoi\<close> do, and that they read back what was printed in decimal.
\<close>

section \<open>Numbers in C strings\<close>

text \<open>
  \<open>strtol(s, NULL, base)\<close>, for the bases 10 and 16: white space, a sign, in base 16 a prefix \<open>0x\<close> before a digit, digits; a
  value that does not fit gives \<open>LONG_MAX\<close> or \<open>LONG_MIN\<close>. The memory is read up to the first character that is no digit.
\<close>

definition digit_value :: "byte \<Rightarrow> nat" where
  "digit_value c =
     (if 48 \<le> c \<and> c \<le> 57 then unat c - 48
      else if 97 \<le> c \<and> c \<le> 122 then unat c - 87
      else if 65 \<le> c \<and> c \<le> 90 then unat c - 55
      else 36)"

definition base_value :: "nat \<Rightarrow> bytes \<Rightarrow> nat" where
  "base_value base ds = foldl (\<lambda>n d. base * n + digit_value d) 0 ds"

definition strtol :: "bytes \<Rightarrow> nat \<Rightarrow> int" where
  "strtol s base =
     (let t = dropWhile isspace s;
          neg = (t \<noteq> [] \<and> hd t = 45);
          u = (if t \<noteq> [] \<and> (hd t = 45 \<or> hd t = 43) then drop 1 t else t);
          w = (case u of z # x # d # _ \<Rightarrow> if base = 16 \<and> z = 48 \<and> (x = 120 \<or> x = 88) \<and> digit_value d < 16 then drop 2 u else u | _ \<Rightarrow> u);
          n = int (base_value base (takeWhile (\<lambda>c. digit_value c < base) w))
      in if neg then max (- n) (- (2 ^ 63)) else min n (2 ^ 63 - 1))"

text \<open>A \<open>long\<close> stored in an \<open>int\<close>.\<close>

definition as_int :: "int \<Rightarrow> int" where
  "as_int n = sint (of_int n :: 32 word)"

section \<open>Printed numbers\<close>

lemma dec_digits: "c \<in> set (str (dec n)) \<Longrightarrow> 48 \<le> sint c \<and> sint c \<le> 57"
proof (induction n rule: dec.induct)
  case (1 n)
  have "48 \<le> sint (of_char (char_of (48 + k)) :: byte) \<and> sint (of_char (char_of (48 + k)) :: byte) \<le> 57" if "k < 10" for k :: nat
  proof -
    have "list_all (\<lambda>k. 48 \<le> sint (of_char (char_of (48 + k)) :: byte) \<and> sint (of_char (char_of (48 + k)) :: byte) \<le> 57) [0..<10]"
      by code_simp
    then show ?thesis using that by (simp add: list_all_iff)
  qed
  then show ?case
    using 1 by (subst (asm) dec.simps, subst (asm) dec.simps) (auto simp: str_def split: if_splits)
qed

lemma dec_nonempty: "dec n \<noteq> []"
  by (subst dec.simps) simp

lemma digit_byte:
  assumes "k < 10"
  shows "digit_value (of_char (char_of (48 + k) :: char)) = k" "\<not> isspace (of_char (char_of (48 + k) :: char))"
    "(of_char (char_of (48 + k) :: char) :: byte) \<noteq> 45" "(of_char (char_of (48 + k) :: char) :: byte) \<noteq> 43"
proof -
  have "list_all (\<lambda>k. digit_value (of_char (char_of (48 + k) :: char)) = k \<and> \<not> isspace (of_char (char_of (48 + k) :: char))
      \<and> (of_char (char_of (48 + k) :: char) :: byte) \<noteq> 45 \<and> (of_char (char_of (48 + k) :: char) :: byte) \<noteq> 43) [0..<10]"
    by code_simp
  then show "digit_value (of_char (char_of (48 + k) :: char)) = k" "\<not> isspace (of_char (char_of (48 + k) :: char))"
    "(of_char (char_of (48 + k) :: char) :: byte) \<noteq> 45" "(of_char (char_of (48 + k) :: char) :: byte) \<noteq> 43"
    using assms by (simp_all add: list_all_iff)
qed

lemma dec_bytes: "c \<in> set (str (dec n)) \<Longrightarrow> digit_value c < 10 \<and> \<not> isspace c \<and> c \<noteq> 45 \<and> c \<noteq> 43"
proof (induction n rule: dec.induct)
  case (1 n)
  then show ?case
    by (auto simp: dec.simps [of n] str_def digit_byte split: if_splits)
qed

lemma base_value_dec: "base_value 10 (str (dec n)) = n"
proof (induction n rule: dec.induct)
  case (1 n)
  then show ?case
    by (subst dec.simps) (auto simp: base_value_def str_def digit_byte)
qed

lemma case_same [simp]: "(case u of [] \<Rightarrow> a | z # zs \<Rightarrow> (case zs of [] \<Rightarrow> a | x # ys \<Rightarrow> (case ys of [] \<Rightarrow> a | d # ds \<Rightarrow> a))) = a"
    "(case zs of [] \<Rightarrow> a | x # ys \<Rightarrow> (case ys of [] \<Rightarrow> a | d # ds \<Rightarrow> a)) = a"
  by (simp_all split: list.split)

lemma strtol_dec:
  assumes "int n < 2 ^ 63" and "\<not> digit_value c < 10"
  shows "strtol (str (dec n) @ c # rest) 10 = int n"
proof -
  obtain d ds where d: "str (dec n) = d # ds" using dec_nonempty [of n] by (cases "dec n") (auto simp: str_def)
  have "\<not> isspace d" "d \<noteq> 45" "d \<noteq> 43" using dec_bytes [of d n] by (auto simp: d)
  moreover have "takeWhile (\<lambda>c. digit_value c < 10) (str (dec n) @ c # rest) = str (dec n)"
    using dec_bytes assms(2) by (subst takeWhile_append2) auto
  ultimately show ?thesis
    using assms(1) base_value_dec [of n] by (simp add: strtol_def d Let_def del: takeWhile.simps)
qed

lemma as_int_small: "int n < 2 ^ 31 \<Longrightarrow> as_int (int n) = int n"
  by (simp add: as_int_def signed_of_nat signed_take_bit_int_eq_self)

end
