(* ===== verification/Ragel.thy ===== *)
theory Ragel
  imports Prelude
begin

text \<open>
  The control flow of the parsers that Ragel generated as C code (\<^verbatim>\<open>http11_parser.cc\<close>, \<^verbatim>\<open>httpclient_parser.cc\<close>,
  \<^verbatim>\<open>uri.cc\<close>). Each state of such a machine is a \<open>case\<close> of a \<open>switch (cs)\<close> that tests the current character and
  jumps to a label: \<open>st\<close>\<open>n\<close> goes to state \<open>n\<close> and the next character, \<open>tr\<close>\<open>n\<close> first runs some actions,
  \<open>st0\<close> leaves with the error state. A machine is kept as data: for every state the tests in the order of the code, a test being
  the least and the greatest character it accepts with the label it jumps to. A character is a \<open>char\<close>, which is signed.
\<close>

type_synonym 'a label = "'a list \<times> nat"
type_synonym 'a tests = "(int \<times> int \<times> 'a label) list"

definition goto :: "nat \<Rightarrow> 'a label" where
  "goto n = ([], n)"

text \<open>The first test that accepts the character; no test means the error state.\<close>

fun first_test :: "'a tests \<Rightarrow> int \<Rightarrow> 'a label" where
  "first_test [] c = goto 0"
| "first_test ((lo, hi, l) # ts) c = (if lo \<le> c \<and> c \<le> hi then l else first_test ts c)"

text \<open>
  The generated loop. \<open>label_of cs c\<close> is the label that state \<open>cs\<close> jumps to, \<open>None\<close> when the \<open>switch\<close> has no such case: control then
  reaches the first statement behind it, which sets \<open>cs\<close> to 2. \<open>act a p s\<close> runs an action at position \<open>p\<close>; it returns the state it
  stops in when it leaves the machine (\<open>fbreak\<close>). The result is the final state, the position and the data.
\<close>

fun run_actions :: "('a \<Rightarrow> nat \<Rightarrow> 's \<Rightarrow> error + nat option \<times> 's) \<Rightarrow> 'a list \<Rightarrow> nat \<Rightarrow> 's \<Rightarrow> error + nat option \<times> 's" where
  "run_actions act [] p s = Inr (None, s)"
| "run_actions act (a # as) p s =
     (case act a p s of
        Inl e \<Rightarrow> Inl e
      | Inr (Some n, s') \<Rightarrow> Inr (Some n, s')
      | Inr (None, s') \<Rightarrow> run_actions act as p s')"

fun run_machine ::
    "(nat \<Rightarrow> int \<Rightarrow> 'a label option) \<Rightarrow> ('a \<Rightarrow> nat \<Rightarrow> 's \<Rightarrow> error + nat option \<times> 's) \<Rightarrow> bytes \<Rightarrow> nat \<Rightarrow> nat \<Rightarrow> 's \<Rightarrow>
       error + nat \<times> nat \<times> 's" where
  "run_machine label_of act [] cs p s = Inr (cs, p, s)"
| "run_machine label_of act (b # bs) cs p s =
     (case label_of cs (sint b) of
        None \<Rightarrow> Inr (2, p, s)
      | Some (as, n) \<Rightarrow>
          (case run_actions act as p s of
             Inl e \<Rightarrow> Inl e
           | Inr (Some stop, s') \<Rightarrow> Inr (stop, p + 1, s')
           | Inr (None, s') \<Rightarrow> if n = 0 then Inr (0, p, s') else run_machine label_of act bs n (p + 1) s'))"

lemma single_char [simp]: "a \<le> c \<and> c \<le> a \<longleftrightarrow> c = (a :: int)"
  by auto

text \<open>The characters on which a state stays where it is, without an action.\<close>

lemma run_machine_loop:
  assumes "\<forall>b \<in> set bs. label_of cs (sint b) = Some (goto cs)" and "cs \<noteq> 0"
  shows "run_machine label_of act (bs @ rest) cs p s = run_machine label_of act rest cs (p + length bs) s"
  using assms by (induction bs arbitrary: p) (simp_all add: goto_def)

lemma run_machine_goto:
  "label_of cs (sint b) = Some (goto n) \<Longrightarrow> n \<noteq> 0 \<Longrightarrow>
     run_machine label_of act (b # bs) cs p s = run_machine label_of act bs n (p + 1) s"
  by (simp add: goto_def)

text \<open>A run stops inside the buffer, and a machine without errors returns.\<close>

lemma run_machine_range:
  "run_machine label_of act bs cs p s = Inr (cs', p', s') \<Longrightarrow> p \<le> p' \<and> p' \<le> p + length bs"
proof (induction label_of act bs cs p s rule: run_machine.induct)
  case (2 label_of act b bs cs p s)
  then show ?case
    by (fastforce split: option.splits prod.splits sum.splits if_splits)
qed simp

end
