(* ===== verification/Http11Machine.thy ===== *)
theory Http11Machine
  imports Ragel
begin

text \<open>
  \<^verbatim>\<open>src/chat/http/http11_parser.cc\<close>: the states and transitions of the machine that Ragel generated from
  \<^verbatim>\<open>http11_parser.rl\<close>, in the order of the code. The flag of a state says whether it tests \<open>_widec\<close>, in which the characters
  that are only allowed in relaxed URIs are shifted out of the range of \<open>char\<close>, instead of the character itself.
\<close>

datatype http_action =
    A_mark | A_start_field | A_write_field | A_write_value | A_request_method | A_request_uri | A_fragment |
    A_start_query | A_query_string | A_http_version | A_request_path | A_xml | A_json | A_done nat

type_synonym http_state = "nat \<times> bool \<times> http_action tests"

section \<open>Transitions\<close>

definition h_tr0 :: "http_action label" where "h_tr0 = ([A_mark], 2)"
definition h_tr2 :: "http_action label" where "h_tr2 = ([A_mark], 194)"
definition h_tr3 :: "http_action label" where "h_tr3 = ([A_mark], 198)"
definition h_tr4 :: "http_action label" where "h_tr4 = ([A_request_method], 3)"
definition h_tr6 :: "http_action label" where "h_tr6 = ([A_mark, A_request_path, A_request_uri], 4)"
definition h_tr7 :: "http_action label" where "h_tr7 = ([A_mark], 19)"
definition h_tr8 :: "http_action label" where "h_tr8 = ([A_mark, A_request_path, A_request_uri], 20)"
definition h_tr9 :: "http_action label" where "h_tr9 = ([A_mark], 24)"
definition h_tr10 :: "http_action label" where "h_tr10 = ([A_mark], 33)"
definition h_tr11 :: "http_action label" where "h_tr11 = ([A_mark, A_request_path], 29)"
definition h_tr12 :: "http_action label" where "h_tr12 = ([A_mark], 173)"
definition h_tr13 :: "http_action label" where "h_tr13 = ([A_mark], 5)"
definition h_tr21 :: "http_action label" where "h_tr21 = ([A_http_version], 13)"
definition h_tr22 :: "http_action label" where "h_tr22 = ([A_http_version], 17)"
definition h_tr23 :: "http_action label" where "h_tr23 = ([A_start_field], 14)"
definition h_tr24 :: "http_action label" where "h_tr24 = ([A_start_field, A_done 348], 348)"
definition h_tr25 :: "http_action label" where "h_tr25 = ([A_start_field], 18)"
definition h_tr27 :: "http_action label" where "h_tr27 = ([A_write_field], 15)"
definition h_tr28 :: "http_action label" where "h_tr28 = ([A_mark], 16)"
definition h_tr29 :: "http_action label" where "h_tr29 = ([A_mark], 15)"
definition h_tr30 :: "http_action label" where "h_tr30 = ([A_mark, A_write_value], 13)"
definition h_tr31 :: "http_action label" where "h_tr31 = ([A_mark, A_write_value], 17)"
definition h_tr33 :: "http_action label" where "h_tr33 = ([A_write_value], 13)"
definition h_tr34 :: "http_action label" where "h_tr34 = ([A_write_value], 17)"
definition h_tr36 :: "http_action label" where "h_tr36 = ([A_done 348], 348)"
definition h_tr37 :: "http_action label" where "h_tr37 = ([A_request_path, A_request_uri], 4)"
definition h_tr39 :: "http_action label" where "h_tr39 = ([A_request_path, A_request_uri], 20)"
definition h_tr42 :: "http_action label" where "h_tr42 = ([A_request_path], 29)"
definition h_tr43 :: "http_action label" where "h_tr43 = ([A_mark], 21)"
definition h_tr44 :: "http_action label" where "h_tr44 = ([A_mark, A_fragment], 4)"
definition h_tr45 :: "http_action label" where "h_tr45 = ([A_mark], 22)"
definition h_tr47 :: "http_action label" where "h_tr47 = ([A_fragment], 4)"
definition h_tr53 :: "http_action label" where "h_tr53 = ([A_start_query], 30)"
definition h_tr54 :: "http_action label" where "h_tr54 = ([A_start_query, A_query_string, A_request_uri], 4)"
definition h_tr55 :: "http_action label" where "h_tr55 = ([A_start_query, A_query_string, A_request_uri], 20)"
definition h_tr56 :: "http_action label" where "h_tr56 = ([A_start_query], 31)"
definition h_tr58 :: "http_action label" where "h_tr58 = ([A_query_string, A_request_uri], 4)"
definition h_tr59 :: "http_action label" where "h_tr59 = ([A_query_string, A_request_uri], 20)"
definition h_tr203 :: "http_action label" where "h_tr203 = ([A_mark], 26)"
definition h_tr204 :: "http_action label" where "h_tr204 = ([A_mark], 27)"
definition h_tr224 :: "http_action label" where "h_tr224 = ([A_request_path], 196)"
definition h_tr227 :: "http_action label" where "h_tr227 = ([A_xml, A_done 349], 349)"
definition h_tr228 :: "http_action label" where "h_tr228 = ([A_request_path], 199)"
definition h_tr232 :: "http_action label" where "h_tr232 = ([A_mark], 200)"
definition h_tr235 :: "http_action label" where "h_tr235 = ([A_json, A_done 349], 349)"

section \<open>States\<close>

definition h_states_1 :: "http_state list" where
  "h_states_1 =
     [(1, False, [(60, 60, h_tr2), (64, 64, h_tr3), (65, 90, h_tr0), (48, 57, h_tr0)]),
      (2, False, [(32, 32, h_tr4), (65, 90, goto 175), (48, 57, goto 175)]),
      (3, True, [(32, 32, h_tr6), (33, 33, h_tr7), (35, 35, h_tr8), (37, 37, h_tr9), (47, 47, h_tr10), (59, 59, h_tr7),
            (61, 61, h_tr7), (63, 63, h_tr11), (64, 64, h_tr7), (95, 95, h_tr7), (126, 126, h_tr7), (606, 606, h_tr7),
            (635, 635, h_tr7), (637, 637, h_tr7), (36, 57, h_tr7), (97, 122, h_tr12), (65, 90, h_tr12)])]"

definition h_states_4 :: "http_state list" where
  "h_states_4 =
     [(4, False, [(72, 72, h_tr13)]),
      (5, False, [(84, 84, goto 6)]),
      (6, False, [(84, 84, goto 7)]),
      (7, False, [(80, 80, goto 8)]),
      (8, False, [(47, 47, goto 9)]),
      (9, False, [(49, 49, goto 10)]),
      (10, False, [(46, 46, goto 11)]),
      (11, False, [(48, 49, goto 12)]),
      (12, False, [(10, 10, h_tr21), (13, 13, h_tr22)]),
      (13, False, [(10, 10, h_tr24), (13, 13, h_tr25), (33, 33, h_tr23), (124, 124, h_tr23), (126, 126, h_tr23), (1, 8, h_tr23),
            (35, 39, h_tr23), (11, 31, h_tr23), (45, 46, h_tr23), (94, 122, h_tr23), (65, 90, h_tr23), (48, 57, h_tr23),
            (42, 43, h_tr23)])]"

definition h_states_14 :: "http_state list" where
  "h_states_14 =
     [(14, False, [(33, 33, goto 14), (58, 58, h_tr27), (124, 124, goto 14), (126, 126, goto 14), (1, 8, goto 14),
            (35, 39, goto 14), (10, 31, goto 14), (45, 46, goto 14), (94, 122, goto 14), (65, 90, goto 14),
            (48, 57, goto 14), (42, 43, goto 14)]),
      (15, False, [(0, 0, goto 0), (9, 9, h_tr29), (10, 10, h_tr30), (13, 13, h_tr31), (32, 32, h_tr29), (127, 127, goto 0),
            (- 128, 127, h_tr28)]),
      (16, False, [(0, 0, goto 0), (10, 10, h_tr33), (13, 13, h_tr34), (127, 127, goto 0), (- 128, 127, goto 16)]),
      (17, False, [(10, 10, goto 13)])]"

definition h_states_348 :: "http_state list" where
  "h_states_348 =
     [(348, False, [(33, 33, goto 14), (58, 58, h_tr27), (124, 124, goto 14), (126, 126, goto 14), (1, 8, goto 14),
            (35, 39, goto 14), (10, 31, goto 14), (45, 46, goto 14), (94, 122, goto 14), (65, 90, goto 14),
            (48, 57, goto 14), (42, 43, goto 14)])]"

definition h_states_18 :: "http_state list" where
  "h_states_18 =
     [(18, False, [(10, 10, h_tr36), (33, 33, goto 14), (58, 58, h_tr27), (124, 124, goto 14), (126, 126, goto 14),
            (1, 8, goto 14), (35, 39, goto 14), (11, 31, goto 14), (45, 46, goto 14), (94, 122, goto 14),
            (65, 90, goto 14), (48, 57, goto 14), (42, 43, goto 14)]),
      (19, True, [(32, 32, h_tr37), (33, 33, goto 19), (35, 35, h_tr39), (37, 37, goto 24), (47, 47, goto 26), (59, 59, goto 19),
            (61, 61, goto 19), (63, 63, h_tr42), (95, 95, goto 19), (126, 126, goto 19), (606, 606, goto 19),
            (635, 635, goto 19), (637, 637, goto 19), (36, 57, goto 19), (97, 122, goto 19), (64, 90, goto 19)])]"

definition h_states_20 :: "http_state list" where
  "h_states_20 =
     [(20, True, [(32, 32, h_tr44), (33, 33, h_tr43), (37, 37, h_tr45), (61, 61, h_tr43), (95, 95, h_tr43), (126, 126, h_tr43),
            (606, 606, h_tr43), (635, 635, h_tr43), (637, 637, h_tr43), (- 128, - 1, h_tr43), (97, 122, h_tr43),
            (63, 90, h_tr43), (36, 59, h_tr43)]),
      (21, True, [(32, 32, h_tr47), (33, 33, goto 21), (37, 37, goto 22), (61, 61, goto 21), (95, 95, goto 21),
            (126, 126, goto 21), (606, 606, goto 21), (635, 635, goto 21), (637, 637, goto 21), (- 128, - 1, goto 21),
            (97, 122, goto 21), (63, 90, goto 21), (36, 59, goto 21)]),
      (22, False, [(48, 57, goto 23), (97, 102, goto 23), (65, 70, goto 23)]),
      (23, False, [(48, 57, goto 21), (97, 102, goto 21), (65, 70, goto 21)]),
      (24, False, [(48, 57, goto 25), (97, 102, goto 25), (65, 70, goto 25)])]"

definition h_states_25 :: "http_state list" where
  "h_states_25 =
     [(25, False, [(48, 57, goto 19), (97, 102, goto 19), (65, 70, goto 19)]),
      (26, True, [(32, 32, h_tr37), (33, 33, goto 26), (35, 35, h_tr39), (37, 37, goto 27), (61, 61, goto 26), (63, 63, h_tr42),
            (95, 95, goto 26), (126, 126, goto 26), (606, 606, goto 26), (635, 635, goto 26), (637, 637, goto 26),
            (- 128, - 1, goto 26), (97, 122, goto 26), (64, 90, goto 26), (36, 59, goto 26)]),
      (27, False, [(48, 57, goto 28), (97, 102, goto 28), (65, 70, goto 28)]),
      (28, False, [(48, 57, goto 26), (97, 102, goto 26), (65, 70, goto 26)])]"

definition h_states_29 :: "http_state list" where
  "h_states_29 =
     [(29, True, [(32, 32, h_tr54), (33, 33, h_tr53), (35, 35, h_tr55), (37, 37, h_tr56), (61, 61, h_tr53), (95, 95, h_tr53),
            (126, 126, h_tr53), (606, 606, h_tr53), (635, 635, h_tr53), (637, 637, h_tr53), (- 128, - 1, h_tr53),
            (97, 122, h_tr53), (63, 90, h_tr53), (36, 59, h_tr53)]),
      (30, True, [(32, 32, h_tr58), (33, 33, goto 30), (35, 35, h_tr59), (37, 37, goto 31), (61, 61, goto 30), (95, 95, goto 30),
            (126, 126, goto 30), (606, 606, goto 30), (635, 635, goto 30), (637, 637, goto 30), (- 128, - 1, goto 30),
            (97, 122, goto 30), (63, 90, goto 30), (36, 59, goto 30)]),
      (31, False, [(48, 57, goto 32), (97, 102, goto 32), (65, 70, goto 32)]),
      (32, False, [(48, 57, goto 30), (97, 102, goto 30), (65, 70, goto 30)])]"

definition h_states_33 :: "http_state list" where
  "h_states_33 =
     [(33, True, [(32, 32, h_tr37), (33, 33, goto 26), (35, 35, h_tr39), (37, 37, goto 27), (47, 47, goto 34), (61, 61, goto 26),
            (63, 63, h_tr42), (95, 95, goto 26), (126, 126, goto 26), (606, 606, goto 26), (635, 635, goto 26),
            (637, 637, goto 26), (- 128, - 1, goto 26), (97, 122, goto 26), (64, 90, goto 26), (36, 59, goto 26)]),
      (34, True, [(32, 32, h_tr37), (33, 33, goto 35), (35, 35, h_tr39), (37, 37, goto 36), (47, 47, goto 26), (58, 58, goto 38),
            (61, 61, goto 35), (63, 63, h_tr42), (64, 64, goto 42), (91, 91, goto 47), (95, 95, goto 35),
            (126, 126, goto 35), (606, 606, goto 35), (635, 635, goto 35), (637, 637, goto 35), (36, 59, goto 35),
            (97, 122, goto 35), (65, 90, goto 35)]),
      (35, True, [(32, 32, h_tr37), (33, 33, goto 35), (35, 35, h_tr39), (37, 37, goto 36), (47, 47, goto 26), (58, 58, goto 38),
            (61, 61, goto 35), (63, 63, h_tr42), (64, 64, goto 42), (95, 95, goto 35), (126, 126, goto 35),
            (606, 606, goto 35), (635, 635, goto 35), (637, 637, goto 35), (36, 59, goto 35), (97, 122, goto 35),
            (65, 90, goto 35)])]"

definition h_states_36 :: "http_state list" where
  "h_states_36 =
     [(36, False, [(48, 57, goto 37), (97, 102, goto 37), (65, 70, goto 37)]),
      (37, False, [(48, 57, goto 35), (97, 102, goto 35), (65, 70, goto 35)]),
      (38, True, [(32, 32, h_tr37), (33, 33, goto 39), (35, 35, h_tr39), (37, 37, goto 40), (47, 47, goto 26), (61, 61, goto 39),
            (63, 63, h_tr42), (64, 64, goto 42), (95, 95, goto 39), (126, 126, goto 39), (606, 606, goto 39),
            (635, 635, goto 39), (637, 637, goto 39), (48, 57, goto 38), (36, 46, goto 39), (97, 122, goto 39),
            (65, 90, goto 39), (58, 59, goto 39)]),
      (39, True, [(33, 33, goto 39), (37, 37, goto 40), (61, 61, goto 39), (64, 64, goto 42), (95, 95, goto 39),
            (126, 126, goto 39), (606, 606, goto 39), (635, 635, goto 39), (637, 637, goto 39), (36, 46, goto 39),
            (97, 122, goto 39), (65, 90, goto 39), (48, 59, goto 39)]),
      (40, False, [(48, 57, goto 41), (97, 102, goto 41), (65, 70, goto 41)])]"

definition h_states_41 :: "http_state list" where
  "h_states_41 =
     [(41, False, [(48, 57, goto 39), (97, 102, goto 39), (65, 70, goto 39)]),
      (42, True, [(32, 32, h_tr37), (33, 33, goto 43), (35, 35, h_tr39), (37, 37, goto 44), (47, 47, goto 26), (58, 58, goto 46),
            (61, 61, goto 43), (63, 63, h_tr42), (91, 91, goto 47), (95, 95, goto 43), (126, 126, goto 43),
            (606, 606, goto 43), (635, 635, goto 43), (637, 637, goto 43), (36, 59, goto 43), (97, 122, goto 43),
            (65, 90, goto 43)]),
      (43, True, [(32, 32, h_tr37), (33, 33, goto 43), (35, 35, h_tr39), (37, 37, goto 44), (47, 47, goto 26), (58, 58, goto 46),
            (61, 61, goto 43), (63, 63, h_tr42), (95, 95, goto 43), (126, 126, goto 43), (606, 606, goto 43),
            (635, 635, goto 43), (637, 637, goto 43), (36, 59, goto 43), (97, 122, goto 43), (65, 90, goto 43)]),
      (44, False, [(48, 57, goto 45), (97, 102, goto 45), (65, 70, goto 45)]),
      (45, False, [(48, 57, goto 43), (97, 102, goto 43), (65, 70, goto 43)]),
      (46, False, [(32, 32, h_tr37), (35, 35, h_tr39), (47, 47, goto 26), (63, 63, h_tr42), (48, 57, goto 46)])]"

definition h_states_47 :: "http_state list" where
  "h_states_47 =
     [(47, False, [(6, 6, goto 48), (58, 58, goto 167), (118, 118, goto 169), (48, 57, goto 91), (97, 102, goto 91),
            (65, 70, goto 91)]),
      (48, False, [(48, 57, goto 49), (97, 102, goto 49), (65, 70, goto 49)]),
      (49, False, [(58, 58, goto 53), (48, 57, goto 50), (97, 102, goto 50), (65, 70, goto 50)]),
      (50, False, [(58, 58, goto 53), (48, 57, goto 51), (97, 102, goto 51), (65, 70, goto 51)]),
      (51, False, [(58, 58, goto 53), (48, 57, goto 52), (97, 102, goto 52), (65, 70, goto 52)]),
      (52, False, [(58, 58, goto 53)]),
      (53, False, [(49, 49, goto 84), (50, 50, goto 87), (48, 57, goto 54), (97, 102, goto 90), (65, 70, goto 90)]),
      (54, False, [(46, 46, goto 55), (58, 58, goto 80), (48, 57, goto 77), (97, 102, goto 77), (65, 70, goto 77)]),
      (55, False, [(49, 49, goto 72), (50, 50, goto 74), (48, 57, goto 56)]),
      (56, False, [(46, 46, goto 57)]),
      (57, False, [(49, 49, goto 67), (50, 50, goto 69), (48, 57, goto 58)]),
      (58, False, [(46, 46, goto 59)])]"

definition h_states_59 :: "http_state list" where
  "h_states_59 =
     [(59, False, [(49, 49, goto 62), (50, 50, goto 64), (48, 57, goto 60)]),
      (60, False, [(93, 93, goto 61)]),
      (61, False, [(32, 32, h_tr37), (35, 35, h_tr39), (47, 47, goto 26), (58, 58, goto 46), (63, 63, h_tr42)]),
      (62, False, [(93, 93, goto 61), (48, 57, goto 63)]),
      (63, False, [(93, 93, goto 61), (48, 57, goto 60)]),
      (64, False, [(48, 48, goto 65), (53, 53, goto 66), (93, 93, goto 61)]),
      (65, False, [(48, 57, goto 60)]),
      (66, False, [(48, 48, goto 60)]),
      (67, False, [(46, 46, goto 59), (48, 57, goto 68)]),
      (68, False, [(46, 46, goto 59), (48, 57, goto 58)]),
      (69, False, [(46, 46, goto 59), (48, 48, goto 70), (53, 53, goto 71)]),
      (70, False, [(48, 57, goto 58)])]"

definition h_states_71 :: "http_state list" where
  "h_states_71 =
     [(71, False, [(48, 48, goto 58)]),
      (72, False, [(46, 46, goto 57), (48, 57, goto 73)]),
      (73, False, [(46, 46, goto 57), (48, 57, goto 56)]),
      (74, False, [(46, 46, goto 57), (48, 48, goto 75), (53, 53, goto 76)]),
      (75, False, [(48, 57, goto 56)]),
      (76, False, [(48, 48, goto 56)]),
      (77, False, [(58, 58, goto 80), (48, 57, goto 78), (97, 102, goto 78), (65, 70, goto 78)]),
      (78, False, [(58, 58, goto 80), (48, 57, goto 79), (97, 102, goto 79), (65, 70, goto 79)]),
      (79, False, [(58, 58, goto 80)]),
      (80, False, [(48, 57, goto 81), (97, 102, goto 81), (65, 70, goto 81)]),
      (81, False, [(93, 93, goto 61), (48, 57, goto 82), (97, 102, goto 82), (65, 70, goto 82)]),
      (82, False, [(93, 93, goto 61), (48, 57, goto 83), (97, 102, goto 83), (65, 70, goto 83)])]"

definition h_states_83 :: "http_state list" where
  "h_states_83 =
     [(83, False, [(93, 93, goto 61), (48, 57, goto 60), (97, 102, goto 60), (65, 70, goto 60)]),
      (84, False, [(46, 46, goto 55), (58, 58, goto 80), (48, 57, goto 85), (97, 102, goto 77), (65, 70, goto 77)]),
      (85, False, [(46, 46, goto 55), (58, 58, goto 80), (48, 57, goto 86), (97, 102, goto 78), (65, 70, goto 78)]),
      (86, False, [(46, 46, goto 55), (58, 58, goto 80), (48, 57, goto 79), (97, 102, goto 79), (65, 70, goto 79)]),
      (87, False, [(46, 46, goto 55), (48, 48, goto 88), (53, 53, goto 89), (58, 58, goto 80), (49, 57, goto 77),
            (97, 102, goto 77), (65, 70, goto 77)]),
      (88, False, [(58, 58, goto 80), (48, 57, goto 86), (97, 102, goto 78), (65, 70, goto 78)]),
      (89, False, [(48, 48, goto 86), (58, 58, goto 80), (49, 57, goto 78), (97, 102, goto 78), (65, 70, goto 78)]),
      (90, False, [(58, 58, goto 80), (48, 57, goto 77), (97, 102, goto 77), (65, 70, goto 77)]),
      (91, False, [(58, 58, goto 95), (48, 57, goto 92), (97, 102, goto 92), (65, 70, goto 92)])]"

definition h_states_92 :: "http_state list" where
  "h_states_92 =
     [(92, False, [(58, 58, goto 95), (48, 57, goto 93), (97, 102, goto 93), (65, 70, goto 93)]),
      (93, False, [(58, 58, goto 95), (48, 57, goto 94), (97, 102, goto 94), (65, 70, goto 94)]),
      (94, False, [(58, 58, goto 95)]),
      (95, False, [(58, 58, goto 166), (48, 57, goto 96), (97, 102, goto 96), (65, 70, goto 96)]),
      (96, False, [(58, 58, goto 100), (48, 57, goto 97), (97, 102, goto 97), (65, 70, goto 97)]),
      (97, False, [(58, 58, goto 100), (48, 57, goto 98), (97, 102, goto 98), (65, 70, goto 98)]),
      (98, False, [(58, 58, goto 100), (48, 57, goto 99), (97, 102, goto 99), (65, 70, goto 99)]),
      (99, False, [(58, 58, goto 100)]),
      (100, False, [(58, 58, goto 165), (48, 57, goto 101), (97, 102, goto 101), (65, 70, goto 101)]),
      (101, False, [(58, 58, goto 105), (48, 57, goto 102), (97, 102, goto 102), (65, 70, goto 102)]),
      (102, False, [(58, 58, goto 105), (48, 57, goto 103), (97, 102, goto 103), (65, 70, goto 103)])]"

definition h_states_103 :: "http_state list" where
  "h_states_103 =
     [(103, False, [(58, 58, goto 105), (48, 57, goto 104), (97, 102, goto 104), (65, 70, goto 104)]),
      (104, False, [(58, 58, goto 105)]),
      (105, False, [(58, 58, goto 164), (48, 57, goto 106), (97, 102, goto 106), (65, 70, goto 106)]),
      (106, False, [(58, 58, goto 110), (48, 57, goto 107), (97, 102, goto 107), (65, 70, goto 107)]),
      (107, False, [(58, 58, goto 110), (48, 57, goto 108), (97, 102, goto 108), (65, 70, goto 108)]),
      (108, False, [(58, 58, goto 110), (48, 57, goto 109), (97, 102, goto 109), (65, 70, goto 109)]),
      (109, False, [(58, 58, goto 110)]),
      (110, False, [(58, 58, goto 163), (48, 57, goto 111), (97, 102, goto 111), (65, 70, goto 111)]),
      (111, False, [(58, 58, goto 115), (48, 57, goto 112), (97, 102, goto 112), (65, 70, goto 112)]),
      (112, False, [(58, 58, goto 115), (48, 57, goto 113), (97, 102, goto 113), (65, 70, goto 113)]),
      (113, False, [(58, 58, goto 115), (48, 57, goto 114), (97, 102, goto 114), (65, 70, goto 114)])]"

definition h_states_114 :: "http_state list" where
  "h_states_114 =
     [(114, False, [(58, 58, goto 115)]),
      (115, False, [(58, 58, goto 151), (48, 57, goto 116), (97, 102, goto 116), (65, 70, goto 116)]),
      (116, False, [(58, 58, goto 120), (48, 57, goto 117), (97, 102, goto 117), (65, 70, goto 117)]),
      (117, False, [(58, 58, goto 120), (48, 57, goto 118), (97, 102, goto 118), (65, 70, goto 118)]),
      (118, False, [(58, 58, goto 120), (48, 57, goto 119), (97, 102, goto 119), (65, 70, goto 119)]),
      (119, False, [(58, 58, goto 120)]),
      (120, False, [(58, 58, goto 150), (48, 57, goto 121), (97, 102, goto 121), (65, 70, goto 121)]),
      (121, False, [(58, 58, goto 125), (48, 57, goto 122), (97, 102, goto 122), (65, 70, goto 122)]),
      (122, False, [(58, 58, goto 125), (48, 57, goto 123), (97, 102, goto 123), (65, 70, goto 123)]),
      (123, False, [(58, 58, goto 125), (48, 57, goto 124), (97, 102, goto 124), (65, 70, goto 124)]),
      (124, False, [(58, 58, goto 125)])]"

definition h_states_125 :: "http_state list" where
  "h_states_125 =
     [(125, False, [(58, 58, goto 126), (48, 57, goto 121), (97, 102, goto 121), (65, 70, goto 121)]),
      (126, False, [(49, 49, goto 143), (50, 50, goto 146), (93, 93, goto 61), (2, 3, goto 48), (97, 102, goto 149),
            (65, 70, goto 149), (48, 57, goto 127)]),
      (127, False, [(46, 46, goto 55), (58, 58, goto 131), (93, 93, goto 61), (48, 57, goto 128), (97, 102, goto 128),
            (65, 70, goto 128)]),
      (128, False, [(58, 58, goto 131), (93, 93, goto 61), (48, 57, goto 129), (97, 102, goto 129), (65, 70, goto 129)]),
      (129, False, [(58, 58, goto 131), (93, 93, goto 61), (48, 57, goto 130), (97, 102, goto 130), (65, 70, goto 130)]),
      (130, False, [(58, 58, goto 131), (93, 93, goto 61)]),
      (131, False, [(49, 49, goto 136), (50, 50, goto 139), (48, 57, goto 132), (97, 102, goto 142), (65, 70, goto 142)]),
      (132, False, [(46, 46, goto 55), (58, 58, goto 80), (93, 93, goto 61), (48, 57, goto 133), (97, 102, goto 133),
            (65, 70, goto 133)]),
      (133, False, [(58, 58, goto 80), (93, 93, goto 61), (48, 57, goto 134), (97, 102, goto 134), (65, 70, goto 134)])]"

definition h_states_134 :: "http_state list" where
  "h_states_134 =
     [(134, False, [(58, 58, goto 80), (93, 93, goto 61), (48, 57, goto 135), (97, 102, goto 135), (65, 70, goto 135)]),
      (135, False, [(58, 58, goto 80), (93, 93, goto 61)]),
      (136, False, [(46, 46, goto 55), (58, 58, goto 80), (93, 93, goto 61), (48, 57, goto 137), (97, 102, goto 133),
            (65, 70, goto 133)]),
      (137, False, [(46, 46, goto 55), (58, 58, goto 80), (93, 93, goto 61), (48, 57, goto 138), (97, 102, goto 134),
            (65, 70, goto 134)]),
      (138, False, [(46, 46, goto 55), (58, 58, goto 80), (93, 93, goto 61), (48, 57, goto 135), (97, 102, goto 135),
            (65, 70, goto 135)]),
      (139, False, [(46, 46, goto 55), (48, 48, goto 140), (53, 53, goto 141), (58, 58, goto 80), (93, 93, goto 61),
            (49, 57, goto 133), (97, 102, goto 133), (65, 70, goto 133)]),
      (140, False, [(58, 58, goto 80), (93, 93, goto 61), (48, 57, goto 138), (97, 102, goto 134), (65, 70, goto 134)]),
      (141, False, [(48, 48, goto 138), (58, 58, goto 80), (93, 93, goto 61), (49, 57, goto 134), (97, 102, goto 134),
            (65, 70, goto 134)]),
      (142, False, [(58, 58, goto 80), (93, 93, goto 61), (48, 57, goto 133), (97, 102, goto 133), (65, 70, goto 133)])]"

definition h_states_143 :: "http_state list" where
  "h_states_143 =
     [(143, False, [(46, 46, goto 55), (58, 58, goto 131), (93, 93, goto 61), (48, 57, goto 144), (97, 102, goto 128),
            (65, 70, goto 128)]),
      (144, False, [(46, 46, goto 55), (58, 58, goto 131), (93, 93, goto 61), (48, 57, goto 145), (97, 102, goto 129),
            (65, 70, goto 129)]),
      (145, False, [(46, 46, goto 55), (58, 58, goto 131), (93, 93, goto 61), (48, 57, goto 130), (97, 102, goto 130),
            (65, 70, goto 130)]),
      (146, False, [(46, 46, goto 55), (48, 48, goto 147), (53, 53, goto 148), (58, 58, goto 131), (93, 93, goto 61),
            (49, 57, goto 128), (97, 102, goto 128), (65, 70, goto 128)]),
      (147, False, [(58, 58, goto 131), (93, 93, goto 61), (48, 57, goto 145), (97, 102, goto 129), (65, 70, goto 129)]),
      (148, False, [(48, 48, goto 145), (58, 58, goto 131), (93, 93, goto 61), (49, 57, goto 129), (97, 102, goto 129),
            (65, 70, goto 129)]),
      (149, False, [(58, 58, goto 131), (93, 93, goto 61), (48, 57, goto 128), (97, 102, goto 128), (65, 70, goto 128)]),
      (150, False, [(49, 49, goto 143), (50, 50, goto 146), (2, 3, goto 48), (97, 102, goto 149), (65, 70, goto 149),
            (48, 57, goto 127)])]"

definition h_states_151 :: "http_state list" where
  "h_states_151 =
     [(151, False, [(49, 49, goto 156), (50, 50, goto 159), (2, 3, goto 48), (97, 102, goto 162), (65, 70, goto 162),
            (48, 57, goto 152)]),
      (152, False, [(46, 46, goto 55), (58, 58, goto 131), (48, 57, goto 153), (97, 102, goto 153), (65, 70, goto 153)]),
      (153, False, [(58, 58, goto 131), (48, 57, goto 154), (97, 102, goto 154), (65, 70, goto 154)]),
      (154, False, [(58, 58, goto 131), (48, 57, goto 155), (97, 102, goto 155), (65, 70, goto 155)]),
      (155, False, [(58, 58, goto 131)]),
      (156, False, [(46, 46, goto 55), (58, 58, goto 131), (48, 57, goto 157), (97, 102, goto 153), (65, 70, goto 153)]),
      (157, False, [(46, 46, goto 55), (58, 58, goto 131), (48, 57, goto 158), (97, 102, goto 154), (65, 70, goto 154)]),
      (158, False, [(46, 46, goto 55), (58, 58, goto 131), (48, 57, goto 155), (97, 102, goto 155), (65, 70, goto 155)]),
      (159, False, [(46, 46, goto 55), (48, 48, goto 160), (53, 53, goto 161), (58, 58, goto 131), (49, 57, goto 153),
            (97, 102, goto 153), (65, 70, goto 153)])]"

definition h_states_160 :: "http_state list" where
  "h_states_160 =
     [(160, False, [(58, 58, goto 131), (48, 57, goto 158), (97, 102, goto 154), (65, 70, goto 154)]),
      (161, False, [(48, 48, goto 158), (58, 58, goto 131), (49, 57, goto 154), (97, 102, goto 154), (65, 70, goto 154)]),
      (162, False, [(58, 58, goto 131), (48, 57, goto 153), (97, 102, goto 153), (65, 70, goto 153)]),
      (163, False, [(2, 3, goto 48), (97, 102, goto 49), (65, 70, goto 49), (48, 57, goto 49)]),
      (164, False, [(2, 3, goto 48)]),
      (165, False, [(3, 3, goto 48)]),
      (166, False, [(4, 4, goto 48)]),
      (167, False, [(58, 58, goto 168)]),
      (168, False, [(49, 49, goto 143), (50, 50, goto 146), (93, 93, goto 61), (2, 5, goto 48), (97, 102, goto 149),
            (65, 70, goto 149), (48, 57, goto 127)]),
      (169, False, [(48, 57, goto 170), (97, 102, goto 170), (65, 70, goto 170)]),
      (170, False, [(46, 46, goto 171), (48, 57, goto 170), (97, 102, goto 170), (65, 70, goto 170)])]"

definition h_states_171 :: "http_state list" where
  "h_states_171 =
     [(171, True, [(33, 33, goto 172), (36, 36, goto 172), (61, 61, goto 172), (95, 95, goto 172), (126, 126, goto 172),
            (606, 606, goto 172), (635, 635, goto 172), (637, 637, goto 172), (38, 46, goto 172), (97, 122, goto 172),
            (65, 90, goto 172), (48, 59, goto 172)]),
      (172, True, [(33, 33, goto 172), (36, 36, goto 172), (61, 61, goto 172), (93, 93, goto 61), (95, 95, goto 172),
            (126, 126, goto 172), (606, 606, goto 172), (635, 635, goto 172), (637, 637, goto 172), (38, 46, goto 172),
            (97, 122, goto 172), (65, 90, goto 172), (48, 59, goto 172)])]"

definition h_states_173 :: "http_state list" where
  "h_states_173 =
     [(173, True, [(32, 32, h_tr37), (33, 33, goto 19), (35, 35, h_tr39), (37, 37, goto 24), (43, 43, goto 173),
            (47, 47, goto 26), (58, 58, goto 174), (59, 59, goto 19), (61, 61, goto 19), (63, 63, h_tr42),
            (64, 64, goto 19), (95, 95, goto 19), (126, 126, goto 19), (606, 606, goto 19), (635, 635, goto 19),
            (637, 637, goto 19), (36, 44, goto 19), (97, 122, goto 173), (65, 90, goto 173), (45, 57, goto 173)]),
      (174, True, [(32, 32, h_tr6), (33, 33, h_tr203), (35, 35, h_tr8), (37, 37, h_tr204), (47, 47, h_tr10), (61, 61, h_tr203),
            (63, 63, h_tr11), (95, 95, h_tr203), (126, 126, h_tr203), (606, 606, h_tr203), (635, 635, h_tr203),
            (637, 637, h_tr203), (- 128, - 1, h_tr203), (97, 122, h_tr203), (64, 90, h_tr203), (36, 59, h_tr203)]),
      (175, False, [(32, 32, h_tr4), (65, 90, goto 176), (48, 57, goto 176)]),
      (176, False, [(32, 32, h_tr4), (65, 90, goto 177), (48, 57, goto 177)]),
      (177, False, [(32, 32, h_tr4), (65, 90, goto 178), (48, 57, goto 178)])]"

definition h_states_178 :: "http_state list" where
  "h_states_178 =
     [(178, False, [(32, 32, h_tr4), (65, 90, goto 179), (48, 57, goto 179)]),
      (179, False, [(32, 32, h_tr4), (65, 90, goto 180), (48, 57, goto 180)]),
      (180, False, [(32, 32, h_tr4), (65, 90, goto 181), (48, 57, goto 181)]),
      (181, False, [(32, 32, h_tr4), (65, 90, goto 182), (48, 57, goto 182)]),
      (182, False, [(32, 32, h_tr4), (65, 90, goto 183), (48, 57, goto 183)]),
      (183, False, [(32, 32, h_tr4), (65, 90, goto 184), (48, 57, goto 184)]),
      (184, False, [(32, 32, h_tr4), (65, 90, goto 185), (48, 57, goto 185)]),
      (185, False, [(32, 32, h_tr4), (65, 90, goto 186), (48, 57, goto 186)]),
      (186, False, [(32, 32, h_tr4), (65, 90, goto 187), (48, 57, goto 187)]),
      (187, False, [(32, 32, h_tr4), (65, 90, goto 188), (48, 57, goto 188)]),
      (188, False, [(32, 32, h_tr4), (65, 90, goto 189), (48, 57, goto 189)]),
      (189, False, [(32, 32, h_tr4), (65, 90, goto 190), (48, 57, goto 190)])]"

definition h_states_190 :: "http_state list" where
  "h_states_190 =
     [(190, False, [(32, 32, h_tr4), (65, 90, goto 191), (48, 57, goto 191)]),
      (191, False, [(32, 32, h_tr4), (65, 90, goto 192), (48, 57, goto 192)]),
      (192, False, [(32, 32, h_tr4), (65, 90, goto 193), (48, 57, goto 193)]),
      (193, False, [(32, 32, h_tr4)]),
      (194, False, [(45, 46, goto 195), (97, 122, goto 195), (65, 90, goto 195), (48, 57, goto 195)]),
      (195, False, [(32, 32, h_tr224), (47, 47, h_tr224), (62, 62, h_tr224), (9, 13, h_tr224), (97, 122, goto 195),
            (65, 90, goto 195), (45, 57, goto 195)]),
      (196, False, [(62, 62, goto 197), (- 128, 61, goto 196), (63, 127, goto 196)]),
      (197, False, [(0, 0, h_tr227), (62, 62, goto 197), (- 128, 127, goto 196)])]"

definition h_states_349 :: "http_state list" where
  "h_states_349 =
     [(349, False, [])]"

definition h_states_198 :: "http_state list" where
  "h_states_198 =
     [(198, True, [(32, 32, h_tr228), (33, 33, goto 202), (37, 37, goto 203), (47, 47, goto 208), (59, 59, goto 202),
            (61, 61, goto 202), (95, 95, goto 202), (126, 126, goto 202), (606, 606, goto 202), (635, 635, goto 202),
            (637, 637, goto 202), (36, 57, goto 202), (97, 122, goto 202), (64, 90, goto 202)]),
      (199, False, [(123, 123, h_tr232)]),
      (200, False, [(125, 125, goto 201), (- 128, 124, goto 200), (126, 127, goto 200)]),
      (201, False, [(0, 0, h_tr235), (125, 125, goto 201), (- 128, 127, goto 200)]),
      (202, True, [(32, 32, h_tr228), (33, 33, goto 202), (37, 37, goto 203), (47, 47, goto 205), (59, 59, goto 202),
            (61, 61, goto 202), (95, 95, goto 202), (126, 126, goto 202), (606, 606, goto 202), (635, 635, goto 202),
            (637, 637, goto 202), (36, 57, goto 202), (97, 122, goto 202), (64, 90, goto 202)]),
      (203, False, [(48, 57, goto 204), (97, 102, goto 204), (65, 70, goto 204)])]"

definition h_states_204 :: "http_state list" where
  "h_states_204 =
     [(204, False, [(48, 57, goto 202), (97, 102, goto 202), (65, 70, goto 202)]),
      (205, True, [(32, 32, h_tr228), (33, 33, goto 205), (37, 37, goto 206), (61, 61, goto 205), (95, 95, goto 205),
            (126, 126, goto 205), (606, 606, goto 205), (635, 635, goto 205), (637, 637, goto 205), (- 128, - 1, goto 205),
            (97, 122, goto 205), (64, 90, goto 205), (36, 59, goto 205)]),
      (206, False, [(48, 57, goto 207), (97, 102, goto 207), (65, 70, goto 207)]),
      (207, False, [(48, 57, goto 205), (97, 102, goto 205), (65, 70, goto 205)]),
      (208, True, [(32, 32, h_tr228), (33, 33, goto 205), (37, 37, goto 206), (47, 47, goto 209), (61, 61, goto 205),
            (95, 95, goto 205), (126, 126, goto 205), (606, 606, goto 205), (635, 635, goto 205), (637, 637, goto 205),
            (- 128, - 1, goto 205), (97, 122, goto 205), (64, 90, goto 205), (36, 59, goto 205)])]"

definition h_states_209 :: "http_state list" where
  "h_states_209 =
     [(209, True, [(32, 32, h_tr228), (33, 33, goto 210), (37, 37, goto 211), (47, 47, goto 205), (58, 58, goto 213),
            (61, 61, goto 210), (64, 64, goto 217), (91, 91, goto 222), (95, 95, goto 210), (126, 126, goto 210),
            (606, 606, goto 210), (635, 635, goto 210), (637, 637, goto 210), (36, 59, goto 210), (97, 122, goto 210),
            (65, 90, goto 210)]),
      (210, True, [(32, 32, h_tr228), (33, 33, goto 210), (37, 37, goto 211), (47, 47, goto 205), (58, 58, goto 213),
            (61, 61, goto 210), (64, 64, goto 217), (95, 95, goto 210), (126, 126, goto 210), (606, 606, goto 210),
            (635, 635, goto 210), (637, 637, goto 210), (36, 59, goto 210), (97, 122, goto 210), (65, 90, goto 210)]),
      (211, False, [(48, 57, goto 212), (97, 102, goto 212), (65, 70, goto 212)]),
      (212, False, [(48, 57, goto 210), (97, 102, goto 210), (65, 70, goto 210)])]"

definition h_states_213 :: "http_state list" where
  "h_states_213 =
     [(213, True, [(32, 32, h_tr228), (33, 33, goto 214), (37, 37, goto 215), (47, 47, goto 205), (61, 61, goto 214),
            (64, 64, goto 217), (95, 95, goto 214), (126, 126, goto 214), (606, 606, goto 214), (635, 635, goto 214),
            (637, 637, goto 214), (48, 57, goto 213), (36, 46, goto 214), (97, 122, goto 214), (65, 90, goto 214),
            (58, 59, goto 214)]),
      (214, True, [(33, 33, goto 214), (37, 37, goto 215), (61, 61, goto 214), (64, 64, goto 217), (95, 95, goto 214),
            (126, 126, goto 214), (606, 606, goto 214), (635, 635, goto 214), (637, 637, goto 214), (36, 46, goto 214),
            (97, 122, goto 214), (65, 90, goto 214), (48, 59, goto 214)]),
      (215, False, [(48, 57, goto 216), (97, 102, goto 216), (65, 70, goto 216)]),
      (216, False, [(48, 57, goto 214), (97, 102, goto 214), (65, 70, goto 214)])]"

definition h_states_217 :: "http_state list" where
  "h_states_217 =
     [(217, True, [(32, 32, h_tr228), (33, 33, goto 218), (37, 37, goto 219), (47, 47, goto 205), (58, 58, goto 221),
            (61, 61, goto 218), (91, 91, goto 222), (95, 95, goto 218), (126, 126, goto 218), (606, 606, goto 218),
            (635, 635, goto 218), (637, 637, goto 218), (36, 59, goto 218), (97, 122, goto 218), (65, 90, goto 218)]),
      (218, True, [(32, 32, h_tr228), (33, 33, goto 218), (37, 37, goto 219), (47, 47, goto 205), (58, 58, goto 221),
            (61, 61, goto 218), (95, 95, goto 218), (126, 126, goto 218), (606, 606, goto 218), (635, 635, goto 218),
            (637, 637, goto 218), (36, 59, goto 218), (97, 122, goto 218), (65, 90, goto 218)]),
      (219, False, [(48, 57, goto 220), (97, 102, goto 220), (65, 70, goto 220)]),
      (220, False, [(48, 57, goto 218), (97, 102, goto 218), (65, 70, goto 218)]),
      (221, False, [(32, 32, h_tr228), (47, 47, goto 205), (48, 57, goto 221)]),
      (222, False, [(6, 6, goto 223), (58, 58, goto 342), (118, 118, goto 344), (48, 57, goto 266), (97, 102, goto 266),
            (65, 70, goto 266)])]"

definition h_states_223 :: "http_state list" where
  "h_states_223 =
     [(223, False, [(48, 57, goto 224), (97, 102, goto 224), (65, 70, goto 224)]),
      (224, False, [(58, 58, goto 228), (48, 57, goto 225), (97, 102, goto 225), (65, 70, goto 225)]),
      (225, False, [(58, 58, goto 228), (48, 57, goto 226), (97, 102, goto 226), (65, 70, goto 226)]),
      (226, False, [(58, 58, goto 228), (48, 57, goto 227), (97, 102, goto 227), (65, 70, goto 227)]),
      (227, False, [(58, 58, goto 228)]),
      (228, False, [(49, 49, goto 259), (50, 50, goto 262), (48, 57, goto 229), (97, 102, goto 265), (65, 70, goto 265)]),
      (229, False, [(46, 46, goto 230), (58, 58, goto 255), (48, 57, goto 252), (97, 102, goto 252), (65, 70, goto 252)]),
      (230, False, [(49, 49, goto 247), (50, 50, goto 249), (48, 57, goto 231)]),
      (231, False, [(46, 46, goto 232)]),
      (232, False, [(49, 49, goto 242), (50, 50, goto 244), (48, 57, goto 233)]),
      (233, False, [(46, 46, goto 234)]),
      (234, False, [(49, 49, goto 237), (50, 50, goto 239), (48, 57, goto 235)])]"

definition h_states_235 :: "http_state list" where
  "h_states_235 =
     [(235, False, [(93, 93, goto 236)]),
      (236, False, [(32, 32, h_tr228), (47, 47, goto 205), (58, 58, goto 221)]),
      (237, False, [(93, 93, goto 236), (48, 57, goto 238)]),
      (238, False, [(93, 93, goto 236), (48, 57, goto 235)]),
      (239, False, [(48, 48, goto 240), (53, 53, goto 241), (93, 93, goto 236)]),
      (240, False, [(48, 57, goto 235)]),
      (241, False, [(48, 48, goto 235)]),
      (242, False, [(46, 46, goto 234), (48, 57, goto 243)]),
      (243, False, [(46, 46, goto 234), (48, 57, goto 233)]),
      (244, False, [(46, 46, goto 234), (48, 48, goto 245), (53, 53, goto 246)]),
      (245, False, [(48, 57, goto 233)]),
      (246, False, [(48, 48, goto 233)])]"

definition h_states_247 :: "http_state list" where
  "h_states_247 =
     [(247, False, [(46, 46, goto 232), (48, 57, goto 248)]),
      (248, False, [(46, 46, goto 232), (48, 57, goto 231)]),
      (249, False, [(46, 46, goto 232), (48, 48, goto 250), (53, 53, goto 251)]),
      (250, False, [(48, 57, goto 231)]),
      (251, False, [(48, 48, goto 231)]),
      (252, False, [(58, 58, goto 255), (48, 57, goto 253), (97, 102, goto 253), (65, 70, goto 253)]),
      (253, False, [(58, 58, goto 255), (48, 57, goto 254), (97, 102, goto 254), (65, 70, goto 254)]),
      (254, False, [(58, 58, goto 255)]),
      (255, False, [(48, 57, goto 256), (97, 102, goto 256), (65, 70, goto 256)]),
      (256, False, [(93, 93, goto 236), (48, 57, goto 257), (97, 102, goto 257), (65, 70, goto 257)]),
      (257, False, [(93, 93, goto 236), (48, 57, goto 258), (97, 102, goto 258), (65, 70, goto 258)]),
      (258, False, [(93, 93, goto 236), (48, 57, goto 235), (97, 102, goto 235), (65, 70, goto 235)])]"

definition h_states_259 :: "http_state list" where
  "h_states_259 =
     [(259, False, [(46, 46, goto 230), (58, 58, goto 255), (48, 57, goto 260), (97, 102, goto 252), (65, 70, goto 252)]),
      (260, False, [(46, 46, goto 230), (58, 58, goto 255), (48, 57, goto 261), (97, 102, goto 253), (65, 70, goto 253)]),
      (261, False, [(46, 46, goto 230), (58, 58, goto 255), (48, 57, goto 254), (97, 102, goto 254), (65, 70, goto 254)]),
      (262, False, [(46, 46, goto 230), (48, 48, goto 263), (53, 53, goto 264), (58, 58, goto 255), (49, 57, goto 252),
            (97, 102, goto 252), (65, 70, goto 252)]),
      (263, False, [(58, 58, goto 255), (48, 57, goto 261), (97, 102, goto 253), (65, 70, goto 253)]),
      (264, False, [(48, 48, goto 261), (58, 58, goto 255), (49, 57, goto 253), (97, 102, goto 253), (65, 70, goto 253)]),
      (265, False, [(58, 58, goto 255), (48, 57, goto 252), (97, 102, goto 252), (65, 70, goto 252)]),
      (266, False, [(58, 58, goto 270), (48, 57, goto 267), (97, 102, goto 267), (65, 70, goto 267)]),
      (267, False, [(58, 58, goto 270), (48, 57, goto 268), (97, 102, goto 268), (65, 70, goto 268)])]"

definition h_states_268 :: "http_state list" where
  "h_states_268 =
     [(268, False, [(58, 58, goto 270), (48, 57, goto 269), (97, 102, goto 269), (65, 70, goto 269)]),
      (269, False, [(58, 58, goto 270)]),
      (270, False, [(58, 58, goto 341), (48, 57, goto 271), (97, 102, goto 271), (65, 70, goto 271)]),
      (271, False, [(58, 58, goto 275), (48, 57, goto 272), (97, 102, goto 272), (65, 70, goto 272)]),
      (272, False, [(58, 58, goto 275), (48, 57, goto 273), (97, 102, goto 273), (65, 70, goto 273)]),
      (273, False, [(58, 58, goto 275), (48, 57, goto 274), (97, 102, goto 274), (65, 70, goto 274)]),
      (274, False, [(58, 58, goto 275)]),
      (275, False, [(58, 58, goto 340), (48, 57, goto 276), (97, 102, goto 276), (65, 70, goto 276)]),
      (276, False, [(58, 58, goto 280), (48, 57, goto 277), (97, 102, goto 277), (65, 70, goto 277)]),
      (277, False, [(58, 58, goto 280), (48, 57, goto 278), (97, 102, goto 278), (65, 70, goto 278)]),
      (278, False, [(58, 58, goto 280), (48, 57, goto 279), (97, 102, goto 279), (65, 70, goto 279)])]"

definition h_states_279 :: "http_state list" where
  "h_states_279 =
     [(279, False, [(58, 58, goto 280)]),
      (280, False, [(58, 58, goto 339), (48, 57, goto 281), (97, 102, goto 281), (65, 70, goto 281)]),
      (281, False, [(58, 58, goto 285), (48, 57, goto 282), (97, 102, goto 282), (65, 70, goto 282)]),
      (282, False, [(58, 58, goto 285), (48, 57, goto 283), (97, 102, goto 283), (65, 70, goto 283)]),
      (283, False, [(58, 58, goto 285), (48, 57, goto 284), (97, 102, goto 284), (65, 70, goto 284)]),
      (284, False, [(58, 58, goto 285)]),
      (285, False, [(58, 58, goto 338), (48, 57, goto 286), (97, 102, goto 286), (65, 70, goto 286)]),
      (286, False, [(58, 58, goto 290), (48, 57, goto 287), (97, 102, goto 287), (65, 70, goto 287)]),
      (287, False, [(58, 58, goto 290), (48, 57, goto 288), (97, 102, goto 288), (65, 70, goto 288)]),
      (288, False, [(58, 58, goto 290), (48, 57, goto 289), (97, 102, goto 289), (65, 70, goto 289)]),
      (289, False, [(58, 58, goto 290)])]"

definition h_states_290 :: "http_state list" where
  "h_states_290 =
     [(290, False, [(58, 58, goto 326), (48, 57, goto 291), (97, 102, goto 291), (65, 70, goto 291)]),
      (291, False, [(58, 58, goto 295), (48, 57, goto 292), (97, 102, goto 292), (65, 70, goto 292)]),
      (292, False, [(58, 58, goto 295), (48, 57, goto 293), (97, 102, goto 293), (65, 70, goto 293)]),
      (293, False, [(58, 58, goto 295), (48, 57, goto 294), (97, 102, goto 294), (65, 70, goto 294)]),
      (294, False, [(58, 58, goto 295)]),
      (295, False, [(58, 58, goto 325), (48, 57, goto 296), (97, 102, goto 296), (65, 70, goto 296)]),
      (296, False, [(58, 58, goto 300), (48, 57, goto 297), (97, 102, goto 297), (65, 70, goto 297)]),
      (297, False, [(58, 58, goto 300), (48, 57, goto 298), (97, 102, goto 298), (65, 70, goto 298)]),
      (298, False, [(58, 58, goto 300), (48, 57, goto 299), (97, 102, goto 299), (65, 70, goto 299)]),
      (299, False, [(58, 58, goto 300)]),
      (300, False, [(58, 58, goto 301), (48, 57, goto 296), (97, 102, goto 296), (65, 70, goto 296)])]"

definition h_states_301 :: "http_state list" where
  "h_states_301 =
     [(301, False, [(49, 49, goto 318), (50, 50, goto 321), (93, 93, goto 236), (2, 3, goto 223), (97, 102, goto 324),
            (65, 70, goto 324), (48, 57, goto 302)]),
      (302, False, [(46, 46, goto 230), (58, 58, goto 306), (93, 93, goto 236), (48, 57, goto 303), (97, 102, goto 303),
            (65, 70, goto 303)]),
      (303, False, [(58, 58, goto 306), (93, 93, goto 236), (48, 57, goto 304), (97, 102, goto 304), (65, 70, goto 304)]),
      (304, False, [(58, 58, goto 306), (93, 93, goto 236), (48, 57, goto 305), (97, 102, goto 305), (65, 70, goto 305)]),
      (305, False, [(58, 58, goto 306), (93, 93, goto 236)]),
      (306, False, [(49, 49, goto 311), (50, 50, goto 314), (48, 57, goto 307), (97, 102, goto 317), (65, 70, goto 317)]),
      (307, False, [(46, 46, goto 230), (58, 58, goto 255), (93, 93, goto 236), (48, 57, goto 308), (97, 102, goto 308),
            (65, 70, goto 308)]),
      (308, False, [(58, 58, goto 255), (93, 93, goto 236), (48, 57, goto 309), (97, 102, goto 309), (65, 70, goto 309)]),
      (309, False, [(58, 58, goto 255), (93, 93, goto 236), (48, 57, goto 310), (97, 102, goto 310), (65, 70, goto 310)])]"

definition h_states_310 :: "http_state list" where
  "h_states_310 =
     [(310, False, [(58, 58, goto 255), (93, 93, goto 236)]),
      (311, False, [(46, 46, goto 230), (58, 58, goto 255), (93, 93, goto 236), (48, 57, goto 312), (97, 102, goto 308),
            (65, 70, goto 308)]),
      (312, False, [(46, 46, goto 230), (58, 58, goto 255), (93, 93, goto 236), (48, 57, goto 313), (97, 102, goto 309),
            (65, 70, goto 309)]),
      (313, False, [(46, 46, goto 230), (58, 58, goto 255), (93, 93, goto 236), (48, 57, goto 310), (97, 102, goto 310),
            (65, 70, goto 310)]),
      (314, False, [(46, 46, goto 230), (48, 48, goto 315), (53, 53, goto 316), (58, 58, goto 255), (93, 93, goto 236),
            (49, 57, goto 308), (97, 102, goto 308), (65, 70, goto 308)]),
      (315, False, [(58, 58, goto 255), (93, 93, goto 236), (48, 57, goto 313), (97, 102, goto 309), (65, 70, goto 309)]),
      (316, False, [(48, 48, goto 313), (58, 58, goto 255), (93, 93, goto 236), (49, 57, goto 309), (97, 102, goto 309),
            (65, 70, goto 309)]),
      (317, False, [(58, 58, goto 255), (93, 93, goto 236), (48, 57, goto 308), (97, 102, goto 308), (65, 70, goto 308)]),
      (318, False, [(46, 46, goto 230), (58, 58, goto 306), (93, 93, goto 236), (48, 57, goto 319), (97, 102, goto 303),
            (65, 70, goto 303)])]"

definition h_states_319 :: "http_state list" where
  "h_states_319 =
     [(319, False, [(46, 46, goto 230), (58, 58, goto 306), (93, 93, goto 236), (48, 57, goto 320), (97, 102, goto 304),
            (65, 70, goto 304)]),
      (320, False, [(46, 46, goto 230), (58, 58, goto 306), (93, 93, goto 236), (48, 57, goto 305), (97, 102, goto 305),
            (65, 70, goto 305)]),
      (321, False, [(46, 46, goto 230), (48, 48, goto 322), (53, 53, goto 323), (58, 58, goto 306), (93, 93, goto 236),
            (49, 57, goto 303), (97, 102, goto 303), (65, 70, goto 303)]),
      (322, False, [(58, 58, goto 306), (93, 93, goto 236), (48, 57, goto 320), (97, 102, goto 304), (65, 70, goto 304)]),
      (323, False, [(48, 48, goto 320), (58, 58, goto 306), (93, 93, goto 236), (49, 57, goto 304), (97, 102, goto 304),
            (65, 70, goto 304)]),
      (324, False, [(58, 58, goto 306), (93, 93, goto 236), (48, 57, goto 303), (97, 102, goto 303), (65, 70, goto 303)]),
      (325, False, [(49, 49, goto 318), (50, 50, goto 321), (2, 3, goto 223), (97, 102, goto 324), (65, 70, goto 324),
            (48, 57, goto 302)]),
      (326, False, [(49, 49, goto 331), (50, 50, goto 334), (2, 3, goto 223), (97, 102, goto 337), (65, 70, goto 337),
            (48, 57, goto 327)])]"

definition h_states_327 :: "http_state list" where
  "h_states_327 =
     [(327, False, [(46, 46, goto 230), (58, 58, goto 306), (48, 57, goto 328), (97, 102, goto 328), (65, 70, goto 328)]),
      (328, False, [(58, 58, goto 306), (48, 57, goto 329), (97, 102, goto 329), (65, 70, goto 329)]),
      (329, False, [(58, 58, goto 306), (48, 57, goto 330), (97, 102, goto 330), (65, 70, goto 330)]),
      (330, False, [(58, 58, goto 306)]),
      (331, False, [(46, 46, goto 230), (58, 58, goto 306), (48, 57, goto 332), (97, 102, goto 328), (65, 70, goto 328)]),
      (332, False, [(46, 46, goto 230), (58, 58, goto 306), (48, 57, goto 333), (97, 102, goto 329), (65, 70, goto 329)]),
      (333, False, [(46, 46, goto 230), (58, 58, goto 306), (48, 57, goto 330), (97, 102, goto 330), (65, 70, goto 330)]),
      (334, False, [(46, 46, goto 230), (48, 48, goto 335), (53, 53, goto 336), (58, 58, goto 306), (49, 57, goto 328),
            (97, 102, goto 328), (65, 70, goto 328)]),
      (335, False, [(58, 58, goto 306), (48, 57, goto 333), (97, 102, goto 329), (65, 70, goto 329)])]"

definition h_states_336 :: "http_state list" where
  "h_states_336 =
     [(336, False, [(48, 48, goto 333), (58, 58, goto 306), (49, 57, goto 329), (97, 102, goto 329), (65, 70, goto 329)]),
      (337, False, [(58, 58, goto 306), (48, 57, goto 328), (97, 102, goto 328), (65, 70, goto 328)]),
      (338, False, [(2, 3, goto 223), (97, 102, goto 224), (65, 70, goto 224), (48, 57, goto 224)]),
      (339, False, [(2, 3, goto 223)]),
      (340, False, [(3, 3, goto 223)]),
      (341, False, [(4, 4, goto 223)]),
      (342, False, [(58, 58, goto 343)]),
      (343, False, [(49, 49, goto 318), (50, 50, goto 321), (93, 93, goto 236), (2, 5, goto 223), (97, 102, goto 324),
            (65, 70, goto 324), (48, 57, goto 302)]),
      (344, False, [(48, 57, goto 345), (97, 102, goto 345), (65, 70, goto 345)]),
      (345, False, [(46, 46, goto 346), (48, 57, goto 345), (97, 102, goto 345), (65, 70, goto 345)])]"

definition h_states_346 :: "http_state list" where
  "h_states_346 =
     [(346, True, [(33, 33, goto 347), (36, 36, goto 347), (61, 61, goto 347), (95, 95, goto 347), (126, 126, goto 347),
            (606, 606, goto 347), (635, 635, goto 347), (637, 637, goto 347), (38, 46, goto 347), (97, 122, goto 347),
            (65, 90, goto 347), (48, 59, goto 347)]),
      (347, True, [(33, 33, goto 347), (36, 36, goto 347), (61, 61, goto 347), (93, 93, goto 236), (95, 95, goto 347),
            (126, 126, goto 347), (606, 606, goto 347), (635, 635, goto 347), (637, 637, goto 347), (38, 46, goto 347),
            (97, 122, goto 347), (65, 90, goto 347), (48, 59, goto 347)])]"

text \<open>\<open>switch (cs)\<close>.\<close>

definition h_state :: "nat \<Rightarrow> (bool \<times> http_action tests) option" where
  "h_state cs =
     (if cs < 173 then (if cs < 59 then (if cs < 25 then (if cs < 14 then (if cs < 4 then map_of h_states_1 cs
          else map_of h_states_4 cs)
         else (if cs < 18 then map_of h_states_14 cs
          else (if cs < 20 then map_of h_states_18 cs
           else map_of h_states_20 cs)))
        else (if cs < 36 then (if cs < 29 then map_of h_states_25 cs
          else (if cs < 33 then map_of h_states_29 cs
           else map_of h_states_33 cs))
         else (if cs < 41 then map_of h_states_36 cs
          else (if cs < 47 then map_of h_states_41 cs
           else map_of h_states_47 cs))))
       else (if cs < 125 then (if cs < 92 then (if cs < 71 then map_of h_states_59 cs
          else (if cs < 83 then map_of h_states_71 cs
           else map_of h_states_83 cs))
         else (if cs < 103 then map_of h_states_92 cs
          else (if cs < 114 then map_of h_states_103 cs
           else map_of h_states_114 cs)))
        else (if cs < 151 then (if cs < 134 then map_of h_states_125 cs
          else (if cs < 143 then map_of h_states_134 cs
           else map_of h_states_143 cs))
         else (if cs < 160 then map_of h_states_151 cs
          else (if cs < 171 then map_of h_states_160 cs
           else map_of h_states_171 cs)))))
      else (if cs < 259 then (if cs < 209 then (if cs < 190 then (if cs < 178 then map_of h_states_173 cs
          else map_of h_states_178 cs)
         else (if cs < 198 then map_of h_states_190 cs
          else (if cs < 204 then map_of h_states_198 cs
           else map_of h_states_204 cs)))
        else (if cs < 223 then (if cs < 213 then map_of h_states_209 cs
          else (if cs < 217 then map_of h_states_213 cs
           else map_of h_states_217 cs))
         else (if cs < 235 then map_of h_states_223 cs
          else (if cs < 247 then map_of h_states_235 cs
           else map_of h_states_247 cs))))
       else (if cs < 319 then (if cs < 290 then (if cs < 268 then map_of h_states_259 cs
          else (if cs < 279 then map_of h_states_268 cs
           else map_of h_states_279 cs))
         else (if cs < 301 then map_of h_states_290 cs
          else (if cs < 310 then map_of h_states_301 cs
           else map_of h_states_310 cs)))
        else (if cs < 346 then (if cs < 327 then map_of h_states_319 cs
          else (if cs < 336 then map_of h_states_327 cs
           else map_of h_states_336 cs))
         else (if cs < 348 then map_of h_states_346 cs
          else (if cs < 349 then map_of h_states_348 cs
           else map_of h_states_349 cs))))))"

definition widec :: "bool \<Rightarrow> int \<Rightarrow> int" where
  "widec uri_relaxed c =
     (if c = 94 \<or> c = 123 \<or> c = 125 then 128 + (c + 128) + (if uri_relaxed then 256 else 0) else c)"

definition h_label :: "bool \<Rightarrow> nat \<Rightarrow> int \<Rightarrow> http_action label option" where
  "h_label uri_relaxed cs c =
     map_option (\<lambda>(wide, tests). first_test tests (if wide then widec uri_relaxed c else c)) (h_state cs)"

end
