(* ===== verification/HttpParser.thy ===== *)
theory HttpParser
  imports Http CNumbers Http11Machine
begin

text \<open>
  The HTTP/1 request parser: \<open>http_parser_execute\<close> of \<^verbatim>\<open>src/chat/http/http11_parser.cc\<close> around the machine of
  \<open>Http11Machine\<close>, and \<open>HttpRequestParser\<close> of \<^verbatim>\<open>http_parser.cc\<close> with the callbacks that fill an \<open>HttpRequest\<close>.
  The memory the parser reads is the whole buffer of its caller, of which the first \<open>len\<close> bytes are the
  text; a callback gets a position in it and a length. Lengths are differences of \<open>size_t\<close>. The constructor does
  not set \<open>uri_relaxed\<close>, so that its value is arbitrary.
\<close>

section \<open>State\<close>

record http_parser =
  hp_cs :: nat
  hp_body_start :: nat
  hp_content_len :: int
  hp_nread :: nat
  hp_mark :: nat
  hp_field_start :: nat
  hp_field_len :: nat
  hp_query_start :: nat
  hp_xml_sent :: bool
  hp_json_sent :: bool
  hp_uri_relaxed :: bool

record HttpRequestParser =
  rp_parser :: http_parser
  rp_data :: HttpRequest
  rp_error :: int

definition http_parser_init :: "http_parser \<Rightarrow> http_parser" where
  "http_parser_init parser =
     parser\<lparr>hp_cs := 1, hp_body_start := 0, hp_content_len := 0, hp_mark := 0, hp_nread := 0, hp_field_len := 0,
       hp_field_start := 0, hp_xml_sent := False, hp_json_sent := False\<rparr>"

definition http_parser_has_error :: "http_parser \<Rightarrow> bool" where
  "http_parser_has_error parser = (hp_cs parser = 0)"

definition http_parser_is_finished :: "http_parser \<Rightarrow> bool" where
  "http_parser_is_finished parser = (hp_cs parser \<ge> 348)"

definition http_parser_finish :: "http_parser \<Rightarrow> int" where
  "http_parser_finish parser =
     (if http_parser_has_error parser then - 1 else if http_parser_is_finished parser then 1 else 0)"

definition HttpRequestParser_new :: "http_parser \<Rightarrow> HttpRequestParser" where
  "HttpRequestParser_new garbage =
     \<lparr>rp_parser = http_parser_init garbage, rp_data = HttpRequest_new 0x11 True, rp_error = 0\<rparr>"

section \<open>Callbacks\<close>

text \<open>\<open>std::string(at, n)\<close> in memory; a length above \<open>max_size()\<close> throws.\<close>

definition string_at :: "bytes \<Rightarrow> nat \<Rightarrow> nat \<Rightarrow> error + bytes" where
  "string_at mem at n =
     (if int n > 2 ^ 63 - 1 then Inl Length_error
      else if at + n > length mem then Inl Bad_index
      else Inr (take n (drop at mem)))"

text \<open>\<open>strncmp(a, b, n) == 0\<close>\<close>

definition strncmp_eq :: "bytes \<Rightarrow> bytes \<Rightarrow> nat \<Rightarrow> bool" where
  "strncmp_eq a b n \<longleftrightarrow> take n (c_str a) = take n (c_str b)"

definition on_request_method :: "bytes \<Rightarrow> nat \<Rightarrow> nat \<Rightarrow> HttpRequestParser \<Rightarrow> error + HttpRequestParser" where
  "on_request_method mem at n rp =
     (let m = CharsToHttpMethod (drop at mem) in
      if m = M_INVALID_METHOD then Inr (rp\<lparr>rp_error := 1000\<rparr>)
      else Inr (rp\<lparr>rp_data := rp_data rp\<lparr>rq_method := m\<rparr>\<rparr>))"

definition on_request_uri :: "bytes \<Rightarrow> nat \<Rightarrow> nat \<Rightarrow> HttpRequestParser \<Rightarrow> error + HttpRequestParser" where
  "on_request_uri mem at n rp = Inr rp"

definition on_request_fragment :: "bytes \<Rightarrow> nat \<Rightarrow> nat \<Rightarrow> HttpRequestParser \<Rightarrow> error + HttpRequestParser" where
  "on_request_fragment mem at n rp =
     map_sum id (\<lambda>s. rp\<lparr>rp_data := rp_data rp\<lparr>rq_fragment := s\<rparr>\<rparr>) (string_at mem at n)"

definition on_request_path :: "bytes \<Rightarrow> nat \<Rightarrow> nat \<Rightarrow> HttpRequestParser \<Rightarrow> error + HttpRequestParser" where
  "on_request_path mem at n rp =
     map_sum id (\<lambda>s. rp\<lparr>rp_data := rp_data rp\<lparr>rq_path := s\<rparr>\<rparr>) (string_at mem at n)"

definition on_request_query :: "bytes \<Rightarrow> nat \<Rightarrow> nat \<Rightarrow> HttpRequestParser \<Rightarrow> error + HttpRequestParser" where
  "on_request_query mem at n rp =
     map_sum id (\<lambda>s. rp\<lparr>rp_data := rp_data rp\<lparr>rq_query := s\<rparr>\<rparr>) (string_at mem at n)"

definition on_request_version :: "bytes \<Rightarrow> nat \<Rightarrow> nat \<Rightarrow> HttpRequestParser \<Rightarrow> error + HttpRequestParser" where
  "on_request_version mem at n rp =
     (if strncmp_eq (drop at mem) (str ''HTTP/1.1'') n then Inr (rp\<lparr>rp_data := rp_data rp\<lparr>rq_version := 0x11\<rparr>\<rparr>)
      else if strncmp_eq (drop at mem) (str ''HTTP/1.0'') n then Inr (rp\<lparr>rp_data := rp_data rp\<lparr>rq_version := 0x10\<rparr>\<rparr>)
      else Inr (rp\<lparr>rp_error := 1001\<rparr>))"

definition on_request_header_done :: "HttpRequestParser \<Rightarrow> error + HttpRequestParser" where
  "on_request_header_done rp = Inr rp"

definition on_request_http_field :: "bytes \<Rightarrow> nat \<Rightarrow> nat \<Rightarrow> nat \<Rightarrow> nat \<Rightarrow> HttpRequestParser \<Rightarrow> error + HttpRequestParser" where
  "on_request_http_field mem field flen val vlen rp =
     (if flen = 0 then Inr rp
      else case string_at mem field flen of
        Inl e \<Rightarrow> Inl e
      | Inr k \<Rightarrow> map_sum id (\<lambda>v. rp\<lparr>rp_data := req_setHeader k v (rp_data rp)\<rparr>) (string_at mem val vlen))"

section \<open>Execution\<close>

definition on_parser :: "(http_parser \<Rightarrow> http_parser) \<Rightarrow> HttpRequestParser \<Rightarrow> HttpRequestParser" where
  "on_parser f rp = rp\<lparr>rp_parser := f (rp_parser rp)\<rparr>"

definition go_on :: "error + HttpRequestParser \<Rightarrow> error + nat option \<times> HttpRequestParser" where
  "go_on r = map_sum id (\<lambda>rp. (None, rp)) r"

text \<open>\<open>done\<close>; for a JSON or XML message the length includes the final zero. Then \<open>fbreak\<close>.\<close>

definition done_action :: "nat \<Rightarrow> nat \<Rightarrow> HttpRequestParser \<Rightarrow> error + nat option \<times> HttpRequestParser" where
  "done_action stop p rp =
     (let h = rp_parser rp in
      if hp_xml_sent h \<or> hp_json_sent h
      then Inr (Some stop, on_parser (\<lambda>h. h\<lparr>hp_body_start := hp_mark h,
             hp_content_len := sint (of_int (int p - int (hp_mark h) + 1) :: 32 word)\<rparr>) rp)
      else map_sum id (Pair (Some stop)) (on_request_header_done (on_parser (hp_body_start_update (\<lambda>_. p + 1)) rp)))"

fun do_http_action :: "bytes \<Rightarrow> http_action \<Rightarrow> nat \<Rightarrow> HttpRequestParser \<Rightarrow> error + nat option \<times> HttpRequestParser" where
  "do_http_action mem A_mark p rp = Inr (None, on_parser (hp_mark_update (\<lambda>_. p)) rp)"
| "do_http_action mem A_start_field p rp = Inr (None, on_parser (hp_field_start_update (\<lambda>_. p)) rp)"
| "do_http_action mem A_write_field p rp =
     Inr (None, on_parser (\<lambda>h. h\<lparr>hp_field_len := size_sub p (hp_field_start h)\<rparr>) rp)"
| "do_http_action mem A_write_value p rp =
     (let h = rp_parser rp
      in go_on (on_request_http_field mem (hp_field_start h) (hp_field_len h) (hp_mark h) (size_sub p (hp_mark h)) rp))"
| "do_http_action mem A_request_method p rp =
     (let h = rp_parser rp in go_on (on_request_method mem (hp_mark h) (size_sub p (hp_mark h)) rp))"
| "do_http_action mem A_request_uri p rp =
     (let h = rp_parser rp in go_on (on_request_uri mem (hp_mark h) (size_sub p (hp_mark h)) rp))"
| "do_http_action mem A_fragment p rp =
     (let h = rp_parser rp in go_on (on_request_fragment mem (hp_mark h) (size_sub p (hp_mark h)) rp))"
| "do_http_action mem A_start_query p rp = Inr (None, on_parser (hp_query_start_update (\<lambda>_. p)) rp)"
| "do_http_action mem A_query_string p rp =
     (let h = rp_parser rp in go_on (on_request_query mem (hp_query_start h) (size_sub p (hp_query_start h)) rp))"
| "do_http_action mem A_http_version p rp =
     (let h = rp_parser rp in go_on (on_request_version mem (hp_mark h) (size_sub p (hp_mark h)) rp))"
| "do_http_action mem A_request_path p rp =
     (let h = rp_parser rp in go_on (on_request_path mem (hp_mark h) (size_sub p (hp_mark h)) rp))"
| "do_http_action mem A_xml p rp = Inr (None, on_parser (hp_xml_sent_update (\<lambda>_. True)) rp)"
| "do_http_action mem A_json p rp = Inr (None, on_parser (hp_json_sent_update (\<lambda>_. True)) rp)"
| "do_http_action mem (A_done stop) p rp = done_action stop p rp"

text \<open>The assertions at the end.\<close>

definition parsed_ok :: "nat \<Rightarrow> http_parser \<Rightarrow> bool" where
  "parsed_ok len h \<longleftrightarrow>
     hp_nread h \<le> len \<and> hp_body_start h \<le> len \<and> hp_mark h < len \<and> hp_field_len h \<le> len \<and> hp_field_start h < len"

definition http_parser_execute :: "bytes \<Rightarrow> nat \<Rightarrow> nat \<Rightarrow> HttpRequestParser \<Rightarrow> error + nat \<times> HttpRequestParser" where
  "http_parser_execute mem len off rp =
     (if len = 0 then Inr (0, rp)
      else if \<not> off \<le> len then Inl Assert_failed
      else
        let rp0 = on_parser (\<lambda>h. h\<lparr>hp_nread := 0, hp_mark := 0, hp_field_len := 0, hp_field_start := 0\<rparr>) rp;
            cs0 = hp_cs (rp_parser rp)
        in case run_machine (h_label (hp_uri_relaxed (rp_parser rp))) (do_http_action mem) (drop off (take len mem)) cs0 off rp0 of
          Inl e \<Rightarrow> Inl e
        | Inr (cs, p, rp1) \<Rightarrow>
            let rp2 = on_parser (\<lambda>h. (if http_parser_has_error h then h else h\<lparr>hp_cs := cs\<rparr>)\<lparr>hp_nread := p - off\<rparr>) rp1
            in if parsed_ok len (rp_parser rp2) then Inr (p - off, rp2) else Inl Assert_failed)"

text \<open>\<open>execute\<close> moves what was not consumed to the front of the buffer.\<close>

definition HttpRequestParser_execute :: "bytes \<Rightarrow> nat \<Rightarrow> HttpRequestParser \<Rightarrow> error + nat \<times> bytes \<times> HttpRequestParser" where
  "HttpRequestParser_execute mem len rp =
     (case http_parser_execute mem len 0 rp of
        Inl e \<Rightarrow> Inl e
      | Inr (v, rp') \<Rightarrow> Inr (v, blit 0 (take (len - v) (drop v mem)) mem, rp'))"

definition HttpRequestParser_isFinished :: "HttpRequestParser \<Rightarrow> int" where
  "HttpRequestParser_isFinished rp = http_parser_finish (rp_parser rp)"

definition HttpRequestParser_hasError :: "HttpRequestParser \<Rightarrow> bool" where
  "HttpRequestParser_hasError rp = (rp_error rp \<noteq> 0 \<or> http_parser_has_error (rp_parser rp))"

text \<open>\<open>getHeaderAs<uint64_t>\<close>: \<open>lexical_cast\<close> is boost's; a failed cast gives the default.\<close>

definition HttpRequestParser_getContentLength :: "(bytes \<Rightarrow> 64 word option) \<Rightarrow> HttpRequestParser \<Rightarrow> 64 word" where
  "HttpRequestParser_getContentLength lexical_cast rp =
     (case map_find (str ''content-length'') (rq_headers (rp_data rp)) of
        None \<Rightarrow> 0
      | Some v \<Rightarrow> (case lexical_cast v of None \<Rightarrow> 0 | Some n \<Rightarrow> n))"

end
