(* ===== verification/HttpRequestParts.thy ===== *)
theory HttpRequestParts
  imports HttpParser
begin

text \<open>
  The request parser on the text of a request: each part of the text (method, path, query, fragment, version,
  header lines, the empty line) is followed through the states of the machine. The first section
  names the characters that may appear where.
\<close>

section \<open>Characters\<close>

definition method_char :: "int \<Rightarrow> bool" where
  "method_char c \<longleftrightarrow> 65 \<le> c \<and> c \<le> 90 \<or> 48 \<le> c \<and> c \<le> 57"

text \<open>What may stand in a path besides escapes, and in a query or a fragment. Bytes above 127 are negative.\<close>

definition path_char :: "int \<Rightarrow> bool" where
  "path_char c \<longleftrightarrow>
     c = 33 \<or> 36 \<le> c \<and> c \<le> 59 \<and> c \<noteq> 37 \<or> c = 61 \<or> 64 \<le> c \<and> c \<le> 90 \<or> c = 95 \<or> 97 \<le> c \<and> c \<le> 122 \<or> c = 126
     \<or> - 128 \<le> c \<and> c < 0"

definition query_char :: "int \<Rightarrow> bool" where
  "query_char c \<longleftrightarrow> path_char c \<or> c = 63"

definition hex_char :: "int \<Rightarrow> bool" where
  "hex_char c \<longleftrightarrow> 48 \<le> c \<and> c \<le> 57 \<or> 65 \<le> c \<and> c \<le> 70 \<or> 97 \<le> c \<and> c \<le> 102"

definition token_char :: "int \<Rightarrow> bool" where
  "token_char c \<longleftrightarrow>
     c = 33 \<or> 35 \<le> c \<and> c \<le> 39 \<or> c = 42 \<or> c = 43 \<or> c = 45 \<or> c = 46 \<or> 48 \<le> c \<and> c \<le> 57 \<or> 65 \<le> c \<and> c \<le> 90
     \<or> 94 \<le> c \<and> c \<le> 122 \<or> c = 124 \<or> c = 126"

definition value_char :: "int \<Rightarrow> bool" where
  "value_char c \<longleftrightarrow> - 128 \<le> c \<and> c \<le> 127 \<and> c \<noteq> 0 \<and> c \<noteq> 10 \<and> c \<noteq> 13 \<and> c \<noteq> 127"

text \<open>A text in which a percent sign begins an escape.\<close>

fun uri_text :: "(int \<Rightarrow> bool) \<Rightarrow> bytes \<Rightarrow> bool" where
  "uri_text ok [] = True"
| "uri_text ok (c # bs) =
     (if c = 37 then (case bs of x # y # bs' \<Rightarrow> hex_char (sint x) \<and> hex_char (sint y) \<and> uri_text ok bs' | _ \<Rightarrow> False)
      else ok (sint c) \<and> uri_text ok bs)"

section \<open>Rows of the machine\<close>

abbreviation parser_run :: "bytes \<Rightarrow> bool \<Rightarrow> bytes \<Rightarrow> nat \<Rightarrow> nat \<Rightarrow> HttpRequestParser \<Rightarrow> error + nat \<times> nat \<times> HttpRequestParser" where
  "parser_run mem r \<equiv> run_machine (h_label r) (do_http_action mem)"

lemmas h_row = h_label_def h_state_def

text \<open>The method: the states count its letters. After \<open>i\<close> letters the machine is in \<open>method_state i\<close>.\<close>

definition method_state :: "nat \<Rightarrow> nat" where
  "method_state i = (if i = 1 then 2 else 173 + i)"

lemma label_method_first: "method_char c \<Longrightarrow> h_label r 1 c = Some h_tr0"
  unfolding method_char_def by (elim disjE; simp add: h_row h_states_1_def)

lemma nat_range_cases: "m \<le> n \<Longrightarrow> n < Suc k \<Longrightarrow> m \<le> n \<and> n < k \<or> n = k" for m n k :: nat
  by auto

lemma label_method_next:
  assumes "method_char c" and "1 \<le> i" and "i < 20"
  shows "h_label r (method_state i) c = Some (goto (method_state (Suc i)))"
proof -
  have "i \<in> set [1..<20]" using assms by simp
  then have "list_ex (\<lambda>k. i = k) [1..<20]" by (simp add: list_ex_iff)
  then show ?thesis
    using assms(1) unfolding method_char_def
    by (simp add: upt_conv_Cons) (elim disjE; simp add: h_row h_states_1_def h_states_173_def h_states_178_def h_states_190_def method_state_def)
qed

lemma label_method_end:
  assumes "1 \<le> i" and "i \<le> 20"
  shows "h_label r (method_state i) 32 = Some h_tr4"
proof -
  have "i \<in> set [1..<21]" using assms by simp
  then have "list_ex (\<lambda>k. i = k) [1..<21]" by (simp add: list_ex_iff)
  then show ?thesis
    by (simp add: upt_conv_Cons) (elim disjE; simp add: h_row h_states_1_def h_states_173_def h_states_178_def h_states_190_def method_state_def)
qed

text \<open>Path, query and fragment.\<close>

lemma label_path: "h_label r 3 47 = Some h_tr10" "h_label r 33 37 = Some (goto 27)" "h_label r 26 37 = Some (goto 27)"
  by (simp_all add: h_row h_states_1_def h_states_33_def h_states_25_def widec_def)

lemma label_path_char:
  "path_char c \<Longrightarrow> h_label r 26 c = Some (goto 26)" "path_char c \<Longrightarrow> c \<noteq> 47 \<Longrightarrow> h_label r 33 c = Some (goto 26)"
  unfolding path_char_def by (elim disjE; simp add: h_row h_states_25_def h_states_33_def widec_def)+

lemma label_path_hex: "hex_char c \<Longrightarrow> h_label r 27 c = Some (goto 28)" "hex_char c \<Longrightarrow> h_label r 28 c = Some (goto 26)"
  unfolding hex_char_def by (elim disjE; simp add: h_row h_states_25_def)+

lemma label_path_end:
  "h_label r 26 32 = Some h_tr37" "h_label r 26 63 = Some h_tr42" "h_label r 26 35 = Some h_tr39"
  "h_label r 33 32 = Some h_tr37" "h_label r 33 63 = Some h_tr42" "h_label r 33 35 = Some h_tr39"
  by (simp_all add: h_row h_states_25_def h_states_33_def widec_def)

lemma label_query:
  "h_label r 29 37 = Some h_tr56" "h_label r 30 37 = Some (goto 31)" "h_label r 30 32 = Some h_tr58" "h_label r 30 35 = Some h_tr59"
  by (simp_all add: h_row h_states_29_def widec_def)

lemma label_query_char: "query_char c \<Longrightarrow> h_label r 29 c = Some h_tr53" "query_char c \<Longrightarrow> h_label r 30 c = Some (goto 30)"
  unfolding query_char_def path_char_def by (elim disjE; simp add: h_row h_states_29_def widec_def)+

lemma label_query_hex: "hex_char c \<Longrightarrow> h_label r 31 c = Some (goto 32)" "hex_char c \<Longrightarrow> h_label r 32 c = Some (goto 30)"
  unfolding hex_char_def by (elim disjE; simp add: h_row h_states_29_def)+

lemma label_fragment: "h_label r 20 37 = Some h_tr45" "h_label r 21 37 = Some (goto 22)" "h_label r 21 32 = Some h_tr47"
  by (simp_all add: h_row h_states_20_def widec_def)

lemma label_fragment_char: "query_char c \<Longrightarrow> h_label r 20 c = Some h_tr43" "query_char c \<Longrightarrow> h_label r 21 c = Some (goto 21)"
  unfolding query_char_def path_char_def by (elim disjE; simp add: h_row h_states_20_def widec_def)+

lemma label_fragment_hex: "hex_char c \<Longrightarrow> h_label r 22 c = Some (goto 23)" "hex_char c \<Longrightarrow> h_label r 23 c = Some (goto 21)"
  unfolding hex_char_def by (elim disjE; simp add: h_row h_states_20_def)+

text \<open>Version, header lines and the end.\<close>

lemma label_version:
  "h_label r 4 72 = Some h_tr13" "h_label r 5 84 = Some (goto 6)" "h_label r 6 84 = Some (goto 7)" "h_label r 7 80 = Some (goto 8)"
  "h_label r 8 47 = Some (goto 9)" "h_label r 9 49 = Some (goto 10)" "h_label r 10 46 = Some (goto 11)"
  "h_label r 11 48 = Some (goto 12)" "h_label r 11 49 = Some (goto 12)" "h_label r 12 13 = Some h_tr22"
  by (simp_all add: h_row h_states_4_def)

lemma label_field:
  "h_label r 14 58 = Some h_tr27" "h_label r 15 32 = Some h_tr29" "h_label r 15 13 = Some h_tr31"
  "h_label r 16 13 = Some h_tr34" "h_label r 17 10 = Some (goto 13)"
  "h_label r 13 13 = Some h_tr25" "h_label r 18 10 = Some h_tr36"
  by (simp_all add: h_row h_states_4_def h_states_14_def h_states_18_def)

lemma label_token: "token_char c \<Longrightarrow> h_label r 13 c = Some h_tr23" "token_char c \<Longrightarrow> h_label r 14 c = Some (goto 14)"
  unfolding token_char_def by (elim disjE; simp add: h_row h_states_4_def h_states_14_def)+

lemma label_value:
  "value_char c \<Longrightarrow> c \<noteq> 9 \<Longrightarrow> c \<noteq> 32 \<Longrightarrow> h_label r 15 c = Some h_tr28" "value_char c \<Longrightarrow> h_label r 16 c = Some (goto 16)"
  by (simp_all add: value_char_def h_row h_states_14_def)

section \<open>Running over the parts of a request\<close>

lemma uri_text_Cons:
  assumes "uri_text ok (c # bs)"
  shows "c = 37 \<and> (\<exists>x y bs'. bs = x # y # bs' \<and> hex_char (sint x) \<and> hex_char (sint y) \<and> uri_text ok bs')
    \<or> c \<noteq> 37 \<and> ok (sint c) \<and> uri_text ok bs"
  using assms by (auto split: if_splits list.splits)

lemma uri_run:
  assumes "uri_text ok bs" and "\<And>c. ok c \<Longrightarrow> label_of s c = Some (goto s)" and "label_of s 37 = Some (goto s1)"
    and "\<And>c. hex_char c \<Longrightarrow> label_of s1 c = Some (goto s2)" and "\<And>c. hex_char c \<Longrightarrow> label_of s2 c = Some (goto s)"
    and "s \<noteq> 0" and "s1 \<noteq> 0" and "s2 \<noteq> 0"
  shows "run_machine label_of act (bs @ xs) s p st = run_machine label_of act xs s (p + length bs) st"
  using assms(1)
proof (induction bs arbitrary: p rule: length_induct)
  case (1 bs)
  show ?case
  proof (cases bs)
    case (Cons c cs)
    from uri_text_Cons [OF 1(2) [unfolded Cons]] show ?thesis
    proof (elim disjE conjE exE)
      fix x y bs' assume c: "c = 37" and cs: "cs = x # y # bs'" "hex_char (sint x)" "hex_char (sint y)" "uri_text ok bs'"
      have "run_machine label_of act (bs' @ xs) s (p + 3) st = run_machine label_of act xs s (p + 3 + length bs') st"
        using 1(1) cs(1,4) by (simp add: Cons)
      then show ?thesis
        using c assms(3,6-8) assms(4) [OF cs(2)] assms(5) [OF cs(3)] by (simp add: Cons cs(1) goto_def numeral_3_eq_3)
    next
      assume "c \<noteq> 37" "ok (sint c)" "uri_text ok cs"
      then show ?thesis using 1(1) assms(2) [of "sint c"] assms(6) by (simp add: Cons goto_def)
    qed
  qed simp
qed

text \<open>A text whose first character is treated by the state before the loop.\<close>

lemma uri_run_first:
  assumes "uri_text ok bs" and "bs \<noteq> []" and "\<And>c. ok c \<Longrightarrow> label_of s c = Some (goto s)" and "label_of s 37 = Some (goto s1)"
    and "\<And>c. hex_char c \<Longrightarrow> label_of s1 c = Some (goto s2)" and "\<And>c. hex_char c \<Longrightarrow> label_of s2 c = Some (goto s)"
    and "s \<noteq> 0" and "s1 \<noteq> 0" and "s2 \<noteq> 0"
    and "\<And>c. ok c \<Longrightarrow> c = sint (hd bs) \<Longrightarrow> label_of s0 c = Some (as, s)" and "label_of s0 37 = Some (as, s1)"
    and "run_actions act as p st = Inr (None, st')"
  shows "run_machine label_of act (bs @ xs) s0 p st = run_machine label_of act xs s (p + length bs) st'"
proof -
  obtain c cs where bs: "bs = c # cs" using assms(2) by (cases bs) auto
  note loop = uri_run [of ok _ label_of s s1 s2, OF _ assms(3-9)]
  from uri_text_Cons [OF assms(1) [unfolded bs]] show ?thesis
  proof (elim disjE conjE exE)
    fix x y bs' assume c: "c = 37" and cs: "cs = x # y # bs'" "hex_char (sint x)" "hex_char (sint y)" "uri_text ok bs'"
    have "sint c = 37" using c by simp
    then show ?thesis
      using assms(7-9,11,12) assms(5) [OF cs(2)] assms(6) [OF cs(3)] loop [OF cs(4), of act xs "p + 3" st']
      by (simp add: bs cs(1) goto_def numeral_3_eq_3)
  next
    assume c: "c \<noteq> 37" "ok (sint c)" and cs: "uri_text ok cs"
    have "label_of s0 (sint c) = Some (as, s)" using assms(10) [OF c(2)] by (simp add: bs)
    then show ?thesis using assms(7,12) loop [OF cs, of act xs "p + 1" st'] by (simp add: bs)
  qed
qed

lemma method_run:
  assumes "\<forall>b \<in> set bs. method_char (sint b)" and "1 \<le> i" and "i + length bs \<le> 20"
  shows "parser_run mem r (bs @ xs) (method_state i) p rp = parser_run mem r xs (method_state (i + length bs)) (p + length bs) rp"
  using assms
proof (induction bs arbitrary: i p)
  case (Cons b bs)
  have "method_state (Suc i) \<noteq> 0" by (simp add: method_state_def)
  then show ?case
    using Cons label_method_next [of "sint b" i r] by (simp add: goto_def)
qed simp

lemma path_run:
  assumes "uri_text path_char bs" and "bs = [] \<or> hd bs \<noteq> 47"
  shows "parser_run mem r (bs @ xs) 33 p rp = parser_run mem r xs (if bs = [] then 33 else 26) (p + length bs) rp"
proof (cases "bs = []")
  case False
  have "sint (hd bs) \<noteq> 47"
    using assms(2) False signed_word_eqI [of "hd bs" 47] by auto
  then show ?thesis
    using False assms(1) label_path label_path_hex label_path_char
    by (subst uri_run_first [where ok = path_char and s = 26 and ?s1.0 = 27 and ?s2.0 = 28 and as = "[]" and st' = rp])
      (auto simp: goto_def)
qed simp

text \<open>The text \<open>bs\<close> stands at position \<open>p\<close> of the memory.\<close>

definition text_at :: "bytes \<Rightarrow> nat \<Rightarrow> bytes \<Rightarrow> bool" where
  "text_at mem p bs \<longleftrightarrow> p + length bs \<le> length mem \<and> take (length bs) (drop p mem) = bs"

lemma text_at_append: "text_at mem p (xs @ ys) \<longleftrightarrow> text_at mem p xs \<and> text_at mem (p + length xs) ys"
proof
  assume a: "text_at mem p (xs @ ys)"
  then have t: "take (length xs + length ys) (drop p mem) = xs @ ys" and l: "p + length xs + length ys \<le> length mem"
    by (simp_all add: text_at_def)
  have "take (length xs) (drop p mem) = xs" using arg_cong [OF t, of "take (length xs)"] by simp
  moreover have "take (length ys) (drop (p + length xs) mem) = ys"
    using arg_cong [OF t, of "drop (length xs)"] by (simp add: drop_take add.commute)
  ultimately show "text_at mem p xs \<and> text_at mem (p + length xs) ys" using l by (simp add: text_at_def)
next
  assume "text_at mem p xs \<and> text_at mem (p + length xs) ys"
  then show "text_at mem p (xs @ ys)" by (simp add: text_at_def take_add add.commute)
qed

lemma text_at_Cons: "text_at mem p (x # xs) \<longleftrightarrow> text_at mem p [x] \<and> text_at mem (p + 1) xs"
  using text_at_append [of mem p "[x]" xs] by simp

lemma text_at_string: "text_at mem p bs \<Longrightarrow> length mem < 2 ^ 63 \<Longrightarrow> string_at mem p (length bs) = Inr bs"
  by (simp add: text_at_def string_at_def)

lemma text_at_front: "text_at (bs @ xs) 0 bs"
  by (simp add: text_at_def)

text \<open>What the parser holds after a part: the positions it marked, and the request.\<close>

definition marks :: "nat \<Rightarrow> nat \<Rightarrow> nat \<Rightarrow> nat \<Rightarrow> http_parser \<Rightarrow> http_parser" where
  "marks mk qs fs fl h = h\<lparr>hp_mark := mk, hp_query_start := qs, hp_field_start := fs, hp_field_len := fl\<rparr>"

lemmas act_defs = on_parser_def go_on_def on_request_method_def on_request_uri_def on_request_fragment_def on_request_path_def
  on_request_query_def on_request_version_def on_request_http_field_def

lemma method_part:
  assumes "M \<noteq> []" and "length M \<le> 20" and "\<forall>b \<in> set M. method_char (sint b)"
    and "CharsToHttpMethod (drop p mem) = m" and "m \<noteq> M_INVALID_METHOD"
  shows "parser_run mem r (M @ 32 # xs) 1 p rp = parser_run mem r xs 3 (p + length M + 1)
    (rp\<lparr>rp_parser := (rp_parser rp)\<lparr>hp_mark := p\<rparr>, rp_data := (rp_data rp)\<lparr>rq_method := m\<rparr>\<rparr>)"
proof -
  obtain b bs where M: "M = b # bs" using assms(1) by (cases M) auto
  let ?rp = "rp\<lparr>rp_parser := (rp_parser rp)\<lparr>hp_mark := p\<rparr>\<rparr>"
  have "parser_run mem r (M @ 32 # xs) 1 p rp = parser_run mem r (bs @ 32 # xs) (method_state 1) (p + 1) ?rp"
    using label_method_first [of "sint b" r] assms(3) by (simp add: M h_tr0_def on_parser_def method_state_def)
  also have "\<dots> = parser_run mem r (32 # xs) (method_state (1 + length bs)) (p + 1 + length bs) ?rp"
    using assms(2,3) by (intro method_run) (simp_all add: M)
  finally show ?thesis
    using label_method_end [of "1 + length bs" r] assms(2,4,5) by (simp add: M h_tr4_def act_defs Let_def)
qed

text \<open>The request target up to the space that follows it.\<close>

lemma path_part:
  assumes "uri_text path_char bs" and "bs = [] \<or> hd bs \<noteq> 47" and "text_at mem p (47 # bs)" and "length mem < 2 ^ 63"
    and "c \<in> {32, 35, 63}"
  shows "parser_run mem r (47 # bs @ c # xs) 3 p rp
    = parser_run mem r xs (if c = 32 then 4 else if c = 35 then 20 else 29) (p + length bs + 2)
        (rp\<lparr>rp_parser := (rp_parser rp)\<lparr>hp_mark := p\<rparr>, rp_data := (rp_data rp)\<lparr>rq_path := 47 # bs\<rparr>\<rparr>)"
proof -
  let ?rp = "rp\<lparr>rp_parser := (rp_parser rp)\<lparr>hp_mark := p\<rparr>\<rparr>" and ?cs = "if bs = [] then 33 else 26"
  have "parser_run mem r (47 # bs @ c # xs) 3 p rp = parser_run mem r (bs @ c # xs) 33 (p + 1) ?rp"
    using label_path(1) [of r] by (simp add: h_tr10_def on_parser_def)
  also have "\<dots> = parser_run mem r (c # xs) ?cs (p + 1 + length bs) ?rp" by (rule path_run [OF assms(1,2)])
  finally show ?thesis
    using label_path_end [of r] text_at_string [OF assms(3,4)] assms(5)
    by (auto simp: h_tr37_def h_tr39_def h_tr42_def act_defs Let_def)
qed

lemma query_part:
  assumes "uri_text query_char bs" and "bs \<noteq> []" and "text_at mem p bs" and "length mem < 2 ^ 63" and "c \<in> {32, 35}"
  shows "parser_run mem r (bs @ c # xs) 29 p rp = parser_run mem r xs (if c = 32 then 4 else 20) (p + length bs + 1)
    (rp\<lparr>rp_parser := (rp_parser rp)\<lparr>hp_query_start := p\<rparr>, rp_data := (rp_data rp)\<lparr>rq_query := bs\<rparr>\<rparr>)"
proof -
  let ?rp = "rp\<lparr>rp_parser := (rp_parser rp)\<lparr>hp_query_start := p\<rparr>\<rparr>"
  have "parser_run mem r (bs @ c # xs) 29 p rp = parser_run mem r (c # xs) 30 (p + length bs) ?rp"
    using assms(1,2) label_query(1,2) label_query_char label_query_hex
    by (intro uri_run_first [where ok = query_char and s = 30 and ?s1.0 = 31 and ?s2.0 = 32 and as = "[A_start_query]"])
      (simp_all add: h_tr53_def h_tr56_def on_parser_def)
  then show ?thesis
    using label_query(3,4) [of r] text_at_string [OF assms(3,4)] assms(5)
    by (auto simp: h_tr58_def h_tr59_def act_defs Let_def)
qed

lemma fragment_part:
  assumes "uri_text query_char bs" and "bs \<noteq> []" and "text_at mem p bs" and "length mem < 2 ^ 63"
  shows "parser_run mem r (bs @ 32 # xs) 20 p rp = parser_run mem r xs 4 (p + length bs + 1)
    (rp\<lparr>rp_parser := (rp_parser rp)\<lparr>hp_mark := p\<rparr>, rp_data := (rp_data rp)\<lparr>rq_fragment := bs\<rparr>\<rparr>)"
proof -
  let ?rp = "rp\<lparr>rp_parser := (rp_parser rp)\<lparr>hp_mark := p\<rparr>\<rparr>"
  have "parser_run mem r (bs @ 32 # xs) 20 p rp = parser_run mem r (32 # xs) 21 (p + length bs) ?rp"
    using assms(1,2) label_fragment(1,2) label_fragment_char label_fragment_hex
    by (intro uri_run_first [where ok = query_char and s = 21 and ?s1.0 = 22 and ?s2.0 = 23 and as = "[A_mark]"])
      (simp_all add: h_tr43_def h_tr45_def on_parser_def)
  then show ?thesis
    using label_fragment(3) [of r] text_at_string [OF assms(3,4)] by (simp add: h_tr47_def act_defs Let_def)
qed

definition target_text :: "HttpRequest \<Rightarrow> bytes" where
  "target_text q =
     rq_path q @ (if rq_query q = [] then [] else 63 # rq_query q) @ (if rq_fragment q = [] then [] else 35 # rq_fragment q)"

definition target_ok :: "HttpRequest \<Rightarrow> bool" where
  "target_ok q \<longleftrightarrow>
     (case rq_path q of c # bs \<Rightarrow> c = 47 \<and> uri_text path_char bs \<and> (bs = [] \<or> hd bs \<noteq> 47) | [] \<Rightarrow> False)
   \<and> uri_text query_char (rq_query q) \<and> uri_text query_char (rq_fragment q)"

definition with_target :: "HttpRequest \<Rightarrow> HttpRequest \<Rightarrow> HttpRequest" where
  "with_target q d =
     d\<lparr>rq_path := rq_path q, rq_query := (if rq_query q = [] then rq_query d else rq_query q),
       rq_fragment := (if rq_fragment q = [] then rq_fragment d else rq_fragment q)\<rparr>"

lemma mark_query_commute [simp]: "h\<lparr>hp_query_start := q, hp_mark := m\<rparr> = h\<lparr>hp_mark := m, hp_query_start := q\<rparr>"
  by (cases h) simp

lemma target_part:
  assumes "target_ok q" and "text_at mem p (target_text q)" and "length mem < 2 ^ 63"
  shows "\<exists>mk qs. mk \<le> p + length (target_text q) \<and> parser_run mem r (target_text q @ 32 # xs) 3 p rp
    = parser_run mem r xs 4 (p + length (target_text q) + 1)
        (rp\<lparr>rp_parser := (rp_parser rp)\<lparr>hp_mark := mk, hp_query_start := qs\<rparr>, rp_data := with_target q (rp_data rp)\<rparr>)"
proof -
  obtain bs where path: "rq_path q = 47 # bs" "uri_text path_char bs" "bs = [] \<or> hd bs \<noteq> 47"
    using assms(1) by (auto simp: target_ok_def split: list.splits)
  have q: "uri_text query_char (rq_query q)" and f: "uri_text query_char (rq_fragment q)"
    using assms(1) by (simp_all add: target_ok_def)
  have at: "text_at mem p (47 # bs)"
    using assms(2) by (simp add: target_text_def path(1) text_at_append [of mem p "47 # bs", simplified])
  note pp = path_part [OF path(2,3) at assms(3), where r = r and rp = rp]
  have atq: "text_at mem (p + length bs + 2) (rq_query q)" if "rq_query q \<noteq> []"
    using assms(2) that text_at_append [of mem p "47 # bs @ [63]" "rq_query q @ (if rq_fragment q = [] then [] else 35 # rq_fragment q)"]
    by (simp add: target_text_def path(1) text_at_append add.assoc)
  have atf: "text_at mem (p + length (target_text q) - length (rq_fragment q)) (rq_fragment q)" if "rq_fragment q \<noteq> []"
    using assms(2) that text_at_append [of mem p "rq_path q @ (if rq_query q = [] then [] else 63 # rq_query q) @ [35]" "rq_fragment q"]
    by (simp add: target_text_def)
  let ?T = "length (target_text q)"
  consider "rq_query q = []" "rq_fragment q = []" | "rq_query q = []" "rq_fragment q \<noteq> []"
    | "rq_query q \<noteq> []" "rq_fragment q = []" | "rq_query q \<noteq> []" "rq_fragment q \<noteq> []" by blast
  then show ?thesis
  proof cases
    case 1
    show ?thesis
      using 1 pp [of 32] by - (rule exI [of _ p], rule exI [of _ "hp_query_start (rp_parser rp)"], simp add: target_text_def path(1) with_target_def add.assoc)
  next
    case 2
    then have "p + ?T - length (rq_fragment q) = p + length bs + 2" by (simp add: target_text_def path(1))
    then show ?thesis
      using 2 pp [of 35] fragment_part [OF f 2(2) _ assms(3), of "p + length bs + 2"] atf
      by - (rule exI [of _ "p + length bs + 2"], rule exI [of _ "hp_query_start (rp_parser rp)"], simp add: target_text_def path(1) with_target_def add.assoc)
  next
    case 3
    then show ?thesis
      using pp [of 63] query_part [OF q 3(1) atq [OF 3(1)] assms(3), of 32]
      by - (rule exI [of _ p], rule exI [of _ "p + length bs + 2"], simp add: target_text_def path(1) with_target_def add.assoc)
  next
    case 4
    then have "p + ?T - length (rq_fragment q) = p + length bs + length (rq_query q) + 3" by (simp add: target_text_def path(1))
    then show ?thesis
      using 4 pp [of 63] query_part [OF q 4(1) atq [OF 4(1)] assms(3), of 35] atf
        fragment_part [OF f 4(2) _ assms(3), of "p + length bs + length (rq_query q) + 3"]
      by - (rule exI [of _ "p + length bs + length (rq_query q) + 3"], rule exI [of _ "p + length bs + 2"], simp add: target_text_def path(1) with_target_def add.assoc numeral_3_eq_3)
  qed
qed

lemma c_str_append: "0 \<notin> set bs \<Longrightarrow> c_str (bs @ ys) = bs @ c_str ys"
  by (induction bs) (auto simp: c_str_def)

lemma strncmp_at:
  assumes "text_at mem p bs" and "0 \<notin> set bs" and "0 \<notin> set t" and "length t = length bs"
  shows "strncmp_eq (drop p mem) t (length bs) \<longleftrightarrow> bs = t"
proof -
  have "drop p mem = bs @ drop (length bs) (drop p mem)"
    using assms(1) by (metis append_take_drop_id text_at_def)
  then have "c_str (drop p mem) = bs @ c_str (drop (length bs) (drop p mem))" using c_str_append [OF assms(2)] by metis
  then have "take (length bs) (c_str (drop p mem)) = bs" by simp
  moreover have "take (length bs) (c_str t) = t" using assms(3,4) by (simp add: c_str_id)
  ultimately show ?thesis by (simp add: strncmp_eq_def)
qed

lemma version_texts:
  "version_text 0x11 = [72, 84, 84, 80, 47, 49, 46, 49]" "version_text 0x10 = [72, 84, 84, 80, 47, 49, 46, 48]"
  "str ''HTTP/1.1'' = [72, 84, 84, 80, 47, 49, 46, 49]" "str ''HTTP/1.0'' = [72, 84, 84, 80, 47, 49, 46, 48]"
  by code_simp+

lemma plus_Suc:
  fixes n :: nat
  shows "n + 4 = Suc (Suc (Suc (Suc n)))" and "n + 10 = Suc (Suc (Suc (Suc (Suc (Suc (Suc (Suc (Suc (Suc n)))))))))"
  by simp_all

lemma version_part:
  assumes "v = 0x10 \<or> v = 0x11" and "text_at mem p (version_text v)"
  shows "parser_run mem r (version_text v @ CRLF @ xs) 4 p rp = parser_run mem r xs 13 (p + 10)
    (rp\<lparr>rp_parser := (rp_parser rp)\<lparr>hp_mark := p\<rparr>, rp_data := (rp_data rp)\<lparr>rq_version := v\<rparr>\<rparr>)"
proof -
  have cmp: "strncmp_eq (drop p mem) t 8 \<longleftrightarrow> version_text v = t" if "t = str ''HTTP/1.1'' \<or> t = str ''HTTP/1.0''" for t
  proof -
    have "length (version_text v) = 8" "0 \<notin> set (version_text v)" using assms(1) by (auto simp: version_texts)
    moreover have "length t = 8" "0 \<notin> set t" using that by (auto simp: version_texts)
    ultimately show ?thesis using strncmp_at [OF assms(2), of t] by simp
  qed
  show ?thesis
    using assms(1) label_version [of r] label_field(5) [of r] cmp
    by (auto simp: version_texts CRLF_def h_tr13_def h_tr22_def act_defs goto_def Let_def plus_Suc)
qed

lemma field_part:
  assumes "k \<noteq> []" and "\<forall>b \<in> set k. token_char (sint b)" and "\<forall>b \<in> set v. value_char (sint b)"
    and "v = [] \<or> hd v \<noteq> 9 \<and> hd v \<noteq> 32" and "text_at mem p (k @ str '': '' @ v)" and "length mem < 2 ^ 63"
  shows "parser_run mem r (k @ str '': '' @ v @ CRLF @ xs) 13 p rp = parser_run mem r xs 13 (p + length k + length v + 4)
    (rp\<lparr>rp_parser := (rp_parser rp)\<lparr>hp_field_start := p, hp_field_len := length k, hp_mark := p + length k + 2\<rparr>,
      rp_data := req_setHeader k v (rp_data rp)\<rparr>)"
proof -
  obtain b bs where k: "k = b # bs" using assms(1) by (cases k) auto
  have sep: "str '': '' = [58, 32]" by (simp add: str_def)
  have at: "text_at mem p k" "text_at mem (p + length k + 2) v"
    using assms(5) text_at_append [of mem "p + length k" "[58, 32]" v] by (simp_all add: text_at_append sep)
  let ?h = "(rp_parser rp)\<lparr>hp_field_start := p\<rparr>"
  let ?rp2 = "rp\<lparr>rp_parser := ?h\<lparr>hp_field_len := length k, hp_mark := p + length k + 1\<rparr>\<rparr>"
  have "parser_run mem r (k @ str '': '' @ v @ CRLF @ xs) 13 p rp
      = parser_run mem r (bs @ str '': '' @ v @ CRLF @ xs) 14 (p + 1) (rp\<lparr>rp_parser := ?h\<rparr>)"
    using label_token(1) [of "sint b" r] assms(2) by (simp add: k h_tr23_def on_parser_def)
  also have "\<dots> = parser_run mem r (str '': '' @ v @ CRLF @ xs) 14 (p + length k) (rp\<lparr>rp_parser := ?h\<rparr>)"
    using label_token(2) assms(2) by (subst run_machine_loop) (simp_all add: k)
  also have "\<dots> = parser_run mem r (v @ CRLF @ xs) 15 (p + length k + 2) ?rp2"
    using label_field(1,2) [of r] by (simp add: sep h_tr27_def h_tr29_def on_parser_def)
  also have "\<dots> = parser_run mem r xs 13 (p + length k + length v + 4)
    (rp\<lparr>rp_parser := ?h\<lparr>hp_field_len := length k, hp_mark := p + length k + 2\<rparr>, rp_data := req_setHeader k v (rp_data rp)\<rparr>)"
  proof (cases v)
    case Nil
    then show ?thesis
      using label_field(3,5) [of r] text_at_string [OF at(1) assms(6)] text_at_string [OF at(2) assms(6)] assms(1)
      by (simp add: CRLF_def h_tr31_def goto_def act_defs Let_def plus_Suc)
  next
    case (Cons c cs)
    have "sint c \<noteq> 9" "sint c \<noteq> 32"
      using assms(4) signed_word_eqI [of c 9] signed_word_eqI [of c 32] by (auto simp: Cons)
    then have "parser_run mem r (v @ CRLF @ xs) 15 (p + length k + 2) ?rp2
        = parser_run mem r (cs @ CRLF @ xs) 16 (p + length k + 3) (?rp2\<lparr>rp_parser := (rp_parser ?rp2)\<lparr>hp_mark := p + length k + 2\<rparr>\<rparr>)"
      using label_value(1) [of "sint c" r] assms(3) by (simp add: Cons h_tr28_def on_parser_def numeral_3_eq_3)
    also have "\<dots> = parser_run mem r (CRLF @ xs) 16 (p + length k + 3 + length cs) (?rp2\<lparr>rp_parser := (rp_parser ?rp2)\<lparr>hp_mark := p + length k + 2\<rparr>\<rparr>)"
      using label_value(2) assms(3) by (subst run_machine_loop) (simp_all add: Cons)
    finally show ?thesis
      using label_field(4,5) [of r] text_at_string [OF at(1) assms(6)] text_at_string [OF at(2) assms(6)] assms(1)
      by (simp add: CRLF_def h_tr34_def goto_def act_defs Let_def Cons plus_Suc numeral_3_eq_3)
  qed
  finally show ?thesis by simp
qed

lemma end_part:
  assumes "\<not> hp_xml_sent (rp_parser rp)" and "\<not> hp_json_sent (rp_parser rp)"
  shows "parser_run mem r (CRLF @ xs) 13 p rp = Inr (348, p + 2,
    rp\<lparr>rp_parser := (rp_parser rp)\<lparr>hp_field_start := p, hp_body_start := p + 2\<rparr>\<rparr>)"
  using assms label_field(6,7) [of r]
  by (simp add: CRLF_def h_tr25_def h_tr36_def done_action_def on_request_header_done_def on_parser_def)

end
