(* ===== verification/HttpRequestText.thy ===== *)
theory HttpRequestText
  imports HttpRequestParts
begin

text \<open>
  What \<open>HttpRequest::dump\<close> prints, given to the request parser: the parser hands back the method, the target,
  the version and the header fields that were printed.
\<close>

section \<open>A whole request\<close>

definition field_ok :: "bytes \<times> bytes \<Rightarrow> bool" where
  "field_ok f = (case f of (k, v) \<Rightarrow> k \<noteq> [] \<and> list_all (\<lambda>b. token_char (sint b)) k \<and> list_all (\<lambda>b. value_char (sint b)) v
     \<and> (v = [] \<or> hd v \<noteq> 9 \<and> hd v \<noteq> 32))"

definition field_text :: "bytes \<times> bytes \<Rightarrow> bytes" where
  "field_text f = (case f of (k, v) \<Rightarrow> k @ str '': '' @ v @ CRLF)"

definition set_fields :: "(bytes \<times> bytes) list \<Rightarrow> HttpRequest \<Rightarrow> HttpRequest" where
  "set_fields fs d = fold (\<lambda>(k, v). req_setHeader k v) fs d"

lemma text_at_length: "text_at mem p bs \<Longrightarrow> p + length bs \<le> length mem"
  by (simp add: text_at_def)

lemma fields_part:
  assumes "list_all field_ok fs" and "text_at mem p (concat (map field_text fs))" and "length mem < 2 ^ 63"
    and "hp_mark (rp_parser rp) < p" and "hp_field_start (rp_parser rp) < p" and "hp_field_len (rp_parser rp) < p"
  shows "\<exists>mk fst fl. mk < p + length (concat (map field_text fs)) \<and> fst < p + length (concat (map field_text fs))
    \<and> fl < p + length (concat (map field_text fs))
    \<and> parser_run mem r (concat (map field_text fs) @ xs) 13 p rp = parser_run mem r xs 13 (p + length (concat (map field_text fs)))
        (rp\<lparr>rp_parser := (rp_parser rp)\<lparr>hp_field_start := fst, hp_field_len := fl, hp_mark := mk\<rparr>, rp_data := set_fields fs (rp_data rp)\<rparr>)"
  using assms
proof (induction fs arbitrary: p rp)
  case Nil
  then show ?case
    by - (rule exI [of _ "hp_mark (rp_parser rp)"], rule exI [of _ "hp_field_start (rp_parser rp)"], rule exI [of _ "hp_field_len (rp_parser rp)"],
      simp add: set_fields_def)
next
  case (Cons f fs)
  obtain k v where f: "f = (k, v)" by (cases f)
  have ok: "k \<noteq> []" "\<forall>b \<in> set k. token_char (sint b)" "\<forall>b \<in> set v. value_char (sint b)" "v = [] \<or> hd v \<noteq> 9 \<and> hd v \<noteq> 32"
    using Cons.prems(1) by (simp_all add: f field_ok_def list_all_iff)
  have len: "length (field_text f) = length k + length v + 4" by (simp add: field_text_def f CRLF_def)
  have at: "text_at mem p (k @ str '': '' @ v)" "text_at mem (p + length (field_text f)) (concat (map field_text fs))"
    using Cons.prems(2) text_at_append [of mem p "field_text f" "concat (map field_text fs)"]
      text_at_append [of mem p "k @ str '': '' @ v" CRLF] by (simp_all add: field_text_def [of "(k, v)"] f)
  let ?rp = "rp\<lparr>rp_parser := (rp_parser rp)\<lparr>hp_field_start := p, hp_field_len := length k, hp_mark := p + length k + 2\<rparr>,
      rp_data := req_setHeader k v (rp_data rp)\<rparr>"
  have run: "parser_run mem r (concat (map field_text (f # fs)) @ xs) 13 p rp
      = parser_run mem r (concat (map field_text fs) @ xs) 13 (p + length (field_text f)) ?rp"
    using field_part [OF ok at(1) Cons.prems(3), of r "concat (map field_text fs) @ xs" rp] by (simp add: field_text_def f CRLF_def add.assoc plus_Suc)
  have "\<exists>mk fst fl. mk < p + length (field_text f) + length (concat (map field_text fs))
      \<and> fst < p + length (field_text f) + length (concat (map field_text fs)) \<and> fl < p + length (field_text f) + length (concat (map field_text fs))
      \<and> parser_run mem r (concat (map field_text fs) @ xs) 13 (p + length (field_text f)) ?rp
        = parser_run mem r xs 13 (p + length (field_text f) + length (concat (map field_text fs)))
          (?rp\<lparr>rp_parser := (rp_parser ?rp)\<lparr>hp_field_start := fst, hp_field_len := fl, hp_mark := mk\<rparr>, rp_data := set_fields fs (rp_data ?rp)\<rparr>)"
    using Cons.prems(1,3,4) at(2) by (intro Cons.IH) (simp_all add: len)
  then obtain mk fst fl where IH: "mk < p + length (field_text f) + length (concat (map field_text fs))"
      "fst < p + length (field_text f) + length (concat (map field_text fs))" "fl < p + length (field_text f) + length (concat (map field_text fs))"
      "parser_run mem r (concat (map field_text fs) @ xs) 13 (p + length (field_text f)) ?rp
        = parser_run mem r xs 13 (p + length (field_text f) + length (concat (map field_text fs)))
          (?rp\<lparr>rp_parser := (rp_parser ?rp)\<lparr>hp_field_start := fst, hp_field_len := fl, hp_mark := mk\<rparr>, rp_data := set_fields fs (rp_data ?rp)\<rparr>)"
    by blast
  show ?case
    using IH unfolding run by - (rule exI [of _ mk], rule exI [of _ fst], rule exI [of _ fl], simp add: set_fields_def f add.assoc)
qed

text \<open>The header lines that \<open>HttpRequest::dump\<close> prints, and its text up to the body.\<close>

definition printed_fields :: "HttpRequest \<Rightarrow> (bytes \<times> bytes) list" where
  "printed_fields q =
     (if rq_websocket q then [] else [(str ''connection'', if rq_close q then str ''close'' else str ''keep-alive'')])
     @ filter (\<lambda>(k, v). \<not> (\<not> rq_websocket q \<and> same_name k (str ''connection'')) \<and> \<not> same_name k (str ''content-length'')) (rq_headers q)
     @ (if rq_body q = [] then [] else [(str ''content-length'', str (dec (length (rq_body q))))])"

definition lines_text :: "HttpRequest \<Rightarrow> bytes" where
  "lines_text q =
     HttpMethodToString (rq_method q) @ 32 # target_text q @ 32 # version_text (rq_version q) @ CRLF
     @ concat (map field_text (printed_fields q))"

definition head_text :: "HttpRequest \<Rightarrow> bytes" where
  "head_text q = lines_text q @ CRLF"

lemma concat_map_filter: "concat (map (\<lambda>x. if P x then [] else f x) xs) = concat (map f (filter (\<lambda>x. \<not> P x) xs))"
  by (induction xs) auto

lemma req_dump_head: "req_dump q = head_text q @ rq_body q"
proof -
  let ?skip = "\<lambda>(k, v :: bytes). \<not> rq_websocket q \<and> same_name k (str ''connection'') \<or> same_name k (str ''content-length'')"
  have "(\<lambda>(k, v). if \<not> rq_websocket q \<and> same_name k (str ''connection'') then [] else if same_name k (str ''content-length'') then []
      else k @ str '': '' @ v @ CRLF) = (\<lambda>x. if ?skip x then [] else field_text x)"
    by (auto simp: field_text_def fun_eq_iff)
  moreover have "(\<lambda>x. \<not> ?skip x) = (\<lambda>(k, v). \<not> (\<not> rq_websocket q \<and> same_name k (str ''connection'')) \<and> \<not> same_name k (str ''content-length''))"
    by (auto simp: fun_eq_iff)
  moreover have "str '' '' = [32]" "str ''connection: '' = str ''connection'' @ str '': ''"
      "str ''content-length: '' = str ''content-length'' @ str '': ''" by (simp_all add: str_def)
  ultimately show ?thesis
    by (simp add: req_dump_def head_text_def lines_text_def target_text_def printed_fields_def concat_map_filter field_text_def [of "(a, b)" for a b])
qed

definition request_ok :: "HttpRequest \<Rightarrow> bool" where
  "request_ok q \<longleftrightarrow>
     rq_method q \<notin> {M_INVALID_METHOD, M_MSEARCH} \<and> target_ok q \<and> (rq_version q = 0x10 \<or> rq_version q = 0x11)
   \<and> list_all field_ok (rq_headers q) \<and> omap_ok CaseInsensitiveLess (rq_headers q)"

lemma printed_fields_ok: "list_all field_ok (rq_headers q) \<Longrightarrow> list_all field_ok (printed_fields q)"
proof -
  assume h: "list_all field_ok (rq_headers q)"
  have "field_ok (str ''content-length'', str (dec n))" for n
  proof -
    have "value_char (sint c)" "c \<noteq> 9" "c \<noteq> 32" if "c \<in> set (str (dec n))" for c
      using dec_digits [OF that] by (auto simp: value_char_def)
    moreover have "field_ok (str ''content-length'', [])" by code_simp
    ultimately show ?thesis by (auto simp: field_ok_def list_all_iff)
  qed
  moreover have "field_ok (str ''connection'', str ''close'')" "field_ok (str ''connection'', str ''keep-alive'')" by code_simp+
  ultimately show ?thesis using h by (auto simp: printed_fields_def list_all_iff)
qed

lemma method_text:
  assumes "m \<notin> {M_INVALID_METHOD, M_MSEARCH}"
  shows "HttpMethodToString m \<noteq> []" and "length (HttpMethodToString m) \<le> 20" and "\<forall>b \<in> set (HttpMethodToString m). method_char (sint b)"
    and "CharsToHttpMethod (HttpMethodToString m @ rest) = m"
proof -
  obtain i where i: "i < length method_names" "fst (method_names ! i) = m"
    using names_all [of m] assms by (auto simp: in_set_conv_nth)
  then have e: "method_names ! i = (m, snd (method_names ! i))" by auto
  let ?s = "snd (method_names ! i)"
  have "list_all (\<lambda>(m, s). m \<noteq> M_MSEARCH \<longrightarrow> s \<noteq> [] \<and> length s \<le> 20 \<and> list_all (\<lambda>b. method_char (sint b)) (str s)) method_names"
    by code_simp
  then have "?s \<noteq> [] \<and> length ?s \<le> 20 \<and> list_all (\<lambda>b. method_char (sint b)) (str ?s)"
    using i(1) e assms by (auto simp: list_all_length split: prod.splits)
  moreover have "HttpMethodToString m = str ?s" "CharsToHttpMethod (str ?s @ rest) = m" using method_at [OF i(1) e] by simp_all
  ultimately show "HttpMethodToString m \<noteq> []" "length (HttpMethodToString m) \<le> 20" "\<forall>b \<in> set (HttpMethodToString m). method_char (sint b)"
      "CharsToHttpMethod (HttpMethodToString m @ rest) = m"
    by (auto simp: list_all_iff str_def)
qed

text \<open>The head of a request is followed to the last state; the body is not looked at.\<close>

definition parsed_data :: "HttpRequest \<Rightarrow> HttpRequest \<Rightarrow> HttpRequest" where
  "parsed_data q d =
     set_fields (printed_fields q) ((with_target q (d\<lparr>rq_method := rq_method q\<rparr>))\<lparr>rq_version := rq_version q\<rparr>)"

lemma lines_part:
  assumes "request_ok q" and "text_at mem 0 (lines_text q)" and "length mem < 2 ^ 63"
    and "hp_field_start (rp_parser rp) = 0" and "hp_field_len (rp_parser rp) = 0"
  shows "\<exists>mk qs fst fl. mk < length (lines_text q) \<and> fst < length (lines_text q) \<and> fl < length (lines_text q)
    \<and> parser_run mem r (lines_text q @ xs) 1 0 rp = parser_run mem r xs 13 (length (lines_text q))
        (rp\<lparr>rp_parser := (rp_parser rp)\<lparr>hp_query_start := qs, hp_field_start := fst, hp_field_len := fl, hp_mark := mk\<rparr>,
          rp_data := parsed_data q (rp_data rp)\<rparr>)"
proof -
  let ?M = "HttpMethodToString (rq_method q)" and ?F = "concat (map field_text (printed_fields q))"
  let ?p1 = "length ?M + 1" and ?V = "version_text (rq_version q)"
  let ?p2 = "?p1 + length (target_text q) + 1"
  let ?p3 = "?p2 + 10"
  let ?p4 = "?p3 + length ?F"
  have M: "rq_method q \<notin> {M_INVALID_METHOD, M_MSEARCH}" and T: "target_ok q" and V: "rq_version q = 0x10 \<or> rq_version q = 0x11"
    and F: "list_all field_ok (printed_fields q)"
    using assms(1) printed_fields_ok by (simp_all add: request_ok_def)
  have vlen: "length ?V = 8" using V by (auto simp: version_texts)
  have head: "lines_text q = ?M @ [32] @ target_text q @ [32] @ ?V @ CRLF @ ?F" by (simp add: lines_text_def)
  have H: "length (lines_text q) = ?p4" by (simp add: lines_text_def vlen CRLF_def)
  have parts: "text_at mem 0 ?M" "text_at mem ?p1 (target_text q)" "text_at mem ?p2 ?V" "text_at mem ?p3 ?F"
    using assms(2) unfolding head by (simp_all only: text_at_append vlen) (simp_all add: CRLF_def)
  have "CharsToHttpMethod (drop 0 mem) = rq_method q"
    using parts(1) method_text(4) [OF M] by (metis append_take_drop_id text_at_def drop0)
  then have m: "parser_run mem r (lines_text q @ xs) 1 0 rp = parser_run mem r (target_text q @ 32 # ?V @ CRLF @ ?F @ xs) 3 ?p1
      (rp\<lparr>rp_parser := (rp_parser rp)\<lparr>hp_mark := 0\<rparr>, rp_data := (rp_data rp)\<lparr>rq_method := rq_method q\<rparr>\<rparr>)" (is "_ = parser_run _ _ _ _ _ ?rp1")
    using method_part [OF method_text(1-3) [OF M], of 0 mem "rq_method q" r _ rp] M by (simp add: lines_text_def)
  obtain mk qs where t: "parser_run mem r (target_text q @ 32 # ?V @ CRLF @ ?F @ xs) 3 ?p1 ?rp1 = parser_run mem r (?V @ CRLF @ ?F @ xs) 4 ?p2
      (?rp1\<lparr>rp_parser := (rp_parser ?rp1)\<lparr>hp_mark := mk, hp_query_start := qs\<rparr>, rp_data := with_target q (rp_data ?rp1)\<rparr>)" (is "_ = parser_run _ _ _ _ _ ?rp2")
    using target_part [OF T parts(2) assms(3), of r _ ?rp1] by blast
  have v: "parser_run mem r (?V @ CRLF @ ?F @ xs) 4 ?p2 ?rp2 = parser_run mem r (?F @ xs) 13 ?p3
      (?rp2\<lparr>rp_parser := (rp_parser ?rp2)\<lparr>hp_mark := ?p2\<rparr>, rp_data := (rp_data ?rp2)\<lparr>rq_version := rq_version q\<rparr>\<rparr>)" (is "_ = parser_run _ _ _ _ _ ?rp3")
    by (rule version_part [OF V parts(3)])
  obtain mk' fst fl where f: "mk' < ?p4" "fst < ?p4" "fl < ?p4"
      "parser_run mem r (?F @ xs) 13 ?p3 ?rp3 = parser_run mem r xs 13 ?p4
        (?rp3\<lparr>rp_parser := (rp_parser ?rp3)\<lparr>hp_field_start := fst, hp_field_len := fl, hp_mark := mk'\<rparr>,
          rp_data := set_fields (printed_fields q) (rp_data ?rp3)\<rparr>)" (is "_ = parser_run _ _ _ _ _ ?rp4")
    using fields_part [OF F parts(4) assms(3), of ?rp3 r xs] assms(4,5) by auto
  show ?thesis
    unfolding m t v f(4)
    using f(1-3) by - (rule exI [of _ mk'], rule exI [of _ qs], rule exI [of _ fst], rule exI [of _ fl], simp add: H parsed_data_def)
qed

lemma head_part:
  assumes "request_ok q" and "text_at mem 0 (head_text q)" and "length mem < 2 ^ 63"
    and "\<not> hp_xml_sent (rp_parser rp)" and "\<not> hp_json_sent (rp_parser rp)"
    and "hp_field_start (rp_parser rp) = 0" and "hp_field_len (rp_parser rp) = 0"
  shows "\<exists>mk qs fst fl. mk < length (head_text q) \<and> fst < length (head_text q) \<and> fl < length (head_text q)
    \<and> parser_run mem r (head_text q @ xs) 1 0 rp = Inr (348, length (head_text q),
        rp\<lparr>rp_parser := (rp_parser rp)\<lparr>hp_mark := mk, hp_query_start := qs, hp_field_start := fst, hp_field_len := fl,
          hp_body_start := length (head_text q)\<rparr>, rp_data := parsed_data q (rp_data rp)\<rparr>)"
proof -
  let ?L = "length (lines_text q)"
  have "text_at mem 0 (lines_text q)" using assms(2) by (simp add: head_text_def text_at_append)
  then obtain mk qs fst fl where lines: "mk < ?L" "fst < ?L" "fl < ?L"
      "parser_run mem r (lines_text q @ CRLF @ xs) 1 0 rp = parser_run mem r (CRLF @ xs) 13 ?L
        (rp\<lparr>rp_parser := (rp_parser rp)\<lparr>hp_query_start := qs, hp_field_start := fst, hp_field_len := fl, hp_mark := mk\<rparr>,
          rp_data := parsed_data q (rp_data rp)\<rparr>)" (is "_ = parser_run _ _ _ _ _ ?rp1")
    using lines_part [OF assms(1) _ assms(3,6,7), of r "CRLF @ xs"] by blast
  have e: "parser_run mem r (CRLF @ xs) 13 ?L ?rp1 = Inr (348, ?L + 2,
      ?rp1\<lparr>rp_parser := (rp_parser ?rp1)\<lparr>hp_field_start := ?L, hp_body_start := ?L + 2\<rparr>\<rparr>)"
    using assms(4,5) by (intro end_part) simp_all
  show ?thesis
    unfolding head_text_def append_assoc lines(4) e
    using lines(1-3) by - (rule exI [of _ mk], rule exI [of _ qs], rule exI [of _ ?L], rule exI [of _ fl], simp add: CRLF_def)
qed

lemma set_fields_same:
  "rq_method (set_fields fs d) = rq_method d" "rq_version (set_fields fs d) = rq_version d" "rq_path (set_fields fs d) = rq_path d"
  "rq_query (set_fields fs d) = rq_query d" "rq_fragment (set_fields fs d) = rq_fragment d"
  "rq_headers (set_fields fs d) = fold (\<lambda>(k, v). map_set k v) fs (rq_headers d)"
  by (induction fs arbitrary: d) (auto simp: set_fields_def req_setHeader_def)

lemma same_name_iff: "0 \<notin> set t \<Longrightarrow> same_name k t \<longleftrightarrow> key_of k = key_of t"
  using strcasecmp_eq_0 [OF zero_notin_c_str, of t k] by (simp add: same_name_def key_of_def c_str_id)

lemma reserved_names:
  "key_of (str ''connection'') \<noteq> key_of (str ''content-length'')" "0 \<notin> set (str ''connection'')" "0 \<notin> set (str ''content-length'')"
  by code_simp+

text \<open>What a lookup in the parsed request finds.\<close>

definition printed_value :: "HttpRequest \<Rightarrow> bytes \<Rightarrow> bytes option" where
  "printed_value q k =
     (if same_name k (str ''content-length'') then (if rq_body q = [] then None else Some (str (dec (length (rq_body q)))))
      else if same_name k (str ''connection'') \<and> \<not> rq_websocket q then Some (if rq_close q then str ''close'' else str ''keep-alive'')
      else map_find k (rq_headers q))"

lemma find_none: "\<forall>(l, v) \<in> set m. key_of k \<noteq> key_of l \<Longrightarrow> map_find k m = None"
  by (induction m) (auto simp: same_key_iff)

lemma printed_found:
  assumes "omap_ok CaseInsensitiveLess (rq_headers q)"
  shows "map_find k (fold (\<lambda>(k, v). map_set k v) (printed_fields q) []) = printed_value q k"
proof -
  let ?skip = "\<lambda>(k, v :: bytes). \<not> (\<not> rq_websocket q \<and> same_name k (str ''connection'')) \<and> \<not> same_name k (str ''content-length'')"
  let ?m = "filter ?skip (rq_headers q)"
  have rest: "map_find k ?m = None" if "same_name k (str ''content-length'') \<or> same_name k (str ''connection'') \<and> \<not> rq_websocket q"
    using that by (intro find_none) (auto simp: same_name_iff reserved_names)
  have other: "map_find k ?m = map_find k (rq_headers q)" if "\<not> (same_name k (str ''content-length'') \<or> same_name k (str ''connection'') \<and> \<not> rq_websocket q)"
    using that by (intro header_map.find_kept) (auto simp: same_name_iff reserved_names same_key_iff)
  note found = header_map.find_set header_map.find_fold_set [OF header_map.ok_filter [OF assms]] same_key_iff
  show ?thesis
    using rest other reserved_names(1)
    by (auto simp: printed_fields_def printed_value_def found same_name_iff reserved_names split: option.splits)
qed

lemma execute_run:
  assumes "parser_run mem (hp_uri_relaxed (rp_parser rp)) (take len mem) (hp_cs (rp_parser rp)) 0
      (on_parser (\<lambda>h. h\<lparr>hp_nread := 0, hp_mark := 0, hp_field_len := 0, hp_field_start := 0\<rparr>) rp) = Inr (cs, p, rp1)"
    and "len \<noteq> 0" and "\<not> http_parser_has_error (rp_parser rp1)"
    and "parsed_ok len (rp_parser (on_parser (\<lambda>h. h\<lparr>hp_cs := cs, hp_nread := p\<rparr>) rp1))"
  shows "http_parser_execute mem len 0 rp = Inr (p, on_parser (\<lambda>h. h\<lparr>hp_cs := cs, hp_nread := p\<rparr>) rp1)"
  using assms by (simp add: http_parser_execute_def on_parser_def)

lemma parser_new:
  "hp_uri_relaxed (rp_parser (HttpRequestParser_new g)) = hp_uri_relaxed g" "hp_cs (rp_parser (HttpRequestParser_new g)) = 1"
  "rp_error (HttpRequestParser_new g) = 0" "rp_data (HttpRequestParser_new g) = HttpRequest_new 0x11 True"
  "\<not> hp_xml_sent (rp_parser (HttpRequestParser_new g))" "\<not> hp_json_sent (rp_parser (HttpRequestParser_new g))"
  "hp_body_start (rp_parser (HttpRequestParser_new g)) = 0"
  by (simp_all add: HttpRequestParser_new_def http_parser_init_def)

lemma head_executed:
  assumes "request_ok q" and "text_at mem 0 (head_text q)" and "length mem < 2 ^ 63" and "length (head_text q) \<le> n"
  shows "\<exists>rp. http_parser_execute mem n 0 (HttpRequestParser_new garbage) = Inr (length (head_text q), rp)
    \<and> hp_cs (rp_parser rp) = 348 \<and> rp_error rp = 0 \<and> rp_data rp = parsed_data q (HttpRequest_new 0x11 True)"
proof -
  let ?rp0 = "on_parser (\<lambda>h. h\<lparr>hp_nread := 0, hp_mark := 0, hp_field_len := 0, hp_field_start := 0\<rparr>) (HttpRequestParser_new garbage)"
  let ?H = "length (head_text q)" and ?r = "hp_uri_relaxed garbage"
  have txt_of: "take n mem = head_text q @ take (n - ?H) (drop ?H mem)"
    using assms(2,4) by (metis append_take_drop_id text_at_def drop0 take_append take_all_iff)
  obtain mk qs fst fl where run: "mk < ?H" "fst < ?H" "fl < ?H"
      "parser_run mem ?r (take n mem) 1 0 ?rp0 = Inr (348, ?H,
        ?rp0\<lparr>rp_parser := (rp_parser ?rp0)\<lparr>hp_mark := mk, hp_query_start := qs, hp_field_start := fst, hp_field_len := fl,
          hp_body_start := ?H\<rparr>, rp_data := parsed_data q (rp_data ?rp0)\<rparr>)" (is "_ = Inr (_, _, ?rp1)")
    unfolding txt_of using head_part [OF assms(1-3), of ?rp0 ?r "take (n - ?H) (drop ?H mem)"] by (auto simp: on_parser_def parser_new)
  define rp where "rp = on_parser (\<lambda>h. h\<lparr>hp_cs := 348, hp_nread := ?H\<rparr>) ?rp1"
  have "parsed_ok n (rp_parser rp)" using run(1-3) assms(4) by (simp add: parsed_ok_def rp_def on_parser_def)
  moreover have "\<not> http_parser_has_error (rp_parser ?rp1)" "n \<noteq> 0"
    using run(1) assms(4) by (auto simp: on_parser_def http_parser_has_error_def parser_new)
  ultimately have "http_parser_execute mem n 0 (HttpRequestParser_new garbage) = Inr (?H, rp)"
    using execute_run [where mem = mem and rp = "HttpRequestParser_new garbage" and len = n, unfolded parser_new, OF run(4)] by (simp add: rp_def)
  moreover have "hp_cs (rp_parser rp) = 348" "rp_error rp = 0" "rp_data rp = parsed_data q (HttpRequest_new 0x11 True)"
    by (simp_all add: rp_def on_parser_def parser_new)
  ultimately show ?thesis by blast
qed

lemma parsed_data_new:
  assumes "request_ok q"
  defines "d \<equiv> parsed_data q (HttpRequest_new 0x11 True)"
  shows "rq_method d = rq_method q" "rq_version d = rq_version q" "rq_path d = rq_path q" "rq_query d = rq_query q"
    "rq_fragment d = rq_fragment q" "map_find k (rq_headers d) = printed_value q k"
  using assms(1)
  by (simp_all add: d_def parsed_data_def set_fields_same printed_found with_target_def HttpRequest_new_def request_ok_def)

text \<open>C6. A request that \<open>HttpRequest::dump\<close> printed is read back by \<open>HttpRequestParser::execute\<close>: the parser stops right
  before the body, which is then at the front of the buffer; it is finished and has no error, and its request has
  the method, path, query, fragment and version of the one printed and, for every name, the header value printed.
\<close>

theorem request_text_parsed:
  assumes "request_ok q" and "length (req_dump q @ junk) < 2 ^ 63"
  shows "\<exists>mem' rp. HttpRequestParser_execute (req_dump q @ junk) (length (req_dump q)) (HttpRequestParser_new garbage)
      = Inr (length (req_dump q) - length (rq_body q), mem', rp)
    \<and> HttpRequestParser_isFinished rp = 1 \<and> \<not> HttpRequestParser_hasError rp
    \<and> take (length (rq_body q)) mem' = rq_body q
    \<and> rq_method (rp_data rp) = rq_method q \<and> rq_version (rp_data rp) = rq_version q \<and> rq_path (rp_data rp) = rq_path q
    \<and> rq_query (rp_data rp) = rq_query q \<and> rq_fragment (rp_data rp) = rq_fragment q
    \<and> (\<forall>k. map_find k (rq_headers (rp_data rp)) = printed_value q k)"
proof -
  let ?mem = "req_dump q @ junk" and ?n = "length (req_dump q)"
  have "text_at ?mem 0 (head_text q)" "length (head_text q) \<le> ?n" by (simp_all add: req_dump_head text_at_front)
  then obtain rp where rp: "http_parser_execute ?mem ?n 0 (HttpRequestParser_new garbage) = Inr (length (head_text q), rp)"
      "hp_cs (rp_parser rp) = 348" "rp_error rp = 0" "rp_data rp = parsed_data q (HttpRequest_new 0x11 True)"
    using head_executed [OF assms(1) _ assms(2)] by blast
  then show ?thesis
    using parsed_data_new [OF assms(1)]
    by (simp add: HttpRequestParser_execute_def HttpRequestParser_isFinished_def HttpRequestParser_hasError_def http_parser_finish_def
        http_parser_has_error_def http_parser_is_finished_def req_dump_head blit_def)
qed

definition sample_request :: HttpRequest where
  "sample_request = (HttpRequest_new 0x11 False)\<lparr>rq_method := M_POST, rq_path := str ''/chat'', rq_query := str ''room=1'',
     rq_body := str ''hello'', rq_headers := [(str ''Host'', str ''a.b'')]\<rparr>"

lemma sample_ok: "request_ok sample_request"
proof -
  have "target_ok sample_request"
    by (simp add: sample_request_def target_ok_def HttpRequest_new_def str_def path_char_def query_char_def)
  moreover have "field_ok (str ''Host'', str ''a.b'')" by code_simp
  ultimately show ?thesis by (simp add: request_ok_def sample_request_def omap_ok_def HttpRequest_new_def)
qed

definition no_parser :: http_parser where
  "no_parser = http_parser.make 0 0 0 0 0 0 0 0 False False False"

theorem request_text_parsed_witness:
  "request_ok sample_request \<and>
   (\<exists>mem' rp. HttpRequestParser_execute (req_dump sample_request @ [1, 2]) (length (req_dump sample_request)) (HttpRequestParser_new no_parser)
      = Inr (length (req_dump sample_request) - 5, mem', rp) \<and> HttpRequestParser_isFinished rp = 1
    \<and> rq_path (rp_data rp) = str ''/chat'' \<and> map_find (str ''host'') (rq_headers (rp_data rp)) = printed_value sample_request (str ''host''))"
proof -
  have "length (req_dump sample_request @ [1, 2]) < 200" by code_simp
  then have "length (req_dump sample_request @ [1, 2]) < 2 ^ 63" by simp
  from request_text_parsed [OF sample_ok this, of no_parser] sample_ok
  show ?thesis by (auto simp: sample_request_def str_def)
qed

text \<open>A header line that is cut inside its value: the first part brings the machine to state 16.\<close>

lemma cut_field_part:
  assumes "field_ok (k, v)" and "v \<noteq> []"
  shows "parser_run mem r (k @ str '': '' @ v) 13 p rp = Inr (16, p + length k + length v + 2,
    rp\<lparr>rp_parser := (rp_parser rp)\<lparr>hp_field_start := p, hp_field_len := length k, hp_mark := p + length k + 2\<rparr>\<rparr>)"
proof -
  obtain b bs c cs where k: "k = b # bs" and v: "v = c # cs" using assms by (cases k; cases v) (auto simp: field_ok_def)
  have ok: "\<forall>x \<in> set k. token_char (sint x)" "\<forall>x \<in> set v. value_char (sint x)" "sint c \<noteq> 9" "sint c \<noteq> 32"
    using assms(1) signed_word_eqI [of c 9] signed_word_eqI [of c 32] by (auto simp: field_ok_def list_all_iff v)
  have sep: "str '': '' = [58, 32]" by (simp add: str_def)
  let ?h = "(rp_parser rp)\<lparr>hp_field_start := p\<rparr>"
  have "parser_run mem r (k @ str '': '' @ v) 13 p rp = parser_run mem r (bs @ str '': '' @ v) 14 (p + 1) (rp\<lparr>rp_parser := ?h\<rparr>)"
    using label_token(1) [of "sint b" r] ok(1) by (simp add: k h_tr23_def on_parser_def)
  also have "\<dots> = parser_run mem r (str '': '' @ v) 14 (p + length k) (rp\<lparr>rp_parser := ?h\<rparr>)"
    using label_token(2) ok(1) by (subst run_machine_loop) (simp_all add: k)
  also have "\<dots> = parser_run mem r (cs @ []) 16 (p + length k + 3)
      (rp\<lparr>rp_parser := ?h\<lparr>hp_field_len := length k, hp_mark := p + length k + 2\<rparr>\<rparr>)"
    using label_field(1,2) [of r] label_value(1) [of "sint c" r] ok(2-4)
    by (simp add: sep v h_tr27_def h_tr29_def h_tr28_def on_parser_def numeral_3_eq_3)
  also have "\<dots> = Inr (16, p + length k + length v + 2, rp\<lparr>rp_parser := ?h\<lparr>hp_field_len := length k, hp_mark := p + length k + 2\<rparr>\<rparr>)"
    using label_value(2) ok(2) by (subst run_machine_loop) (simp_all add: v)
  finally show ?thesis .
qed

text \<open>The rest of the value and the end of the head, in a later call: the field is not stored.\<close>

lemma late_value_part:
  assumes "\<forall>b \<in> set v. value_char (sint b)" and "hp_field_len (rp_parser rp) = 0"
    and "\<not> hp_xml_sent (rp_parser rp)" and "\<not> hp_json_sent (rp_parser rp)"
  shows "parser_run mem r (v @ CRLF @ CRLF) 16 p rp = Inr (348, p + length v + 4,
    rp\<lparr>rp_parser := (rp_parser rp)\<lparr>hp_field_start := p + length v + 2, hp_body_start := p + length v + 4\<rparr>\<rparr>)"
proof -
  have "parser_run mem r (v @ CRLF @ CRLF) 16 p rp = parser_run mem r (CRLF @ CRLF) 16 (p + length v) rp"
    using label_value(2) assms(1) by (subst run_machine_loop) simp_all
  also have "\<dots> = parser_run mem r (CRLF @ []) 13 (p + length v + 2) rp"
    using label_field(4,5) [of r] assms(2) by (simp add: CRLF_def h_tr34_def goto_def act_defs Let_def)
  also have "\<dots> = Inr (348, p + length v + 4,
    rp\<lparr>rp_parser := (rp_parser rp)\<lparr>hp_field_start := p + length v + 2, hp_body_start := p + length v + 4\<rparr>\<rparr>)"
    using end_part [OF assms(3,4), where r = r and mem = mem and xs = "[]" and p = "p + length v + 2"] by (simp add: eval_nat_numeral)
  finally show ?thesis .
qed

text \<open>C39. The parser forgets its marks between two calls of \<open>execute\<close>: a request whose last header line is cut inside its value,
  so that it arrives in two packets, is accepted without error and without that header. Every other header is there.
\<close>

theorem cut_header_lost:
  assumes "request_ok q" and "field_ok (k, v @ w)" and "v \<noteq> []"
  defines "a \<equiv> lines_text q @ k @ str '': '' @ v" and "b \<equiv> w @ CRLF @ CRLF"
  assumes "length a < 2 ^ 63"
  shows "\<exists>m1 rp1 m2 rp2. HttpRequestParser_execute a (length a) (HttpRequestParser_new garbage) = Inr (length a, m1, rp1)
    \<and> HttpRequestParser_isFinished rp1 = 0 \<and> \<not> HttpRequestParser_hasError rp1
    \<and> HttpRequestParser_execute b (length b) rp1 = Inr (length b, m2, rp2)
    \<and> HttpRequestParser_isFinished rp2 = 1 \<and> \<not> HttpRequestParser_hasError rp2
    \<and> (\<forall>n. map_find n (rq_headers (rp_data rp2)) = printed_value q n)"
proof -
  let ?reset = "on_parser (\<lambda>h. h\<lparr>hp_nread := 0, hp_mark := 0, hp_field_len := 0, hp_field_start := 0\<rparr>)"
  let ?new = "HttpRequestParser_new garbage" and ?r = "hp_uri_relaxed garbage" and ?d = "parsed_data q (HttpRequest_new 0x11 True)"
  let ?L = "length (lines_text q)"
  have ok: "field_ok (k, v)" "\<forall>x \<in> set w. value_char (sint x)" using assms(2,3) by (auto simp: field_ok_def list_all_iff)
  have at: "text_at a 0 (lines_text q)" by (simp add: a_def text_at_front)
  obtain qs where run1: "parser_run a ?r a 1 0 (?reset ?new) = Inr (16, length a, (?reset ?new)\<lparr>rp_parser := (rp_parser (?reset ?new))\<lparr>hp_query_start := qs,
      hp_field_start := ?L, hp_field_len := length k, hp_mark := ?L + length k + 2\<rparr>, rp_data := ?d\<rparr>)" (is "_ = Inr (_, _, ?rp1)")
  proof -
    obtain mk qs fst fl where "parser_run a ?r (lines_text q @ k @ str '': '' @ v) 1 0 (?reset ?new) = parser_run a ?r (k @ str '': '' @ v) 13 ?L
        ((?reset ?new)\<lparr>rp_parser := (rp_parser (?reset ?new))\<lparr>hp_query_start := qs, hp_field_start := fst, hp_field_len := fl, hp_mark := mk\<rparr>,
          rp_data := ?d\<rparr>)"
      using lines_part [OF assms(1) at assms(6), of "?reset ?new" ?r "k @ str '': '' @ v"] by (auto simp: on_parser_def parser_new)
    moreover have "length a = ?L + length k + length v + 2" by (simp add: a_def)
    ultimately show ?thesis
      using cut_field_part [OF ok(1) assms(3)] that [of qs] by (simp add: a_def [symmetric])
  qed
  define rp1 where "rp1 = on_parser (\<lambda>h. h\<lparr>hp_cs := 16, hp_nread := length a\<rparr>) ?rp1"
  have len: "length a = ?L + length k + length v + 2" "length k > 0" "length v > 0" using ok(1) assms(3) by (auto simp: a_def field_ok_def)
  have exec1: "http_parser_execute a (length a) 0 ?new = Inr (length a, rp1)"
    unfolding rp1_def using run1 len
    by (intro execute_run) (auto simp: parser_new on_parser_def http_parser_has_error_def parsed_ok_def)
  have rp1: "hp_cs (rp_parser rp1) = 16" "\<not> hp_xml_sent (rp_parser rp1)" "\<not> hp_json_sent (rp_parser rp1)" "rp_error rp1 = 0" "rp_data rp1 = ?d"
    by (simp_all add: rp1_def on_parser_def parser_new)
  let ?rp2 = "(?reset rp1)\<lparr>rp_parser := (rp_parser (?reset rp1))\<lparr>hp_field_start := length w + 2, hp_body_start := length w + 4\<rparr>\<rparr>"
  have run2: "parser_run b (hp_uri_relaxed (rp_parser rp1)) (take (length b) b) (hp_cs (rp_parser rp1)) 0 (?reset rp1) = Inr (348, length b, ?rp2)"
    using late_value_part [OF ok(2), where rp = "?reset rp1" and mem = b and r = "hp_uri_relaxed (rp_parser rp1)" and p = 0] rp1 by (simp add: b_def on_parser_def CRLF_def)
  define rp2 where "rp2 = on_parser (\<lambda>h. h\<lparr>hp_cs := 348, hp_nread := length b\<rparr>) ?rp2"
  have exec2: "http_parser_execute b (length b) 0 rp1 = Inr (length b, rp2)"
    unfolding rp2_def using run2 rp1(1)
    by (intro execute_run) (auto simp: on_parser_def http_parser_has_error_def parsed_ok_def b_def CRLF_def)
  have rp2: "hp_cs (rp_parser rp2) = 348" "rp_error rp2 = 0" "rp_data rp2 = ?d"
    using rp1 by (simp_all add: rp2_def on_parser_def)
  show ?thesis
    using exec1 exec2 rp1 rp2 parsed_data_new(6) [OF assms(1)]
    by (simp add: HttpRequestParser_execute_def HttpRequestParser_isFinished_def HttpRequestParser_hasError_def http_parser_finish_def
        http_parser_has_error_def http_parser_is_finished_def)
qed

theorem cut_header_lost_witness:
  "\<exists>m1 rp1 m2 rp2.
     HttpRequestParser_execute (lines_text sample_request @ str ''User'' @ str '': '' @ str ''ad'') (length (lines_text sample_request) + 8)
       (HttpRequestParser_new no_parser) = Inr (length (lines_text sample_request) + 8, m1, rp1)
   \<and> HttpRequestParser_execute (str ''a'' @ CRLF @ CRLF) 5 rp1 = Inr (5, m2, rp2) \<and> HttpRequestParser_isFinished rp2 = 1
   \<and> map_find (str ''User'') (rq_headers (rp_data rp2)) = None"
proof -
  have f: "field_ok (str ''User'', str ''ad'' @ str ''a'')" "str ''ad'' \<noteq> []" by code_simp+
  have "length (lines_text sample_request @ str ''User'' @ str '': '' @ str ''ad'') < 200" by code_simp
  then have "length (lines_text sample_request @ str ''User'' @ str '': '' @ str ''ad'') < 2 ^ 63" by simp
  note cut = cut_header_lost [OF sample_ok f this, of no_parser]
  have "length (lines_text sample_request @ str ''User'' @ str '': '' @ str ''ad'') = length (lines_text sample_request) + 8"
      "length (str ''a'' @ CRLF @ CRLF) = 5" by (simp_all add: str_def CRLF_def)
  note cut [unfolded this]
  moreover have "printed_value sample_request (str ''User'') = None" by code_simp
  ultimately show ?thesis by metis
qed

end
