(* ===== verification/HttpSession.thy ===== *)
theory HttpSession
  imports HttpRequestText SocketStream
begin

text \<open>
  \<^verbatim>\<open>src/chat/http/http_session.cc\<close>: the server's side of an HTTP/1 connection. \<open>HttpSession\<close> is a \<open>SocketStream\<close>;
  its \<open>read\<close>, \<open>write\<close> and \<open>close\<close> are parameters, as in \<open>Streams\<close>, and so is boost's \<open>lexical_cast\<close>.
  The loop that reads the head need not end, when the peer never stops to send header lines: not to return is
  \<open>None\<close>. A null pointer is the inner \<open>None\<close>. What \<open>new char[buff_size]\<close> and the parser hold at first is
  arbitrary.
\<close>

record 's session_env =
  se_read :: "'s raw_reader"
  se_write :: "'s raw_writer"
  se_close :: "'s \<Rightarrow> 's"
  se_buff :: int
  se_lexical_cast :: "bytes \<Rightarrow> 64 word option"

section \<open>Operations\<close>

text \<open>The loop over \<open>read\<close> and \<open>execute\<close>: with the parser it gives the buffer and the number of its bytes that are left.\<close>

partial_function (option) recv_head ::
    "'s session_env \<Rightarrow> nat \<Rightarrow> bytes \<Rightarrow> nat \<Rightarrow> HttpRequestParser \<Rightarrow> 's
      \<Rightarrow> (error + 's \<times> (HttpRequestParser \<times> bytes \<times> nat) option) option" where
  "recv_head E buff_size buffer offset parser s =
     (case se_read E (buff_size - offset) s of (rt, bs, s1) \<Rightarrow>
        if rt \<le> 0 then Some (Inr (se_close E s1, None))
        else
          let len = nat rt + offset in
          (case HttpRequestParser_execute (blit offset bs buffer) len parser of
             Inl e \<Rightarrow> Some (Inl e)
           | Inr (nparse, buffer', parser') \<Rightarrow>
               if HttpRequestParser_hasError parser' then Some (Inr (se_close E s1, None))
               else if len - nparse = buff_size then Some (Inr (se_close E s1, None))
               else if HttpRequestParser_isFinished parser' \<noteq> 0 then Some (Inr (s1, Some (parser', buffer', len - nparse)))
               else recv_head E buff_size buffer' (len - nparse) parser' s1))"

definition continue_text :: bytes where
  "continue_text = str ''HTTP/1.1 100 Continue'' @ CRLF @ CRLF"

definition expect_continue :: "'s session_env \<Rightarrow> HttpRequest \<Rightarrow> 's \<Rightarrow> HttpRequest \<times> 's" where
  "expect_continue E req s =
     (let v = req_getHeader (str ''Expect'') [] req in
      if same_name v (str ''100-continue'')
      then (req_delHeader (str ''Expect'') req, snd (writeFixSize_raw (se_write E) (se_buff E) continue_text s))
      else (req, s))"

definition recv_body :: "'s session_env \<Rightarrow> int \<Rightarrow> bytes \<Rightarrow> nat \<Rightarrow> HttpRequest \<Rightarrow> 's \<Rightarrow> 's \<times> HttpRequest option" where
  "recv_body E len buffer offset req s =
     (if len > 0 then
        let body = take (if len \<ge> int offset then offset else nat len) buffer;
            left = len - int offset
        in if left > 0 then
             (case readFixSize_raw (se_read E) (se_buff E) (nat left) s of (rt, bs, s1) \<Rightarrow>
                if rt \<le> 0 then (se_close E s1, None) else (s1, Some (req\<lparr>rq_body := body @ bs\<rparr>)))
           else (s, Some (req\<lparr>rq_body := body\<rparr>))
      else (s, Some req))"

definition HttpSession_recvRequest ::
    "'s session_env \<Rightarrow> bytes \<Rightarrow> http_parser \<Rightarrow> 's \<Rightarrow> (error + 's \<times> HttpRequest option) option" where
  "HttpSession_recvRequest E buffer garbage s =
     map_option (\<lambda>r. case r of
         Inl e \<Rightarrow> Inl e
       | Inr (s1, None) \<Rightarrow> Inr (s1, None)
       | Inr (s1, Some (parser, buffer', offset)) \<Rightarrow>
           let len = sint (HttpRequestParser_getContentLength (se_lexical_cast E) parser);
               (req, s2) = expect_continue E (rp_data parser) s1;
               (s3, res) = recv_body E len buffer' offset req s2
           in Inr (s3, map_option req_init res))
       (recv_head E (length buffer) buffer 0 (HttpRequestParser_new garbage) s)"

definition HttpSession_sendResponse :: "'s session_env \<Rightarrow> HttpResponse \<Rightarrow> 's \<Rightarrow> int \<times> 's" where
  "HttpSession_sendResponse E rsp s = writeFixSize_raw (se_write E) (se_buff E) (rsp_dump rsp) s"

section \<open>A request over a connection\<close>

lemma head_received:
  assumes "request_ok q" and "text_at (blit 0 bs buffer) 0 (head_text q)" and "length (head_text q) \<le> k" and "k \<le> length buffer"
    and "length bs \<le> length buffer" and "length buffer < 2 ^ 63" and "se_read E (length buffer) s = (int k, bs, s1)"
  shows "\<exists>rp. recv_head E (length buffer) buffer 0 (HttpRequestParser_new garbage) s
      = Some (Inr (s1, Some (rp, blit 0 (take (k - length (head_text q)) (drop (length (head_text q)) (blit 0 bs buffer))) (blit 0 bs buffer),
          k - length (head_text q))))
    \<and> rp_data rp = parsed_data q (HttpRequest_new 0x11 True)"
proof -
  have "length (blit 0 bs buffer) < 2 ^ 63" "head_text q \<noteq> []" using assms(5,6) by (auto simp: head_text_def CRLF_def)
  moreover obtain rp where "http_parser_execute (blit 0 bs buffer) k 0 (HttpRequestParser_new garbage) = Inr (length (head_text q), rp)"
      "hp_cs (rp_parser rp) = 348" "rp_error rp = 0" "rp_data rp = parsed_data q (HttpRequest_new 0x11 True)"
    using head_executed [OF assms(1,2) calculation(1) assms(3)] by blast
  moreover have "0 < k" "k - length (head_text q) \<noteq> length buffer" using calculation(2) assms(3,4) by (auto simp flip: length_greater_0_conv)
  ultimately show ?thesis
    using assms(7) by (subst recv_head.simps)
      (auto simp: HttpRequestParser_execute_def HttpRequestParser_isFinished_def HttpRequestParser_hasError_def http_parser_finish_def
        http_parser_has_error_def http_parser_is_finished_def)
qed

lemma body_received:
  assumes "delivers_raw (se_read E) inc" and "0 < se_buff E" and "length body < 2 ^ 31"
    and "take j buffer = take j (body @ rest)" and "inc s = drop j (body @ rest)" and "j \<le> length (body @ rest)" and "rq_body req = []"
  shows "\<exists>s'. recv_body E (int (length body)) buffer j req s = (s', Some (req\<lparr>rq_body := body\<rparr>))
    \<and> inc s' = drop (max j (length body) - length body) rest"
proof -
  consider "body = []" | "body \<noteq> []" "length body \<le> j" | "j < length body" by linarith
  then show ?thesis
  proof cases
    case 1
    then show ?thesis using assms(5,7) by (simp add: recv_body_def)
  next
    case 2
    have "take (length body) buffer = take (length body) (take j buffer)" using 2 by (simp add: min_absorb1)
    then have "take (length body) buffer = body" using assms(4) 2 by simp
    then show ?thesis using 2 assms(5) by (auto simp: recv_body_def max_def)
  next
    case 3
    have "inc s = drop j body @ rest" "take j buffer = take j body" using 3 assms(4,5) by simp_all
    then obtain s' where "readFixSize_raw (se_read E) (se_buff E) (length body - j) s = (int (length body - j), drop j body, s')" "inc s' = rest"
      using read_raw_loop_reads [OF assms(1,2), of "length body - j" s "int (length body - j)" "[]"] c_int_small [of "length body - j"] assms(3)
      unfolding readFixSize_raw_def by auto
    moreover have "body \<noteq> []" using 3 by auto
    ultimately show ?thesis using 3 \<open>take j buffer = take j body\<close> by (simp add: recv_body_def nat_diff_distrib Let_def)
  qed
qed

lemma refill_front:
  fixes m :: bytes
  assumes "m = h @ take j xs @ ys" and "j \<le> length xs"
  shows "take j (blit 0 (take j (drop (length h) m)) m) = take j xs"
  using assms(2) unfolding assms(1) by (simp add: blit_def)

lemma set_fields_body: "rq_body (set_fields fs d) = rq_body d"
  by (induction fs arbitrary: d) (auto simp: set_fields_def req_setHeader_def)

lemma expect_name: "\<not> same_name (str ''Expect'') (str ''content-length'')" "\<not> same_name (str ''Expect'') (str ''connection'')"
  by code_simp+

lemma init_same:
  "rq_method (req_init r) = rq_method r" "rq_version (req_init r) = rq_version r" "rq_path (req_init r) = rq_path r"
  "rq_query (req_init r) = rq_query r" "rq_fragment (req_init r) = rq_fragment r" "rq_body (req_init r) = rq_body r"
  "rq_headers (req_init r) = rq_headers r"
  by (simp_all add: req_init_def Let_def)

lemma init_close:
  assumes "map_find (str ''connection'') (rq_headers r) = Some (if b then str ''close'' else str ''keep-alive'')"
  shows "rq_close (req_init r) = b"
proof -
  have "strcasecmp (c_str (str ''close'')) (str ''keep-alive'') \<noteq> 0" "strcasecmp (c_str (str ''keep-alive'')) (str ''keep-alive'') = 0"
      "str ''close'' \<noteq> []" "str ''keep-alive'' \<noteq> []"
    by code_simp+
  then show ?thesis using assms by (simp add: req_init_def req_getHeader_def get_or_def)
qed

text \<open>C5. A session receives the request that its peer printed: when the first \<open>read\<close> brings the whole head (any part of the
  body, and of what follows, may come with it), \<open>recvRequest\<close> returns the request with the method, target, version, body
  and header values that were printed, whatever the splitting of the rest of the body into packets; the kept-alive
  flag is that of the request. The bytes after the request stay in the stream, except those that came with the first
  \<open>read\<close>.
\<close>

theorem session_receives_request:
  assumes "request_ok q" and "delivers_raw (se_read E) inc" and "0 < se_buff E" and "inc s = req_dump q @ rest"
    and "se_read E (length buffer) s = (int k, take k (inc s), s1)" and "inc s1 = drop k (inc s)"
    and "length (head_text q) \<le> k" and "k \<le> length buffer" and "k \<le> length (inc s)"
    and "length buffer < 2 ^ 63" and "length (rq_body q) < 2 ^ 31" and "map_find (str ''Expect'') (rq_headers q) = None"
    and "se_lexical_cast E (str (dec (length (rq_body q)))) = Some (of_nat (length (rq_body q)))"
  shows "\<exists>s' q'. HttpSession_recvRequest E buffer garbage s = Some (Inr (s', Some q'))
    \<and> rq_method q' = rq_method q \<and> rq_version q' = rq_version q \<and> rq_path q' = rq_path q \<and> rq_query q' = rq_query q
    \<and> rq_fragment q' = rq_fragment q \<and> rq_body q' = rq_body q \<and> (\<forall>n. map_find n (rq_headers q') = printed_value q n)
    \<and> (\<not> rq_websocket q \<longrightarrow> rq_close q' = rq_close q)
    \<and> inc s' = drop (k - length (req_dump q)) rest"
proof -
  let ?H = "length (head_text q)" and ?d = "parsed_data q (HttpRequest_new 0x11 True)"
  let ?mem = "blit 0 (take k (inc s)) buffer"
  let ?buf = "blit 0 (take (k - ?H) (drop ?H ?mem)) ?mem"
  note d = parsed_data_new [OF assms(1)]
  have inc: "inc s = head_text q @ rq_body q @ rest" using assms(4) by (simp add: req_dump_head)
  have mem: "?mem = head_text q @ take (k - ?H) (rq_body q @ rest) @ drop k buffer"
    using assms(7,9) by (simp add: blit_def min_absorb2 length_take [of k "inc s"] del: length_take) (simp add: inc)
  then have "text_at ?mem 0 (head_text q)" by (simp add: text_at_front)
  then obtain rp where rp: "recv_head E (length buffer) buffer 0 (HttpRequestParser_new garbage) s = Some (Inr (s1, Some (rp, ?buf, k - ?H)))" "rp_data rp = ?d"
    using head_received [OF assms(1) _ assms(7,8) _ assms(10,5)] assms(8) by fastforce
  have len: "sint (HttpRequestParser_getContentLength (se_lexical_cast E) rp) = int (length (rq_body q))"
    using assms(11,13) by (simp add: HttpRequestParser_getContentLength_def rp(2) d(6) printed_value_def same_name_iff reserved_names
        signed_of_nat signed_take_bit_int_eq_self)
  have expect: "expect_continue E ?d s1 = (?d, s1)"
    using assms(12) expect_name by (simp add: expect_continue_def req_getHeader_def d(6) printed_value_def get_or_def same_name_def c_str_def str_def)
  have buf: "take (k - ?H) ?buf = take (k - ?H) (rq_body q @ rest)"
    by (rule refill_front [OF mem]) (use assms(9) in \<open>simp add: inc\<close>)
  have "inc s1 = drop (k - ?H) (rq_body q @ rest)" "k - ?H \<le> length (rq_body q @ rest)" "rq_body ?d = []"
    using assms(6,7,9) set_fields_body by (simp_all add: inc parsed_data_def with_target_def HttpRequest_new_def)
  then obtain s' where body: "recv_body E (int (length (rq_body q))) ?buf (k - ?H) ?d s1 = (s', Some (?d\<lparr>rq_body := rq_body q\<rparr>))"
      "inc s' = drop (max (k - ?H) (length (rq_body q)) - length (rq_body q)) rest"
    using body_received [OF assms(2,3,11) buf] by blast
  have "k - length (req_dump q) = max (k - ?H) (length (rq_body q)) - length (rq_body q)" by (simp add: req_dump_head max_def)
  moreover have "HttpSession_recvRequest E buffer garbage s = Some (Inr (s', Some (req_init (?d\<lparr>rq_body := rq_body q\<rparr>))))"
    by (simp add: HttpSession_recvRequest_def rp len expect body)
  ultimately show ?thesis 
    using body(2) d init_close [of "?d\<lparr>rq_body := rq_body q\<rparr>" "rq_close q"] reserved_names
    by (auto simp: init_same printed_value_def same_name_iff)
qed

text \<open>A stream that hands over up to \<open>m\<close> bytes at a time.\<close>

definition read_upto :: "nat \<Rightarrow> bytes raw_reader" where
  "read_upto m n s = (int (min (min n m) (length s)), take (min n m) s, drop (min n m) s)"

lemma read_upto_delivers:
  assumes "0 < m"
  shows "delivers_raw (read_upto m) (\<lambda>s. s)"
  unfolding delivers_raw_def
proof (intro allI impI)
  fix n :: nat and s :: bytes
  assume "0 < n"
  then show "if s = [] then \<exists>rt s'. rt \<le> 0 \<and> read_upto m n s = (rt, [], s')
    else \<exists>k s'. 0 < k \<and> k \<le> n \<and> k \<le> length s \<and> read_upto m n s = (int k, take k s, s') \<and> s' = drop k s"
    using assms by (auto simp: read_upto_def min_def intro: exI [of _ "min (min n m) (length s)"])
qed

definition sample_env :: "bytes session_env" where
  "sample_env = \<lparr>se_read = read_upto 86, se_write = \<lambda>bs s. (int (length bs), s), se_close = \<lambda>s. s, se_buff = 4096,
     se_lexical_cast = \<lambda>v. Some (fold (\<lambda>c n. n * 10 + (ucast c - 48)) v 0)\<rparr>"

lemma sample_delivers: "delivers_raw (se_read sample_env) (\<lambda>s. s)"
  using read_upto_delivers [of 86] by (simp add: sample_env_def)

theorem session_receives_request_witness:
  "length (head_text sample_request) \<le> 84 \<and> (\<exists>s' q'. HttpSession_recvRequest sample_env (replicate 4096 0) no_parser (req_dump sample_request @ [1, 2])
    = Some (Inr (s', Some q')) \<and> rq_path q' = str ''/chat'' \<and> rq_body q' = str ''hello'' \<and> \<not> rq_close q')"
proof -
  let ?input = "req_dump sample_request @ [1, 2]"
  have len: "length (head_text sample_request) = 84" "length (req_dump sample_request) = 89" by code_simp+
  have body: "rq_body sample_request = str ''hello''" "rq_path sample_request = str ''/chat''" "\<not> rq_websocket sample_request" "\<not> rq_close sample_request"
    by (simp_all add: sample_request_def HttpRequest_new_def)
  have rd: "se_read sample_env (length (replicate 4096 (0 :: byte))) ?input = (int 86, take 86 ?input, drop 86 ?input)"
    using len(2) by (simp add: sample_env_def read_upto_def)
  have expect: "map_find (str ''Expect'') (rq_headers sample_request) = None" by code_simp
  have cast: "se_lexical_cast sample_env (str (dec (length (rq_body sample_request)))) = Some (of_nat (length (rq_body sample_request)))"
    by code_simp
  have fit: "(84 :: nat) \<le> 86" "86 \<le> length (replicate 4096 (0 :: byte))" "86 \<le> length ?input" "length (replicate 4096 (0 :: byte)) < 2 ^ 63"
      "length (rq_body sample_request) < 2 ^ 31" "0 < se_buff sample_env"
    using len by (simp_all add: body str_def sample_env_def)
  have "\<exists>s' q'. HttpSession_recvRequest sample_env (replicate 4096 0) no_parser ?input = Some (Inr (s', Some q'))
      \<and> rq_method q' = rq_method sample_request \<and> rq_version q' = rq_version sample_request \<and> rq_path q' = rq_path sample_request
      \<and> rq_query q' = rq_query sample_request \<and> rq_fragment q' = rq_fragment sample_request \<and> rq_body q' = rq_body sample_request
      \<and> (\<forall>n. map_find n (rq_headers q') = printed_value sample_request n)
      \<and> (\<not> rq_websocket sample_request \<longrightarrow> rq_close q' = rq_close sample_request) \<and> s' = drop (86 - length (req_dump sample_request)) [1, 2]"
    by (rule session_receives_request [OF sample_ok sample_delivers fit(6) refl rd refl _ fit(2-5) expect cast]) (use len in simp)
  then show ?thesis using len body by auto
qed

end
