(* ===== verification/HttpClientMachine.thy ===== *)
theory HttpClientMachine
  imports Ragel
begin

text \<open>
  \<^verbatim>\<open>src/chat/http/httpclient_parser.cc\<close>: the states and transitions of the machine that Ragel generated from
  \<^verbatim>\<open>httpclient_parser.rl\<close>, in the order of the code. It parses the head of a response or the first line of a chunk.
\<close>

datatype client_action =
    C_mark | C_start_field | C_write_field | C_write_value | C_write_content_len | C_write_connection_close | C_trans_chunked |
    C_status_code | C_chunk_size | C_reason_phrase | C_http_version | C_done nat

type_synonym client_state = "nat \<times> client_action tests"

section \<open>Transitions\<close>

definition c_tr0 :: "client_action label" where "c_tr0 = ([C_mark], 2)"
definition c_tr2 :: "client_action label" where "c_tr2 = ([C_mark], 8)"
definition c_tr3 :: "client_action label" where "c_tr3 = ([C_chunk_size, C_done 120], 120)"
definition c_tr4 :: "client_action label" where "c_tr4 = ([C_chunk_size], 3)"
definition c_tr6 :: "client_action label" where "c_tr6 = ([C_chunk_size], 4)"
definition c_tr7 :: "client_action label" where "c_tr7 = ([C_done 120], 120)"
definition c_tr8 :: "client_action label" where "c_tr8 = ([C_start_field], 5)"
definition c_tr9 :: "client_action label" where "c_tr9 = ([C_write_field, C_mark, C_write_value, C_done 120], 120)"
definition c_tr10 :: "client_action label" where "c_tr10 = ([C_write_field, C_mark, C_write_value], 3)"
definition c_tr12 :: "client_action label" where "c_tr12 = ([C_write_field, C_mark, C_write_value], 4)"
definition c_tr13 :: "client_action label" where "c_tr13 = ([C_write_field, C_mark], 6)"
definition c_tr14 :: "client_action label" where "c_tr14 = ([C_mark], 7)"
definition c_tr15 :: "client_action label" where "c_tr15 = ([C_write_value, C_done 120], 120)"
definition c_tr16 :: "client_action label" where "c_tr16 = ([C_write_value], 3)"
definition c_tr18 :: "client_action label" where "c_tr18 = ([C_write_value], 4)"
definition c_tr26 :: "client_action label" where "c_tr26 = ([C_http_version], 16)"
definition c_tr27 :: "client_action label" where "c_tr27 = ([C_mark], 17)"
definition c_tr28 :: "client_action label" where "c_tr28 = ([C_status_code], 18)"
definition c_tr30 :: "client_action label" where "c_tr30 = ([C_mark], 19)"
definition c_tr32 :: "client_action label" where "c_tr32 = ([C_reason_phrase], 20)"
definition c_tr33 :: "client_action label" where "c_tr33 = ([C_reason_phrase], 24)"
definition c_tr35 :: "client_action label" where "c_tr35 = ([C_start_field], 21)"
definition c_tr36 :: "client_action label" where "c_tr36 = ([C_start_field], 25)"
definition c_tr37 :: "client_action label" where "c_tr37 = ([C_start_field], 44)"
definition c_tr39 :: "client_action label" where "c_tr39 = ([C_write_field], 22)"
definition c_tr40 :: "client_action label" where "c_tr40 = ([C_mark], 23)"
definition c_tr41 :: "client_action label" where "c_tr41 = ([C_mark], 22)"
definition c_tr42 :: "client_action label" where "c_tr42 = ([C_mark, C_write_value], 20)"
definition c_tr43 :: "client_action label" where "c_tr43 = ([C_mark, C_write_value], 24)"
definition c_tr45 :: "client_action label" where "c_tr45 = ([C_write_value], 20)"
definition c_tr46 :: "client_action label" where "c_tr46 = ([C_write_value], 24)"
definition c_tr58 :: "client_action label" where "c_tr58 = ([C_write_field], 35)"
definition c_tr59 :: "client_action label" where "c_tr59 = ([C_mark], 35)"
definition c_tr60 :: "client_action label" where "c_tr60 = ([C_mark, C_write_value], 36)"
definition c_tr61 :: "client_action label" where "c_tr61 = ([C_mark, C_write_value], 95)"
definition c_tr62 :: "client_action label" where "c_tr62 = ([C_mark], 96)"
definition c_tr64 :: "client_action label" where "c_tr64 = ([C_done 122], 122)"
definition c_tr66 :: "client_action label" where "c_tr66 = ([C_start_field], 90)"
definition c_tr74 :: "client_action label" where "c_tr74 = ([C_write_connection_close, C_done 120], 120)"
definition c_tr75 :: "client_action label" where "c_tr75 = ([C_write_connection_close], 3)"
definition c_tr76 :: "client_action label" where "c_tr76 = ([C_write_connection_close, C_start_field], 21)"
definition c_tr77 :: "client_action label" where "c_tr77 = ([C_write_connection_close, C_start_field], 25)"
definition c_tr78 :: "client_action label" where "c_tr78 = ([C_write_connection_close, C_start_field], 44)"
definition c_tr95 :: "client_action label" where "c_tr95 = ([C_write_field], 61)"
definition c_tr96 :: "client_action label" where "c_tr96 = ([C_mark], 61)"
definition c_tr97 :: "client_action label" where "c_tr97 = ([C_mark, C_write_value], 62)"
definition c_tr98 :: "client_action label" where "c_tr98 = ([C_mark, C_write_value], 80)"
definition c_tr99 :: "client_action label" where "c_tr99 = ([C_mark], 81)"
definition c_tr101 :: "client_action label" where "c_tr101 = ([C_done 121], 121)"
definition c_tr103 :: "client_action label" where "c_tr103 = ([C_mark, C_start_field], 73)"
definition c_tr104 :: "client_action label" where "c_tr104 = ([C_mark], 64)"
definition c_tr111 :: "client_action label" where "c_tr111 = ([C_write_value, C_trans_chunked], 20)"
definition c_tr112 :: "client_action label" where "c_tr112 = ([C_write_value], 71)"
definition c_tr113 :: "client_action label" where "c_tr113 = ([C_trans_chunked], 20)"
definition c_tr136 :: "client_action label" where "c_tr136 = ([C_write_value], 43)"
definition c_tr137 :: "client_action label" where "c_tr137 = ([C_write_value], 88)"
definition c_tr148 :: "client_action label" where "c_tr148 = ([C_write_field], 112)"
definition c_tr149 :: "client_action label" where "c_tr149 = ([C_mark], 112)"
definition c_tr150 :: "client_action label" where "c_tr150 = ([C_mark, C_write_value], 113)"
definition c_tr151 :: "client_action label" where "c_tr151 = ([C_mark, C_write_value], 118)"
definition c_tr152 :: "client_action label" where "c_tr152 = ([C_mark], 119)"
definition c_tr154 :: "client_action label" where "c_tr154 = ([C_done 123], 123)"
definition c_tr156 :: "client_action label" where "c_tr156 = ([C_mark, C_start_field], 117)"
definition c_tr157 :: "client_action label" where "c_tr157 = ([C_mark], 115)"
definition c_tr158 :: "client_action label" where "c_tr158 = ([C_write_content_len, C_write_value], 20)"
definition c_tr159 :: "client_action label" where "c_tr159 = ([C_write_content_len, C_write_value], 24)"

section \<open>States\<close>

definition c_states_1 :: "client_state list" where
  "c_states_1 =
     [(1, [(72, 72, c_tr2), (48, 57, c_tr0), (97, 102, c_tr0), (65, 70, c_tr0)]),
      (2, [(10, 10, c_tr3), (13, 13, c_tr4), (59, 59, c_tr6), (48, 57, goto 2), (97, 102, goto 2), (65, 70, goto 2)])]"

definition c_states_120 :: "client_state list" where
  "c_states_120 =
     [(120, [])]"

definition c_states_3 :: "client_state list" where
  "c_states_3 =
     [(3, [(10, 10, c_tr7)]),
      (4, [(33, 33, c_tr8), (124, 124, c_tr8), (126, 126, c_tr8), (42, 43, c_tr8), (35, 39, c_tr8), (48, 57, c_tr8),
            (94, 122, c_tr8), (65, 90, c_tr8), (45, 46, c_tr8)]),
      (5, [(10, 10, c_tr9), (13, 13, c_tr10), (33, 33, goto 5), (59, 59, c_tr12), (61, 61, c_tr13), (124, 124, goto 5),
            (126, 126, goto 5), (42, 43, goto 5), (35, 39, goto 5), (48, 57, goto 5), (94, 122, goto 5), (65, 90, goto 5),
            (45, 46, goto 5)]),
      (6, [(33, 33, c_tr14), (124, 124, c_tr14), (126, 126, c_tr14), (42, 43, c_tr14), (35, 39, c_tr14), (48, 57, c_tr14),
            (94, 122, c_tr14), (65, 90, c_tr14), (45, 46, c_tr14)])]"

definition c_states_7 :: "client_state list" where
  "c_states_7 =
     [(7, [(10, 10, c_tr15), (13, 13, c_tr16), (33, 33, goto 7), (59, 59, c_tr18), (124, 124, goto 7), (126, 126, goto 7),
            (42, 43, goto 7), (35, 39, goto 7), (48, 57, goto 7), (94, 122, goto 7), (65, 90, goto 7), (45, 46, goto 7)]),
      (8, [(84, 84, goto 9)]),
      (9, [(84, 84, goto 10)]),
      (10, [(80, 80, goto 11)]),
      (11, [(47, 47, goto 12)]),
      (12, [(48, 57, goto 13)]),
      (13, [(46, 46, goto 14), (48, 57, goto 13)]),
      (14, [(48, 57, goto 15)]),
      (15, [(32, 32, c_tr26), (48, 57, goto 15)]),
      (16, [(48, 57, c_tr27)]),
      (17, [(32, 32, c_tr28), (48, 57, goto 17)]),
      (18, [(- 128, 9, c_tr30), (11, 127, c_tr30)])]"

definition c_states_19 :: "client_state list" where
  "c_states_19 =
     [(19, [(10, 10, c_tr32), (13, 13, c_tr33), (- 128, 127, goto 19)]),
      (20, [(10, 10, c_tr7), (13, 13, goto 3), (33, 33, c_tr35), (67, 67, c_tr36), (84, 84, c_tr37), (99, 99, c_tr36),
            (116, 116, c_tr37), (124, 124, c_tr35), (126, 126, c_tr35), (42, 43, c_tr35), (35, 39, c_tr35),
            (48, 57, c_tr35), (94, 122, c_tr35), (65, 90, c_tr35), (45, 46, c_tr35)]),
      (21, [(33, 33, goto 21), (58, 58, c_tr39), (124, 124, goto 21), (126, 126, goto 21), (42, 43, goto 21),
            (35, 39, goto 21), (48, 57, goto 21), (94, 122, goto 21), (65, 90, goto 21), (45, 46, goto 21)])]"

definition c_states_22 :: "client_state list" where
  "c_states_22 =
     [(22, [(10, 10, c_tr42), (13, 13, c_tr43), (32, 32, c_tr41), (9, 12, c_tr41), (- 128, 8, c_tr40), (13, 127, c_tr40)]),
      (23, [(10, 10, c_tr45), (13, 13, c_tr46), (- 128, 127, goto 23)]),
      (24, [(10, 10, goto 20)]),
      (25, [(33, 33, goto 21), (58, 58, c_tr39), (79, 79, goto 26), (111, 111, goto 26), (124, 124, goto 21),
            (126, 126, goto 21), (42, 43, goto 21), (35, 39, goto 21), (48, 57, goto 21), (94, 122, goto 21),
            (65, 90, goto 21), (45, 46, goto 21)]),
      (26, [(33, 33, goto 21), (58, 58, c_tr39), (78, 78, goto 27), (110, 110, goto 27), (124, 124, goto 21),
            (126, 126, goto 21), (42, 43, goto 21), (35, 39, goto 21), (48, 57, goto 21), (94, 122, goto 21),
            (65, 90, goto 21), (45, 46, goto 21)])]"

definition c_states_27 :: "client_state list" where
  "c_states_27 =
     [(27, [(33, 33, goto 21), (58, 58, c_tr39), (78, 78, goto 28), (84, 84, goto 101), (110, 110, goto 28),
            (116, 116, goto 101), (124, 124, goto 21), (126, 126, goto 21), (42, 43, goto 21), (35, 39, goto 21),
            (48, 57, goto 21), (94, 122, goto 21), (65, 90, goto 21), (45, 46, goto 21)]),
      (28, [(33, 33, goto 21), (58, 58, c_tr39), (69, 69, goto 29), (101, 101, goto 29), (124, 124, goto 21),
            (126, 126, goto 21), (42, 43, goto 21), (35, 39, goto 21), (48, 57, goto 21), (94, 122, goto 21),
            (65, 90, goto 21), (45, 46, goto 21)]),
      (29, [(33, 33, goto 21), (58, 58, c_tr39), (67, 67, goto 30), (99, 99, goto 30), (124, 124, goto 21),
            (126, 126, goto 21), (42, 43, goto 21), (35, 39, goto 21), (48, 57, goto 21), (94, 122, goto 21),
            (65, 90, goto 21), (45, 46, goto 21)]),
      (30, [(33, 33, goto 21), (58, 58, c_tr39), (84, 84, goto 31), (116, 116, goto 31), (124, 124, goto 21),
            (126, 126, goto 21), (42, 43, goto 21), (35, 39, goto 21), (48, 57, goto 21), (94, 122, goto 21),
            (65, 90, goto 21), (45, 46, goto 21)]),
      (31, [(33, 33, goto 21), (58, 58, c_tr39), (73, 73, goto 32), (105, 105, goto 32), (124, 124, goto 21),
            (126, 126, goto 21), (42, 43, goto 21), (35, 39, goto 21), (48, 57, goto 21), (94, 122, goto 21),
            (65, 90, goto 21), (45, 46, goto 21)])]"

definition c_states_32 :: "client_state list" where
  "c_states_32 =
     [(32, [(33, 33, goto 21), (58, 58, c_tr39), (79, 79, goto 33), (111, 111, goto 33), (124, 124, goto 21),
            (126, 126, goto 21), (42, 43, goto 21), (35, 39, goto 21), (48, 57, goto 21), (94, 122, goto 21),
            (65, 90, goto 21), (45, 46, goto 21)]),
      (33, [(33, 33, goto 21), (58, 58, c_tr39), (78, 78, goto 34), (110, 110, goto 34), (124, 124, goto 21),
            (126, 126, goto 21), (42, 43, goto 21), (35, 39, goto 21), (48, 57, goto 21), (94, 122, goto 21),
            (65, 90, goto 21), (45, 46, goto 21)]),
      (34, [(33, 33, goto 21), (58, 58, c_tr58), (124, 124, goto 21), (126, 126, goto 21), (42, 43, goto 21),
            (35, 39, goto 21), (48, 57, goto 21), (94, 122, goto 21), (65, 90, goto 21), (45, 46, goto 21)]),
      (35, [(10, 10, c_tr60), (13, 13, c_tr61), (32, 32, c_tr59), (67, 67, c_tr62), (99, 99, c_tr62), (9, 12, c_tr59),
            (- 128, 8, c_tr40), (13, 127, c_tr40)])]"

definition c_states_36 :: "client_state list" where
  "c_states_36 =
     [(36, [(10, 10, c_tr64), (13, 13, goto 89), (32, 32, goto 37), (33, 33, c_tr35), (67, 67, c_tr66), (84, 84, c_tr37),
            (99, 99, c_tr66), (116, 116, c_tr37), (124, 124, c_tr35), (126, 126, c_tr35), (9, 12, goto 37),
            (42, 43, c_tr35), (35, 39, c_tr35), (48, 57, c_tr35), (94, 122, c_tr35), (65, 90, c_tr35), (45, 46, c_tr35)]),
      (37, [(32, 32, goto 37), (67, 67, goto 38), (99, 99, goto 38), (9, 13, goto 37)]),
      (38, [(76, 76, goto 39), (108, 108, goto 39)]),
      (39, [(79, 79, goto 40), (111, 111, goto 40)]),
      (40, [(83, 83, goto 41), (115, 115, goto 41)]),
      (41, [(69, 69, goto 42), (101, 101, goto 42)]),
      (42, [(10, 10, goto 43), (13, 13, goto 88)]),
      (43, [(10, 10, c_tr74), (13, 13, c_tr75), (33, 33, c_tr76), (67, 67, c_tr77), (84, 84, c_tr78), (99, 99, c_tr77),
            (116, 116, c_tr78), (124, 124, c_tr76), (126, 126, c_tr76), (42, 43, c_tr76), (35, 39, c_tr76),
            (48, 57, c_tr76), (94, 122, c_tr76), (65, 90, c_tr76), (45, 46, c_tr76)])]"

definition c_states_44 :: "client_state list" where
  "c_states_44 =
     [(44, [(33, 33, goto 21), (58, 58, c_tr39), (82, 82, goto 45), (114, 114, goto 45), (124, 124, goto 21),
            (126, 126, goto 21), (42, 43, goto 21), (35, 39, goto 21), (48, 57, goto 21), (94, 122, goto 21),
            (65, 90, goto 21), (45, 46, goto 21)]),
      (45, [(33, 33, goto 21), (58, 58, c_tr39), (65, 65, goto 46), (97, 97, goto 46), (124, 124, goto 21),
            (126, 126, goto 21), (42, 43, goto 21), (35, 39, goto 21), (48, 57, goto 21), (94, 122, goto 21),
            (66, 90, goto 21), (45, 46, goto 21)]),
      (46, [(33, 33, goto 21), (58, 58, c_tr39), (78, 78, goto 47), (110, 110, goto 47), (124, 124, goto 21),
            (126, 126, goto 21), (42, 43, goto 21), (35, 39, goto 21), (48, 57, goto 21), (94, 122, goto 21),
            (65, 90, goto 21), (45, 46, goto 21)]),
      (47, [(33, 33, goto 21), (58, 58, c_tr39), (83, 83, goto 48), (115, 115, goto 48), (124, 124, goto 21),
            (126, 126, goto 21), (42, 43, goto 21), (35, 39, goto 21), (48, 57, goto 21), (94, 122, goto 21),
            (65, 90, goto 21), (45, 46, goto 21)]),
      (48, [(33, 33, goto 21), (58, 58, c_tr39), (70, 70, goto 49), (102, 102, goto 49), (124, 124, goto 21),
            (126, 126, goto 21), (42, 43, goto 21), (35, 39, goto 21), (48, 57, goto 21), (94, 122, goto 21),
            (65, 90, goto 21), (45, 46, goto 21)])]"

definition c_states_49 :: "client_state list" where
  "c_states_49 =
     [(49, [(33, 33, goto 21), (58, 58, c_tr39), (69, 69, goto 50), (101, 101, goto 50), (124, 124, goto 21),
            (126, 126, goto 21), (42, 43, goto 21), (35, 39, goto 21), (48, 57, goto 21), (94, 122, goto 21),
            (65, 90, goto 21), (45, 46, goto 21)]),
      (50, [(33, 33, goto 21), (58, 58, c_tr39), (82, 82, goto 51), (114, 114, goto 51), (124, 124, goto 21),
            (126, 126, goto 21), (42, 43, goto 21), (35, 39, goto 21), (48, 57, goto 21), (94, 122, goto 21),
            (65, 90, goto 21), (45, 46, goto 21)]),
      (51, [(33, 33, goto 21), (45, 45, goto 52), (46, 46, goto 21), (58, 58, c_tr39), (124, 124, goto 21),
            (126, 126, goto 21), (42, 43, goto 21), (35, 39, goto 21), (94, 122, goto 21), (65, 90, goto 21),
            (48, 57, goto 21)]),
      (52, [(33, 33, goto 21), (58, 58, c_tr39), (69, 69, goto 53), (101, 101, goto 53), (124, 124, goto 21),
            (126, 126, goto 21), (42, 43, goto 21), (35, 39, goto 21), (48, 57, goto 21), (94, 122, goto 21),
            (65, 90, goto 21), (45, 46, goto 21)]),
      (53, [(33, 33, goto 21), (58, 58, c_tr39), (78, 78, goto 54), (110, 110, goto 54), (124, 124, goto 21),
            (126, 126, goto 21), (42, 43, goto 21), (35, 39, goto 21), (48, 57, goto 21), (94, 122, goto 21),
            (65, 90, goto 21), (45, 46, goto 21)])]"

definition c_states_54 :: "client_state list" where
  "c_states_54 =
     [(54, [(33, 33, goto 21), (58, 58, c_tr39), (67, 67, goto 55), (99, 99, goto 55), (124, 124, goto 21),
            (126, 126, goto 21), (42, 43, goto 21), (35, 39, goto 21), (48, 57, goto 21), (94, 122, goto 21),
            (65, 90, goto 21), (45, 46, goto 21)]),
      (55, [(33, 33, goto 21), (58, 58, c_tr39), (79, 79, goto 56), (111, 111, goto 56), (124, 124, goto 21),
            (126, 126, goto 21), (42, 43, goto 21), (35, 39, goto 21), (48, 57, goto 21), (94, 122, goto 21),
            (65, 90, goto 21), (45, 46, goto 21)]),
      (56, [(33, 33, goto 21), (58, 58, c_tr39), (68, 68, goto 57), (100, 100, goto 57), (124, 124, goto 21),
            (126, 126, goto 21), (42, 43, goto 21), (35, 39, goto 21), (48, 57, goto 21), (94, 122, goto 21),
            (65, 90, goto 21), (45, 46, goto 21)]),
      (57, [(33, 33, goto 21), (58, 58, c_tr39), (73, 73, goto 58), (105, 105, goto 58), (124, 124, goto 21),
            (126, 126, goto 21), (42, 43, goto 21), (35, 39, goto 21), (48, 57, goto 21), (94, 122, goto 21),
            (65, 90, goto 21), (45, 46, goto 21)]),
      (58, [(33, 33, goto 21), (58, 58, c_tr39), (78, 78, goto 59), (110, 110, goto 59), (124, 124, goto 21),
            (126, 126, goto 21), (42, 43, goto 21), (35, 39, goto 21), (48, 57, goto 21), (94, 122, goto 21),
            (65, 90, goto 21), (45, 46, goto 21)])]"

definition c_states_59 :: "client_state list" where
  "c_states_59 =
     [(59, [(33, 33, goto 21), (58, 58, c_tr39), (71, 71, goto 60), (103, 103, goto 60), (124, 124, goto 21),
            (126, 126, goto 21), (42, 43, goto 21), (35, 39, goto 21), (48, 57, goto 21), (94, 122, goto 21),
            (65, 90, goto 21), (45, 46, goto 21)]),
      (60, [(33, 33, goto 21), (58, 58, c_tr95), (124, 124, goto 21), (126, 126, goto 21), (42, 43, goto 21),
            (35, 39, goto 21), (48, 57, goto 21), (94, 122, goto 21), (65, 90, goto 21), (45, 46, goto 21)]),
      (61, [(10, 10, c_tr97), (13, 13, c_tr98), (32, 32, c_tr96), (67, 67, c_tr99), (99, 99, c_tr99), (9, 12, c_tr96),
            (- 128, 8, c_tr40), (13, 127, c_tr40)]),
      (62, [(10, 10, c_tr101), (13, 13, goto 72), (32, 32, goto 63), (33, 33, c_tr35), (67, 67, c_tr103), (84, 84, c_tr37),
            (99, 99, c_tr103), (116, 116, c_tr37), (124, 124, c_tr35), (126, 126, c_tr35), (9, 12, goto 63),
            (42, 43, c_tr35), (35, 39, c_tr35), (48, 57, c_tr35), (94, 122, c_tr35), (65, 90, c_tr35), (45, 46, c_tr35)]),
      (63, [(32, 32, goto 63), (67, 67, c_tr104), (99, 99, c_tr104), (9, 13, goto 63)])]"

definition c_states_64 :: "client_state list" where
  "c_states_64 =
     [(64, [(72, 72, goto 65), (104, 104, goto 65)]),
      (65, [(85, 85, goto 66), (117, 117, goto 66)]),
      (66, [(78, 78, goto 67), (110, 110, goto 67)]),
      (67, [(75, 75, goto 68), (107, 107, goto 68)]),
      (68, [(69, 69, goto 69), (101, 101, goto 69)]),
      (69, [(68, 68, goto 70), (100, 100, goto 70)]),
      (70, [(10, 10, c_tr111), (13, 13, c_tr112)]),
      (71, [(10, 10, c_tr113)])]"

definition c_states_121 :: "client_state list" where
  "c_states_121 =
     [(121, [(32, 32, goto 63), (67, 67, c_tr104), (99, 99, c_tr104), (9, 13, goto 63)])]"

definition c_states_72 :: "client_state list" where
  "c_states_72 =
     [(72, [(10, 10, c_tr101), (32, 32, goto 63), (67, 67, c_tr104), (99, 99, c_tr104), (9, 13, goto 63)]),
      (73, [(33, 33, goto 21), (58, 58, c_tr39), (72, 72, goto 74), (79, 79, goto 26), (104, 104, goto 74),
            (111, 111, goto 26), (124, 124, goto 21), (126, 126, goto 21), (42, 43, goto 21), (35, 39, goto 21),
            (48, 57, goto 21), (94, 122, goto 21), (65, 90, goto 21), (45, 46, goto 21)]),
      (74, [(33, 33, goto 21), (58, 58, c_tr39), (85, 85, goto 75), (117, 117, goto 75), (124, 124, goto 21),
            (126, 126, goto 21), (42, 43, goto 21), (35, 39, goto 21), (48, 57, goto 21), (94, 122, goto 21),
            (65, 90, goto 21), (45, 46, goto 21)]),
      (75, [(33, 33, goto 21), (58, 58, c_tr39), (78, 78, goto 76), (110, 110, goto 76), (124, 124, goto 21),
            (126, 126, goto 21), (42, 43, goto 21), (35, 39, goto 21), (48, 57, goto 21), (94, 122, goto 21),
            (65, 90, goto 21), (45, 46, goto 21)]),
      (76, [(33, 33, goto 21), (58, 58, c_tr39), (75, 75, goto 77), (107, 107, goto 77), (124, 124, goto 21),
            (126, 126, goto 21), (42, 43, goto 21), (35, 39, goto 21), (48, 57, goto 21), (94, 122, goto 21),
            (65, 90, goto 21), (45, 46, goto 21)])]"

definition c_states_77 :: "client_state list" where
  "c_states_77 =
     [(77, [(33, 33, goto 21), (58, 58, c_tr39), (69, 69, goto 78), (101, 101, goto 78), (124, 124, goto 21),
            (126, 126, goto 21), (42, 43, goto 21), (35, 39, goto 21), (48, 57, goto 21), (94, 122, goto 21),
            (65, 90, goto 21), (45, 46, goto 21)]),
      (78, [(33, 33, goto 21), (58, 58, c_tr39), (68, 68, goto 79), (100, 100, goto 79), (124, 124, goto 21),
            (126, 126, goto 21), (42, 43, goto 21), (35, 39, goto 21), (48, 57, goto 21), (94, 122, goto 21),
            (65, 90, goto 21), (45, 46, goto 21)]),
      (79, [(10, 10, c_tr111), (13, 13, c_tr112), (33, 33, goto 21), (58, 58, c_tr39), (124, 124, goto 21),
            (126, 126, goto 21), (42, 43, goto 21), (35, 39, goto 21), (48, 57, goto 21), (94, 122, goto 21),
            (65, 90, goto 21), (45, 46, goto 21)]),
      (80, [(10, 10, goto 62), (32, 32, goto 63), (67, 67, c_tr104), (99, 99, c_tr104), (9, 13, goto 63)]),
      (81, [(10, 10, c_tr45), (13, 13, c_tr46), (72, 72, goto 82), (104, 104, goto 82), (- 128, 127, goto 23)]),
      (82, [(10, 10, c_tr45), (13, 13, c_tr46), (85, 85, goto 83), (117, 117, goto 83), (- 128, 127, goto 23)]),
      (83, [(10, 10, c_tr45), (13, 13, c_tr46), (78, 78, goto 84), (110, 110, goto 84), (- 128, 127, goto 23)])]"

definition c_states_84 :: "client_state list" where
  "c_states_84 =
     [(84, [(10, 10, c_tr45), (13, 13, c_tr46), (75, 75, goto 85), (107, 107, goto 85), (- 128, 127, goto 23)]),
      (85, [(10, 10, c_tr45), (13, 13, c_tr46), (69, 69, goto 86), (101, 101, goto 86), (- 128, 127, goto 23)]),
      (86, [(10, 10, c_tr45), (13, 13, c_tr46), (68, 68, goto 87), (100, 100, goto 87), (- 128, 127, goto 23)]),
      (87, [(10, 10, c_tr111), (13, 13, c_tr112), (- 128, 127, goto 23)]),
      (88, [(10, 10, goto 43)])]"

definition c_states_122 :: "client_state list" where
  "c_states_122 =
     [(122, [(32, 32, goto 37), (67, 67, goto 38), (99, 99, goto 38), (9, 13, goto 37)])]"

definition c_states_89 :: "client_state list" where
  "c_states_89 =
     [(89, [(10, 10, c_tr64), (32, 32, goto 37), (67, 67, goto 38), (99, 99, goto 38), (9, 13, goto 37)]),
      (90, [(33, 33, goto 21), (58, 58, c_tr39), (76, 76, goto 91), (79, 79, goto 26), (108, 108, goto 91),
            (111, 111, goto 26), (124, 124, goto 21), (126, 126, goto 21), (42, 43, goto 21), (35, 39, goto 21),
            (48, 57, goto 21), (94, 122, goto 21), (65, 90, goto 21), (45, 46, goto 21)]),
      (91, [(33, 33, goto 21), (58, 58, c_tr39), (79, 79, goto 92), (111, 111, goto 92), (124, 124, goto 21),
            (126, 126, goto 21), (42, 43, goto 21), (35, 39, goto 21), (48, 57, goto 21), (94, 122, goto 21),
            (65, 90, goto 21), (45, 46, goto 21)]),
      (92, [(33, 33, goto 21), (58, 58, c_tr39), (83, 83, goto 93), (115, 115, goto 93), (124, 124, goto 21),
            (126, 126, goto 21), (42, 43, goto 21), (35, 39, goto 21), (48, 57, goto 21), (94, 122, goto 21),
            (65, 90, goto 21), (45, 46, goto 21)]),
      (93, [(33, 33, goto 21), (58, 58, c_tr39), (69, 69, goto 94), (101, 101, goto 94), (124, 124, goto 21),
            (126, 126, goto 21), (42, 43, goto 21), (35, 39, goto 21), (48, 57, goto 21), (94, 122, goto 21),
            (65, 90, goto 21), (45, 46, goto 21)])]"

definition c_states_94 :: "client_state list" where
  "c_states_94 =
     [(94, [(10, 10, goto 43), (13, 13, goto 88), (33, 33, goto 21), (58, 58, c_tr39), (124, 124, goto 21),
            (126, 126, goto 21), (42, 43, goto 21), (35, 39, goto 21), (48, 57, goto 21), (94, 122, goto 21),
            (65, 90, goto 21), (45, 46, goto 21)]),
      (95, [(10, 10, goto 36), (32, 32, goto 37), (67, 67, goto 38), (99, 99, goto 38), (9, 13, goto 37)]),
      (96, [(10, 10, c_tr45), (13, 13, c_tr46), (76, 76, goto 97), (108, 108, goto 97), (- 128, 127, goto 23)]),
      (97, [(10, 10, c_tr45), (13, 13, c_tr46), (79, 79, goto 98), (111, 111, goto 98), (- 128, 127, goto 23)]),
      (98, [(10, 10, c_tr45), (13, 13, c_tr46), (83, 83, goto 99), (115, 115, goto 99), (- 128, 127, goto 23)]),
      (99, [(10, 10, c_tr45), (13, 13, c_tr46), (69, 69, goto 100), (101, 101, goto 100), (- 128, 127, goto 23)]),
      (100, [(10, 10, c_tr136), (13, 13, c_tr137), (- 128, 127, goto 23)]),
      (101, [(33, 33, goto 21), (58, 58, c_tr39), (69, 69, goto 102), (101, 101, goto 102), (124, 124, goto 21),
            (126, 126, goto 21), (42, 43, goto 21), (35, 39, goto 21), (48, 57, goto 21), (94, 122, goto 21),
            (65, 90, goto 21), (45, 46, goto 21)])]"

definition c_states_102 :: "client_state list" where
  "c_states_102 =
     [(102, [(33, 33, goto 21), (58, 58, c_tr39), (78, 78, goto 103), (110, 110, goto 103), (124, 124, goto 21),
            (126, 126, goto 21), (42, 43, goto 21), (35, 39, goto 21), (48, 57, goto 21), (94, 122, goto 21),
            (65, 90, goto 21), (45, 46, goto 21)]),
      (103, [(33, 33, goto 21), (58, 58, c_tr39), (84, 84, goto 104), (116, 116, goto 104), (124, 124, goto 21),
            (126, 126, goto 21), (42, 43, goto 21), (35, 39, goto 21), (48, 57, goto 21), (94, 122, goto 21),
            (65, 90, goto 21), (45, 46, goto 21)]),
      (104, [(33, 33, goto 21), (45, 45, goto 105), (46, 46, goto 21), (58, 58, c_tr39), (124, 124, goto 21),
            (126, 126, goto 21), (42, 43, goto 21), (35, 39, goto 21), (94, 122, goto 21), (65, 90, goto 21),
            (48, 57, goto 21)]),
      (105, [(33, 33, goto 21), (58, 58, c_tr39), (76, 76, goto 106), (108, 108, goto 106), (124, 124, goto 21),
            (126, 126, goto 21), (42, 43, goto 21), (35, 39, goto 21), (48, 57, goto 21), (94, 122, goto 21),
            (65, 90, goto 21), (45, 46, goto 21)]),
      (106, [(33, 33, goto 21), (58, 58, c_tr39), (69, 69, goto 107), (101, 101, goto 107), (124, 124, goto 21),
            (126, 126, goto 21), (42, 43, goto 21), (35, 39, goto 21), (48, 57, goto 21), (94, 122, goto 21),
            (65, 90, goto 21), (45, 46, goto 21)])]"

definition c_states_107 :: "client_state list" where
  "c_states_107 =
     [(107, [(33, 33, goto 21), (58, 58, c_tr39), (78, 78, goto 108), (110, 110, goto 108), (124, 124, goto 21),
            (126, 126, goto 21), (42, 43, goto 21), (35, 39, goto 21), (48, 57, goto 21), (94, 122, goto 21),
            (65, 90, goto 21), (45, 46, goto 21)]),
      (108, [(33, 33, goto 21), (58, 58, c_tr39), (71, 71, goto 109), (103, 103, goto 109), (124, 124, goto 21),
            (126, 126, goto 21), (42, 43, goto 21), (35, 39, goto 21), (48, 57, goto 21), (94, 122, goto 21),
            (65, 90, goto 21), (45, 46, goto 21)]),
      (109, [(33, 33, goto 21), (58, 58, c_tr39), (84, 84, goto 110), (116, 116, goto 110), (124, 124, goto 21),
            (126, 126, goto 21), (42, 43, goto 21), (35, 39, goto 21), (48, 57, goto 21), (94, 122, goto 21),
            (65, 90, goto 21), (45, 46, goto 21)]),
      (110, [(33, 33, goto 21), (58, 58, c_tr39), (72, 72, goto 111), (104, 104, goto 111), (124, 124, goto 21),
            (126, 126, goto 21), (42, 43, goto 21), (35, 39, goto 21), (48, 57, goto 21), (94, 122, goto 21),
            (65, 90, goto 21), (45, 46, goto 21)]),
      (111, [(33, 33, goto 21), (58, 58, c_tr148), (124, 124, goto 21), (126, 126, goto 21), (42, 43, goto 21),
            (35, 39, goto 21), (48, 57, goto 21), (94, 122, goto 21), (65, 90, goto 21), (45, 46, goto 21)])]"

definition c_states_112 :: "client_state list" where
  "c_states_112 =
     [(112, [(10, 10, c_tr150), (13, 13, c_tr151), (32, 32, c_tr149), (48, 57, c_tr152), (9, 12, c_tr149), (13, 47, c_tr40),
            (58, 127, c_tr40), (- 128, 8, c_tr40)]),
      (113, [(10, 10, c_tr154), (13, 13, goto 116), (32, 32, goto 114), (33, 33, c_tr35), (67, 67, c_tr36),
            (84, 84, c_tr37), (99, 99, c_tr36), (116, 116, c_tr37), (124, 124, c_tr35), (126, 126, c_tr35),
            (9, 12, goto 114), (42, 43, c_tr35), (35, 39, c_tr35), (48, 57, c_tr156), (94, 122, c_tr35), (65, 90, c_tr35),
            (45, 46, c_tr35)]),
      (114, [(32, 32, goto 114), (48, 57, c_tr157), (9, 13, goto 114)]),
      (115, [(10, 10, c_tr158), (13, 13, c_tr159), (48, 57, goto 115)])]"

definition c_states_123 :: "client_state list" where
  "c_states_123 =
     [(123, [(32, 32, goto 114), (48, 57, c_tr157), (9, 13, goto 114)])]"

definition c_states_116 :: "client_state list" where
  "c_states_116 =
     [(116, [(10, 10, c_tr154), (32, 32, goto 114), (48, 57, c_tr157), (9, 13, goto 114)]),
      (117, [(10, 10, c_tr158), (13, 13, c_tr159), (33, 33, goto 21), (58, 58, c_tr39), (124, 124, goto 21),
            (126, 126, goto 21), (42, 43, goto 21), (35, 39, goto 21), (48, 57, goto 117), (94, 122, goto 21),
            (65, 90, goto 21), (45, 46, goto 21)]),
      (118, [(10, 10, goto 113), (32, 32, goto 114), (48, 57, c_tr157), (9, 13, goto 114)]),
      (119, [(10, 10, c_tr158), (13, 13, c_tr159), (48, 57, goto 119), (- 128, 47, goto 23), (58, 127, goto 23)])]"

text \<open>\<open>switch (cs)\<close>.\<close>

definition c_state :: "nat \<Rightarrow> client_action tests option" where
  "c_state cs =
     (if cs < 72 then (if cs < 32 then (if cs < 19 then (if cs < 3 then map_of c_states_1 cs
         else (if cs < 7 then map_of c_states_3 cs
          else map_of c_states_7 cs))
        else (if cs < 22 then map_of c_states_19 cs
         else (if cs < 27 then map_of c_states_22 cs
          else map_of c_states_27 cs)))
       else (if cs < 49 then (if cs < 36 then map_of c_states_32 cs
         else (if cs < 44 then map_of c_states_36 cs
          else map_of c_states_44 cs))
        else (if cs < 59 then (if cs < 54 then map_of c_states_49 cs
          else map_of c_states_54 cs)
         else (if cs < 64 then map_of c_states_59 cs
          else map_of c_states_64 cs))))
      else (if cs < 107 then (if cs < 89 then (if cs < 77 then map_of c_states_72 cs
         else (if cs < 84 then map_of c_states_77 cs
          else map_of c_states_84 cs))
        else (if cs < 94 then map_of c_states_89 cs
         else (if cs < 102 then map_of c_states_94 cs
          else map_of c_states_102 cs)))
       else (if cs < 120 then (if cs < 112 then map_of c_states_107 cs
         else (if cs < 116 then map_of c_states_112 cs
          else map_of c_states_116 cs))
        else (if cs < 122 then (if cs < 121 then map_of c_states_120 cs
          else map_of c_states_121 cs)
         else (if cs < 123 then map_of c_states_122 cs
          else map_of c_states_123 cs)))))"

definition c_label :: "nat \<Rightarrow> int \<Rightarrow> client_action label option" where
  "c_label cs c = map_option (\<lambda>tests. first_test tests c) (c_state cs)"

end
