(* ===== verification/HttpClientParser.thy ===== *)
theory HttpClientParser
  imports HttpParser HttpClientMachine
begin

text \<open>
  The HTTP/1 response parser: \<open>httpclient_parser_execute\<close> of \<^verbatim>\<open>src/chat/http/httpclient_parser.cc\<close> around the machine of
  \<open>HttpClientMachine\<close>, and \<open>HttpResponseParser\<close> of \<^verbatim>\<open>http_parser.cc\<close> with the callbacks that fill an \<open>HttpResponse\<close>. The
  parser demands that the text is followed by a zero.
\<close>

section \<open>State\<close>

record httpclient_parser =
  cp_cs :: nat
  cp_body_start :: nat
  cp_content_len :: int
  cp_status :: int
  cp_chunked :: bool
  cp_chunks_done :: bool
  cp_close :: bool
  cp_nread :: nat
  cp_mark :: nat
  cp_field_start :: nat
  cp_field_len :: nat

record HttpResponseParser =
  sp_parser :: httpclient_parser
  sp_data :: HttpResponse
  sp_error :: int

definition httpclient_parser_init :: "httpclient_parser \<Rightarrow> httpclient_parser" where
  "httpclient_parser_init parser =
     parser\<lparr>cp_cs := 1, cp_body_start := 0, cp_content_len := - 1, cp_chunked := False, cp_chunks_done := False, cp_mark := 0,
       cp_nread := 0, cp_field_len := 0, cp_field_start := 0, cp_close := False\<rparr>"

definition httpclient_parser_has_error :: "httpclient_parser \<Rightarrow> bool" where
  "httpclient_parser_has_error parser = (cp_cs parser = 0)"

definition httpclient_parser_is_finished :: "httpclient_parser \<Rightarrow> bool" where
  "httpclient_parser_is_finished parser = (cp_cs parser = 120)"

definition httpclient_parser_finish :: "httpclient_parser \<Rightarrow> int" where
  "httpclient_parser_finish parser =
     (if httpclient_parser_has_error parser then - 1 else if httpclient_parser_is_finished parser then 1 else 0)"

definition HttpResponseParser_new :: "httpclient_parser \<Rightarrow> HttpResponseParser" where
  "HttpResponseParser_new garbage =
     \<lparr>sp_parser = httpclient_parser_init garbage, sp_data = HttpResponse_new 0x11 True, sp_error = 0\<rparr>"

section \<open>Callbacks\<close>

definition on_response_reason :: "bytes \<Rightarrow> nat \<Rightarrow> nat \<Rightarrow> HttpResponseParser \<Rightarrow> error + HttpResponseParser" where
  "on_response_reason mem at n sp = map_sum id (\<lambda>s. sp\<lparr>sp_data := sp_data sp\<lparr>rs_reason := s\<rparr>\<rparr>) (string_at mem at n)"

definition on_response_status :: "bytes \<Rightarrow> nat \<Rightarrow> nat \<Rightarrow> HttpResponseParser \<Rightarrow> error + HttpResponseParser" where
  "on_response_status mem at n sp = Inr (sp\<lparr>sp_data := sp_data sp\<lparr>rs_status := as_int (strtol (drop at mem) 10)\<rparr>\<rparr>)"

definition on_response_chunk :: "bytes \<Rightarrow> nat \<Rightarrow> nat \<Rightarrow> HttpResponseParser \<Rightarrow> error + HttpResponseParser" where
  "on_response_chunk mem at n sp = Inr sp"

definition on_response_version :: "bytes \<Rightarrow> nat \<Rightarrow> nat \<Rightarrow> HttpResponseParser \<Rightarrow> error + HttpResponseParser" where
  "on_response_version mem at n sp =
     (if strncmp_eq (drop at mem) (str ''HTTP/1.1'') n then Inr (sp\<lparr>sp_data := sp_data sp\<lparr>rs_version := 0x11\<rparr>\<rparr>)
      else if strncmp_eq (drop at mem) (str ''HTTP/1.0'') n then Inr (sp\<lparr>sp_data := sp_data sp\<lparr>rs_version := 0x10\<rparr>\<rparr>)
      else Inr (sp\<lparr>sp_error := 1001\<rparr>))"

definition on_response_header_done :: "HttpResponseParser \<Rightarrow> error + HttpResponseParser" where
  "on_response_header_done sp = Inr sp"

definition on_response_last_chunk :: "bytes \<Rightarrow> nat \<Rightarrow> nat \<Rightarrow> HttpResponseParser \<Rightarrow> error + HttpResponseParser" where
  "on_response_last_chunk mem at n sp = Inr sp"

definition on_response_http_field :: "bytes \<Rightarrow> nat \<Rightarrow> nat \<Rightarrow> nat \<Rightarrow> nat \<Rightarrow> HttpResponseParser \<Rightarrow> error + HttpResponseParser" where
  "on_response_http_field mem field flen val vlen sp =
     (if flen = 0 then Inr sp
      else case string_at mem field flen of
        Inl e \<Rightarrow> Inl e
      | Inr k \<Rightarrow> map_sum id (\<lambda>v. sp\<lparr>sp_data := rsp_setHeader k v (sp_data sp)\<rparr>) (string_at mem val vlen))"

section \<open>Execution\<close>

definition on_client :: "(httpclient_parser \<Rightarrow> httpclient_parser) \<Rightarrow> HttpResponseParser \<Rightarrow> HttpResponseParser" where
  "on_client f sp = sp\<lparr>sp_parser := f (sp_parser sp)\<rparr>"

definition client_go_on :: "error + HttpResponseParser \<Rightarrow> error + nat option \<times> HttpResponseParser" where
  "client_go_on r = map_sum id (\<lambda>sp. (None, sp)) r"

definition chunk_size_action :: "bytes \<Rightarrow> nat \<Rightarrow> HttpResponseParser \<Rightarrow> error + HttpResponseParser" where
  "chunk_size_action mem p sp =
     (let len = as_int (strtol (drop (cp_mark (sp_parser sp)) mem) 16);
          sp1 = on_client (\<lambda>h. h\<lparr>cp_chunked := True, cp_content_len := len, cp_chunks_done := len \<le> 0\<rparr>) sp;
          h = sp_parser sp1
      in if cp_chunks_done h then on_response_last_chunk mem (cp_mark h) (size_sub p (cp_mark h)) sp1
         else on_response_chunk mem (cp_mark h) (size_sub p (cp_mark h)) sp1)"

fun do_client_action :: "bytes \<Rightarrow> client_action \<Rightarrow> nat \<Rightarrow> HttpResponseParser \<Rightarrow> error + nat option \<times> HttpResponseParser" where
  "do_client_action mem C_mark p sp = Inr (None, on_client (cp_mark_update (\<lambda>_. p)) sp)"
| "do_client_action mem C_start_field p sp = Inr (None, on_client (cp_field_start_update (\<lambda>_. p)) sp)"
| "do_client_action mem C_write_field p sp =
     Inr (None, on_client (\<lambda>h. h\<lparr>cp_field_len := size_sub p (cp_field_start h)\<rparr>) sp)"
| "do_client_action mem C_write_content_len p sp =
     Inr (None, on_client (\<lambda>h. h\<lparr>cp_content_len := as_int (strtol (drop (cp_mark h) mem) 10)\<rparr>) sp)"
| "do_client_action mem C_write_connection_close p sp = Inr (None, on_client (cp_close_update (\<lambda>_. True)) sp)"
| "do_client_action mem C_write_value p sp =
     (let h = sp_parser sp
      in client_go_on (on_response_http_field mem (cp_field_start h) (cp_field_len h) (cp_mark h) (size_sub p (cp_mark h)) sp))"
| "do_client_action mem C_reason_phrase p sp =
     (let h = sp_parser sp in client_go_on (on_response_reason mem (cp_mark h) (size_sub p (cp_mark h)) sp))"
| "do_client_action mem C_status_code p sp =
     (let sp1 = on_client (\<lambda>h. h\<lparr>cp_status := as_int (strtol (drop (cp_mark h) mem) 10)\<rparr>) sp; h = sp_parser sp1
      in client_go_on (on_response_status mem (cp_mark h) (size_sub p (cp_mark h)) sp1))"
| "do_client_action mem C_http_version p sp =
     (let h = sp_parser sp in client_go_on (on_response_version mem (cp_mark h) (size_sub p (cp_mark h)) sp))"
| "do_client_action mem C_chunk_size p sp = client_go_on (chunk_size_action mem p sp)"
| "do_client_action mem C_trans_chunked p sp = Inr (None, on_client (cp_chunked_update (\<lambda>_. True)) sp)"
| "do_client_action mem (C_done stop) p sp =
     map_sum id (Pair (Some stop)) (on_response_header_done (on_client (cp_body_start_update (\<lambda>_. p + 1)) sp))"

text \<open>The result is \<open>None\<close> for the value -1, which a failed \<open>check\<close> returns.\<close>

definition httpclient_parser_execute :: "bytes \<Rightarrow> nat \<Rightarrow> nat \<Rightarrow> HttpResponseParser \<Rightarrow> error + nat option \<times> HttpResponseParser" where
  "httpclient_parser_execute mem len off sp =
     (let sp0 = on_client (\<lambda>h. h\<lparr>cp_nread := 0, cp_mark := 0, cp_field_len := 0, cp_field_start := 0\<rparr>) sp;
          cs0 = cp_cs (sp_parser sp)
      in if \<not> off \<le> len then Inl Assert_failed
         else if length mem \<le> len then Inl Bad_index
         else if mem ! len \<noteq> 0 then Inl Assert_failed
         else case run_machine c_label (do_client_action mem) (drop off (take len mem)) cs0 off sp0 of
             Inl e \<Rightarrow> Inl e
           | Inr (cs, p, sp1) \<Rightarrow>
               let sp2 = on_client (\<lambda>h. h\<lparr>cp_cs := cs, cp_nread := p - off\<rparr>) sp1; h = sp_parser sp2
               in if \<not> (cp_nread h \<le> len \<and> cp_body_start h \<le> len) then Inl Assert_failed
                  else if cp_mark h < len \<and> cp_field_len h \<le> len \<and> cp_field_start h < len then Inr (Some (p - off), sp2)
                  else Inr (None, sp2))"

text \<open>With -1 the addresses given to \<open>memmove\<close> are before the buffer.\<close>

definition HttpResponseParser_execute :: "bytes \<Rightarrow> nat \<Rightarrow> bool \<Rightarrow> HttpResponseParser \<Rightarrow> error + nat \<times> bytes \<times> HttpResponseParser" where
  "HttpResponseParser_execute mem len chunck sp =
     (case httpclient_parser_execute mem len 0 (if chunck then on_client httpclient_parser_init sp else sp) of
        Inl e \<Rightarrow> Inl e
      | Inr (None, sp') \<Rightarrow> Inl Bad_index
      | Inr (Some v, sp') \<Rightarrow> Inr (v, blit 0 (take (len - v) (drop v mem)) mem, sp'))"

definition HttpResponseParser_isFinished :: "HttpResponseParser \<Rightarrow> int" where
  "HttpResponseParser_isFinished sp = httpclient_parser_finish (sp_parser sp)"

definition HttpResponseParser_hasError :: "HttpResponseParser \<Rightarrow> bool" where
  "HttpResponseParser_hasError sp = (sp_error sp \<noteq> 0 \<or> httpclient_parser_has_error (sp_parser sp))"

definition HttpResponseParser_getContentLength :: "(bytes \<Rightarrow> 64 word option) \<Rightarrow> HttpResponseParser \<Rightarrow> 64 word" where
  "HttpResponseParser_getContentLength lexical_cast sp =
     (case map_find (str ''content-length'') (rs_headers (sp_data sp)) of
        None \<Rightarrow> 0
      | Some v \<Rightarrow> (case lexical_cast v of None \<Rightarrow> 0 | Some n \<Rightarrow> n))"

end
