(* ===== verification/HttpClientTables.thy ===== *)
theory HttpClientTables
  imports HttpRequestText HttpClientParser
begin

text \<open>
  The response parser on the parts of a response. In the names of the header lines the machine looks for three
  names it treats on its own (\<open>Connection\<close>, \<open>Content-Length\<close>, \<open>Transfer-Encoding\<close>), in some values for \<open>close\<close>, \<open>chunked\<close> and
  digits; it is in one of many states there. What is proved is that these families of states behave alike: every
  line is stored. \<open>Transfer-Encoding\<close> is followed more closely, since a response in chunks is read in another way.
\<close>

section \<open>Characters and families of states\<close>

definition client_token :: "int \<Rightarrow> bool" where
  "client_token c \<longleftrightarrow>
     c = 33 \<or> 35 \<le> c \<and> c \<le> 39 \<or> 42 \<le> c \<and> c \<le> 43 \<or> 45 \<le> c \<and> c \<le> 46 \<or> 48 \<le> c \<and> c \<le> 57 \<or> 65 \<le> c \<and> c \<le> 90
     \<or> 94 \<le> c \<and> c \<le> 122 \<or> c = 124 \<or> c = 126"

definition client_text :: "int \<Rightarrow> bool" where
  "client_text c \<longleftrightarrow> - 128 \<le> c \<and> c \<le> 127 \<and> c \<noteq> 10 \<and> c \<noteq> 13"

abbreviation client_run :: "bytes \<Rightarrow> bytes \<Rightarrow> nat \<Rightarrow> nat \<Rightarrow> HttpResponseParser \<Rightarrow> error + nat \<times> nat \<times> HttpResponseParser" where
  "client_run mem \<equiv> run_machine c_label (do_client_action mem)"

text \<open>The states inside a name; 44 to 60 have read a prefix of \<open>transfer-encoding\<close>.\<close>

definition name_states :: "nat list" where
  "name_states =
     [21, 25, 26, 27, 28, 29, 30, 31, 32, 33, 34, 44, 45, 46, 47, 48, 49, 50, 51, 52, 53, 54, 55, 56, 57, 58, 59, 60,
      101, 102, 103, 104, 105, 106, 107, 108, 109, 110, 111]"

definition te_name :: "int list" where
  "te_name = [116, 114, 97, 110, 115, 102, 101, 114, 45, 101, 110, 99, 111, 100, 105, 110, 103]"

definition te_state :: "nat \<Rightarrow> bool" where
  "te_state s \<longleftrightarrow> 44 \<le> s \<and> s \<le> 60"

definition lower :: "int \<Rightarrow> int" where
  "lower c = (if 65 \<le> c \<and> c \<le> 90 then c + 32 else c)"

text \<open>The states inside a value; 81 to 87 have read a prefix of \<open>chunked\<close> after \<open>Transfer-Encoding\<close>.\<close>

definition value_starts :: "nat list" where
  "value_starts = [22, 35, 61, 112]"

definition value_states :: "nat list" where
  "value_states = [23, 81, 82, 83, 84, 85, 86, 87, 96, 97, 98, 99, 100, 119]"

definition chunked_state :: "nat \<Rightarrow> bool" where
  "chunked_state s \<longleftrightarrow> 81 \<le> s \<and> s \<le> 87"

definition line_starts :: "nat list" where
  "line_starts = [20, 43]"

lemmas c_row = c_label_def c_state_def

lemmas c_tables =
  c_states_1_def c_states_120_def c_states_3_def c_states_7_def c_states_19_def c_states_22_def c_states_27_def c_states_32_def c_states_36_def c_states_44_def c_states_49_def c_states_54_def c_states_59_def
  c_states_64_def c_states_121_def c_states_72_def c_states_77_def c_states_84_def c_states_122_def c_states_89_def c_states_94_def c_states_102_def c_states_107_def c_states_112_def c_states_123_def c_states_116_def

text \<open>A label without actions that goes to a state of the family.\<close>

definition plain_to :: "(nat \<Rightarrow> bool) \<Rightarrow> client_action label option \<Rightarrow> bool" where
  "plain_to P l = (case l of Some (as, n) \<Rightarrow> as = [] \<and> P n | None \<Rightarrow> False)"

lemma plain_to_simps [simp]: "plain_to P (Some (goto n)) = P n" "plain_to P None = False"
  by (simp_all add: plain_to_def goto_def)

lemma plain_toD: "plain_to P l \<Longrightarrow> \<exists>n. l = Some (goto n) \<and> P n"
  by (auto simp: plain_to_def goto_def split: option.splits prod.splits)

lemma name_step_table:
  "list_all (\<lambda>s. \<forall>c. client_token c \<longrightarrow> plain_to (\<lambda>n. n \<in> set name_states \<and> (te_state n \<longrightarrow> n = Suc s \<and> lower c = te_name ! (n - 44))) (c_label s c)) name_states"
  unfolding name_states_def client_token_def list.pred_inject
  by (intro conjI allI impI list.pred_inject(1); elim disjE;
      simp add: c_row c_tables te_state_def lower_def te_name_def split: if_splits)

lemma line_start_table:
  "list_all (\<lambda>s. \<forall>c. client_token c \<longrightarrow> (\<exists>n. c_label s c = Some ((if s = 43 then [C_write_connection_close] else []) @ [C_start_field], n)
     \<and> n \<in> set name_states \<and> (te_state n \<longrightarrow> n = 44 \<and> lower c = 116))) line_starts"
  unfolding line_starts_def client_token_def list.pred_inject
  by (intro conjI allI impI list.pred_inject(1); elim disjE;
      simp add: c_row c_tables c_tr35_def c_tr36_def c_tr37_def c_tr76_def c_tr77_def c_tr78_def te_state_def lower_def name_states_def split: if_splits)

lemma colon_table:
  "list_all (\<lambda>s. \<exists>n. c_label s 58 = Some ([C_write_field], n) \<and> n \<in> set value_starts \<and> (n = 61 \<longrightarrow> s = 60)) name_states"
  unfolding name_states_def list.pred_inject
  by (intro conjI list.pred_inject(1); simp add: c_row c_tables c_tr39_def c_tr58_def c_tr95_def c_tr148_def value_starts_def)

lemma blank_table: "list_all (\<lambda>s. c_label s 32 = Some ([C_mark], s)) value_starts"
  unfolding value_starts_def list.pred_inject
  by (intro conjI list.pred_inject(1); simp add: c_row c_tables c_tr41_def c_tr59_def c_tr96_def c_tr149_def)

lemma value_start_table:
  "list_all (\<lambda>s. \<forall>c. client_text c \<longrightarrow> c \<noteq> 32 \<longrightarrow> (c < 9 \<or> 13 < c) \<longrightarrow> (\<exists>n. c_label s c = Some ([C_mark], n)
     \<and> n \<in> set value_states \<and> (chunked_state n \<longrightarrow> s = 61))) value_starts"
  unfolding value_starts_def client_text_def list.pred_inject
  by (intro conjI allI impI list.pred_inject(1); elim disjE;
      simp add: c_row c_tables c_tr40_def c_tr62_def c_tr99_def c_tr152_def chunked_state_def value_states_def split: if_splits)

lemma value_table:
  "list_all (\<lambda>s. \<forall>c. client_text c \<longrightarrow> plain_to (\<lambda>n. n \<in> set value_states \<and> (chunked_state n \<longrightarrow> chunked_state s)) (c_label s c)) value_states"
  unfolding value_states_def client_text_def list.pred_inject
  by (intro conjI allI impI list.pred_inject(1); simp add: c_row c_tables chunked_state_def split: if_splits)

text \<open>The end of a line: the state it ends in, and the actions at the carriage return and at the line feed.\<close>

lemma line_end_table:
  "list_all (\<lambda>s. \<exists>n. c_label s 13 = Some ((if s = 119 then [C_write_content_len] else []) @ [C_write_value], n)
     \<and> (\<exists>m. c_label n 10 = Some (if s = 87 then [C_trans_chunked] else [], m) \<and> m \<in> set line_starts)) value_states"
  unfolding value_states_def list.pred_inject
  by (intro conjI list.pred_inject(1);
      simp add: c_row c_tables c_tr46_def c_tr112_def c_tr137_def c_tr159_def c_tr113_def line_starts_def goto_def)

lemma head_end_table:
  "list_all (\<lambda>s. c_label s 13 = Some (if s = 43 then [C_write_connection_close] else [], 3)) line_starts"
  unfolding line_starts_def list.pred_inject
  by (intro conjI list.pred_inject(1); simp add: c_row c_tables c_tr75_def goto_def)

lemma label_status:
  "c_label 1 72 = Some c_tr2" "c_label 8 84 = Some (goto 9)" "c_label 9 84 = Some (goto 10)" "c_label 10 80 = Some (goto 11)"
  "c_label 11 47 = Some (goto 12)" "48 \<le> c \<and> c \<le> 57 \<Longrightarrow> c_label 12 c = Some (goto 13)" "c_label 13 46 = Some (goto 14)"
  "48 \<le> c \<and> c \<le> 57 \<Longrightarrow> c_label 14 c = Some (goto 15)" "c_label 15 32 = Some c_tr26"
  "48 \<le> c \<and> c \<le> 57 \<Longrightarrow> c_label 16 c = Some c_tr27" "48 \<le> c \<and> c \<le> 57 \<Longrightarrow> c_label 17 c = Some (goto 17)" "c_label 17 32 = Some c_tr28"
  "client_text c \<Longrightarrow> c_label 18 c = Some c_tr30" "client_text c \<Longrightarrow> c_label 19 c = Some (goto 19)" "c_label 19 13 = Some c_tr33"
  "c_label 24 10 = Some (goto 20)" "c_label 3 10 = Some c_tr7"
  by (simp_all add: c_row c_tables client_text_def)

end
