(* ===== verification/HttpResponseParts.thy ===== *)
theory HttpResponseParts
  imports HttpClientTables
begin

text \<open>
  The response parser on the parts of a response: the status line, a header line, the end of the head.
\<close>

lemma name_run:
  assumes "s \<in> set name_states" and "\<forall>b \<in> set k. client_token (sint b)"
    and "te_state s \<Longrightarrow> map (\<lambda>a. lower (sint a)) pre = take (s - 43) te_name"
  shows "\<exists>s'. s' \<in> set name_states \<and> (te_state s' \<longrightarrow> map (\<lambda>a. lower (sint a)) (pre @ k) = take (s' - 43) te_name)
    \<and> client_run mem (k @ xs) s p sp = client_run mem xs s' (p + length k) sp"
  using assms
proof (induction k arbitrary: s p pre)
  case Nil
  then show ?case by auto
next
  case (Cons b k)
  have "plain_to (\<lambda>n. n \<in> set name_states \<and> (te_state n \<longrightarrow> n = Suc s \<and> lower (sint b) = te_name ! (n - 44))) (c_label s (sint b))"
    using name_step_table Cons.prems(1,2) by (auto simp: list_all_iff)
  then obtain n where n: "c_label s (sint b) = Some (goto n)" "n \<in> set name_states" "te_state n \<Longrightarrow> n = Suc s \<and> lower (sint b) = te_name ! (n - 44)"
    by (auto dest!: plain_toD)
  have "n \<noteq> 0" using n(2) by (auto simp: name_states_def)
  have "map (\<lambda>a. lower (sint a)) (pre @ [b]) = take (n - 43) te_name" if "te_state n"
  proof -
    have "Suc s \<noteq> 44" using Cons.prems(1) by (auto simp: name_states_def)
    then have "te_state s" "s - 43 < length te_name" "n - 43 = Suc (s - 43)" "n - 44 = s - 43"
      using n(3) [OF that] that by (auto simp: te_state_def te_name_def)
    then show ?thesis using Cons.prems(3) n(3) [OF that] by (simp add: take_Suc_conv_app_nth)
  qed
  then obtain s' where "s' \<in> set name_states" "te_state s' \<longrightarrow> map (\<lambda>a. lower (sint a)) ((pre @ [b]) @ k) = take (s' - 43) te_name"
      "client_run mem (k @ xs) n (p + 1) sp = client_run mem xs s' (p + 1 + length k) sp"
    using Cons.IH [of n "pre @ [b]" "p + 1"] Cons.prems(2) n(2) by auto
  then show ?case using n(1) \<open>n \<noteq> 0\<close> by (intro exI [of _ s']) (simp add: goto_def)
qed

lemma value_run:
  assumes "s \<in> set value_states" and "\<forall>b \<in> set v. client_text (sint b)"
  shows "\<exists>s'. s' \<in> set value_states \<and> (chunked_state s' \<longrightarrow> chunked_state s)
    \<and> client_run mem (v @ xs) s p sp = client_run mem xs s' (p + length v) sp"
  using assms
proof (induction v arbitrary: s p)
  case Nil
  then show ?case by auto
next
  case (Cons b v)
  have "plain_to (\<lambda>n. n \<in> set value_states \<and> (chunked_state n \<longrightarrow> chunked_state s)) (c_label s (sint b))"
    using value_table Cons.prems by (auto simp: list_all_iff)
  then obtain n where n: "c_label s (sint b) = Some (goto n)" "n \<in> set value_states" "chunked_state n \<longrightarrow> chunked_state s"
    by (auto dest!: plain_toD)
  then have "n \<noteq> 0" by (auto simp: value_states_def)
  obtain s' where "s' \<in> set value_states" "chunked_state s' \<longrightarrow> chunked_state n"
      "client_run mem (v @ xs) n (p + 1) sp = client_run mem xs s' (p + 1 + length v) sp"
    using Cons.IH [of n "p + 1"] Cons.prems(2) n(2) by auto
  then show ?case using n \<open>n \<noteq> 0\<close> by (intro exI [of _ s']) (auto simp: goto_def)
qed

lemma sp_commute [simp]: "sp\<lparr>sp_data := d, sp_parser := h\<rparr> = sp\<lparr>sp_parser := h, sp_data := d\<rparr>"
  by (cases sp) simp

lemmas client_act_defs = on_client_def client_go_on_def on_response_http_field_def on_response_reason_def on_response_status_def
  on_response_version_def on_response_header_done_def

definition client_field_ok :: "bytes \<times> bytes \<Rightarrow> bool" where
  "client_field_ok f = (case f of (k, v) \<Rightarrow> k \<noteq> [] \<and> list_all (\<lambda>b. client_token (sint b)) k \<and> v \<noteq> [] \<and> list_all (\<lambda>b. client_text (sint b)) v
     \<and> sint (hd v) \<noteq> 32 \<and> (sint (hd v) < 9 \<or> 13 < sint (hd v)))"

definition names_te :: "bytes \<Rightarrow> bool" where
  "names_te k \<longleftrightarrow> map (\<lambda>a. lower (sint a)) k = te_name"

lemma field_name_part:
  assumes "L \<in> set line_starts" and "client_field_ok (k, v)"
  shows "\<exists>s h. s \<in> set value_starts \<and> (s = 61 \<longrightarrow> names_te k)
    \<and> client_run mem (k @ str '': '' @ xs) L p sp = client_run mem xs s (p + length k + 2) (sp\<lparr>sp_parser := h\<rparr>)
    \<and> cp_field_start h = p \<and> cp_field_len h = length k \<and> cp_chunked h = cp_chunked (sp_parser sp)
    \<and> cp_body_start h = cp_body_start (sp_parser sp)"
proof -
  obtain b bs where k: "k = b # bs" and tok: "\<forall>b \<in> set k. client_token (sint b)"
    using assms(2) by (cases k) (auto simp: client_field_ok_def list_all_iff)
  obtain n where n: "c_label L (sint b) = Some ((if L = 43 then [C_write_connection_close] else []) @ [C_start_field], n)"
      "n \<in> set name_states" "te_state n \<longrightarrow> n = 44 \<and> lower (sint b) = 116"
    using line_start_table [unfolded list_all_iff, rule_format, OF assms(1), of "sint b"] tok by (auto simp: k)
  have "n \<noteq> 0" using n(2) by (auto simp: name_states_def)
  let ?h1 = "(if L = 43 then cp_close_update (\<lambda>_. True) else id) (sp_parser sp)"
  have "client_run mem (k @ str '': '' @ xs) L p sp
      = client_run mem (bs @ str '': '' @ xs) n (p + 1) (sp\<lparr>sp_parser := ?h1\<lparr>cp_field_start := p\<rparr>\<rparr>)"
    using n(1) \<open>n \<noteq> 0\<close> by (simp add: k on_client_def)
  moreover obtain s where s: "s \<in> set name_states" "te_state s \<longrightarrow> map (\<lambda>a. lower (sint a)) ([b] @ bs) = take (s - 43) te_name"
      "client_run mem (bs @ str '': '' @ xs) n (p + 1) (sp\<lparr>sp_parser := ?h1\<lparr>cp_field_start := p\<rparr>\<rparr>)
       = client_run mem (str '': '' @ xs) s (p + 1 + length bs) (sp\<lparr>sp_parser := ?h1\<lparr>cp_field_start := p\<rparr>\<rparr>)"
  proof -
    have "te_state n \<Longrightarrow> map (\<lambda>a. lower (sint a)) [b] = take (n - 43) te_name" using n(3) by (simp add: te_name_def)
    moreover have "\<forall>b \<in> set bs. client_token (sint b)" using tok by (simp add: k)
    ultimately show ?thesis
      using that name_run [OF n(2), where k = bs and pre = "[b]" and mem = mem and xs = "str '': '' @ xs"] by blast
  qed
  moreover obtain m where m: "c_label s 58 = Some ([C_write_field], m)" "m \<in> set value_starts" "m = 61 \<longrightarrow> s = 60"
    using colon_table [unfolded list_all_iff, rule_format, OF s(1)] by auto
  moreover have "c_label m 32 = Some ([C_mark], m)" using blank_table m(2) by (auto simp: list_all_iff)
  moreover have "m \<noteq> 0" using m(2) by (auto simp: value_starts_def)
  ultimately have run: "client_run mem (k @ str '': '' @ xs) L p sp = client_run mem xs m (p + length k + 2)
      (sp\<lparr>sp_parser := ?h1\<lparr>cp_field_start := p, cp_field_len := length k, cp_mark := p + length k + 1\<rparr>\<rparr>)"
    by (simp add: str_def on_client_def k)
  have "names_te k" if "m = 61"
    using s(2) m(3) that by (simp add: names_te_def k te_state_def te_name_def)
  with run m(2) show ?thesis
    by - (rule exI [of _ m], rule exI [of _ "?h1\<lparr>cp_field_start := p, cp_field_len := length k, cp_mark := p + length k + 1\<rparr>"], simp)
qed

lemma field_value_part:
  assumes "s \<in> set value_starts" and "client_field_ok (k, v)" and "length mem < 2 ^ 63" and "text_at mem q k" and "text_at mem p v"
    and "cp_field_start (sp_parser sp) = q" and "cp_field_len (sp_parser sp) = length k"
  shows "\<exists>L h. L \<in> set line_starts
    \<and> client_run mem (v @ CRLF @ xs) s p sp = client_run mem xs L (p + length v + 2) (sp\<lparr>sp_parser := h, sp_data := rsp_setHeader k v (sp_data sp)\<rparr>)
    \<and> cp_mark h = p \<and> cp_field_start h = q \<and> cp_field_len h = length k \<and> cp_body_start h = cp_body_start (sp_parser sp)
    \<and> (s \<noteq> 61 \<longrightarrow> cp_chunked h = cp_chunked (sp_parser sp))"
proof -
  obtain b bs where v: "v = b # bs" and ok: "client_text (sint b)" "sint b \<noteq> 32" "sint b < 9 \<or> 13 < sint b" "\<forall>b \<in> set bs. client_text (sint b)" and k: "k \<noteq> []"
    using assms(2) by (cases v) (auto simp: client_field_ok_def list_all_iff)
  obtain n where n: "c_label s (sint b) = Some ([C_mark], n)" "n \<in> set value_states" "chunked_state n \<longrightarrow> s = 61"
    using value_start_table [unfolded list_all_iff, rule_format, OF assms(1) ok(1-3)] by auto
  have "n \<noteq> 0" using n(2) by (auto simp: value_states_def)
  let ?sp = "sp\<lparr>sp_parser := (sp_parser sp)\<lparr>cp_mark := p\<rparr>\<rparr>"
  obtain t where t: "t \<in> set value_states" "chunked_state t \<longrightarrow> chunked_state n"
      "client_run mem (bs @ CRLF @ xs) n (p + 1) ?sp = client_run mem (CRLF @ xs) t (p + 1 + length bs) ?sp"
    using value_run [OF n(2) ok(4), where mem = mem and xs = "CRLF @ xs"] by blast
  have run: "client_run mem (v @ CRLF @ xs) s p sp = client_run mem (CRLF @ xs) t (p + length v) ?sp"
    using n(1) t(3) \<open>n \<noteq> 0\<close> by (simp add: v on_client_def)
  obtain e m where e: "c_label t 13 = Some ((if t = 119 then [C_write_content_len] else []) @ [C_write_value], e)"
      "c_label e 10 = Some (if t = 87 then [C_trans_chunked] else [], m)" "m \<in> set line_starts"
    using line_end_table [unfolded list_all_iff, rule_format, OF t(1)] by auto
  have "e \<noteq> 0" "m \<noteq> 0" using e(2,3) by (auto simp: line_starts_def c_row c_tables intro!: gr0I)
  let ?h = "(if t = 87 then cp_chunked_update (\<lambda>_. True) else id)
      ((if t = 119 then (\<lambda>h. h\<lparr>cp_content_len := as_int (strtol (drop p mem) 10)\<rparr>) else id) ((sp_parser sp)\<lparr>cp_mark := p\<rparr>))"
  have "client_run mem (CRLF @ xs) t (p + length v) ?sp = client_run mem xs m (p + length v + 2) (sp\<lparr>sp_parser := ?h, sp_data := rsp_setHeader k v (sp_data sp)\<rparr>)"
    using e \<open>e \<noteq> 0\<close> \<open>m \<noteq> 0\<close> text_at_string [OF assms(4,3)] text_at_string [OF assms(5,3)] assms(6,7) k
    by (simp add: CRLF_def client_act_defs Let_def)
  moreover have "t = 87 \<Longrightarrow> s = 61" using t(2) n(3) by (simp add: chunked_state_def)
  ultimately show ?thesis
    using run e(3) assms(6,7) by - (rule exI [of _ m], rule exI [of _ ?h], auto)
qed

end
