(* ===== verification/HttpResponseText.thy ===== *)
theory HttpResponseText
  imports HttpResponseParts
begin

text \<open>
  What \<open>HttpResponse::dump\<close> prints, given to the response parser: it hands back the status, the reason, the version and the header
  fields that were printed.
\<close>

section \<open>The status line\<close>

lemma response_version_part:
  assumes "v = 0x10 \<or> v = 0x11" and "text_at mem p (version_text v)"
  shows "client_run mem (version_text v @ 32 # xs) 1 p sp = client_run mem xs 16 (p + 9)
    (sp\<lparr>sp_parser := (sp_parser sp)\<lparr>cp_mark := p\<rparr>, sp_data := (sp_data sp)\<lparr>rs_version := v\<rparr>\<rparr>)"
proof -
  have cmp: "strncmp_eq (drop p mem) t 8 \<longleftrightarrow> version_text v = t" if "t = str ''HTTP/1.1'' \<or> t = str ''HTTP/1.0''" for t
  proof -
    have "length (version_text v) = 8" "0 \<notin> set (version_text v)" using assms(1) by (auto simp: version_texts)
    moreover have "length t = 8" "0 \<notin> set t" using that by (auto simp: version_texts)
    ultimately show ?thesis using strncmp_at [OF assms(2), of t] by simp
  qed
  have nine: "p + 9 = Suc (Suc (Suc (Suc (Suc (Suc (Suc (Suc (Suc p))))))))" by simp
  show ?thesis
    using assms(1) label_status(1-9) cmp
    by (auto simp: version_texts c_tr2_def c_tr26_def client_act_defs goto_def Let_def nine)
qed

lemma status_part:
  assumes "int n < 2 ^ 31" and "text_at mem p (str (dec n) @ [32])" and "length mem < 2 ^ 63"
  shows "client_run mem (str (dec n) @ 32 # xs) 16 p sp = client_run mem xs 18 (p + length (str (dec n)) + 1)
    (sp\<lparr>sp_parser := (sp_parser sp)\<lparr>cp_mark := p, cp_status := int n\<rparr>, sp_data := (sp_data sp)\<lparr>rs_status := int n\<rparr>\<rparr>)"
proof -
  obtain d ds where d: "str (dec n) = d # ds" using dec_nonempty [of n] by (cases "dec n") (auto simp: str_def)
  have dig: "\<forall>c \<in> set (str (dec n)). 48 \<le> sint c \<and> sint c \<le> 57" using dec_digits by blast
  obtain rest where rest: "drop p mem = str (dec n) @ 32 # rest"
  proof
    show "drop p mem = str (dec n) @ 32 # drop (length (str (dec n) @ [32])) (drop p mem)"
      using assms(2) append_take_drop_id [of "length (str (dec n) @ [32])" "drop p mem"] by (simp add: text_at_def)
  qed
  have "\<not> digit_value 32 < 10" by code_simp
  moreover have "int n < 2 ^ 63" using assms(1) by simp
  ultimately have "strtol (drop p mem) 10 = int n" unfolding rest by (intro strtol_dec)
  then have val: "as_int (strtol (drop p mem) 10) = int n"
    using assms(1) by (simp add: as_int_small)
  let ?sp = "sp\<lparr>sp_parser := (sp_parser sp)\<lparr>cp_mark := p\<rparr>\<rparr>"
  have "client_run mem (str (dec n) @ 32 # xs) 16 p sp = client_run mem (ds @ 32 # xs) 17 (p + 1) ?sp"
    using label_status(10) [of "sint d"] dig by (simp add: d c_tr27_def on_client_def)
  also have "\<dots> = client_run mem (32 # xs) 17 (p + 1 + length ds) ?sp"
    using label_status(11) dig by (intro run_machine_loop) (auto simp: d)
  finally show ?thesis
    using label_status(12) val by (simp add: d c_tr28_def client_act_defs Let_def)
qed

lemma reason_part:
  assumes "m \<noteq> []" and "\<forall>b \<in> set m. client_text (sint b)" and "text_at mem p m" and "length mem < 2 ^ 63"
  shows "client_run mem (m @ CRLF @ xs) 18 p sp = client_run mem xs 20 (p + length m + 2)
    (sp\<lparr>sp_parser := (sp_parser sp)\<lparr>cp_mark := p\<rparr>, sp_data := (sp_data sp)\<lparr>rs_reason := m\<rparr>\<rparr>)"
proof -
  obtain b bs where m: "m = b # bs" using assms(1) by (cases m) auto
  let ?sp = "sp\<lparr>sp_parser := (sp_parser sp)\<lparr>cp_mark := p\<rparr>\<rparr>"
  have "client_run mem (m @ CRLF @ xs) 18 p sp = client_run mem (bs @ CRLF @ xs) 19 (p + 1) ?sp"
    using label_status(13) [of "sint b"] assms(2) by (simp add: m c_tr30_def on_client_def)
  also have "\<dots> = client_run mem (CRLF @ xs) 19 (p + 1 + length bs) ?sp"
    using label_status(14) assms(2) by (intro run_machine_loop) (auto simp: m)
  finally show ?thesis
    using label_status(15,16) text_at_string [OF assms(3,4)] by (simp add: CRLF_def m c_tr33_def client_act_defs goto_def Let_def)
qed

section \<open>Header lines\<close>

definition set_response_fields :: "(bytes \<times> bytes) list \<Rightarrow> HttpResponse \<Rightarrow> HttpResponse" where
  "set_response_fields fs d = fold (\<lambda>(k, v). rsp_setHeader k v) fs d"

lemma client_field_part:
  assumes "L \<in> set line_starts" and "client_field_ok (k, v)" and "length mem < 2 ^ 63" and "text_at mem p (field_text (k, v))"
  shows "\<exists>L' h. L' \<in> set line_starts
    \<and> client_run mem (field_text (k, v) @ xs) L p sp = client_run mem xs L' (p + length (field_text (k, v))) (sp\<lparr>sp_parser := h, sp_data := rsp_setHeader k v (sp_data sp)\<rparr>)
    \<and> cp_mark h < p + length (field_text (k, v)) \<and> cp_field_start h < p + length (field_text (k, v)) \<and> cp_field_len h < p + length (field_text (k, v))
    \<and> cp_body_start h = cp_body_start (sp_parser sp) \<and> (\<not> names_te k \<longrightarrow> cp_chunked h = cp_chunked (sp_parser sp))"
proof -
  have sep: "length (str '': '') = 2" "length CRLF = 2" by (simp_all add: CRLF_def)
  have at: "text_at mem p k" "text_at mem (p + length k + 2) v"
    using assms(4) by (simp_all add: field_text_def text_at_append sep add.assoc)
  obtain s h where s: "s \<in> set value_starts" "s = 61 \<longrightarrow> names_te k"
      "client_run mem (k @ str '': '' @ v @ CRLF @ xs) L p sp = client_run mem (v @ CRLF @ xs) s (p + length k + 2) (sp\<lparr>sp_parser := h\<rparr>)"
      "cp_field_start h = p" "cp_field_len h = length k" "cp_chunked h = cp_chunked (sp_parser sp)" "cp_body_start h = cp_body_start (sp_parser sp)"
    using field_name_part [OF assms(1,2)] by blast
  obtain L' h' where v: "L' \<in> set line_starts"
      "client_run mem (v @ CRLF @ xs) s (p + length k + 2) (sp\<lparr>sp_parser := h\<rparr>) = client_run mem xs L' (p + length k + 2 + length v + 2)
        ((sp\<lparr>sp_parser := h\<rparr>)\<lparr>sp_parser := h', sp_data := rsp_setHeader k v (sp_data (sp\<lparr>sp_parser := h\<rparr>))\<rparr>)"
      "cp_mark h' = p + length k + 2" "cp_field_start h' = p" "cp_field_len h' = length k" "cp_body_start h' = cp_body_start h"
      "s \<noteq> 61 \<longrightarrow> cp_chunked h' = cp_chunked h"
    using field_value_part [OF s(1) assms(2,3) at, of "sp\<lparr>sp_parser := h\<rparr>" xs] s(4,5) by auto
  have len: "p + length (field_text (k, v)) = p + length k + 2 + length v + 2" by (simp add: field_text_def sep)
  have "client_run mem (field_text (k, v) @ xs) L p sp = client_run mem xs L' (p + length (field_text (k, v))) (sp\<lparr>sp_parser := h', sp_data := rsp_setHeader k v (sp_data sp)\<rparr>)"
    unfolding len using s(3) v(2) by (simp add: field_text_def)
  then show ?thesis
    using v s by - (rule exI [of _ L'], rule exI [of _ h'], auto simp: len)
qed

lemma client_fields_part:
  assumes "L \<in> set line_starts" and "list_all client_field_ok fs" and "length mem < 2 ^ 63" and "text_at mem p (concat (map field_text fs))"
    and "cp_mark (sp_parser sp) < p" and "cp_field_start (sp_parser sp) < p" and "cp_field_len (sp_parser sp) < p"
  shows "\<exists>L' h. L' \<in> set line_starts
    \<and> client_run mem (concat (map field_text fs) @ xs) L p sp = client_run mem xs L' (p + length (concat (map field_text fs)))
        (sp\<lparr>sp_parser := h, sp_data := set_response_fields fs (sp_data sp)\<rparr>)
    \<and> cp_mark h < p + length (concat (map field_text fs)) \<and> cp_field_start h < p + length (concat (map field_text fs))
    \<and> cp_field_len h < p + length (concat (map field_text fs))
    \<and> cp_body_start h = cp_body_start (sp_parser sp) \<and> ((\<forall>(k, v) \<in> set fs. \<not> names_te k) \<longrightarrow> cp_chunked h = cp_chunked (sp_parser sp))"
  using assms
proof (induction fs arbitrary: L p sp)
  case Nil
  then show ?case by - (rule exI [of _ L], rule exI [of _ "sp_parser sp"], simp add: set_response_fields_def)
next
  case (Cons f fs)
  obtain k v where f: "f = (k, v)" by (cases f)
  let ?F = "length (field_text (k, v))" and ?T = "concat (map field_text fs)"
  have at: "text_at mem p (field_text (k, v))" "text_at mem (p + ?F) ?T"
    using Cons.prems(4) by (simp_all add: f text_at_append)
  have ok: "client_field_ok (k, v)" "list_all client_field_ok fs" using Cons.prems(2) by (simp_all add: f)
  obtain L1 h1 where 1: "L1 \<in> set line_starts"
      "client_run mem (field_text (k, v) @ ?T @ xs) L p sp = client_run mem (?T @ xs) L1 (p + ?F) (sp\<lparr>sp_parser := h1, sp_data := rsp_setHeader k v (sp_data sp)\<rparr>)"
      "cp_mark h1 < p + ?F" "cp_field_start h1 < p + ?F" "cp_field_len h1 < p + ?F"
      "cp_body_start h1 = cp_body_start (sp_parser sp)" "\<not> names_te k \<longrightarrow> cp_chunked h1 = cp_chunked (sp_parser sp)"
    using client_field_part [OF Cons.prems(1) ok(1) Cons.prems(3) at(1)] by blast
  let ?sp1 = "sp\<lparr>sp_parser := h1, sp_data := rsp_setHeader k v (sp_data sp)\<rparr>"
  have m: "cp_mark (sp_parser ?sp1) < p + ?F" "cp_field_start (sp_parser ?sp1) < p + ?F" "cp_field_len (sp_parser ?sp1) < p + ?F"
    using 1(3-5) by simp_all
  obtain L2 h2 where 2: "L2 \<in> set line_starts"
      "client_run mem (?T @ xs) L1 (p + ?F) ?sp1 = client_run mem xs L2 (p + ?F + length ?T) (?sp1\<lparr>sp_parser := h2, sp_data := set_response_fields fs (sp_data ?sp1)\<rparr>)"
      "cp_mark h2 < p + ?F + length ?T" "cp_field_start h2 < p + ?F + length ?T" "cp_field_len h2 < p + ?F + length ?T"
      "cp_body_start h2 = cp_body_start (sp_parser ?sp1)" "(\<forall>(k, v) \<in> set fs. \<not> names_te k) \<longrightarrow> cp_chunked h2 = cp_chunked (sp_parser ?sp1)"
    using Cons.IH [OF 1(1) ok(2) Cons.prems(3) at(2) m] by blast
  show ?case
    using 1 2 by - (rule exI [of _ L2], rule exI [of _ h2], auto simp: f set_response_fields_def add.assoc)
qed

lemma head_end_part:
  assumes "L \<in> set line_starts"
  shows "\<exists>h. client_run mem (CRLF @ xs) L p sp = Inr (120, p + 2, sp\<lparr>sp_parser := h\<rparr>) \<and> cp_body_start h = p + 2 \<and> cp_mark h = cp_mark (sp_parser sp)
    \<and> cp_field_start h = cp_field_start (sp_parser sp) \<and> cp_field_len h = cp_field_len (sp_parser sp) \<and> cp_chunked h = cp_chunked (sp_parser sp)"
  using head_end_table [unfolded list_all_iff, rule_format, OF assms] label_status(17)
  by - (rule exI [of _ "((if L = 43 then cp_close_update (\<lambda>_. True) else id) (sp_parser sp))\<lparr>cp_body_start := p + 2\<rparr>"],
      simp add: CRLF_def c_tr7_def client_act_defs)

section \<open>A whole response\<close>

definition printed_header :: "bool \<Rightarrow> bytes \<times> bytes \<Rightarrow> bool" where
  "printed_header websocket f \<longleftrightarrow> websocket \<or> \<not> same_name (fst f) (str ''connection'')"

definition has_length :: "HttpResponse \<Rightarrow> bool" where
  "has_length q \<longleftrightarrow> list_ex (\<lambda>f. same_name (fst f) (str ''content-length'')) (filter (printed_header (rs_websocket q)) (rs_headers q))"

definition response_fields :: "HttpResponse \<Rightarrow> (bytes \<times> bytes) list" where
  "response_fields q =
     filter (printed_header (rs_websocket q)) (rs_headers q)
     @ map (Pair (str ''Set-Cookie'')) (rs_cookies q)
     @ (if rs_websocket q then [] else [(str ''connection'', if rs_close q then str ''close'' else str ''keep-alive'')])
     @ (if rs_body q = [] \<or> has_length q then [] else [(str ''content-length'', str (dec (length (rs_body q))))])"

definition response_reason :: "HttpResponse \<Rightarrow> bytes" where
  "response_reason q = (if rs_reason q = [] then HttpStatusToString (rs_status q) else rs_reason q)"

definition response_head :: "HttpResponse \<Rightarrow> bytes" where
  "response_head q =
     version_text (rs_version q) @ 32 # str (dec (nat (rs_status q))) @ 32 # response_reason q @ CRLF
     @ concat (map field_text (response_fields q)) @ CRLF"

definition response_ok :: "HttpResponse \<Rightarrow> bool" where
  "response_ok q \<longleftrightarrow>
     (rs_version q = 0x10 \<or> rs_version q = 0x11) \<and> 0 \<le> rs_status q \<and> rs_status q < 2 ^ 31
   \<and> list_all (\<lambda>b. client_text (sint b)) (rs_reason q)
   \<and> list_all client_field_ok (rs_headers q) \<and> list_all (\<lambda>c. client_field_ok (str ''Set-Cookie'', c)) (rs_cookies q)"

lemma dump_headers_fields:
  "dump_headers w m b = (concat (map field_text (filter (printed_header w) m)),
     b \<or> list_ex (\<lambda>f. same_name (fst f) (str ''content-length'')) (filter (printed_header w) m))"
  by (induction w m b rule: dump_headers.induct) (auto simp: printed_header_def field_text_def)

lemma rsp_dump_head:
  assumes "0 \<le> rs_status q" and "rs_status q < 2 ^ 31"
  shows "rsp_dump q = response_head q @ rs_body q"
proof -
  have "str '' '' = [32]" "str ''connection: '' = str ''connection'' @ str '': ''" "str ''Set-Cookie: '' = str ''Set-Cookie'' @ str '': ''"
      "str ''content-length: '' = str ''content-length'' @ str '': ''" by (simp_all add: str_def)
  moreover have "rs_status q mod 2 ^ 32 = rs_status q" using assms by simp
  ultimately show ?thesis
    by (simp add: rsp_dump_def response_head_def dump_headers_fields response_fields_def response_reason_def has_length_def o_def field_text_def [of "(a, b)" for a b])
qed

lemma status_texts: "HttpStatusToString s \<noteq> [] \<and> (\<forall>b \<in> set (HttpStatusToString s). client_text (sint b))"
proof -
  have "list_all (\<lambda>(s, m). m \<noteq> [] \<and> list_all (\<lambda>b. client_text (sint b)) m) HTTP_STATUS_MAP" by code_simp
  moreover have "str ''<unknown>'' \<noteq> [] \<and> list_all (\<lambda>b. client_text (sint b)) (str ''<unknown>'')" by code_simp
  ultimately show ?thesis
    by (auto simp: HttpStatusToString_def list_all_iff dest: map_of_SomeD split: option.split)
qed

lemma response_fields_ok: "response_ok q \<Longrightarrow> list_all client_field_ok (response_fields q)"
proof -
  assume ok: "response_ok q"
  have "client_field_ok (str ''content-length'', str (dec n))" for n
  proof -
    have "client_text (sint c)" "sint c \<noteq> 32" "13 < sint c" if "c \<in> set (str (dec n))" for c
      using dec_digits [OF that] by (auto simp: client_text_def)
    moreover have "list_all (\<lambda>b. client_token (sint b)) (str ''content-length'')" "str ''content-length'' \<noteq> []" by code_simp+
    moreover have "str (dec n) \<noteq> []" using dec_nonempty [of n] by (simp add: str_def)
    ultimately show ?thesis by (auto simp: client_field_ok_def list_all_iff)
  qed
  moreover have "client_field_ok (str ''connection'', str ''close'')" "client_field_ok (str ''connection'', str ''keep-alive'')" by code_simp+
  ultimately show ?thesis using ok by (auto simp: response_fields_def response_ok_def list_all_iff)
qed

text \<open>What the parser makes of a response.\<close>

definition parsed_response :: "HttpResponse \<Rightarrow> HttpResponse" where
  "parsed_response q =
     set_response_fields (response_fields q)
       ((HttpResponse_new 0x11 True)\<lparr>rs_version := rs_version q, rs_status := rs_status q, rs_reason := response_reason q\<rparr>)"

lemma client_new:
  "cp_cs (sp_parser (HttpResponseParser_new g)) = 1" "cp_body_start (sp_parser (HttpResponseParser_new g)) = 0"
  "\<not> cp_chunked (sp_parser (HttpResponseParser_new g))" "cp_content_len (sp_parser (HttpResponseParser_new g)) = - 1"
  "sp_error (HttpResponseParser_new g) = 0" "sp_data (HttpResponseParser_new g) = HttpResponse_new 0x11 True"
  by (simp_all add: HttpResponseParser_new_def httpclient_parser_init_def)

lemma response_head_part:
  assumes "response_ok q" and "text_at mem 0 (response_head q)" and "length mem < 2 ^ 63"
    and "sp_data sp = HttpResponse_new 0x11 True" and "cp_field_start (sp_parser sp) = 0" and "cp_field_len (sp_parser sp) = 0"
  defines "H \<equiv> length (response_head q)"
  shows "\<exists>h. client_run mem (response_head q @ xs) 1 0 sp = Inr (120, H, sp\<lparr>sp_parser := h, sp_data := parsed_response q\<rparr>)
    \<and> cp_mark h < H \<and> cp_field_start h < H \<and> cp_field_len h < H \<and> cp_body_start h = H
    \<and> ((\<forall>(k, v) \<in> set (response_fields q). \<not> names_te k) \<longrightarrow> cp_chunked h = cp_chunked (sp_parser sp))"
proof -
  let ?V = "version_text (rs_version q)" and ?S = "str (dec (nat (rs_status q)))" and ?R = "response_reason q"
  let ?F = "concat (map field_text (response_fields q))"
  let ?p1 = "9 + length ?S + 1"
  let ?p2 = "?p1 + length ?R + 2"
  let ?p3 = "?p2 + length ?F"
  have V: "rs_version q = 0x10 \<or> rs_version q = 0x11" and S: "int (nat (rs_status q)) < 2 ^ 31" "int (nat (rs_status q)) = rs_status q"
    and F: "list_all client_field_ok (response_fields q)"
    using assms(1) response_fields_ok by (auto simp: response_ok_def)
  have R: "?R \<noteq> []" "\<forall>b \<in> set ?R. client_text (sint b)"
    using assms(1) status_texts by (auto simp: response_reason_def response_ok_def list_all_iff)
  have vlen: "length ?V = 8" using V by (auto simp: version_texts)
  have head: "response_head q = ?V @ [32] @ (?S @ [32]) @ ?R @ CRLF @ ?F @ CRLF" by (simp add: response_head_def)
  have H: "H = ?p3 + 2" by (simp add: H_def head vlen CRLF_def)
  have at: "text_at mem 0 ?V" "text_at mem 9 (?S @ [32])" "text_at mem ?p1 ?R" "text_at mem ?p2 ?F"
    using assms(2) unfolding head by (simp_all only: text_at_append vlen) (simp_all add: CRLF_def)
  let ?sp1 = "sp\<lparr>sp_parser := (sp_parser sp)\<lparr>cp_mark := 0\<rparr>, sp_data := (sp_data sp)\<lparr>rs_version := rs_version q\<rparr>\<rparr>"
  let ?sp2 = "?sp1\<lparr>sp_parser := (sp_parser ?sp1)\<lparr>cp_mark := 9, cp_status := rs_status q\<rparr>, sp_data := (sp_data ?sp1)\<lparr>rs_status := rs_status q\<rparr>\<rparr>"
  let ?sp3 = "?sp2\<lparr>sp_parser := (sp_parser ?sp2)\<lparr>cp_mark := ?p1\<rparr>, sp_data := (sp_data ?sp2)\<lparr>rs_reason := ?R\<rparr>\<rparr>"
  have "client_run mem (response_head q @ xs) 1 0 sp = client_run mem (?S @ 32 # ?R @ CRLF @ ?F @ CRLF @ xs) 16 9 ?sp1"
    using response_version_part [OF V at(1), of _ sp] by (simp add: response_head_def)
  also have "\<dots> = client_run mem (?R @ CRLF @ ?F @ CRLF @ xs) 18 ?p1 ?sp2"
    using status_part [OF S(1) at(2) assms(3)] unfolding S(2) by blast
  also have "\<dots> = client_run mem (?F @ CRLF @ xs) 20 ?p2 ?sp3"
    by (rule reason_part [OF R at(3) assms(3)])
  finally have start: "client_run mem (response_head q @ xs) 1 0 sp = client_run mem (?F @ CRLF @ xs) 20 ?p2 ?sp3" .
  have b: "cp_mark (sp_parser ?sp3) < ?p2" "cp_field_start (sp_parser ?sp3) < ?p2" "cp_field_len (sp_parser ?sp3) < ?p2" "20 \<in> set line_starts"
    using assms(5,6) by (simp_all add: line_starts_def)
  obtain L h where f: "L \<in> set line_starts"
      "client_run mem (?F @ CRLF @ xs) 20 ?p2 ?sp3 = client_run mem (CRLF @ xs) L ?p3 (?sp3\<lparr>sp_parser := h, sp_data := set_response_fields (response_fields q) (sp_data ?sp3)\<rparr>)"
      "cp_mark h < ?p3" "cp_field_start h < ?p3" "cp_field_len h < ?p3"
      "(\<forall>(k, v) \<in> set (response_fields q). \<not> names_te k) \<longrightarrow> cp_chunked h = cp_chunked (sp_parser ?sp3)"
    using client_fields_part [OF b(4) F assms(3) at(4) b(1-3)] by blast
  let ?sp4 = "?sp3\<lparr>sp_parser := h, sp_data := set_response_fields (response_fields q) (sp_data ?sp3)\<rparr>"
  obtain h' where "client_run mem (CRLF @ xs) L ?p3 ?sp4 = Inr (120, ?p3 + 2, ?sp4\<lparr>sp_parser := h'\<rparr>)" "cp_body_start h' = ?p3 + 2"
      "cp_mark h' = cp_mark (sp_parser ?sp4)" "cp_field_start h' = cp_field_start (sp_parser ?sp4)" "cp_field_len h' = cp_field_len (sp_parser ?sp4)"
      "cp_chunked h' = cp_chunked (sp_parser ?sp4)"
    using head_end_part [OF f(1)] by blast
  then show ?thesis
    unfolding start f(2) using f(3-6) assms(4) by - (rule exI [of _ h'], simp add: H parsed_response_def)
qed

lemma client_execute_run:
  assumes "client_run mem (take len mem) (cp_cs (sp_parser sp)) 0
      (on_client (\<lambda>h. h\<lparr>cp_nread := 0, cp_mark := 0, cp_field_len := 0, cp_field_start := 0\<rparr>) sp) = Inr (cs, p, sp1)"
    and "len < length mem" and "mem ! len = 0" and "p \<le> len" and "cp_body_start (sp_parser sp1) \<le> len"
    and "cp_mark (sp_parser sp1) < len" and "cp_field_len (sp_parser sp1) \<le> len" and "cp_field_start (sp_parser sp1) < len"
  shows "httpclient_parser_execute mem len 0 sp = Inr (Some p, on_client (\<lambda>h. h\<lparr>cp_cs := cs, cp_nread := p\<rparr>) sp1)"
  using assms by (simp add: httpclient_parser_execute_def on_client_def)

lemma response_executed:
  assumes "response_ok q" and "text_at mem 0 (response_head q)" and "length mem < 2 ^ 63" and "length (response_head q) \<le> n" and "n < length mem" and "mem ! n = 0"
  shows "\<exists>sp. httpclient_parser_execute mem n 0 (HttpResponseParser_new garbage) = Inr (Some (length (response_head q)), sp)
    \<and> cp_cs (sp_parser sp) = 120 \<and> sp_error sp = 0 \<and> sp_data sp = parsed_response q
    \<and> ((\<forall>(k, v) \<in> set (response_fields q). \<not> names_te k) \<longrightarrow> \<not> cp_chunked (sp_parser sp))"
proof -
  let ?sp0 = "on_client (\<lambda>h. h\<lparr>cp_nread := 0, cp_mark := 0, cp_field_len := 0, cp_field_start := 0\<rparr>) (HttpResponseParser_new garbage)"
  let ?H = "length (response_head q)"
  have txt_of: "take n mem = response_head q @ take (n - ?H) (drop ?H mem)"
    using assms(2,4) by (metis append_take_drop_id text_at_def drop0 take_append take_all_iff)
  obtain h where h: "client_run mem (response_head q @ take (n - ?H) (drop ?H mem)) 1 0 ?sp0 = Inr (120, ?H, ?sp0\<lparr>sp_parser := h, sp_data := parsed_response q\<rparr>)"
      "cp_mark h < ?H" "cp_field_start h < ?H" "cp_field_len h < ?H" "cp_body_start h = ?H"
      "(\<forall>(k, v) \<in> set (response_fields q). \<not> names_te k) \<longrightarrow> cp_chunked h = cp_chunked (sp_parser ?sp0)"
    using response_head_part [OF assms(1-3), of ?sp0 "take (n - ?H) (drop ?H mem)"] by (auto simp: on_client_def client_new)
  define sp where "sp = on_client (\<lambda>h. h\<lparr>cp_cs := 120, cp_nread := ?H\<rparr>) (?sp0\<lparr>sp_parser := h, sp_data := parsed_response q\<rparr>)"
  have "httpclient_parser_execute mem n 0 (HttpResponseParser_new garbage) = Inr (Some ?H, sp)"
    unfolding sp_def
    using h(1) assms(4-6) h(2-5) by (intro client_execute_run) (simp_all add: client_new txt_of)
  moreover have "cp_cs (sp_parser sp) = 120" "sp_error sp = 0" "sp_data sp = parsed_response q" "cp_chunked (sp_parser sp) = cp_chunked h"
    by (simp_all add: sp_def on_client_def client_new)
  ultimately show ?thesis using h(6) by (auto simp: on_client_def client_new)
qed

text \<open>A later line of the same name replaces an earlier one.\<close>

definition last_field :: "HttpResponse \<Rightarrow> bytes \<Rightarrow> bytes option" where
  "last_field q k = map_option snd (find (\<lambda>f. key_of (fst f) = key_of k) (rev (response_fields q)))"

lemma find_fold_last:
  "map_find k (fold (\<lambda>(k, v). map_set k v) fs m)
   = (case find (\<lambda>f. key_of (fst f) = key_of k) (rev fs) of Some f \<Rightarrow> Some (snd f) | None \<Rightarrow> map_find k m)"
  by (induction fs rule: rev_induct) (auto simp: header_map.find_set same_key_iff)

lemma set_response_fields_same:
  "rs_status (set_response_fields fs d) = rs_status d" "rs_version (set_response_fields fs d) = rs_version d"
  "rs_reason (set_response_fields fs d) = rs_reason d" "rs_body (set_response_fields fs d) = rs_body d"
  "rs_close (set_response_fields fs d) = rs_close d"
  "rs_headers (set_response_fields fs d) = fold (\<lambda>(k, v). map_set k v) fs (rs_headers d)"
  by (induction fs arbitrary: d) (auto simp: set_response_fields_def rsp_setHeader_def)

lemma parsed_response_same:
  "rs_status (parsed_response q) = rs_status q" "rs_version (parsed_response q) = rs_version q" "rs_reason (parsed_response q) = response_reason q"
  "rs_body (parsed_response q) = []" "map_find k (rs_headers (parsed_response q)) = last_field q k"
  by (simp_all add: parsed_response_def set_response_fields_same HttpResponse_new_def find_fold_last last_field_def split: option.split)

text \<open>C8. A response that \<open>HttpResponse::dump\<close> printed is read back by \<open>HttpResponseParser::execute\<close>: the parser stops right before the body,
  which is then at the front of the buffer; it is finished and has no error, and its response has the status, version
  and reason of the one printed and, for every name, the value of the last header line of that name. Without a
  \<open>Transfer-Encoding\<close> line the response is not taken to be in chunks.\<close>

theorem response_text_parsed:
  assumes "response_ok q" and "length (rsp_dump q @ 0 # junk) < 2 ^ 63"
  shows "\<exists>mem' sp. HttpResponseParser_execute (rsp_dump q @ 0 # junk) (length (rsp_dump q)) False (HttpResponseParser_new garbage)
      = Inr (length (rsp_dump q) - length (rs_body q), mem', sp)
    \<and> HttpResponseParser_isFinished sp = 1 \<and> \<not> HttpResponseParser_hasError sp
    \<and> take (length (rs_body q)) mem' = rs_body q
    \<and> rs_status (sp_data sp) = rs_status q \<and> rs_version (sp_data sp) = rs_version q \<and> rs_reason (sp_data sp) = response_reason q
    \<and> (\<forall>k. map_find k (rs_headers (sp_data sp)) = last_field q k)
    \<and> ((\<forall>(k, v) \<in> set (response_fields q). \<not> names_te k) \<longrightarrow> \<not> cp_chunked (sp_parser sp))"
proof -
  let ?mem = "rsp_dump q @ 0 # junk" and ?n = "length (rsp_dump q)"
  have dump: "rsp_dump q = response_head q @ rs_body q" using assms(1) by (intro rsp_dump_head) (simp_all add: response_ok_def)
  have "text_at ?mem 0 (response_head q)" "length (response_head q) \<le> ?n" "?n < length ?mem" "?mem ! ?n = 0" by (simp_all add: dump text_at_front nth_append)
  then obtain sp where sp: "httpclient_parser_execute ?mem ?n 0 (HttpResponseParser_new garbage) = Inr (Some (length (response_head q)), sp)"
      "cp_cs (sp_parser sp) = 120" "sp_error sp = 0" "sp_data sp = parsed_response q"
      "(\<forall>(k, v) \<in> set (response_fields q). \<not> names_te k) \<longrightarrow> \<not> cp_chunked (sp_parser sp)"
    using response_executed [OF assms(1) _ assms(2)] by blast
  then show ?thesis
    using parsed_response_same
    by (simp add: HttpResponseParser_execute_def HttpResponseParser_isFinished_def HttpResponseParser_hasError_def httpclient_parser_finish_def
        httpclient_parser_has_error_def httpclient_parser_is_finished_def dump blit_def)
qed

definition sample_response :: HttpResponse where
  "sample_response = (HttpResponse_new 0x11 False)\<lparr>rs_body := str ''hello'', rs_headers := [(str ''Content-Type'', str ''text/html'')],
     rs_cookies := [str ''a=1'', str ''b=2'']\<rparr>"

lemma sample_response_ok: "response_ok sample_response"
proof -
  have "client_field_ok (str ''Content-Type'', str ''text/html'')" "client_field_ok (str ''Set-Cookie'', str ''a=1'')"
      "client_field_ok (str ''Set-Cookie'', str ''b=2'')" by code_simp+
  then show ?thesis by (simp add: response_ok_def sample_response_def HttpResponse_new_def)
qed

definition no_client :: httpclient_parser where
  "no_client = httpclient_parser.make 0 0 0 0 False False False 0 0 0 0"

theorem response_text_parsed_witness:
  "response_ok sample_response \<and> (\<exists>mem' sp. HttpResponseParser_execute (rsp_dump sample_response @ [0]) (length (rsp_dump sample_response)) False (HttpResponseParser_new no_client)
      = Inr (length (rsp_dump sample_response) - 5, mem', sp) \<and> HttpResponseParser_isFinished sp = 1
    \<and> rs_status (sp_data sp) = 200 \<and> rs_reason (sp_data sp) = str ''OK'' \<and> map_find (str ''set-cookie'') (rs_headers (sp_data sp)) = Some (str ''b=2''))"
proof -
  have "length (rsp_dump sample_response @ [0]) < 200" by code_simp
  then have "length (rsp_dump sample_response @ [0]) < 2 ^ 63" by simp
  from response_text_parsed [OF sample_response_ok this, of no_client] sample_response_ok
  have "\<exists>mem' sp. HttpResponseParser_execute (rsp_dump sample_response @ [0]) (length (rsp_dump sample_response)) False (HttpResponseParser_new no_client)
      = Inr (length (rsp_dump sample_response) - 5, mem', sp) \<and> HttpResponseParser_isFinished sp = 1
    \<and> rs_status (sp_data sp) = rs_status sample_response \<and> rs_reason (sp_data sp) = response_reason sample_response
    \<and> map_find (str ''set-cookie'') (rs_headers (sp_data sp)) = last_field sample_response (str ''set-cookie'')"
    by (auto simp: sample_response_def str_def)
  moreover have "rs_status sample_response = 200" "response_reason sample_response = str ''OK''"
      "last_field sample_response (str ''set-cookie'') = Some (str ''b=2'')" by code_simp+
  ultimately show ?thesis using sample_response_ok by auto
qed

end
