(* ===== verification/HttpConnection.thy ===== *)
theory HttpConnection
  imports HttpSession HttpResponseText
begin

text \<open>
  \<^verbatim>\<open>src/chat/http/http_connection.cc\<close>: the client's side of an HTTP/1 connection. As in \<open>HttpSession\<close> the stream is a
  parameter and not to return is \<open>None\<close>. \<open>ce_inflate\<close> stands for a \<open>ZlibStream\<close> (its flag says whether the body is in
  gzip format). The buffer has room for one byte more than \<open>buff_size\<close>, the terminating zero that the parser demands.
\<close>

record 's conn_env = "'s session_env" +
  ce_inflate :: "bool \<Rightarrow> bytes \<Rightarrow> bytes"

section \<open>Receiving a response\<close>

partial_function (option) recv_response_head ::
    "'s conn_env \<Rightarrow> nat \<Rightarrow> bytes \<Rightarrow> nat \<Rightarrow> HttpResponseParser \<Rightarrow> 's
      \<Rightarrow> (error + 's \<times> (HttpResponseParser \<times> bytes \<times> nat) option) option" where
  "recv_response_head E buff_size buffer offset parser s =
     (case se_read E (buff_size - offset) s of (rt, bs, s1) \<Rightarrow>
        if rt \<le> 0 then Some (Inr (se_close E s1, None))
        else
          let len = nat rt + offset in
          (case HttpResponseParser_execute ((blit offset bs buffer)[len := 0]) len False parser of
             Inl e \<Rightarrow> Some (Inl e)
           | Inr (nparse, buffer', parser') \<Rightarrow>
               if HttpResponseParser_hasError parser' then Some (Inr (se_close E s1, None))
               else if len - nparse = buff_size then Some (Inr (se_close E s1, None))
               else if HttpResponseParser_isFinished parser' \<noteq> 0 then Some (Inr (s1, Some (parser', buffer', len - nparse)))
               else recv_response_head E buff_size buffer' (len - nparse) parser' s1))"

text \<open>The inner loop over a chunk's first line; \<open>execute\<close> starts the parser anew in every round.\<close>

partial_function (option) recv_chunk_head ::
    "'s conn_env \<Rightarrow> nat \<Rightarrow> bool \<Rightarrow> bytes \<Rightarrow> nat \<Rightarrow> HttpResponseParser \<Rightarrow> 's
      \<Rightarrow> (error + 's \<times> (HttpResponseParser \<times> bytes \<times> nat) option) option" where
  "recv_chunk_head E buff_size begin' buffer len parser s =
     (case (if \<not> begin' \<or> len = 0 then se_read E (buff_size - len) s else (1, [], s)) of (rt, bs, s1) \<Rightarrow>
        if rt \<le> 0 then Some (Inr (se_close E s1, None))
        else
          let len' = (if \<not> begin' \<or> len = 0 then len + nat rt else len) in
          (case HttpResponseParser_execute ((blit len bs buffer)[len' := 0]) len' True parser of
             Inl e \<Rightarrow> Some (Inl e)
           | Inr (nparse, buffer', parser') \<Rightarrow>
               if HttpResponseParser_hasError parser' then Some (Inr (se_close E s1, None))
               else if len' - nparse = buff_size then Some (Inr (se_close E s1, None))
               else if HttpResponseParser_isFinished parser' \<noteq> 0 then Some (Inr (s1, Some (parser', buffer', len' - nparse)))
               else recv_chunk_head E buff_size False buffer' (len' - nparse) parser' s1))"

text \<open>The loop that reads the rest of a chunk and the line break behind it: \<open>None\<close> when the stream ends.\<close>

function read_chunk_rest :: "'s raw_reader \<Rightarrow> int \<Rightarrow> int \<Rightarrow> bytes \<Rightarrow> 's \<Rightarrow> bytes option \<times> 's" where
  "read_chunk_rest rd buff_size left body s =
     (if \<not> left > 0 then (Some body, s)
      else case rd (nat (min left buff_size)) s of
        (n, bs, s') \<Rightarrow> if n \<le> 0 then (None, s') else read_chunk_rest rd buff_size (left - n) (body @ bs) s')"
  by pat_completeness auto
termination
  by (relation "measure (\<lambda>(rd, mx, left, body, s). nat left)") auto

declare read_chunk_rest.simps [simp del]

text \<open>
  One chunk, after its first line. \<open>content_len\<close> is an \<open>int\<close>; \<open>append\<close> takes a \<open>size_t\<close>, so that a negative length throws,
  as does the \<open>resize\<close> of a body of less than two bytes. (The addition of 2 would overflow for the two greatest values of an
  \<open>int\<close>, which is undefined; the model takes the sum of integers.)
\<close>

definition recv_chunk :: "'s conn_env \<Rightarrow> nat \<Rightarrow> int \<Rightarrow> bytes \<Rightarrow> bytes \<Rightarrow> nat \<Rightarrow> 's \<Rightarrow> error + 's \<times> (bytes \<times> bytes \<times> nat) option" where
  "recv_chunk E buff_size content_len body buffer len s =
     (if content_len + 2 \<le> int len then
        if content_len < 0 then Inl Length_error
        else let n = nat content_len in
             Inr (s, Some (body @ take n buffer, blit 0 (take (len - n - 2) (drop (n + 2) buffer)) buffer, len - n - 2))
      else
        (case read_chunk_rest (se_read E) (int buff_size) (content_len - int len + 2) (body @ take len buffer) s of
           (None, s1) \<Rightarrow> Inr (se_close E s1, None)
         | (Some body', s1) \<Rightarrow>
             if length body' < 2 then Inl Length_error
             else Inr (s1, Some (take (length body' - 2) body', buffer, 0))))"

text \<open>The loop over the chunks. \<open>client_parser\<close> is the copy of the parser that was taken after the head.\<close>

partial_function (option) recv_chunks ::
    "'s conn_env \<Rightarrow> nat \<Rightarrow> httpclient_parser \<Rightarrow> bytes \<Rightarrow> bytes \<Rightarrow> nat \<Rightarrow> HttpResponseParser \<Rightarrow> 's
      \<Rightarrow> (error + 's \<times> (HttpResponseParser \<times> bytes) option) option" where
  "recv_chunks E buff_size client_parser body buffer len parser s =
     (case recv_chunk_head E buff_size True buffer len parser s of
        None \<Rightarrow> None
      | Some (Inl e) \<Rightarrow> Some (Inl e)
      | Some (Inr (s1, None)) \<Rightarrow> Some (Inr (s1, None))
      | Some (Inr (s1, Some (parser', buffer', len'))) \<Rightarrow>
          (case recv_chunk E buff_size (cp_content_len client_parser) body buffer' len' s1 of
             Inl e \<Rightarrow> Some (Inl e)
           | Inr (s2, None) \<Rightarrow> Some (Inr (s2, None))
           | Inr (s2, Some (body', buffer2, len2)) \<Rightarrow>
               if cp_chunks_done client_parser then Some (Inr (s2, Some (parser', body')))
               else recv_chunks E buff_size client_parser body' buffer2 len2 parser' s2))"

text \<open>The body of a response that is not in chunks.\<close>

definition recv_plain_body :: "'s conn_env \<Rightarrow> int \<Rightarrow> bytes \<Rightarrow> nat \<Rightarrow> 's \<Rightarrow> 's \<times> bytes option" where
  "recv_plain_body E len buffer offset s =
     (if len > 0 then
        let body = take (if len \<ge> int offset then offset else nat len) buffer;
            left = len - int offset
        in if left > 0 then
             (case readFixSize_raw (se_read E) (se_buff E) (nat left) s of (rt, bs, s1) \<Rightarrow>
                if rt \<le> 0 then (se_close E s1, None) else (s1, Some (body @ bs)))
           else (s, Some body)
      else (s, Some []))"

definition decode_body :: "'s conn_env \<Rightarrow> bytes \<Rightarrow> HttpResponse \<Rightarrow> HttpResponse" where
  "decode_body E body rsp =
     (if body = [] then rsp
      else
        let encoding = rsp_getHeader (str ''content-encoding'') [] rsp in
        rsp\<lparr>rs_body :=
          (if same_name encoding (str ''gzip'') then ce_inflate E True body
           else if same_name encoding (str ''deflate'') then ce_inflate E False body
           else body)\<rparr>)"

definition HttpConnection_recvResponse ::
    "'s conn_env \<Rightarrow> bytes \<Rightarrow> httpclient_parser \<Rightarrow> 's \<Rightarrow> (error + 's \<times> HttpResponse option) option" where
  "HttpConnection_recvResponse E buffer garbage s =
     (let buff_size = length buffer - 1 in
      case recv_response_head E buff_size buffer 0 (HttpResponseParser_new garbage) s of
        None \<Rightarrow> None
      | Some (Inl e) \<Rightarrow> Some (Inl e)
      | Some (Inr (s1, None)) \<Rightarrow> Some (Inr (s1, None))
      | Some (Inr (s1, Some (parser, buffer', offset))) \<Rightarrow>
          (let client_parser = sp_parser parser in
           if cp_chunked client_parser then
             map_option (map_sum id (\<lambda>(s2, r). (s2, map_option (\<lambda>(p, body). initConnection (decode_body E body (sp_data p))) r)))
               (recv_chunks E buff_size client_parser [] buffer' offset parser s1)
           else
             (case recv_plain_body E (sint (HttpResponseParser_getContentLength (se_lexical_cast E) parser)) buffer' offset s1 of
                (s2, r) \<Rightarrow> Some (Inr (s2, map_option (\<lambda>body. initConnection (decode_body E body (sp_data parser))) r)))))"

section \<open>Sending a request\<close>

definition HttpConnection_sendRequest :: "'s conn_env \<Rightarrow> HttpRequest \<Rightarrow> 's \<Rightarrow> int \<times> 's" where
  "HttpConnection_sendRequest E req s = writeFixSize_raw (se_write E) (se_buff E) (req_dump req) s"

datatype HttpResult_Error =
    R_OK | R_INVALID_URL | R_INVALID_HOST | R_CONNECT_FAIL | R_SEND_CLOSE_BY_PEER | R_SEND_SOCKET_ERROR | R_TIMEOUT
  | R_CREATE_SOCKET_ERROR | R_POOL_GET_CONNECTION | R_POOL_INVALID_CONNECTION

text \<open>\<open>DoRequest\<close> on a connected socket.\<close>

definition HttpConnection_DoRequest ::
    "'s conn_env \<Rightarrow> bytes \<Rightarrow> httpclient_parser \<Rightarrow> HttpRequest \<Rightarrow> 's \<Rightarrow> (error + 's \<times> HttpResult_Error \<times> HttpResponse option) option" where
  "HttpConnection_DoRequest E buffer garbage req s =
     (case HttpConnection_sendRequest E req s of (rt, s1) \<Rightarrow>
        if rt = 0 then Some (Inr (s1, R_SEND_CLOSE_BY_PEER, None))
        else if rt < 0 then Some (Inr (s1, R_SEND_SOCKET_ERROR, None))
        else map_option (map_sum id (\<lambda>(s2, r). case r of None \<Rightarrow> (s2, R_TIMEOUT, None) | Some rsp \<Rightarrow> (s2, R_OK, Some rsp)))
          (HttpConnection_recvResponse E buffer garbage s1))"

text \<open>The request that \<open>DoRequest\<close> makes of its arguments; the headers come in a \<open>std::map\<close> with the order of strings.\<close>

fun request_headers :: "(bytes \<times> bytes) list \<Rightarrow> bool \<Rightarrow> HttpRequest \<Rightarrow> bool \<times> HttpRequest" where
  "request_headers [] has_host req = (has_host, req)"
| "request_headers ((k, v) # m) has_host req =
     (if same_name k (str ''connection'') then
        request_headers m has_host (if same_name v (str ''keep-alive'') then req\<lparr>rq_close := False\<rparr> else req)
      else
        request_headers m (if \<not> has_host \<and> same_name k (str ''host'') then v \<noteq> [] else has_host) (req_setHeader k v req))"

definition make_request :: "HttpMethod \<Rightarrow> bytes \<Rightarrow> bytes \<Rightarrow> bytes \<Rightarrow> bytes \<Rightarrow> (bytes \<times> bytes) list \<Rightarrow> bytes \<Rightarrow> HttpRequest" where
  "make_request method path query fragment host headers body =
     (let req = (HttpRequest_new 0x11 True)\<lparr>rq_path := path, rq_query := query, rq_fragment := fragment, rq_method := method\<rparr>;
          (has_host, req1) = request_headers headers False req;
          req2 = (if has_host then req1 else req_setHeader (str ''Host'') host req1)
      in req2\<lparr>rq_body := body\<rparr>)"

section \<open>A response over a connection\<close>

lemma response_head_received:
  assumes "response_ok q" and "bs = response_head q @ cs" and "se_read E (length buffer - 1) s = (int (length bs), bs, s1)"
    and "length bs < length buffer" and "length buffer < 2 ^ 63"
  shows "\<exists>sp buffer'. recv_response_head E (length buffer - 1) buffer 0 (HttpResponseParser_new garbage) s
      = Some (Inr (s1, Some (sp, buffer', length cs)))
    \<and> take (length cs) buffer' = cs \<and> sp_data sp = parsed_response q
    \<and> ((\<forall>(k, v) \<in> set (response_fields q). \<not> names_te k) \<longrightarrow> \<not> cp_chunked (sp_parser sp))"
proof -
  let ?H = "length (response_head q)" and ?k = "length bs"
  define m where "m = (blit 0 bs buffer)[?k := 0]"
  have mem: "m = response_head q @ cs @ 0 # drop (Suc ?k) buffer"
    using assms(4) by (simp add: m_def blit_def list_update_append assms(2) Cons_nth_drop_Suc [symmetric] del: Cons_nth_drop_Suc)
  have k: "?k = ?H + length cs" "response_head q \<noteq> []" by (simp_all add: assms(2) response_head_def CRLF_def)
  have "text_at m 0 (response_head q)" "length m < 2 ^ 63" "?H \<le> ?k" "?k < length m" "m ! ?k = 0"
    using assms(4,5) by (simp_all add: mem text_at_front k nth_append)
  then obtain sp where sp: "httpclient_parser_execute m ?k 0 (HttpResponseParser_new garbage) = Inr (Some ?H, sp)"
      "cp_cs (sp_parser sp) = 120" "sp_error sp = 0" "sp_data sp = parsed_response q"
      "(\<forall>(k, v) \<in> set (response_fields q). \<not> names_te k) \<longrightarrow> \<not> cp_chunked (sp_parser sp)"
    using response_executed [OF assms(1)] by blast
  let ?b = "blit 0 (take (?k - ?H) (drop ?H m)) m"
  have "HttpResponseParser_execute m ?k False (HttpResponseParser_new garbage) = Inr (?H, ?b, sp)"
    using sp(1) by (simp add: HttpResponseParser_execute_def)
  moreover have "?k - ?H = length cs" "0 < ?k" "length cs \<noteq> length buffer - 1" "take (length cs) ?b = cs"
    using k assms(4) by (auto simp: mem blit_def simp flip: length_greater_0_conv)
  ultimately show ?thesis
    using assms(3) sp(2-5) by (subst recv_response_head.simps)
      (auto simp: m_def [symmetric] HttpResponseParser_isFinished_def HttpResponseParser_hasError_def httpclient_parser_finish_def
        httpclient_parser_has_error_def httpclient_parser_is_finished_def)
qed

lemma plain_body_received:
  assumes "delivers_raw (se_read E) inc" and "0 < se_buff E" and "length body < 2 ^ 31"
    and "take j buffer = take j (body @ rest)" and "inc s = drop j (body @ rest)" and "j \<le> length (body @ rest)"
  shows "\<exists>s'. recv_plain_body E (int (length body)) buffer j s = (s', Some body) \<and> inc s' = drop (max j (length body) - length body) rest"
proof -
  have "\<exists>s'. recv_body (session_env.truncate E) (int (length body)) buffer j (HttpRequest_new 0x11 True) s = (s', Some ((HttpRequest_new 0x11 True)\<lparr>rq_body := body\<rparr>))
    \<and> inc s' = drop (max j (length body) - length body) rest"
    using assms by (intro body_received) (simp_all add: session_env.defs HttpRequest_new_def)
  then show ?thesis
    by (auto simp: recv_body_def recv_plain_body_def session_env.defs HttpRequest_new_def Let_def split: if_splits prod.splits)
qed

lemma initConnection_same:
  "rs_status (initConnection r) = rs_status r" "rs_version (initConnection r) = rs_version r" "rs_reason (initConnection r) = rs_reason r"
  "rs_body (initConnection r) = rs_body r" "rs_headers (initConnection r) = rs_headers r"
  by (simp_all add: initConnection_def Let_def)

text \<open>C7. A client receives the response that its peer printed: when the first \<open>read\<close> brings the whole head (any part of the body may come
  with it), \<open>recvResponse\<close> returns the response with the status, version, reason, body and header values that were
  printed, whatever the splitting of the rest of the body. The response has no \<open>Transfer-Encoding\<close> and no
  \<open>Content-Encoding\<close>, and its length is printed as it is.\<close>

theorem connection_receives_response:
  assumes "response_ok q" and "delivers_raw (se_read E) inc" and "0 < se_buff E" and "inc s = rsp_dump q @ rest"
    and "se_read E (length buffer - 1) s = (int k, take k (inc s), s1)" and "inc s1 = drop k (inc s)"
    and "length (response_head q) \<le> k" and "k < length buffer" and "k \<le> length (inc s)"
    and "length buffer < 2 ^ 63" and "length (rs_body q) < 2 ^ 31"
    and "\<forall>(n, v) \<in> set (response_fields q). \<not> names_te n" and "last_field q (str ''content-encoding'') = None"
    and "last_field q (str ''content-length'') = (if rs_body q = [] then None else Some (str (dec (length (rs_body q)))))"
    and "se_lexical_cast E (str (dec (length (rs_body q)))) = Some (of_nat (length (rs_body q)))"
  shows "\<exists>s' q'. HttpConnection_recvResponse E buffer garbage s = Some (Inr (s', Some q'))
    \<and> rs_status q' = rs_status q \<and> rs_version q' = rs_version q \<and> rs_reason q' = response_reason q \<and> rs_body q' = rs_body q
    \<and> (\<forall>n. map_find n (rs_headers q') = last_field q n) \<and> inc s' = drop (k - length (rsp_dump q)) rest"
proof -
  let ?H = "length (response_head q)" and ?d = "parsed_response q"
  define j where "j = k - ?H"
  let ?cs = "take j (rs_body q @ rest)"
  have dump: "rsp_dump q = response_head q @ rs_body q" using assms(1) by (intro rsp_dump_head) (simp_all add: response_ok_def)
  then have inc: "inc s = response_head q @ rs_body q @ rest" using assms(4) by simp
  have j: "j \<le> length (rs_body q @ rest)" "length ?cs = j" using assms(9) by (auto simp: j_def inc)
  have bs: "take k (inc s) = response_head q @ ?cs" "length (take k (inc s)) = k" using assms(7,9) by (simp_all add: inc j_def)
  obtain sp buf where sp: "recv_response_head E (length buffer - 1) buffer 0 (HttpResponseParser_new garbage) s = Some (Inr (s1, Some (sp, buf, j)))"
      "take j buf = ?cs" "sp_data sp = ?d" "\<not> cp_chunked (sp_parser sp)"
    using response_head_received [OF assms(1) bs(1), of E buffer s s1 garbage] assms(5,8,10,12) unfolding bs(2) j(2) by auto
  have len: "sint (HttpResponseParser_getContentLength (se_lexical_cast E) sp) = int (length (rs_body q))"
    using assms(11,14,15) by (simp add: HttpResponseParser_getContentLength_def sp(3) parsed_response_same signed_of_nat signed_take_bit_int_eq_self)
  have "inc s1 = drop j (rs_body q @ rest)" using assms(6,7) by (simp add: inc j_def)
  then obtain s' where body: "recv_plain_body E (int (length (rs_body q))) buf j s1 = (s', Some (rs_body q))"
      "inc s' = drop (max j (length (rs_body q)) - length (rs_body q)) rest"
    using plain_body_received [OF assms(2,3,11) sp(2) _ j(1)] by blast
  have dec: "decode_body E (rs_body q) ?d = ?d\<lparr>rs_body := rs_body q\<rparr>"
  proof (cases "rs_body q = []")
    case True
    have "?d\<lparr>rs_body := []\<rparr> = ?d" using parsed_response_same(4) [of q] by (cases ?d) simp
    then show ?thesis using True by (simp add: decode_body_def)
  next
    case False
    have "\<not> same_name [] (str ''gzip'')" "\<not> same_name [] (str ''deflate'')" by code_simp+
    then show ?thesis using False assms(13) by (simp add: decode_body_def rsp_getHeader_def parsed_response_same get_or_def)
  qed
  have "HttpConnection_recvResponse E buffer garbage s = Some (Inr (s', Some (initConnection (?d\<lparr>rs_body := rs_body q\<rparr>))))"
    by (simp add: HttpConnection_recvResponse_def sp(1) [unfolded One_nat_def] sp(3,4) len body(1) dec)
  moreover have "k - length (rsp_dump q) = max j (length (rs_body q)) - length (rs_body q)" by (simp add: dump j_def max_def)
  ultimately show ?thesis using body(2) by (auto simp: initConnection_same parsed_response_same)
qed

section \<open>Chunks\<close>

text \<open>The loop ends with a response only when the copy of the parser says that the chunks are done.\<close>

lemma recv_chunks_result:
  assumes "recv_chunks E n cp body buffer len parser s = Some y"
  shows "y = Inr (s', Some r) \<longrightarrow> cp_chunks_done cp"
proof -
  have "\<forall>s' r. y = Inr (s', Some r) \<longrightarrow> cp_chunks_done cp"
    by (rule recv_chunks.raw_induct [where P = "\<lambda>E n cp body buffer len parser s y. \<forall>s' r. y = Inr (s', Some r) \<longrightarrow> cp_chunks_done cp", OF _ assms])
      (auto split: option.splits sum.splits prod.splits if_splits)
  then show ?thesis by blast
qed

text \<open>C40. No response in chunks is ever received: \<open>recvResponse\<close> looks at a copy of the parser that it took after the head, so that neither
  the length of a chunk nor the end of the chunks reaches it. After a head that announces chunks it throws, closes
  the connection or goes on for ever, whatever the peer sends.\<close>

theorem chunked_never_received:
  assumes "recv_response_head E (length buffer - 1) buffer 0 (HttpResponseParser_new garbage) s = Some (Inr (s1, Some (sp, buffer', offset)))"
    and "cp_chunked (sp_parser sp)" and "\<not> cp_chunks_done (sp_parser sp)"
  shows "HttpConnection_recvResponse E buffer garbage s \<noteq> Some (Inr (s', Some r))"
proof
  assume "HttpConnection_recvResponse E buffer garbage s = Some (Inr (s', Some r))"
  then obtain y where y: "recv_chunks E (length buffer - Suc 0) (sp_parser sp) [] buffer' offset sp s1 = Some y"
      "map_sum id (\<lambda>(s2, r). (s2, map_option (\<lambda>(p, body). initConnection (decode_body E body (sp_data p))) r)) y = Inr (s', Some r)"
    using assms(1,2) by (auto simp: HttpConnection_recvResponse_def Let_def)
  from y(2) obtain p b where "y = Inr (s', Some (p, b))" by (cases y) auto
  then show False using recv_chunks_result [OF y(1)] assms(3) by blast
qed

definition sample_conn :: "bytes conn_env" where
  "sample_conn = session_env.extend (sample_env\<lparr>se_read := read_upto 123\<rparr>) \<lparr>ce_inflate = \<lambda>gzip body. body\<rparr>"

definition chunked_text :: bytes where
  "chunked_text = str ''HTTP/1.1 200 OK'' @ CRLF @ str ''Transfer-Encoding: chunked'' @ CRLF @ CRLF @ str ''5'' @ CRLF @ str ''hello'' @ CRLF
     @ str ''0'' @ CRLF @ CRLF"

lemma chunked_head:
  "case HttpResponseParser_execute (chunked_text @ replicate 20 0) 62 False (HttpResponseParser_new no_client) of
     Inl e \<Rightarrow> False
   | Inr (n, b, sp) \<Rightarrow> n = 47 \<and> cp_chunked (sp_parser sp) \<and> \<not> cp_chunks_done (sp_parser sp) \<and> cp_cs (sp_parser sp) = 120 \<and> sp_error sp = 0"
  by code_simp

theorem chunked_never_received_witness:
  "(\<exists>s1 sp buffer' offset. recv_response_head sample_conn (length (replicate 82 (0 :: byte)) - 1) (replicate 82 0) 0 (HttpResponseParser_new no_client) chunked_text
      = Some (Inr (s1, Some (sp, buffer', offset))) \<and> cp_chunked (sp_parser sp))
   \<and> HttpConnection_recvResponse sample_conn (replicate 82 0) no_client chunked_text \<noteq> Some (Inr ([], Some (HttpResponse_new 0x11 True)))"
proof -
  have len: "length chunked_text = 62" by code_simp
  have rd: "se_read sample_conn 81 chunked_text = (62, chunked_text, [])" by (simp add: sample_conn_def session_env.defs sample_env_def read_upto_def len)
  have buf: "(blit 0 chunked_text (replicate 82 0))[62 := 0] = chunked_text @ replicate 20 0"
    by (simp add: blit_def len list_update_append drop_replicate numeral_eq_Suc)
  obtain b sp where x: "HttpResponseParser_execute (chunked_text @ replicate 20 0) 62 False (HttpResponseParser_new no_client) = Inr (47, b, sp)"
      "cp_chunked (sp_parser sp)" "\<not> cp_chunks_done (sp_parser sp)" "cp_cs (sp_parser sp) = 120" "sp_error sp = 0"
    using chunked_head by (auto split: sum.splits prod.splits)
  have h: "recv_response_head sample_conn (length (replicate 82 (0 :: byte)) - 1) (replicate 82 0) 0 (HttpResponseParser_new no_client) chunked_text
      = Some (Inr ([], Some (sp, b, 15)))"
    using x by (subst recv_response_head.simps) (simp add: rd buf [unfolded numeral_eq_Suc] buf HttpResponseParser_hasError_def HttpResponseParser_isFinished_def
        httpclient_parser_finish_def httpclient_parser_has_error_def httpclient_parser_is_finished_def)
  show ?thesis using h chunked_never_received [OF h x(2,3)] x(2) by blast
qed

theorem connection_receives_response_witness:
  "response_ok sample_response \<and> (\<exists>s' q'. HttpConnection_recvResponse sample_conn (replicate 4096 0) no_client (rsp_dump sample_response @ [1, 2])
    = Some (Inr (s', Some q')) \<and> rs_status q' = 200 \<and> rs_body q' = str ''hello'')"
proof -
  let ?input = "rsp_dump sample_response @ [1, 2]" and ?q = sample_response
  have len: "length (response_head ?q) = 121" "length (rsp_dump ?q) = 126" by code_simp+
  have body: "rs_body ?q = str ''hello''" "rs_status ?q = 200" by (simp_all add: sample_response_def HttpResponse_new_def)
  have env: "se_read sample_conn = read_upto 123" "se_buff sample_conn = 4096" "se_lexical_cast sample_conn = se_lexical_cast sample_env"
    by (simp_all add: sample_conn_def session_env.defs sample_env_def)
  have rd: "se_read sample_conn (length (replicate 4096 (0 :: byte)) - 1) ?input = (int 123, take 123 ?input, drop 123 ?input)"
    using len(2) by (simp add: env read_upto_def)
  have del: "delivers_raw (se_read sample_conn) (\<lambda>s. s)" "0 < se_buff sample_conn" using read_upto_delivers [of 123] by (simp_all add: env)
  have fields: "\<forall>(n, v) \<in> set (response_fields ?q). \<not> names_te n" "last_field ?q (str ''content-encoding'') = None"
      "last_field ?q (str ''content-length'') = (if rs_body ?q = [] then None else Some (str (dec (length (rs_body ?q)))))" by code_simp+
  have cast: "se_lexical_cast sample_conn (str (dec (length (rs_body ?q)))) = Some (of_nat (length (rs_body ?q)))"
    unfolding env by code_simp
  have fit: "123 < length (replicate 4096 (0 :: byte))" "123 \<le> length ?input" "length (replicate 4096 (0 :: byte)) < 2 ^ 63" "length (rs_body ?q) < 2 ^ 31"
    "length (response_head ?q) \<le> 123"
    using len by (simp_all add: body str_def)
  have "\<exists>s' q'. HttpConnection_recvResponse sample_conn (replicate 4096 0) no_client ?input = Some (Inr (s', Some q'))
      \<and> rs_status q' = rs_status ?q \<and> rs_version q' = rs_version ?q \<and> rs_reason q' = response_reason ?q \<and> rs_body q' = rs_body ?q
      \<and> (\<forall>n. map_find n (rs_headers q') = last_field ?q n) \<and> s' = drop (123 - length (rsp_dump ?q)) [1, 2]"
    by (rule connection_receives_response [OF sample_response_ok del refl rd refl fit(5) fit(1-4) fields cast])
  then show ?thesis using body sample_response_ok by auto
qed

end
