(* ===== verification/HttpPool.thy ===== *)
theory HttpPool
  imports Prelude
begin

text \<open>
  The connection pool of \<^verbatim>\<open>src/chat/http/http_connection.cc\<close>. A connection is known by a number; whether its socket is
  connected is asked of the operating system, so that \<open>alive\<close> is an argument, as is the time. The members of a pool
  are \<open>m_conns\<close>, which a lock protects, and \<open>m_total\<close>, an atomic counter that is read and changed outside of the lock; the other
  components of the state say which connections are elsewhere. The first section has the operations as the code has
  them, the second lets threads interleave their parts.
\<close>

section \<open>Operations\<close>

record pool_conn =
  pc_id :: nat
  pc_createTime :: "64 word"
  pc_request :: "64 word"

record pool_config =
  pl_maxSize :: "32 word"
  pl_maxAliveTime :: "32 word"
  pl_maxRequest :: "32 word"

text \<open>A new \<open>HttpConnection\<close>: \<open>m_createTime\<close> and \<open>m_request\<close> are zero, and nothing sets the former later.\<close>

definition new_conn :: "nat \<Rightarrow> pool_conn" where
  "new_conn i = \<lparr>pc_id = i, pc_createTime = 0, pc_request = 0\<rparr>"

text \<open>The test of the loop in \<open>getConnection\<close>.\<close>

definition conn_invalid :: "pool_config \<Rightarrow> 64 word \<Rightarrow> (nat \<Rightarrow> bool) \<Rightarrow> pool_conn \<Rightarrow> bool" where
  "conn_invalid cfg now_ms alive conn \<longleftrightarrow> pc_createTime conn + ucast (pl_maxAliveTime cfg) > now_ms \<or> \<not> alive (pc_id conn)"

text \<open>The loop of \<open>getConnection\<close>, under the lock: the connection found, the invalid ones, what stays in \<open>m_conns\<close>.\<close>

fun pop_valid :: "pool_config \<Rightarrow> 64 word \<Rightarrow> (nat \<Rightarrow> bool) \<Rightarrow> pool_conn list \<Rightarrow> pool_conn option \<times> pool_conn list \<times> pool_conn list" where
  "pop_valid cfg now_ms alive [] = (None, [], [])"
| "pop_valid cfg now_ms alive (conn # m_conns) =
     (if conn_invalid cfg now_ms alive conn
      then let (ptr, invalid_conns, rest) = pop_valid cfg now_ms alive m_conns in (ptr, conn # invalid_conns, rest)
      else (Some conn, [], m_conns))"

text \<open>The condition of \<open>ReleasePtr\<close>, after \<open>++ptr->m_request\<close>.\<close>

definition used_once_more :: "pool_conn \<Rightarrow> pool_conn" where
  "used_once_more ptr = ptr\<lparr>pc_request := pc_request ptr + 1\<rparr>"

definition release_rejects :: "pool_config \<Rightarrow> 64 word \<Rightarrow> (nat \<Rightarrow> bool) \<Rightarrow> int \<Rightarrow> pool_conn \<Rightarrow> bool" where
  "release_rejects cfg now_ms alive m_total ptr \<longleftrightarrow>
     m_total \<ge> sint (pl_maxSize cfg) \<or> \<not> alive (pc_id ptr) \<or> pc_request ptr \<ge> ucast (pl_maxRequest cfg)
   \<or> pc_createTime ptr + ucast (pl_maxAliveTime cfg) \<ge> now_ms"

record HttpConnectionPool =
  m_conns :: "pool_conn list"
  m_total :: int

text \<open>\<open>created\<close> is the connection that a successful lookup, socket and \<open>connect\<close> give when one is needed.\<close>

definition getConnection ::
    "pool_config \<Rightarrow> 64 word \<Rightarrow> (nat \<Rightarrow> bool) \<Rightarrow> pool_conn option \<Rightarrow> HttpConnectionPool \<Rightarrow> pool_conn option \<times> HttpConnectionPool" where
  "getConnection cfg now_ms alive created pool =
     (case pop_valid cfg now_ms alive (m_conns pool) of (ptr, invalid_conns, rest) \<Rightarrow>
        let pool1 = pool\<lparr>m_conns := rest, m_total := m_total pool - int (length invalid_conns)\<rparr> in
        case ptr of
          Some conn \<Rightarrow> (Some conn, pool1)
        | None \<Rightarrow>
            (case created of
               None \<Rightarrow> (None, pool1)
             | Some conn \<Rightarrow> (Some conn, pool1\<lparr>m_total := m_total pool1 + 1\<rparr>)))"

definition ReleasePtr :: "pool_config \<Rightarrow> 64 word \<Rightarrow> (nat \<Rightarrow> bool) \<Rightarrow> pool_conn \<Rightarrow> HttpConnectionPool \<Rightarrow> HttpConnectionPool" where
  "ReleasePtr cfg now_ms alive ptr pool =
     (let ptr' = used_once_more ptr in
      if release_rejects cfg now_ms alive (m_total pool) ptr' then pool\<lparr>m_total := m_total pool - 1\<rparr>
      else pool\<lparr>m_conns := m_conns pool @ [ptr']\<rparr>)"

section \<open>Threads\<close>

text \<open>
  Besides the pool: the connections that were made and are not counted yet, those that callers have, those that passed
  the test of \<open>ReleasePtr\<close> and are not back in the list yet, and the number of deleted ones that are still counted.
\<close>

record pool_state = HttpConnectionPool +
  ps_fresh :: "pool_conn list"
  ps_used :: "pool_conn list"
  ps_passed :: "pool_conn list"
  ps_deleted :: nat

definition pool_init :: pool_state where
  "pool_init = \<lparr>m_conns = [], m_total = 0, ps_fresh = [], ps_used = [], ps_passed = [], ps_deleted = 0\<rparr>"

definition all_conns :: "pool_state \<Rightarrow> pool_conn list" where
  "all_conns s = m_conns s @ ps_fresh s @ ps_used s @ ps_passed s"

inductive pool_step :: "pool_config \<Rightarrow> pool_state \<Rightarrow> pool_state \<Rightarrow> bool" for cfg where
  take: "pop_valid cfg now alive (m_conns s) = (ptr, bad, rest) \<Longrightarrow>
     pool_step cfg s (s\<lparr>m_conns := rest, ps_used := (case ptr of None \<Rightarrow> ps_used s | Some conn \<Rightarrow> conn # ps_used s),
       ps_deleted := ps_deleted s + length bad\<rparr>)"
| subtract: "n \<le> ps_deleted s \<Longrightarrow> pool_step cfg s (s\<lparr>m_total := m_total s - int n, ps_deleted := ps_deleted s - n\<rparr>)"
| create: "i \<notin> pc_id ` set (all_conns s) \<Longrightarrow> pool_step cfg s (s\<lparr>ps_fresh := new_conn i # ps_fresh s\<rparr>)"
| count: "ps_fresh s = before @ conn # after \<Longrightarrow>
     pool_step cfg s (s\<lparr>m_total := m_total s + 1, ps_fresh := before @ after, ps_used := conn # ps_used s\<rparr>)"
| reject: "ps_used s = before @ conn # after \<Longrightarrow> release_rejects cfg now alive (m_total s) (used_once_more conn) \<Longrightarrow>
     pool_step cfg s (s\<lparr>ps_used := before @ after, ps_deleted := ps_deleted s + 1\<rparr>)"
| pass: "ps_used s = before @ conn # after \<Longrightarrow> \<not> release_rejects cfg now alive (m_total s) (used_once_more conn) \<Longrightarrow>
     pool_step cfg s (s\<lparr>ps_used := before @ after, ps_passed := used_once_more conn # ps_passed s\<rparr>)"
| give_back: "ps_passed s = before @ conn # after \<Longrightarrow>
     pool_step cfg s (s\<lparr>m_conns := m_conns s @ [conn], ps_passed := before @ after\<rparr>)"

definition pool_ok :: "pool_config \<Rightarrow> pool_state \<Rightarrow> bool" where
  "pool_ok cfg s \<longleftrightarrow>
     m_total s = int (length (m_conns s) + length (ps_used s) + length (ps_passed s) + ps_deleted s)
   \<and> distinct (map pc_id (all_conns s))
   \<and> length (m_conns s) + length (ps_passed s) \<le> nat (sint (pl_maxSize cfg)) - 1"

lemma pop_valid_split:
  "pop_valid cfg now alive cs = (ptr, bad, rest) \<Longrightarrow> cs = bad @ (case ptr of None \<Rightarrow> [] | Some conn \<Rightarrow> [conn]) @ rest"
  by (induction cs arbitrary: ptr bad rest) (auto split: prod.splits if_splits)

lemma pool_step_ok: "pool_step cfg s s' \<Longrightarrow> pool_ok cfg s \<Longrightarrow> pool_ok cfg s'"
proof (induction rule: pool_step.induct)
  case (take now alive s ptr bad rest)
  then show ?case
    using pop_valid_split [OF take(1)] by (auto simp: pool_ok_def all_conns_def split: option.splits)
next
  case (subtract n s)
  then show ?case by (auto simp: pool_ok_def all_conns_def)
next
  case (create i s)
  then show ?case by (auto simp: pool_ok_def all_conns_def new_conn_def)
next
  case (count s before conn after)
  then show ?case by (auto simp: pool_ok_def all_conns_def)
next
  case (reject s before conn after now alive)
  then show ?case by (auto simp: pool_ok_def all_conns_def)
next
  case (pass s before conn after now alive)
  then show ?case by (auto simp: pool_ok_def all_conns_def used_once_more_def release_rejects_def)
next
  case (give_back s before conn after)
  then show ?case by (auto simp: pool_ok_def all_conns_def)
qed

lemma pool_init_ok: "pool_ok cfg pool_init"
  by (simp add: pool_ok_def pool_init_def all_conns_def)

text \<open>The operations are runs of these steps.\<close>

lemma ReleasePtr_steps:
  assumes "ps_used s = before @ ptr # after"
  shows "\<exists>s'. (pool_step cfg)\<^sup>*\<^sup>* s s' \<and> HttpConnectionPool.truncate s' = ReleasePtr cfg now alive ptr (HttpConnectionPool.truncate s)"
proof (cases "release_rejects cfg now alive (m_total s) (used_once_more ptr)")
  case True
  let ?s = "s\<lparr>ps_used := before @ after, ps_deleted := ps_deleted s + 1\<rparr>"
  have "pool_step cfg s ?s" using assms True by (rule reject)
  moreover have "pool_step cfg ?s (?s\<lparr>m_total := m_total ?s - int 1, ps_deleted := ps_deleted ?s - 1\<rparr>)" by (rule subtract) simp
  ultimately show ?thesis
    using True by - (rule exI, rule conjI, rule converse_rtranclp_into_rtranclp, assumption, rule r_into_rtranclp, assumption,
      simp add: ReleasePtr_def HttpConnectionPool.defs)
next
  case False
  let ?s = "s\<lparr>ps_used := before @ after, ps_passed := used_once_more ptr # ps_passed s\<rparr>"
  have "pool_step cfg s ?s" using assms False by (rule pass)
  moreover have "pool_step cfg ?s (?s\<lparr>m_conns := m_conns ?s @ [used_once_more ptr], ps_passed := [] @ ps_passed s\<rparr>)" by (rule give_back) simp
  ultimately show ?thesis
    using False by - (rule exI, rule conjI, rule converse_rtranclp_into_rtranclp, assumption, rule r_into_rtranclp, assumption,
      simp add: ReleasePtr_def HttpConnectionPool.defs)
qed

lemma getConnection_steps:
  assumes "getConnection cfg now alive created (HttpConnectionPool.truncate s) = (r, pool')"
    and "created = None \<or> created = Some (new_conn i) \<and> i \<notin> pc_id ` set (all_conns s)"
  shows "\<exists>s'. (pool_step cfg)\<^sup>*\<^sup>* s s' \<and> HttpConnectionPool.truncate s' = pool' \<and> (\<forall>conn. r = Some conn \<longrightarrow> conn \<in> set (ps_used s'))"
proof -
  obtain ptr bad rest where pop: "pop_valid cfg now alive (m_conns s) = (ptr, bad, rest)" by (cases "pop_valid cfg now alive (m_conns s)")
  let ?s1 = "s\<lparr>m_conns := rest, ps_used := (case ptr of None \<Rightarrow> ps_used s | Some conn \<Rightarrow> conn # ps_used s), ps_deleted := ps_deleted s + length bad\<rparr>"
  let ?s2 = "?s1\<lparr>m_total := m_total ?s1 - int (length bad), ps_deleted := ps_deleted ?s1 - length bad\<rparr>"
  have "pool_step cfg s ?s1" using pop by (rule take)
  moreover have "pool_step cfg ?s1 ?s2" by (rule subtract) simp
  ultimately have two: "(pool_step cfg)\<^sup>*\<^sup>* s ?s2" by auto
  show ?thesis
  proof (cases "ptr = None \<and> created \<noteq> None")
    case False
    then show ?thesis
      using two assms(1) pop by - (rule exI [of _ ?s2], auto simp: getConnection_def HttpConnectionPool.defs split: option.splits)
  next
    case True
    then have i: "created = Some (new_conn i)" "i \<notin> pc_id ` set (all_conns ?s2)"
      using assms(2) pop_valid_split [OF pop] by (auto simp: all_conns_def)
    let ?s3 = "?s2\<lparr>ps_fresh := new_conn i # ps_fresh ?s2\<rparr>"
    let ?s4 = "?s3\<lparr>m_total := m_total ?s3 + 1, ps_fresh := [] @ ps_fresh ?s2, ps_used := new_conn i # ps_used ?s3\<rparr>"
    have "pool_step cfg ?s2 ?s3" using i(2) by (rule create)
    moreover have "pool_step cfg ?s3 ?s4" by (rule count) simp
    ultimately have "(pool_step cfg)\<^sup>*\<^sup>* s ?s4" using two by (meson rtranclp.rtrancl_into_rtrancl)
    then show ?thesis
      using True assms(1) pop i(1) by - (rule exI [of _ ?s4], auto simp: getConnection_def HttpConnectionPool.defs)
  qed
qed

text \<open>
  The test of the age has the wrong direction, and \<open>m_createTime\<close> is never set. With the real time in milliseconds, which is greater
  than every \<open>uint32_t\<close>, the test never fires, so that no connection is ever too old.
\<close>

lemma never_too_old: "2 ^ 32 \<le> now \<Longrightarrow> conn_invalid cfg now alive (conn\<lparr>pc_createTime := 0\<rparr>) \<longleftrightarrow> \<not> alive (pc_id conn)"
proof -
  assume now: "2 ^ 32 \<le> now"
  have "uint (ucast (pl_maxAliveTime cfg) :: 64 word) < 2 ^ 32"
    using uint_lt2p [of "pl_maxAliveTime cfg"] by (simp add: unsigned_ucast_eq take_bit_int_eq_self)
  moreover have "uint (2 ^ 32 :: 64 word) \<le> uint now" using now by (simp add: word_le_def)
  ultimately show ?thesis by (auto simp: conn_invalid_def word_less_def)
qed

text \<open>C9. However the threads interleave, a pool's \<open>m_total\<close> is the number of connections that are in its list, with a caller, on their way
  back, or deleted and not yet subtracted; no connection is in two of these places, so that no two callers share
  one; and the list is shorter than \<open>m_maxSize\<close>: a pool of size one never keeps a connection.\<close>

theorem pool_counts_connections:
  assumes "(pool_step cfg)\<^sup>*\<^sup>* pool_init s"
  shows "m_total s = int (length (m_conns s) + length (ps_used s) + length (ps_passed s) + ps_deleted s)
    \<and> distinct (map pc_id (all_conns s)) \<and> length (m_conns s) \<le> nat (sint (pl_maxSize cfg)) - 1"
proof -
  have "pool_ok cfg s"
    using assms by (induction rule: rtranclp_induct) (auto intro: pool_init_ok pool_step_ok)
  then show ?thesis by (simp add: pool_ok_def)
qed

theorem pool_counts_connections_witness:
  "\<exists>s. (pool_step \<lparr>pl_maxSize = 2, pl_maxAliveTime = 1000, pl_maxRequest = 5\<rparr>)\<^sup>*\<^sup>* pool_init s \<and> length (m_conns s) = 1 \<and> m_total s = 1"
proof -
  let ?cfg = "\<lparr>pl_maxSize = 2, pl_maxAliveTime = 1000, pl_maxRequest = 5\<rparr> :: pool_config"
  let ?s1 = "pool_init\<lparr>ps_fresh := new_conn 7 # ps_fresh pool_init\<rparr>"
  let ?s2 = "?s1\<lparr>m_total := m_total ?s1 + 1, ps_fresh := [] @ [], ps_used := new_conn 7 # ps_used ?s1\<rparr>"
  let ?s3 = "?s2\<lparr>ps_used := [] @ [], ps_passed := used_once_more (new_conn 7) # ps_passed ?s2\<rparr>"
  let ?s4 = "?s3\<lparr>m_conns := m_conns ?s3 @ [used_once_more (new_conn 7)], ps_passed := [] @ []\<rparr>"
  have "pool_step ?cfg pool_init ?s1" by (rule create) (simp add: pool_init_def all_conns_def)
  moreover have "pool_step ?cfg ?s1 ?s2" by (rule count) (simp add: pool_init_def)
  moreover have "pool_step ?cfg ?s2 ?s3"
    by (rule pass [where now = 2000 and alive = "\<lambda>_. True"]) (simp_all add: pool_init_def release_rejects_def used_once_more_def new_conn_def word_le_nat_alt)
  moreover have "pool_step ?cfg ?s3 ?s4" by (rule give_back) (simp add: pool_init_def)
  ultimately have "(pool_step ?cfg)\<^sup>*\<^sup>* pool_init ?s4" by (meson converse_rtranclp_into_rtranclp rtranclp.rtrancl_refl)
  from this pool_counts_connections [OF this] show ?thesis
    by - (rule exI [of _ ?s4], simp add: pool_init_def)
qed

end
