(* ===== verification/Spec2Isabelle.thy ===== *)
theory Spec2Isabelle
  imports ServiceBalance Http2Registry WebSocket Servlets FiberSync IOEvents HttpConnection HttpPool
begin

text \<open>
  A verification library for the C++ server framework under \<^verbatim>\<open>src/chat\<close>: buffers, codecs, HTTP/1 and
  HTTP/2 messages, WebSocket, timers, fibers, load balancing and service discovery.

  \<^bold>\<open>The program.\<close> A server is a set of threads that run fibers (\<^verbatim>\<open>scheduler.cc\<close>, \<^verbatim>\<open>fiber.cc\<close>), woken by
  timers (\<^verbatim>\<open>timer.cc\<close>) and by semaphores and queues (\<^verbatim>\<open>mutex.cc\<close>, \<^verbatim>\<open>blocking_queue.h\<close>). A connection is a
  stream (\<^verbatim>\<open>stream.cc\<close>) over a socket (\<^verbatim>\<open>socket_stream.cc\<close>) that reads and writes a chained byte buffer
  (\<^verbatim>\<open>bytearray.cc\<close>). Above it, HTTP/1 and WebSocket sessions exchange requests and responses (\<^verbatim>\<open>http.cc\<close>,
  \<^verbatim>\<open>ws_session.cc\<close>) that servlets answer (\<^verbatim>\<open>servlet.cc\<close>), and HTTP/2 connections exchange frames
  (\<^verbatim>\<open>frame.cc\<close>) whose headers HPACK compresses (\<^verbatim>\<open>hpack.cc\<close>, \<^verbatim>\<open>dynamic_table.cc\<close>, \<^verbatim>\<open>huffman.cc\<close>). Clients
  choose a connection with a load balancer (\<^verbatim>\<open>load_balance.cc\<close>) that follows the service registry
  (\<^verbatim>\<open>service_discovery.cc\<close>).

  \<^bold>\<open>How code is modelled.\<close> A class is a record; a method is a function on it that returns the new record.
  Code that can throw, trap or run into undefined behaviour returns \<open>error + 'a\<close> (\<open>Prelude.rt\<close>), one
  constructor of \<open>error\<close> per kind of failure. Code that passes one buffer through many calls is written in
  the state monad of \<open>ByteCodec\<close>. Objects that the code shares through pointers live in a store and are
  passed by address: the nodes of a buffer, the timers, the streams and request contexts of an HTTP/2
  connection. Integers keep their width (\<open>w word\<close>) where the code can make them wrap; sizes of memory blocks
  are \<open>nat\<close>. A C++ string is a list of bytes or of characters, as the code uses it. System calls, the worker
  threads' handlers and third-party functions are parameters: \<open>recvmsg\<close> and \<open>sendmsg\<close> in \<open>SocketStream\<close>,
  \<open>fnmatch\<close> in \<open>Servlets\<close>, the mask and the SHA-1 function in \<open>WebSocket\<close>.

  \<^bold>\<open>Theories.\<close>
  \<^item> \<open>Prelude\<close>: errors, machine types, list and word lemmas shared by all.
  \<^item> \<open>ByteArray\<close>, \<open>ByteArrayViews\<close>, \<open>ByteCodec\<close>: \<^verbatim>\<open>bytearray.cc\<close>. \<open>ba_abs\<close> maps a buffer to a list of bytes
    with a cursor; \<open>write\<close>, \<open>read\<close> and \<open>setPosition\<close> refine the operations on that list. The views are the
    \<open>iovec\<close> lists of the sockets; the destructor frees every node once. The typed accessors are shown to be
    round trips through the locales \<open>byte_buffer\<close> (what a codec needs of a buffer) and \<open>byte_codec\<close> (what a pair
    of writer and reader promises), with one interpretation per accessor.
  \<^item> \<open>Streams\<close>, \<open>SocketStream\<close>: \<^verbatim>\<open>stream.cc\<close> and the data path of \<^verbatim>\<open>socket_stream.cc\<close> and \<^verbatim>\<open>socket.cc\<close>. The
    locales \<open>byte_stream\<close> and \<open>raw_stream\<close> say what \<open>readFixSize\<close> and \<open>writeFixSize\<close> rely on; \<open>kernel_socket\<close>
    says what \<open>recvmsg\<close> and \<open>sendmsg\<close> promise and gives both by \<open>sublocale\<close>.
  \<^item> \<open>DynamicTable\<close>, \<open>Huffman\<close>, \<open>HPack\<close>: header compression. The table evicts the oldest entries and is
    searched as the specification says (locale \<open>header_table\<close>); the Huffman decoder inverts the encoder;
    packing and parsing a header list gives it back and leaves both tables equal, for field lengths the
    integer code handles; longer ones are a proved defect.
  \<^item> \<open>Frame\<close>: every frame struct with its writer and reader, and the codec over a socket.
  \<^item> \<open>OrderedSet\<close>, \<open>OrderedMap\<close>: \<open>std::set\<close> and \<open>std::map\<close> with a comparator of the program (locales
    \<open>comparator\<close> and \<open>key_order\<close>, interpreted on \<open>Timer::Comparator\<close> and \<open>CaseInsensitiveLess\<close>).
  \<^item> \<open>Timers\<close>: \<^verbatim>\<open>timer.cc\<close>. What fires is what is due, once; cancelled timers do not fire; clock rollover.
  \<^item> \<open>LoadBalance\<close>, \<open>ServiceBalance\<close>: \<^verbatim>\<open>load_balance.cc\<close> and the registries of \<^verbatim>\<open>service_discovery.cc\<close>.
  \<^item> \<open>Util\<close>, \<open>Http\<close>: string helpers of \<^verbatim>\<open>util.cc\<close>, and the requests and responses of \<^verbatim>\<open>http.cc\<close>.
  \<^item> \<open>Http2Stream\<close>, \<open>Http2Socket\<close>: the streams and connections of HTTP/2 with their handlers, the two shakes,
    flow control, request contexts, sessions and clients. \<open>Http2Flow\<close> shows how bodies are cut into frames and
    what is credited back. \<open>Http2Steps\<close> is the step relation of a connection with the locale
    \<open>connection_invariant\<close>, through which \<open>Http2Requests\<close> (every request is answered at most once, and by
    closing at the latest) and \<open>Http2Registry\<close> (streams are found under their own identifier) prove their
    invariants.
  \<^item> \<open>WebSocket\<close>: \<^verbatim>\<open>ws_session.cc\<close>; a message that is sent, fragmented and masked, is received.
  \<^item> \<open>Servlets\<close>: \<^verbatim>\<open>servlet.cc\<close>; the dispatch equals a specification over the history of registrations.
  \<^item> \<open>Scheduler\<close>, \<open>FiberSync\<close>: the queue and run loop of \<^verbatim>\<open>scheduler.cc\<close> with fiber states, as a step relation
    over any number of threads, and the semaphores and queues fibers wait on.

  \<^bold>\<open>Bounds and termination.\<close> Every loop of the model is total except the receiving loop of a WebSocket
  session, which may wait for frames for ever: it is a \<open>partial_function (option)\<close>, and the round trip states
  that it returns. The lengths that appear as hypotheses (\<open>2 ^ 31\<close> for fixed-size transfers, \<open>2 ^ 24\<close> for
  frames, \<open>2 ^ 16\<close> and more for prefixed strings) are those of the C++ types that carry them.

  \<^bold>\<open>Not modelled.\<close> The parsers that Ragel generates (\<^verbatim>\<open>uri.cc\<close>, \<^verbatim>\<open>http11_parser.cc\<close>, \<^verbatim>\<open>httpclient_parser.cc\<close>)
  are tables and jumps without the source grammar's structure. Context switching, \<open>epoll\<close>, the hooks of
  system calls, sockets' options and thread wrappers are assembly or system calls. SSL, zlib, Kafka,
  ZooKeeper, protobuf, yaml and boost are called and not part of the program. Logging and the command line
  produce text only.
\<close>

end
